(* ===== verification/Prelude.thy ===== *)
theory Prelude
  imports Main "HOL-Library.Char_ord" "HOL-Library.List_Lexorder"
begin

text \<open>
  What every component shares: the text primitives of the source (Python's
  \<open>str.strip\<close>, the "non-empty text" and "canonical SHA-256" checks, decimal and
  zero-padded numbers), sequencing of fallible steps, and lemmas on lists and
  association lists.

  Text is a list of characters, a character being a Unicode code point below 256.
  Python's code-point order on strings is the lexicographic order on lists.
\<close>

named_theorems text_simps \<open>evaluation of the text primitives\<close>

subsection \<open>Text\<close>

definition code_point :: "char \<Rightarrow> nat" where
  "code_point c = of_char c"

definition py_isspace :: "char \<Rightarrow> bool" where
  "py_isspace c \<longleftrightarrow>
     (let n = code_point c in (9 \<le> n \<and> n \<le> 13) \<or> (28 \<le> n \<and> n \<le> 32) \<or> n = 133 \<or> n = 160)"

definition py_strip :: "string \<Rightarrow> string" where
  "py_strip s = rev (dropWhile py_isspace (rev (dropWhile py_isspace s)))"

text \<open>\<open>not value.strip()\<close>\<close>

definition blank :: "string \<Rightarrow> bool" where
  "blank s \<longleftrightarrow> py_strip s = []"

definition hex_digits :: string where
  "hex_digits = ''0123456789abcdef''"

definition is_sha256 :: "string \<Rightarrow> bool" where
  "is_sha256 s \<longleftrightarrow> length s = 64 \<and> list_all (\<lambda>c. c \<in> set hex_digits) s"

lemma dropWhile_rev_Nil:
  "dropWhile P (rev (dropWhile P xs)) = [] \<longleftrightarrow> dropWhile P xs = []"
proof
  assume "dropWhile P (rev (dropWhile P xs)) = []"
  then have "\<forall>x \<in> set (dropWhile P xs). P x" by simp
  then show "dropWhile P xs = []" by (metis hd_dropWhile hd_in_set)
qed (auto dest: set_dropWhileD)

lemma blank_iff: "blank s \<longleftrightarrow> list_all py_isspace s"
  unfolding blank_def py_strip_def rev_is_Nil_conv dropWhile_rev_Nil
  by (auto simp: list_all_iff dropWhile_eq_Nil_conv)

lemma hex_not_space: "c \<in> set hex_digits \<Longrightarrow> \<not> py_isspace c"
  by (auto simp: hex_digits_def py_isspace_def code_point_def)

lemma sha256_not_blank: "is_sha256 s \<Longrightarrow> \<not> blank s"
  by (cases s) (auto simp: is_sha256_def blank_iff dest: hex_not_space)

subsection \<open>Decimal numbers\<close>

definition digit_char :: "nat \<Rightarrow> char" where
  "digit_char d = char_of (48 + d)"

fun nat_text :: "nat \<Rightarrow> string" where
  "nat_text n = (if n < 10 then [digit_char n] else nat_text (n div 10) @ [digit_char (n mod 10)])"

declare nat_text.simps [simp del]

definition int_text :: "int \<Rightarrow> string" where
  "int_text i = (if i < 0 then ''-'' @ nat_text (nat (- i)) else nat_text (nat i))"

text \<open>\<open>f"{n:0wd}"\<close>: at least \<open>w\<close> digits, padded with zeros on the left.\<close>

definition pad_text :: "nat \<Rightarrow> nat \<Rightarrow> string" where
  "pad_text w n = replicate (w - length (nat_text n)) (CHR ''0'') @ nat_text n"

definition is_digit :: "char \<Rightarrow> bool" where
  "is_digit c \<longleftrightarrow> 48 \<le> code_point c \<and> code_point c \<le> 57"

definition digit_value :: "char \<Rightarrow> nat" where
  "digit_value c = code_point c - 48"

fun digits_value :: "nat \<Rightarrow> string \<Rightarrow> nat" where
  "digits_value a [] = a"
| "digits_value a (c # cs) = digits_value (10 * a + digit_value c) cs"

lemma digit_char_digit: "d < 10 \<Longrightarrow> is_digit (digit_char d)"
  by (simp add: is_digit_def digit_char_def code_point_def)

lemma digit_char_value: "d < 10 \<Longrightarrow> digit_value (digit_char d) = d"
  by (simp add: digit_value_def digit_char_def code_point_def)

lemma digit_char_inject: "a < 10 \<Longrightarrow> b < 10 \<Longrightarrow> digit_char a = digit_char b \<longleftrightarrow> a = b"
  by (metis digit_char_value)

lemma nat_text_nonempty: "nat_text n \<noteq> []"
  by (subst nat_text.simps) simp

lemma nat_text_digits: "list_all is_digit (nat_text n)"
proof (induction n rule: nat_text.induct)
  case (1 n)
  show ?case
    by (cases "n < 10") (use 1 in \<open>simp_all add: nat_text.simps [of n] digit_char_digit\<close>)
qed

lemma digits_value_append: "digits_value a (xs @ ys) = digits_value (digits_value a xs) ys"
  by (induction xs arbitrary: a) simp_all

lemma digits_value_nat_text: "digits_value 0 (nat_text n) = n"
proof (induction n rule: nat_text.induct)
  case (1 n)
  show ?case
  proof (cases "n < 10")
    case True
    then show ?thesis by (simp add: nat_text.simps [of n] digit_char_value)
  next
    case False
    with 1 have "digits_value 0 (nat_text (n div 10)) = n div 10" by simp
    with False show ?thesis
      by (simp add: nat_text.simps [of n] digits_value_append digit_char_value)
  qed
qed

lemma nat_text_inject: "nat_text m = nat_text n \<longleftrightarrow> m = n"
  by (metis digits_value_nat_text)

lemma nat_text_hd_zero: "hd (nat_text n) = CHR ''0'' \<longleftrightarrow> n = 0"
proof (induction n rule: nat_text.induct)
  case (1 n)
  show ?case
  proof (cases "n < 10")
    case True
    have "CHR ''0'' = digit_char 0" by code_simp
    with True show ?thesis by (simp add: nat_text.simps [of n] digit_char_inject)
  next
    case False
    with 1 have "hd (nat_text (n div 10)) = CHR ''0'' \<longleftrightarrow> n div 10 = 0" by simp
    with False show ?thesis
      by (simp add: nat_text.simps [of n] hd_append nat_text_nonempty)
  qed
qed

subsection \<open>Numbers of a fixed width sort as texts\<close>

lemma less_append_char:
  fixes xs ys :: string
  assumes "length xs = length ys"
  shows "xs @ [a] < ys @ [b] \<longleftrightarrow> xs < ys \<or> xs = ys \<and> a < b"
  using assms by (induction xs ys rule: list_induct2) auto

lemma less_append_same:
  fixes xs ys zs :: string
  assumes "length xs = length ys" "xs < ys"
  shows "xs @ zs < ys @ zs"
  using assms by (induction xs ys rule: list_induct2) auto

fun fixed_digits :: "nat \<Rightarrow> nat \<Rightarrow> string" where
  "fixed_digits 0 n = []"
| "fixed_digits (Suc w) n = fixed_digits w (n div 10) @ [digit_char (n mod 10)]"

lemma length_fixed_digits [simp]: "length (fixed_digits w n) = w"
  by (induction w arbitrary: n) simp_all

lemma fixed_digits_zero: "fixed_digits w 0 = replicate w (CHR ''0'')"
proof (induction w)
  case (Suc w)
  have "digit_char 0 = CHR ''0''" by code_simp
  with Suc show ?case by (simp add: replicate_append_same)
qed simp

lemma fixed_digits_pad: "n < 10 ^ w \<Longrightarrow> 0 < w \<Longrightarrow> fixed_digits w n = pad_text w n"
proof (induction w arbitrary: n)
  case (Suc w)
  show ?case
  proof (cases "n < 10")
    case True
    then show ?thesis
      by (simp add: pad_text_def nat_text.simps [of n] fixed_digits_zero)
  next
    case False
    then have "0 < w" using Suc.prems by (cases w) simp_all
    moreover have "n div 10 < 10 ^ w" using Suc.prems by (simp add: div_less_iff_less_mult)
    ultimately have "fixed_digits w (n div 10) = pad_text w (n div 10)" using Suc.IH by blast
    with False show ?thesis by (simp add: pad_text_def nat_text.simps [of n])
  qed
qed simp

lemma digit_char_less: "a < 10 \<Longrightarrow> b < 10 \<Longrightarrow> digit_char a < digit_char b \<longleftrightarrow> a < b"
  by (simp add: digit_char_def less_char_def)

lemma fixed_digits_less: "i < j \<Longrightarrow> j < 10 ^ w \<Longrightarrow> fixed_digits w i < fixed_digits w j"
proof (induction w arbitrary: i j)
  case (Suc w)
  have "j div 10 < 10 ^ w" using Suc.prems by (simp add: div_less_iff_less_mult)
  have "i div 10 \<le> j div 10" using Suc.prems(1) by (intro div_le_mono) simp
  moreover have "i mod 10 < j mod 10" if "i div 10 = j div 10"
    using that Suc.prems(1) div_mult_mod_eq [of i 10] div_mult_mod_eq [of j 10] by linarith
  ultimately consider "i div 10 < j div 10" | "i div 10 = j div 10" "i mod 10 < j mod 10"
    by fastforce
  then show ?case
    by cases (use Suc.IH \<open>j div 10 < 10 ^ w\<close> in \<open>simp_all add: less_append_char digit_char_less\<close>)
qed simp

lemma fixed_digits_digits [simp]: "list_all is_digit (fixed_digits w n)"
  by (induction w arbitrary: n) (simp_all add: digit_char_digit)

lemma pad_text_less: "i < j \<Longrightarrow> j < 10 ^ w \<Longrightarrow> pad_text w i @ s < pad_text w j @ s"
  by (cases "w = 0") (simp_all add: fixed_digits_pad [symmetric] less_append_same fixed_digits_less)

subsection \<open>Fallible steps\<close>

definition bind_result :: "'e + 'a \<Rightarrow> ('a \<Rightarrow> 'e + 'b) \<Rightarrow> 'e + 'b" where
  "bind_result r f = (case r of Inl e \<Rightarrow> Inl e | Inr x \<Rightarrow> f x)"

lemma bind_result_simps [simp]:
  "bind_result (Inl e) f = Inl e"
  "bind_result (Inr x) f = f x"
  by (simp_all add: bind_result_def)

lemma bind_result_Inr_iff:
  "bind_result r f = Inr y \<longleftrightarrow> (\<exists>x. r = Inr x \<and> f x = Inr y)"
  by (cases r) simp_all

subsection \<open>Lists and association lists\<close>

lemma sort_key_sorted_id: "sorted (map f xs) \<Longrightarrow> sort_key f xs = xs"
  by (rule sort_key_id_if_sorted)

lemma map_insort_key: "map f (insort_key f x xs) = insort (f x) (map f xs)"
  by (induction xs) auto

lemma map_sort_key: "map f (sort_key f xs) = sort (map f xs)"
  by (induction xs) (simp_all add: map_insort_key)

lemma map_of_sort_key_fst:
  assumes "distinct (map fst xs)"
  shows "map_of (sort_key fst xs) = map_of xs"
proof -
  have "distinct (map fst (sort_key fst xs))"
    using assms by (simp add: map_sort_key)
  moreover have "set (sort_key fst xs) = set xs" by simp
  ultimately show ?thesis using assms by (metis map_of_inject_set)
qed

text \<open>A dictionary assignment \<open>d[k] = v\<close>: the position of an existing key is kept.\<close>

fun dict_set :: "'k \<Rightarrow> 'v \<Rightarrow> ('k \<times> 'v) list \<Rightarrow> ('k \<times> 'v) list" where
  "dict_set k v [] = [(k, v)]"
| "dict_set k v ((k', v') # kvs) = (if k = k' then (k, v) # kvs else (k', v') # dict_set k v kvs)"

lemma map_of_dict_set: "map_of (dict_set k v kvs) = (map_of kvs)(k \<mapsto> v)"
  by (induction k v kvs rule: dict_set.induct) auto

lemma keys_dict_set: "set (map fst (dict_set k v kvs)) = insert k (set (map fst kvs))"
  by (induction k v kvs rule: dict_set.induct) auto

lemma distinct_dict_set: "distinct (map fst kvs) \<Longrightarrow> distinct (map fst (dict_set k v kvs))"
  by (induction k v kvs rule: dict_set.induct) (auto simp del: set_map simp: keys_dict_set)

lemma dict_set_new: "k \<notin> set (map fst kvs) \<Longrightarrow> dict_set k v kvs = kvs @ [(k, v)]"
  by (induction k v kvs rule: dict_set.induct) auto

end
