(* ===== verification/Sha256.thy ===== *)
theory Sha256
  imports Prelude "HOL-Library.Word"
begin

unbundle bit_operations_syntax

text \<open>
  \<open>hashlib.sha256(...).hexdigest()\<close> of the standard library, written out over
  32-bit words (FIPS 180-4), so that digests are concrete values of the model: message
  padding, the message schedule, the 64 rounds and the hexadecimal rendering.
  \<open>sha256_text\<close> is the digest of a text, encoded in UTF-8 first.
\<close>

type_synonym u32 = "32 word"

definition rotr :: "nat \<Rightarrow> u32 \<Rightarrow> u32" where
  "rotr n x = drop_bit n x OR push_bit (32 - n) x"

definition sha_k :: "u32 list" where
  "sha_k = [
     1116352408, 1899447441, 3049323471, 3921009573, 961987163, 1508970993, 2453635748, 2870763221,
     3624381080, 310598401, 607225278, 1426881987, 1925078388, 2162078206, 2614888103, 3248222580,
     3835390401, 4022224774, 264347078, 604807628, 770255983, 1249150122, 1555081692, 1996064986,
     2554220882, 2821834349, 2952996808, 3210313671, 3336571891, 3584528711, 113926993, 338241895,
     666307205, 773529912, 1294757372, 1396182291, 1695183700, 1986661051, 2177026350, 2456956037,
     2730485921, 2820302411, 3259730800, 3345764771, 3516065817, 3600352804, 4094571909, 275423344,
     430227734, 506948616, 659060556, 883997877, 958139571, 1322822218, 1537002063, 1747873779,
     1955562222, 2024104815, 2227730452, 2361852424, 2428436474, 2756734187, 3204031479, 3329325298]"

definition sha_init :: "u32 list" where
  "sha_init = [1779033703, 3144134277, 1013904242, 2773480762,
               1359893119, 2600822924, 528734635, 1541459225]"

text \<open>The UTF-8 bytes of a text whose code points are below 256.\<close>

fun utf8_bytes :: "string \<Rightarrow> nat list" where
  "utf8_bytes [] = []"
| "utf8_bytes (c # cs) =
     (let n = code_point c
      in if n < 128 then n # utf8_bytes cs else (192 + n div 64) # (128 + n mod 64) # utf8_bytes cs)"

fun big_endian :: "nat \<Rightarrow> nat \<Rightarrow> nat list" where
  "big_endian 0 n = []"
| "big_endian (Suc k) n = big_endian k (n div 256) @ [n mod 256]"

definition sha_pad :: "nat list \<Rightarrow> nat list" where
  "sha_pad bs =
     bs @ [128] @ replicate ((119 - length bs mod 64) mod 64) 0 @ big_endian 8 (8 * length bs)"

fun words_of_bytes :: "nat list \<Rightarrow> u32 list" where
  "words_of_bytes (a # b # c # d # bs) =
     (push_bit 24 (of_nat a) OR push_bit 16 (of_nat b) OR push_bit 8 (of_nat c) OR of_nat d)
       # words_of_bytes bs"
| "words_of_bytes _ = []"

definition schedule_next :: "u32 list \<Rightarrow> u32" where
  "schedule_next w =
     (let n = length w; x = w ! (n - 15); y = w ! (n - 2);
          s0 = rotr 7 x XOR rotr 18 x XOR drop_bit 3 x;
          s1 = rotr 17 y XOR rotr 19 y XOR drop_bit 10 y
      in w ! (n - 16) + s0 + w ! (n - 7) + s1)"

fun schedule :: "nat \<Rightarrow> u32 list \<Rightarrow> u32 list" where
  "schedule 0 w = w"
| "schedule (Suc k) w = schedule k (w @ [schedule_next w])"

fun sha_round :: "u32 list \<Rightarrow> u32 \<times> u32 \<Rightarrow> u32 list" where
  "sha_round [a, b, c, d, e, f, g, h] (k, w) =
     (let s1 = rotr 6 e XOR rotr 11 e XOR rotr 25 e;
          ch = (e AND f) XOR (NOT e AND g);
          t1 = h + s1 + ch + k + w;
          s0 = rotr 2 a XOR rotr 13 a XOR rotr 22 a;
          mj = (a AND b) XOR (a AND c) XOR (b AND c)
      in [t1 + (s0 + mj), a, b, c, d + t1, e, f, g])"
| "sha_round s _ = s"

definition sha_block :: "u32 list \<Rightarrow> u32 list \<Rightarrow> u32 list" where
  "sha_block st blk =
     map2 (+) st (foldl sha_round st (zip sha_k (schedule 48 blk)))"

function sha_blocks :: "u32 list \<Rightarrow> u32 list \<Rightarrow> u32 list" where
  "sha_blocks st ws =
     (if length ws < 16 then st else sha_blocks (sha_block st (take 16 ws)) (drop 16 ws))"
  by pat_completeness auto
termination by (relation "measure (\<lambda>(st, ws). length ws)") auto

declare sha_blocks.simps [simp del]

definition hex_char :: "nat \<Rightarrow> char" where
  "hex_char d = hex_digits ! d"

text \<open>The \<open>k\<close> lowest hexadecimal digits of a word, most significant first.\<close>

fun hex_text :: "nat \<Rightarrow> u32 \<Rightarrow> string" where
  "hex_text 0 x = []"
| "hex_text (Suc k) x = hex_text k (drop_bit 4 x) @ [hex_char (unat (x AND 15))]"

definition sha256_bytes :: "nat list \<Rightarrow> string" where
  "sha256_bytes bs =
     concat (map (\<lambda>w. hex_text 8 w) (sha_blocks sha_init (words_of_bytes (sha_pad bs))))"

definition sha256_text :: "string \<Rightarrow> string" where
  "sha256_text s = sha256_bytes (utf8_bytes s)"

subsection \<open>A digest is always 64 lowercase hexadecimal digits\<close>

lemma length_sha_round: "length (sha_round s kw) = length s"
  by (cases "(s, kw)" rule: sha_round.cases) (simp_all add: Let_def)

lemma length_foldl_sha_round: "length (foldl sha_round s kws) = length s"
  by (induction kws arbitrary: s) (simp_all add: length_sha_round)

lemma length_sha_blocks: "length (sha_blocks st ws) = length st"
proof (induction st ws rule: sha_blocks.induct)
  case (1 st ws)
  show ?case
    by (cases "length ws < 16")
      (use 1 in \<open>simp_all add: sha_blocks.simps [of st ws] sha_block_def length_foldl_sha_round\<close>)
qed

lemma length_hex_text: "length (hex_text k x) = k"
  by (induction k arbitrary: x) simp_all

lemma hex_text_hex: "list_all (\<lambda>c. c \<in> set hex_digits) (hex_text k x)"
proof (induction k arbitrary: x)
  case (Suc k)
  have "unat (x AND 15) \<le> unat (15 :: u32)"
    by (rule word_and_le1 [THEN word_le_nat_alt [THEN iffD1]])
  then have "hex_char (unat (x AND 15)) \<in> set hex_digits"
    unfolding hex_char_def by (intro nth_mem) (simp add: hex_digits_def)
  with Suc show ?case by simp
qed simp

lemma length_concat_hex: "length (concat (map (\<lambda>w. hex_text 8 w) ws)) = 8 * length ws"
  by (induction ws) (simp_all add: length_hex_text)

lemma sha256_bytes_is_sha256: "is_sha256 (sha256_bytes bs)"
proof -
  have "length (sha_blocks sha_init ws) = 8" for ws
    by (simp add: length_sha_blocks sha_init_def)
  moreover have "list_all (\<lambda>c. c \<in> set hex_digits) (hex_text 8 x)" for x
    by (rule hex_text_hex)
  ultimately show ?thesis
    by (simp add: is_sha256_def sha256_bytes_def length_concat_hex list_all_iff)
qed

lemma sha256_text_is_sha256 [simp]: "is_sha256 (sha256_text s)"
  by (simp add: sha256_text_def sha256_bytes_is_sha256)

lemma sha256_text_not_blank [simp]: "\<not> blank (sha256_text s)"
  by (simp add: sha256_not_blank)

end
