(* ===== verification/Canonical_Json.thy ===== *)
theory Canonical_Json
  imports Prelude Sha256
begin

text \<open>
  The platform's canonical JSON (\<open>foundation/kernel/kernel/canonical.py\<close>): the document
  type, \<open>json.dumps\<close> with sorted keys and minimal separators, the JSON reader with
  the strict hooks, the depth limits, and the digest of a document. The lemmas show that
  reading what was written gives the document back, hence that the canonical text
  determines the document.

  Not in the document type: floating-point numbers. Reading a text that contains one, or a
  \<open>\u\<close> escape above 255, yields \<open>Unmodelled_value\<close>. The recursion limit of the interpreter,
  some thousand levels, is not modelled: beyond it the strict reader answers SYNTAX where the
  model answers DOMAIN.
\<close>

datatype json =
    JNull
  | JBool bool
  | JInt int
  | JStr string
  | JArr "json list"
  | JObj "(string \<times> json) list"

text \<open>\<open>CanonicalDecodingFailureKind\<close>, and the two outcomes that exist in the model only.\<close>

datatype decode_fail =
    Duplicate_key | Non_finite | Syntax | Domain | Unmodelled_value | Out_of_fuel

datatype encode_fail = Depth_exceeded

subsection \<open>Writing\<close>

definition nibble_char :: "nat \<Rightarrow> char" where
  "nibble_char d = hex_digits ! d"

text \<open>\<open>json.dumps\<close> of one character; \<open>ea\<close> is \<open>ensure_ascii\<close>.\<close>

definition escape_char :: "bool \<Rightarrow> char \<Rightarrow> string" where
  "escape_char ea c =
     (let n = code_point c in
      if n = 34 then [CHR 0x5C, CHR 0x22]
      else if n = 92 then [CHR 0x5C, CHR 0x5C]
      else if n = 10 then [CHR 0x5C, CHR ''n'']
      else if n = 13 then [CHR 0x5C, CHR ''r'']
      else if n = 9 then [CHR 0x5C, CHR ''t'']
      else if n = 12 then [CHR 0x5C, CHR ''f'']
      else if n = 8 then [CHR 0x5C, CHR ''b'']
      else if n < 32 \<or> ea \<and> 126 < n
      then [CHR 0x5C, CHR ''u'', CHR ''0'', CHR ''0'', nibble_char (n div 16), nibble_char (n mod 16)]
      else [c])"

definition quote_text :: "bool \<Rightarrow> string \<Rightarrow> string" where
  "quote_text ea s = CHR 0x22 # concat (map (escape_char ea) s) @ [CHR 0x22]"

fun render :: "bool \<Rightarrow> json \<Rightarrow> string"
  and render_elems :: "bool \<Rightarrow> json list \<Rightarrow> string"
  and render_members :: "bool \<Rightarrow> (string \<times> json) list \<Rightarrow> string" where
  "render ea JNull = ''null''"
| "render ea (JBool b) = (if b then ''true'' else ''false'')"
| "render ea (JInt i) = int_text i"
| "render ea (JStr s) = quote_text ea s"
| "render ea (JArr xs) = CHR ''['' # render_elems ea xs @ '']''"
| "render ea (JObj kvs) = CHR ''{'' # render_members ea kvs @ ''}''"
| "render_elems ea [] = []"
| "render_elems ea [x] = render ea x"
| "render_elems ea (x # y # xs) = render ea x @ CHR '','' # render_elems ea (y # xs)"
| "render_members ea [] = []"
| "render_members ea [(k, v)] = quote_text ea k @ CHR '':'' # render ea v"
| "render_members ea ((k, v) # kv # kvs) =
     quote_text ea k @ CHR '':'' # render ea v @ CHR '','' # render_members ea (kv # kvs)"

text \<open>\<open>sort_keys=True\<close>\<close>

fun sort_keys :: "json \<Rightarrow> json" where
  "sort_keys (JArr xs) = JArr (map sort_keys xs)"
| "sort_keys (JObj kvs) = JObj (sort_key fst (map (\<lambda>(k, v). (k, sort_keys v)) kvs))"
| "sort_keys j = j"

text \<open>\<open>json.dumps\<close> with sorted keys and minimal separators, as \<open>canonical_bytes\<close> calls it.\<close>

definition dumps :: "bool \<Rightarrow> json \<Rightarrow> string" where
  "dumps ea j = render ea (sort_keys j)"

subsection \<open>Reading\<close>

definition json_ws :: "char \<Rightarrow> bool" where
  "json_ws c \<longleftrightarrow> c \<in> {CHR '' '', CHR 0x09, CHR 0x0A, CHR 0x0D}"

definition skip_ws :: "string \<Rightarrow> string" where
  "skip_ws = dropWhile json_ws"

definition hex_value :: "char \<Rightarrow> nat option" where
  "hex_value c =
     (let n = code_point c in
      if 48 \<le> n \<and> n \<le> 57 then Some (n - 48)
      else if 97 \<le> n \<and> n \<le> 102 then Some (n - 87)
      else if 65 \<le> n \<and> n \<le> 70 then Some (n - 55)
      else None)"

definition unhex4 :: "string \<Rightarrow> nat option" where
  "unhex4 s =
     (case map hex_value (take 4 s) of
        [Some a, Some b, Some c, Some d] \<Rightarrow> Some (((a * 16 + b) * 16 + c) * 16 + d)
      | _ \<Rightarrow> None)"

definition unescape :: "char \<Rightarrow> char option" where
  "unescape e =
     (if e = CHR 0x22 \<or> e = CHR 0x5C \<or> e = CHR ''/'' then Some e
      else if e = CHR ''b'' then Some (CHR 0x08)
      else if e = CHR ''f'' then Some (CHR 0x0C)
      else if e = CHR ''n'' then Some (CHR 0x0A)
      else if e = CHR ''r'' then Some (CHR 0x0D)
      else if e = CHR ''t'' then Some (CHR 0x09)
      else None)"

definition cons_char :: "char \<Rightarrow> 'e + string \<times> string \<Rightarrow> 'e + string \<times> string" where
  "cons_char c r = (case r of Inl e \<Rightarrow> Inl e | Inr (s, rest) \<Rightarrow> Inr (c # s, rest))"

function parse_string :: "string \<Rightarrow> decode_fail + string \<times> string" where
  "parse_string [] = Inl Syntax"
| "parse_string (c # cs) =
     (if c = CHR 0x22 then Inr ([], cs)
      else if c = CHR 0x5C then
        (case cs of
           [] \<Rightarrow> Inl Syntax
         | e # r \<Rightarrow>
             if e = CHR ''u'' then
               (case unhex4 r of
                  None \<Rightarrow> Inl Syntax
                | Some n \<Rightarrow> if n < 256 then cons_char (char_of n) (parse_string (drop 4 r))
                            else Inl Unmodelled_value)
             else (case unescape e of
                     None \<Rightarrow> Inl Syntax
                   | Some d \<Rightarrow> cons_char d (parse_string r)))
      else if code_point c < 32 then Inl Syntax
      else cons_char c (parse_string cs))"
  by pat_completeness auto
termination by (relation "measure length") auto

definition float_tail :: "string \<Rightarrow> bool" where
  "float_tail r \<longleftrightarrow>
     (case r of
        c # d # r' \<Rightarrow>
          (c = CHR ''.'' \<and> is_digit d)
          \<or> (c \<in> {CHR ''e'', CHR ''E''}
             \<and> (is_digit d \<or> (d \<in> {CHR ''+'', CHR ''-''} \<and> r' \<noteq> [] \<and> is_digit (hd r'))))
      | _ \<Rightarrow> False)"

text \<open>\<open>-?(0|[1-9][0-9]*)\<close>, then the fraction and exponent that make it a float.\<close>

definition parse_int :: "string \<Rightarrow> decode_fail + json \<times> string" where
  "parse_int s =
     (let neg = (s \<noteq> [] \<and> hd s = CHR ''-''); t = (if neg then tl s else s);
          all = takeWhile is_digit t;
          ds = (if all \<noteq> [] \<and> hd all = CHR ''0'' then ''0'' else all);
          r = drop (length ds) t; n = int (digits_value 0 ds)
      in if ds = [] then Inl Syntax
         else if float_tail r then Inl Unmodelled_value
         else Inr (JInt (if neg then - n else n), r))"

definition strip_prefix :: "string \<Rightarrow> string \<Rightarrow> string option" where
  "strip_prefix p s = (if take (length p) s = p then Some (drop (length p) s) else None)"

definition py_dict :: "(string \<times> json) list \<Rightarrow> (string \<times> json) list" where
  "py_dict kvs = foldl (\<lambda>d (k, v). dict_set k v d) [] kvs"

text \<open>\<open>object_pairs_hook\<close>: a plain dictionary, or \<open>_object_from_pairs\<close> in strict mode.\<close>

definition object_from_pairs :: "bool \<Rightarrow> (string \<times> json) list \<Rightarrow> decode_fail + json" where
  "object_from_pairs strict kvs =
     (if strict \<and> \<not> distinct (map fst kvs) then Inl Duplicate_key else Inr (JObj (py_dict kvs)))"

text \<open>\<open>parse_constant\<close>: \<open>NaN\<close> and the infinities, \<open>_reject_constant\<close> in strict mode.\<close>

definition reject_constant :: "bool \<Rightarrow> decode_fail + json \<times> string" where
  "reject_constant strict = Inl (if strict then Non_finite else Unmodelled_value)"

definition parse_word :: "bool \<Rightarrow> string \<Rightarrow> decode_fail + json \<times> string" where
  "parse_word strict s =
     (case strip_prefix ''null'' s of Some r \<Rightarrow> Inr (JNull, r) | None \<Rightarrow>
     (case strip_prefix ''true'' s of Some r \<Rightarrow> Inr (JBool True, r) | None \<Rightarrow>
     (case strip_prefix ''false'' s of Some r \<Rightarrow> Inr (JBool False, r) | None \<Rightarrow>
     (if strip_prefix ''NaN'' s \<noteq> None \<or> strip_prefix ''Infinity'' s \<noteq> None
          \<or> strip_prefix ''-Infinity'' s \<noteq> None
      then reject_constant strict
      else parse_int s))))"

fun parse_value :: "bool \<Rightarrow> nat \<Rightarrow> string \<Rightarrow> decode_fail + json \<times> string"
  and parse_elems :: "bool \<Rightarrow> nat \<Rightarrow> string \<Rightarrow> decode_fail + json list \<times> string"
  and parse_members ::
    "bool \<Rightarrow> nat \<Rightarrow> string \<Rightarrow> decode_fail + (string \<times> json) list \<times> string" where
  "parse_value strict 0 s = Inl Out_of_fuel"
| "parse_value strict (Suc n) s =
     (case s of
        [] \<Rightarrow> Inl Syntax
      | c # cs \<Rightarrow>
          if c = CHR 0x22 then
            (case parse_string cs of Inl e \<Rightarrow> Inl e | Inr (t, r) \<Rightarrow> Inr (JStr t, r))
          else if c = CHR ''['' then
            (let u = skip_ws cs in
             if u \<noteq> [] \<and> hd u = CHR '']'' then Inr (JArr [], tl u)
             else (case parse_elems strict n u of Inl e \<Rightarrow> Inl e | Inr (xs, r) \<Rightarrow> Inr (JArr xs, r)))
          else if c = CHR ''{'' then
            (let u = skip_ws cs in
             if u \<noteq> [] \<and> hd u = CHR ''}'' then Inr (JObj [], tl u)
             else (case parse_members strict n u of
                     Inl e \<Rightarrow> Inl e
                   | Inr (kvs, r) \<Rightarrow> bind_result (object_from_pairs strict kvs) (\<lambda>j. Inr (j, r))))
          else parse_word strict s)"
| "parse_elems strict 0 s = Inl Out_of_fuel"
| "parse_elems strict (Suc n) s =
     (case parse_value strict n s of
        Inl e \<Rightarrow> Inl e
      | Inr (x, r) \<Rightarrow>
          (case skip_ws r of
             [] \<Rightarrow> Inl Syntax
           | c # cs \<Rightarrow>
               if c = CHR '','' then
                 (case parse_elems strict n (skip_ws cs) of
                    Inl e \<Rightarrow> Inl e | Inr (xs, r') \<Rightarrow> Inr (x # xs, r'))
               else if c = CHR '']'' then Inr ([x], cs)
               else Inl Syntax))"
| "parse_members strict 0 s = Inl Out_of_fuel"
| "parse_members strict (Suc n) s =
     (case s of
        [] \<Rightarrow> Inl Syntax
      | q # qs \<Rightarrow>
          if q \<noteq> CHR 0x22 then Inl Syntax
          else (case parse_string qs of
              Inl e \<Rightarrow> Inl e
            | Inr (k, r) \<Rightarrow>
                (case skip_ws r of
                   [] \<Rightarrow> Inl Syntax
                 | c # cs \<Rightarrow>
                     if c \<noteq> CHR '':'' then Inl Syntax
                     else (case parse_value strict n (skip_ws cs) of
                        Inl e \<Rightarrow> Inl e
                      | Inr (v, r1) \<Rightarrow>
                          (case skip_ws r1 of
                             [] \<Rightarrow> Inl Syntax
                           | d # ds \<Rightarrow>
                               if d = CHR '','' then
                                 (case parse_members strict n (skip_ws ds) of
                                    Inl e \<Rightarrow> Inl e | Inr (kvs, r2) \<Rightarrow> Inr ((k, v) # kvs, r2))
                               else if d = CHR ''}'' then Inr ([(k, v)], ds)
                               else Inl Syntax)))))"

definition json_loads :: "bool \<Rightarrow> string \<Rightarrow> decode_fail + json" where
  "json_loads strict s =
     (case parse_value strict (2 * length s + 2) (skip_ws s) of
        Inl e \<Rightarrow> Inl e
      | Inr (j, r) \<Rightarrow> if skip_ws r = [] then Inr j else Inl Syntax)"

subsection \<open>Depth limits, canonical text and digests\<close>

text \<open>\<open>_enter\<close>: a container may stand at depth at most \<open>m\<close>; scalars are not checked.\<close>

fun containers_within :: "nat \<Rightarrow> nat \<Rightarrow> json \<Rightarrow> bool" where
  "containers_within m d (JArr xs) = (d \<le> m \<and> list_all (containers_within m (Suc d)) xs)"
| "containers_within m d (JObj kvs) = (d \<le> m \<and> list_all (\<lambda>(k, v). containers_within m (Suc d) v) kvs)"
| "containers_within m d j = True"

text \<open>\<open>_freeze_json\<close>: every value, scalars included, at depth at most \<open>m\<close>.\<close>

fun values_within :: "nat \<Rightarrow> nat \<Rightarrow> json \<Rightarrow> bool" where
  "values_within m d (JArr xs) = (d \<le> m \<and> list_all (values_within m (Suc d)) xs)"
| "values_within m d (JObj kvs) = (d \<le> m \<and> list_all (\<lambda>(k, v). values_within m (Suc d) v) kvs)"
| "values_within m d j = (d \<le> m)"

definition default_max_depth :: nat where
  "default_max_depth = 128"

text \<open>\<open>canonical_bytes\<close>: the normalisation, here the check of the depth, and \<open>json.dumps\<close>.\<close>

definition canonical_text :: "json \<Rightarrow> encode_fail + string" where
  "canonical_text j =
     (if containers_within default_max_depth 0 j then Inr (dumps False j) else Inl Depth_exceeded)"

definition canonical_digest :: "json \<Rightarrow> encode_fail + string" where
  "canonical_digest j = bind_result (canonical_text j) (\<lambda>t. Inr (sha256_text t))"

definition freeze_json :: "json \<Rightarrow> encode_fail + json" where
  "freeze_json j = (if values_within default_max_depth 0 j then Inr j else Inl Depth_exceeded)"

text \<open>Reading with the strict hooks, then encoding the value again to check its domain.\<close>

definition strict_json_loads :: "string \<Rightarrow> decode_fail + json" where
  "strict_json_loads s =
     (case json_loads True s of
        Inl e \<Rightarrow> Inl e
      | Inr j \<Rightarrow> (case freeze_json j of Inl _ \<Rightarrow> Inl Domain | Inr _ \<Rightarrow> Inr j))"

text \<open>The digest of a document that is within the depth limit.\<close>

definition digest_of :: "json \<Rightarrow> string" where
  "digest_of j = sha256_text (dumps False j)"

lemma canonical_digest_within:
  "containers_within default_max_depth 0 j \<Longrightarrow> canonical_digest j = Inr (digest_of j)"
  by (simp add: canonical_digest_def canonical_text_def digest_of_def)

lemma digest_of_is_sha256 [simp]: "is_sha256 (digest_of j)"
  by (simp add: digest_of_def)

lemma digest_of_not_blank [simp]: "\<not> blank (digest_of j)"
  by (simp add: digest_of_def)

subsection \<open>Reading back what was written\<close>

lemma hex_value_nibbles: "list_all (\<lambda>n. hex_value (nibble_char n) = Some n) [0..<16]"
  by code_simp

lemma hex_value_nibble: "n < 16 \<Longrightarrow> hex_value (nibble_char n) = Some n"
  using hex_value_nibbles by (auto simp: list_all_iff)

lemma unhex4_escape:
  "n < 256 \<Longrightarrow>
     unhex4 (CHR ''0'' # CHR ''0'' # nibble_char (n div 16) # nibble_char (n mod 16) # r) = Some n"
  by (simp add: unhex4_def hex_value_nibble hex_value_def [of "CHR ''0''"] code_point_def)

lemma char_eq_code: "c = d \<longleftrightarrow> code_point c = code_point d"
  by (simp add: code_point_def)

lemma char_of_code_point [simp]: "char_of (code_point c) = c"
  by (simp add: code_point_def)

lemma code_point_less [simp]: "code_point c < 256"
  unfolding code_point_def using nat_of_char_less_256 [of c] by simp

lemma parse_string_escape:
  "parse_string (escape_char ea c @ r) = cons_char c (parse_string r)"
proof -
  let ?n = "code_point c"
  have codes: "(?n = 34) = (c = CHR 0x22)" "(?n = 92) = (c = CHR 0x5C)" "(?n = 10) = (c = CHR 0x0A)"
    "(?n = 13) = (c = CHR 0x0D)" "(?n = 9) = (c = CHR 0x09)" "(?n = 12) = (c = CHR 0x0C)"
    "(?n = 8) = (c = CHR 0x08)"
    by (subst char_eq_code; simp add: code_point_def)+
  consider (special) "?n \<in> {34, 92, 10, 13, 9, 12, 8}"
    | (uni) "?n \<notin> {34, 92, 10, 13, 9, 12, 8}" "?n < 32 \<or> ea \<and> 126 < ?n"
    | (plain) "?n \<notin> {34, 92, 10, 13, 9, 12, 8}" "\<not> (?n < 32 \<or> ea \<and> 126 < ?n)"
    by blast
  then show ?thesis
  proof cases
    case special
    then have "c \<in> {CHR 0x22, CHR 0x5C, CHR 0x0A, CHR 0x0D, CHR 0x09, CHR 0x0C, CHR 0x08}"
      by (simp add: codes)
    then show ?thesis
      by (elim insertE emptyE; simp add: escape_char_def unescape_def code_point_def)
  next
    case uni
    then show ?thesis by (simp add: escape_char_def Let_def unhex4_escape)
  next
    case plain
    then have "escape_char ea c = [c]" by (auto simp: escape_char_def Let_def)
    moreover from plain have "c \<noteq> CHR 0x22" "c \<noteq> CHR 0x5C" "\<not> code_point c < 32"
      by (auto simp: codes)
    ultimately show ?thesis by simp
  qed
qed

lemma parse_string_quoted:
  "parse_string (concat (map (escape_char ea) s) @ CHR 0x22 # r) = Inr (s, r)"
  by (induction s) (simp_all add: parse_string_escape cons_char_def)

text \<open>A number must not be followed by a character that would continue it.\<close>

definition number_stop :: "string \<Rightarrow> bool" where
  "number_stop r \<longleftrightarrow> r = [] \<or> \<not> is_digit (hd r) \<and> hd r \<notin> {CHR ''.'', CHR ''e'', CHR ''E''}"

lemma number_stop_no_float: "number_stop r \<Longrightarrow> \<not> float_tail r"
  by (auto simp: number_stop_def float_tail_def split: list.splits)

lemma takeWhile_digits: "number_stop r \<Longrightarrow> takeWhile is_digit (nat_text n @ r) = nat_text n"
proof -
  assume "number_stop r"
  then have "takeWhile is_digit r = []" by (cases r) (auto simp: number_stop_def)
  then show ?thesis
    using nat_text_digits [of n] by (simp add: takeWhile_append list_all_iff)
qed

lemma nat_text_zero: "nat_text 0 = ''0''"
  by (subst nat_text.simps) code_simp

lemma nat_text_hd_digit: "is_digit (hd (nat_text n))"
  using nat_text_digits [of n] nat_text_nonempty [of n] by (cases "nat_text n") simp_all

lemma parse_int_nat:
  assumes "number_stop r"
  shows "parse_int (nat_text n @ r) = Inr (JInt (int n), r)"
    and "n \<noteq> 0 \<Longrightarrow> parse_int (CHR ''-'' # nat_text n @ r) = Inr (JInt (- int n), r)"
proof -
  have hd: "hd (nat_text n @ r) \<noteq> CHR ''-''" "nat_text n @ r \<noteq> []"
    using nat_text_hd_digit [of n] nat_text_nonempty [of n]
    by (auto simp: hd_append is_digit_def code_point_def)
  let ?ds = "if nat_text n \<noteq> [] \<and> hd (nat_text n) = CHR ''0'' then ''0'' else nat_text n"
  have ds: "?ds = nat_text n" by (auto simp: nat_text_hd_zero nat_text_zero)
  note stop = takeWhile_digits [OF assms] number_stop_no_float [OF assms]
  have zero: "hd (nat_text n) = CHR ''0'' \<Longrightarrow> nat_text n = ''0''"
    by (simp add: nat_text_hd_zero nat_text_zero)
  have val: "digits_value 0 (nat_text n) = n" "nat_text n \<noteq> []"
    by (simp_all add: digits_value_nat_text nat_text_nonempty)
  show "parse_int (nat_text n @ r) = Inr (JInt (int n), r)"
    using hd zero val by (auto simp: parse_int_def Let_def stop)
  show "parse_int (CHR ''-'' # nat_text n @ r) = Inr (JInt (- int n), r)" if "n \<noteq> 0"
    using zero val by (auto simp: parse_int_def Let_def stop)
qed

lemma int_text_first:
  obtains c cs where "int_text i = c # cs" "is_digit c \<or> c = CHR ''-'' \<and> cs \<noteq> [] \<and> is_digit (hd cs)"
proof (cases "i < 0")
  case True
  then show thesis
    using that [of "CHR ''-''" "nat_text (nat (- i))"]
    by (simp add: int_text_def nat_text_hd_digit nat_text_nonempty)
next
  case False
  then show thesis
    using that [of "hd (nat_text (nat i))" "tl (nat_text (nat i))"]
    by (simp add: int_text_def nat_text_hd_digit nat_text_nonempty)
qed

lemma not_digit [simp]:
  "\<not> is_digit (CHR ''n'')" "\<not> is_digit (CHR ''t'')" "\<not> is_digit (CHR ''f'')"
  "\<not> is_digit (CHR ''N'')" "\<not> is_digit (CHR ''I'')" "\<not> is_digit (CHR ''-'')"
  "\<not> is_digit (CHR 0x22)" "\<not> is_digit (CHR ''['')" "\<not> is_digit (CHR ''{'')"
  "\<not> is_digit (CHR '']'')" "\<not> is_digit (CHR ''}'')" "\<not> is_digit (CHR '','')"
  "\<not> is_digit (CHR '':'')" "\<not> is_digit (CHR '' '')" "\<not> is_digit (CHR 0x09)"
  "\<not> is_digit (CHR 0x0A)" "\<not> is_digit (CHR 0x0D)"
  by (simp_all add: is_digit_def code_point_def)

lemma strip_prefix_Cons:
  "strip_prefix (d # ds) (c # cs) = (if c = d then strip_prefix ds cs else None)"
  by (simp add: strip_prefix_def)

lemma parse_word_int:
  assumes "number_stop r"
  shows "parse_word strict (int_text i @ r) = Inr (JInt i, r)"
proof -
  obtain c cs where c: "int_text i = c # cs"
      "is_digit c \<or> c = CHR ''-'' \<and> cs \<noteq> [] \<and> is_digit (hd cs)"
    by (rule int_text_first)
  have "parse_word strict (int_text i @ r) = parse_int (int_text i @ r)"
    using c(2)
  proof (elim disjE conjE)
    assume "is_digit c"
    then have "c \<notin> {CHR ''n'', CHR ''t'', CHR ''f'', CHR ''N'', CHR ''I'', CHR ''-''}" by auto
    then show ?thesis by (simp add: parse_word_def strip_prefix_Cons c(1))
  next
    assume neg: "c = CHR ''-''" "cs \<noteq> []" "is_digit (hd cs)"
    then obtain d ds where "cs = d # ds" "d \<noteq> CHR ''I''"
      using not_digit(5) by (metis list.collapse)
    then show ?thesis by (simp add: parse_word_def strip_prefix_Cons c(1) neg(1))
  qed
  also have "\<dots> = Inr (JInt i, r)"
    using parse_int_nat [OF assms] by (auto simp: int_text_def)
  finally show ?thesis .
qed

text \<open>Every object of the document has distinct keys.\<close>

fun json_wf :: "json \<Rightarrow> bool" where
  "json_wf (JArr xs) = list_all json_wf xs"
| "json_wf (JObj kvs) = (distinct (map fst kvs) \<and> list_all (\<lambda>(k, v). json_wf v) kvs)"
| "json_wf j = True"

lemma py_dict_append: "foldl (\<lambda>d (k, v). dict_set k v d) d kvs = d @ kvs"
  if "distinct (map fst (d @ kvs))" for d :: "(string \<times> json) list"
  using that
proof (induction kvs arbitrary: d)
  case (Cons kv kvs)
  obtain k v where "kv = (k, v)" by force
  with Cons.prems have "dict_set k v d = d @ [kv]" by (auto intro!: dict_set_new)
  with Cons show ?case by (simp add: \<open>kv = (k, v)\<close>)
qed simp

lemma py_dict_distinct: "distinct (map fst kvs) \<Longrightarrow> py_dict kvs = kvs"
  using py_dict_append [of "[]" kvs] by (simp add: py_dict_def)

lemma render_first:
  "\<exists>c cs. render ea j = c # cs \<and> \<not> json_ws c \<and> c \<notin> {CHR '']'', CHR ''}'', CHR '',''}"
proof (cases j)
  case (JInt i)
  then show ?thesis
    by (cases rule: int_text_first [of i]) (auto simp: json_ws_def)
qed (auto simp: json_ws_def quote_text_def)

lemma skip_ws_render: "skip_ws (render ea j @ r) = render ea j @ r"
  using render_first [of ea j] by (auto simp: skip_ws_def)

lemma skip_ws_cons [simp]:
  "skip_ws (CHR '','' # r) = CHR '','' # r" "skip_ws (CHR '']'' # r) = CHR '']'' # r"
  "skip_ws (CHR ''}'' # r) = CHR ''}'' # r" "skip_ws (CHR '':'' # r) = CHR '':'' # r"
  "skip_ws (CHR 0x22 # r) = CHR 0x22 # r" "skip_ws [] = []"
  by (simp_all add: skip_ws_def json_ws_def)

lemma number_stop_cons [simp]:
  "number_stop []" "number_stop (CHR '','' # r)" "number_stop (CHR '']'' # r)"
  "number_stop (CHR ''}'' # r)" "number_stop (CHR 0x0A # r)"
  by (simp_all add: number_stop_def)

lemma length_render_pos: "0 < length (render ea j)"
  using render_first [of ea j] by auto

lemma parse_render:
  "json_wf j \<Longrightarrow> number_stop r \<Longrightarrow> 2 * length (render ea j) < n \<Longrightarrow>
     parse_value strict n (render ea j @ r) = Inr (j, r)"
  "list_all json_wf xs \<Longrightarrow> xs \<noteq> [] \<Longrightarrow> 2 * length (render_elems ea xs) + 1 < n \<Longrightarrow>
     parse_elems strict n (render_elems ea xs @ CHR '']'' # r) = Inr (xs, r)"
  "list_all (\<lambda>(k, v). json_wf v) kvs \<Longrightarrow> kvs \<noteq> [] \<Longrightarrow> 2 * length (render_members ea kvs) + 1 < n \<Longrightarrow>
     parse_members strict n (render_members ea kvs @ CHR ''}'' # r) = Inr (kvs, r)"
proof (induction ea j and ea xs and ea kvs arbitrary: n r and n r and n r
    rule: render_render_elems_render_members.induct)
  case (1 ea)
  then show ?case by (cases n) (simp_all add: parse_word_def strip_prefix_Cons strip_prefix_def)
next
  case (2 ea b)
  then show ?case by (cases n) (simp_all add: parse_word_def strip_prefix_Cons strip_prefix_def)
next
  case (3 ea i)
  obtain c cs where c: "int_text i = c # cs" "is_digit c \<or> c = CHR ''-'' \<and> cs \<noteq> [] \<and> is_digit (hd cs)"
    by (rule int_text_first)
  then have "c \<noteq> CHR 0x22" "c \<noteq> CHR ''[''" "c \<noteq> CHR ''{''" by auto
  with 3 c(1) parse_word_int [OF 3(2), of strict i] show ?case by (cases n) simp_all
next
  case (4 ea s)
  then show ?case by (cases n) (simp_all add: quote_text_def parse_string_quoted)
next
  case (5 ea xs)
  then obtain m where n: "n = Suc m" by (cases n) auto
  show ?case
  proof (cases xs)
    case Nil
    then show ?thesis by (simp add: n)
  next
    case (Cons x ys)
    have "parse_elems strict m (render_elems ea xs @ CHR '']'' # r) = Inr (xs, r)"
      using 5 Cons n by simp
    moreover obtain c cs where "render_elems ea xs = c # cs" "\<not> json_ws c" "c \<noteq> CHR '']''"
      using render_first [of ea x] Cons by (cases ys) auto
    ultimately show ?thesis by (simp add: n skip_ws_def)
  qed
next
  case (6 ea kvs)
  then obtain m where n: "n = Suc m" by (cases n) auto
  show ?case
  proof (cases kvs)
    case Nil
    then show ?thesis by (simp add: n)
  next
    case (Cons kv ys)
    have "parse_members strict m (render_members ea kvs @ CHR ''}'' # r) = Inr (kvs, r)"
      using 6 Cons n by simp
    moreover obtain cs where "render_members ea kvs = CHR 0x22 # cs"
      using Cons by (cases ys; cases kv) (auto simp: quote_text_def)
    ultimately show ?thesis
      using 6(2) by (simp add: n object_from_pairs_def py_dict_distinct)
  qed
next
  case (8 ea x)
  then obtain m where n: "n = Suc m" by (cases n) auto
  with 8 have "parse_value strict m (render ea x @ CHR '']'' # r) = Inr (x, CHR '']'' # r)" by simp
  then show ?case by (simp add: n)
next
  case (9 ea x y xs)
  then obtain m where n: "n = Suc m" by (cases n) auto
  let ?tl = "render_elems ea (y # xs) @ CHR '']'' # r"
  have "parse_value strict m (render ea x @ CHR '','' # ?tl) = Inr (x, CHR '','' # ?tl)"
    using 9 n by simp
  moreover have "parse_elems strict m ?tl = Inr (y # xs, r)"
    using 9 n length_render_pos [of ea x] by simp
  moreover have "skip_ws ?tl = ?tl"
    using skip_ws_render [of ea y] by (cases xs) simp_all
  ultimately show ?case by (simp add: n)
next
  case (11 ea k v)
  then obtain m where n: "n = Suc m" by (cases n) auto
  with 11 have "parse_value strict m (render ea v @ CHR ''}'' # r) = Inr (v, CHR ''}'' # r)"
    by (simp add: quote_text_def)
  then show ?case by (simp add: n quote_text_def parse_string_quoted skip_ws_render)
next
  case (12 ea k v kv kvs)
  then obtain m where n: "n = Suc m" by (cases n) auto
  let ?tl = "render_members ea (kv # kvs) @ CHR ''}'' # r"
  have "parse_value strict m (render ea v @ CHR '','' # ?tl) = Inr (v, CHR '','' # ?tl)"
    using 12 n by (simp add: quote_text_def)
  moreover have "parse_members strict m ?tl = Inr (kv # kvs, r)"
    using 12 n by (simp add: quote_text_def)
  moreover have "skip_ws ?tl = ?tl"
    by (cases kvs; cases kv) (simp_all add: quote_text_def)
  ultimately show ?case by (simp add: n quote_text_def parse_string_quoted skip_ws_render)
qed simp_all

lemma json_wf_sort_keys: "json_wf j \<Longrightarrow> json_wf (sort_keys j)"
proof (induction j rule: sort_keys.induct)
  case (2 kvs)
  have "map fst (map (\<lambda>(k, v). (k, sort_keys v)) kvs) = map fst kvs"
    by (simp add: case_prod_unfold o_def)
  with 2 show ?case
    by (fastforce simp: list_all_iff map_sort_key simp del: map_map)
qed (simp_all add: list_all_iff)

lemma json_loads_render:
  assumes "json_wf j"
  shows "json_loads strict (render ea j) = Inr j"
    and "json_loads strict (render ea j @ [CHR 0x0A]) = Inr j"
proof -
  have "parse_value strict (2 * length (render ea j @ r) + 2) (skip_ws (render ea j @ r)) = Inr (j, r)"
    if "number_stop r" for r
    unfolding skip_ws_render by (rule parse_render(1) [OF assms that]) simp
  from this [of "[]"] this [of "[CHR 0x0A]"]
  show "json_loads strict (render ea j) = Inr j" "json_loads strict (render ea j @ [CHR 0x0A]) = Inr j"
    by (simp_all add: json_loads_def skip_ws_def json_ws_def)
qed

lemma json_loads_dumps:
  assumes "json_wf j"
  shows "json_loads strict (dumps ea j) = Inr (sort_keys j)"
    and "json_loads strict (dumps ea j @ [CHR 0x0A]) = Inr (sort_keys j)"
  using json_loads_render [OF json_wf_sort_keys [OF assms]] by (simp_all add: dumps_def)

lemma dumps_inject:
  assumes "json_wf a" "json_wf b" "dumps ea a = dumps ea b"
  shows "sort_keys a = sort_keys b"
  using json_loads_dumps(1) [OF assms(1), of True ea] json_loads_dumps(1) [OF assms(2), of True ea] assms(3)
  by simp

subsection \<open>The reader always has enough fuel\<close>

lemma length_skip_ws: "length (skip_ws s) \<le> length s"
  unfolding skip_ws_def by (rule length_dropWhile_le)

lemma skip_ws_Cons_length: "skip_ws s = c # cs \<Longrightarrow> length cs < length s"
  using length_skip_ws [of s] by simp

lemma cons_char_iffs:
  "cons_char c p = Inl e \<longleftrightarrow> p = Inl e"
  "cons_char c p = Inr (t, r) \<longleftrightarrow> (\<exists>u. t = c # u \<and> p = Inr (u, r))"
  by (auto simp: cons_char_def split: sum.splits)

lemma parse_string_consumes: "parse_string s = Inr (t, r) \<Longrightarrow> length r < length s"
  by (induction s arbitrary: t rule: parse_string.induct)
    (fastforce simp: cons_char_iffs split: if_splits list.splits option.splits)+

lemma parse_string_fuel: "parse_string s \<noteq> Inl Out_of_fuel"
proof (induction s rule: parse_string.induct)
  case (2 c cs)
  note ih = 2 and simps = parse_string.simps(2) [of c cs]
  show ?case
  proof (cases cs)
    case Nil
    then show ?thesis by (simp add: simps cons_char_iffs)
  next
    case (Cons e r)
    with ih show ?thesis
      unfolding simps
      by (auto simp: cons_char_iffs simp del: parse_string.simps split: option.splits)
  qed
qed simp

lemma parse_int_consumes: "parse_int s = Inr (x, r) \<Longrightarrow> length r < length s"
  by (cases s) (auto simp: parse_int_def Let_def split: if_splits)

lemma strip_prefix_consumes: "strip_prefix p s = Some r \<Longrightarrow> p \<noteq> [] \<Longrightarrow> length r < length s"
  by (cases s; cases p) (auto simp: strip_prefix_def split: if_splits)

lemma parse_word_consumes: "parse_word strict s = Inr (x, r) \<Longrightarrow> length r < length s"
  by (auto simp: parse_word_def reject_constant_def
      split: if_splits option.splits dest: parse_int_consumes strip_prefix_consumes)

lemma parse_word_fuel: "parse_word strict s \<noteq> Inl Out_of_fuel"
  by (auto simp: parse_word_def reject_constant_def parse_int_def Let_def split: option.splits)

lemma object_from_pairs_fuel: "object_from_pairs strict kvs \<noteq> Inl Out_of_fuel"
  by (simp add: object_from_pairs_def)

text \<open>
  With more than twice as much fuel as there are characters left the reader does not run out,
  and what it returns leaves a strictly shorter rest.
\<close>

definition reads :: "decode_fail + 'a \<times> string \<Rightarrow> string \<Rightarrow> bool" where
  "reads p s \<longleftrightarrow> p \<noteq> Inl Out_of_fuel \<and> (\<forall>x r. p = Inr (x, r) \<longrightarrow> length r < length s)"

lemma reads_Inl [simp]: "reads (Inl e) s \<longleftrightarrow> e \<noteq> Out_of_fuel"
  and reads_Inr [simp]: "reads (Inr (x, r)) s \<longleftrightarrow> length r < length s"
  by (auto simp: reads_def)

lemma reads_case:
  assumes "reads p s" "\<And>x r. p = Inr (x, r) \<Longrightarrow> length r < length s \<Longrightarrow> reads (f x r) u"
  shows "reads (case p of Inl e \<Rightarrow> Inl e | Inr (x, r) \<Rightarrow> f x r) u"
  using assms by (auto simp: reads_def split: sum.splits prod.splits)

lemma reads_mono: "reads p s \<Longrightarrow> length s \<le> length u \<Longrightarrow> reads p u"
  by (auto simp: reads_def)

lemma reads_parse_string: "reads (parse_string s) s"
  using parse_string_fuel by (auto simp: reads_def dest: parse_string_consumes)

lemma reads_parse_word: "reads (parse_word strict s) s"
  using parse_word_fuel by (auto simp: reads_def dest: parse_word_consumes)

lemma parse_reads:
  "(\<forall>s. 2 * length s < n \<longrightarrow> reads (parse_value strict n s) s)
   \<and> (\<forall>s. 2 * length s + 1 < n \<longrightarrow> reads (parse_elems strict n s) s)
   \<and> (\<forall>s. 2 * length s + 1 < n \<longrightarrow> reads (parse_members strict n s) s)"
proof (induction n)
  case (Suc n)
  have val: "reads (parse_value strict n s) s" if "2 * length s < n" for s using Suc that by blast
  have elems: "reads (parse_elems strict n s) s" if "2 * length s + 1 < n" for s using Suc that by blast
  have members: "reads (parse_members strict n s) s" if "2 * length s + 1 < n" for s using Suc that by blast
  have "reads (parse_value strict (Suc n) s) s" if "2 * length s < Suc n" for s
  proof (cases s)
    case (Cons c cs)
    let ?u = "skip_ws cs"
    have u: "length ?u \<le> length cs" by (rule length_skip_ws)
    have "2 * length ?u + 1 < n" if "?u \<noteq> []" using u that Cons \<open>2 * length s < Suc n\<close> by simp
    moreover have "reads (parse_word strict s) s" by (rule reads_parse_word)
    moreover have "reads (case parse_string cs of Inl e \<Rightarrow> Inl e | Inr (t, r) \<Rightarrow> Inr (JStr t, r)) s"
      by (rule reads_case [OF reads_parse_string]) (simp add: Cons)
    moreover have "reads (case parse_elems strict n ?u of Inl e \<Rightarrow> Inl e | Inr (t, r) \<Rightarrow> Inr (JArr t, r)) s"
      if "2 * length ?u + 1 < n"
      by (rule reads_case [OF elems [OF that]]) (use u Cons in simp)
    moreover have "reads (case parse_members strict n ?u of Inl e \<Rightarrow> Inl e
        | Inr (kvs, r) \<Rightarrow> bind_result (object_from_pairs strict kvs) (\<lambda>j. Inr (j, r))) s"
      if "2 * length ?u + 1 < n"
      by (rule reads_case [OF members [OF that]])
        (use u Cons in \<open>auto simp: object_from_pairs_def\<close>)
    ultimately show ?thesis
      using u Cons that by (cases ?u) (auto simp: Let_def)
  qed simp
  moreover have "reads (parse_elems strict (Suc n) s) s" if len: "2 * length s + 1 < Suc n" for s
  proof -
    have "reads (case skip_ws r of [] \<Rightarrow> Inl Syntax
        | c # cs \<Rightarrow> if c = CHR '','' then
             (case parse_elems strict n (skip_ws cs) of Inl e \<Rightarrow> Inl e | Inr (xs, r') \<Rightarrow> Inr (x # xs, r'))
           else if c = CHR '']'' then Inr ([x], cs) else Inl Syntax) s"
      if r: "length r < length s" for x r
    proof (cases "skip_ws r")
      case (Cons c cs)
      note l = skip_ws_Cons_length [OF Cons] length_skip_ws [of cs]
      then have "2 * length (skip_ws cs) + 1 < n" using r len by simp
      from reads_case [OF elems [OF this], of "\<lambda>xs r'. Inr (x # xs, r')" s] show ?thesis
        using Cons l r by simp
    qed simp
    then show ?thesis using len by (simp add: reads_case [OF val])
  qed
  moreover have "reads (parse_members strict (Suc n) s) s" if len: "2 * length s + 1 < Suc n" for s
  proof (cases s)
    case (Cons q qs)
    have "reads (case skip_ws r1 of [] \<Rightarrow> Inl Syntax
        | d # ds \<Rightarrow> if d = CHR '','' then
             (case parse_members strict n (skip_ws ds) of Inl e \<Rightarrow> Inl e
              | Inr (kvs, r2) \<Rightarrow> Inr ((k, v) # kvs, r2))
           else if d = CHR ''}'' then Inr ([(k, v)], ds) else Inl Syntax) s"
      if r: "length r1 < length s" for k v r1
    proof (cases "skip_ws r1")
      case (Cons d ds)
      note l = skip_ws_Cons_length [OF Cons] length_skip_ws [of ds]
      then have "2 * length (skip_ws ds) + 1 < n" using r len by simp
      from reads_case [OF members [OF this], of "\<lambda>kvs r'. Inr ((k, v) # kvs, r')" s] show ?thesis
        using Cons l r by simp
    qed simp
    note tail = this
    have "reads (case skip_ws r of [] \<Rightarrow> Inl Syntax
        | c # cs \<Rightarrow> if c \<noteq> CHR '':'' then Inl Syntax
           else (case parse_value strict n (skip_ws cs) of Inl e \<Rightarrow> Inl e
             | Inr (v, r1) \<Rightarrow> (case skip_ws r1 of [] \<Rightarrow> Inl Syntax
                 | d # ds \<Rightarrow> if d = CHR '','' then
                      (case parse_members strict n (skip_ws ds) of Inl e \<Rightarrow> Inl e
                       | Inr (kvs, r2) \<Rightarrow> Inr ((k, v) # kvs, r2))
                    else if d = CHR ''}'' then Inr ([(k, v)], ds) else Inl Syntax))) s"
      if r: "length r < length qs" for k r
    proof (cases "skip_ws r")
      case (Cons c cs)
      note l = skip_ws_Cons_length [OF Cons] length_skip_ws [of cs]
      then have fuel: "2 * length (skip_ws cs) < n" using r len \<open>s = q # qs\<close> by simp
      show ?thesis
      proof (cases "c = CHR '':''")
        case True
        have bound: "length r1 < length s" if "length r1 < length (skip_ws cs)" for r1
          using that l r \<open>s = q # qs\<close> by simp
        show ?thesis
          unfolding Cons list.case True
          by (simp, rule reads_case [OF val [OF fuel]], rule tail, rule bound)
      qed (simp add: Cons)
    qed simp
    note mid = this
    show ?thesis
      unfolding parse_members.simps Cons list.case
      by (simp, intro impI, rule reads_case [OF reads_parse_string]) (use mid Cons in simp)
  qed simp
  ultimately show ?case by blast
qed simp

lemma json_loads_fuel: "json_loads strict s \<noteq> Inl Out_of_fuel"
proof -
  have "reads (parse_value strict (2 * length s + 2) (skip_ws s)) (skip_ws s)"
    using parse_reads [of "2 * length s + 2" strict] length_skip_ws [of s] by simp
  then show ?thesis by (auto simp: json_loads_def reads_def split: sum.splits)
qed

subsection \<open>What the reader returns has distinct keys\<close>

lemma dict_set_wf: "json_wf v \<Longrightarrow> list_all (json_wf \<circ> snd) d \<Longrightarrow> list_all (json_wf \<circ> snd) (dict_set k v d)"
  by (induction k v d rule: dict_set.induct) auto

lemma py_dict_wf: "list_all (json_wf \<circ> snd) kvs \<Longrightarrow> json_wf (JObj (py_dict kvs))"
proof -
  have "distinct (map fst (foldl (\<lambda>d (k, v). dict_set k v d) d kvs))
        \<and> list_all (json_wf \<circ> snd) (foldl (\<lambda>d (k, v). dict_set k v d) d kvs)"
    if "list_all (json_wf \<circ> snd) kvs" "distinct (map fst d)" "list_all (json_wf \<circ> snd) d" for d
    using that by (induction kvs arbitrary: d) (auto simp: distinct_dict_set dict_set_wf)
  from this [of "[]"] show "list_all (json_wf \<circ> snd) kvs \<Longrightarrow> json_wf (JObj (py_dict kvs))"
    by (simp add: py_dict_def comp_def case_prod_unfold)
qed

lemma parse_word_wf: "parse_word strict s = Inr (j, r) \<Longrightarrow> json_wf j"
  by (auto simp: parse_word_def reject_constant_def parse_int_def Let_def split: option.splits if_splits)

lemma parse_wf:
  "(\<forall>s j r. parse_value strict n s = Inr (j, r) \<longrightarrow> json_wf j)
   \<and> (\<forall>s xs r. parse_elems strict n s = Inr (xs, r) \<longrightarrow> list_all json_wf xs)
   \<and> (\<forall>s kvs r. parse_members strict n s = Inr (kvs, r) \<longrightarrow> list_all (json_wf \<circ> snd) kvs)"
proof (induction n)
  case (Suc n)
  have val: "json_wf j" if "parse_value strict n s = Inr (j, r)" for s j r using Suc that by blast
  have elems: "list_all json_wf xs" if "parse_elems strict n s = Inr (xs, r)" for s xs r
    using Suc that by blast
  have members: "list_all (json_wf \<circ> snd) kvs" if "parse_members strict n s = Inr (kvs, r)" for s kvs r
    using Suc that by blast
  have obj: "json_wf j" if "object_from_pairs strict kvs = Inr j" "list_all (json_wf \<circ> snd) kvs" for kvs j
    using that py_dict_wf by (auto simp: object_from_pairs_def split: if_splits)
  have "json_wf j" if "parse_value strict (Suc n) s = Inr (j, r)" for s j r
    using that
    by (auto simp: Let_def bind_result_Inr_iff split: list.splits if_splits sum.splits prod.splits
        dest: parse_word_wf elems members intro: obj)
  moreover have "list_all json_wf xs" if "parse_elems strict (Suc n) s = Inr (xs, r)" for s xs r
    using that by (auto split: if_splits sum.splits prod.splits list.splits dest: val elems)
  moreover have "list_all (json_wf \<circ> snd) kvs" if "parse_members strict (Suc n) s = Inr (kvs, r)" for s kvs r
    using that by (auto split: if_splits sum.splits prod.splits list.splits dest: val members)
  ultimately show ?case by blast
qed simp

lemmas parse_value_wf = parse_wf [THEN conjunct1, rule_format]

lemma json_loads_wf: "json_loads strict s = Inr j \<Longrightarrow> json_wf j"
  by (auto simp: json_loads_def split: sum.splits prod.splits if_splits
      simp del: parse_value.simps dest: parse_value_wf)

subsection \<open>Properties of the canonical encoding\<close>

lemma values_within_sort_keys: "values_within m d (sort_keys j) = values_within m d j"
proof (induction j arbitrary: d rule: sort_keys.induct)
  case (2 kvs)
  then have "list_all (\<lambda>(k, v). values_within m (Suc d) (sort_keys v)) kvs
      = list_all (\<lambda>(k, v). values_within m (Suc d) v) kvs"
    by (auto simp: list_all_iff)
  then show ?case by (auto simp: list_all_iff)
qed (auto simp: list_all_iff)

text \<open>
  C11: The canonical text of a document and the platform's strict reader. Where \<open>canonical_text\<close>
  returns a text, of a document whose objects have distinct keys, \<open>strict_json_loads\<close> returns that
  document with its keys sorted, unless some value, a scalar included, lies deeper than 128, and
  then it raises the DOMAIN error: the writer limits the depth of containers only. The plain reader
  (\<open>json.loads\<close>) returns it in both cases. Two documents with the same canonical text are equal up
  to the order of keys.
\<close>

theorem canonical_json_roundtrip:
  assumes "json_wf a" "canonical_text a = Inr t"
  shows "strict_json_loads t = (if values_within default_max_depth 0 a then Inr (sort_keys a) else Inl Domain)
       \<and> json_loads False t = Inr (sort_keys a)
       \<and> (\<forall>b. json_wf b \<longrightarrow> canonical_text b = Inr t \<longrightarrow> sort_keys b = sort_keys a)"
proof -
  have t: "t = dumps False a" using assms(2) by (simp add: canonical_text_def split: if_splits)
  have "sort_keys b = sort_keys a" if "json_wf b" "canonical_text b = Inr t" for b
    using that dumps_inject [OF that(1) assms(1)] t by (simp add: canonical_text_def split: if_splits)
  then show ?thesis
    using json_loads_dumps(1) [OF assms(1)]
    by (auto simp: t strict_json_loads_def freeze_json_def values_within_sort_keys)
qed

theorem canonical_json_roundtrip_witness:
  "\<exists>t. canonical_text (JObj [(''b'', JArr [JInt (- 3), JNull]), (''a'', JStr ''x'')]) = Inr t
   \<and> strict_json_loads t = Inr (JObj [(''a'', JStr ''x''), (''b'', JArr [JInt (- 3), JNull])])
   \<and> canonical_text (JObj []) \<noteq> Inr t"
proof -
  let ?a = "JObj [(''b'', JArr [JInt (- 3), JNull]), (''a'', JStr ''x'')]"
  have sorted: "sort_keys ?a = JObj [(''a'', JStr ''x''), (''b'', JArr [JInt (- 3), JNull])]"
    by code_simp
  obtain t where t: "canonical_text ?a = Inr t" by (simp add: canonical_text_def default_max_depth_def)
  have "json_wf ?a" "json_wf (JObj [])" "values_within default_max_depth 0 ?a"
    by (simp_all add: default_max_depth_def)
  with canonical_json_roundtrip [OF _ t] sorted t show ?thesis by force
qed

text \<open>
  The reader is total. On every text the strict and the plain reader return a document with
  distinct keys or a decoding error; the fuel it is started with, twice the length of the text,
  never runs out.
\<close>

theorem json_reader_total:
  "(\<exists>j. json_loads strict s = Inr j \<and> json_wf j)
   \<or> (\<exists>e. json_loads strict s = Inl e \<and> e \<noteq> Out_of_fuel)"
  using json_loads_fuel [of strict s] json_loads_wf [of strict s] by (cases "json_loads strict s") auto

end
