(* ===== verification/Run_Contracts.thy ===== *)
theory Run_Contracts
  imports Canonical_Json
begin

text \<open>
  The run-control contracts (\<open>research/experimentation/run/control/api/contracts.py\<close>)
  with the identities they carry: the action, phase and outcome enumerations, the request,
  intent, prepared operation, event, projection and receipt records, what each
  \<open>__post_init__\<close> accepts, and the error values of the component.

  A frozen dataclass is a record together with the predicate its constructor enforces;
  \<open>construct\<close> is the constructor call. Checks that only compare run-time types are
  discharged by the types of the model.
\<close>

definition construct :: "('a \<Rightarrow> bool) \<Rightarrow> 'e \<Rightarrow> 'a \<Rightarrow> 'e + 'a" where
  "construct valid err x = (if valid x then Inr x else Inl err)"

lemma construct_Inr_iff: "construct valid err x = Inr y \<longleftrightarrow> valid x \<and> y = x"
  by (auto simp: construct_def)

subsection \<open>Field checks\<close>

definition require_text :: "string \<Rightarrow> bool" where
  "require_text v \<longleftrightarrow> \<not> blank v"

definition require_sha256 :: "string \<Rightarrow> bool" where
  "require_sha256 v \<longleftrightarrow> is_sha256 v"

definition require_optional_text :: "string option \<Rightarrow> bool" where
  "require_optional_text v = (case v of None \<Rightarrow> True | Some t \<Rightarrow> require_text t)"

definition optional_sha256 :: "string option \<Rightarrow> bool" where
  "optional_sha256 v = (case v of None \<Rightarrow> True | Some t \<Rightarrow> require_sha256 t)"

subsection \<open>Enumerations\<close>

datatype run_action =
  Action_run | Action_inspect | Action_stop | Action_resume | Action_reconcile | Action_evidence

fun action_value :: "run_action \<Rightarrow> string" where
  "action_value Action_run = ''run''"
| "action_value Action_inspect = ''inspect''"
| "action_value Action_stop = ''stop''"
| "action_value Action_resume = ''resume''"
| "action_value Action_reconcile = ''reconcile''"
| "action_value Action_evidence = ''evidence''"

definition all_actions :: "run_action list" where
  "all_actions =
     [Action_run, Action_inspect, Action_stop, Action_resume, Action_reconcile, Action_evidence]"

datatype run_phase =
  Phase_running | Phase_stopped | Phase_recovery_required | Phase_completed | Phase_failed

fun phase_value :: "run_phase \<Rightarrow> string" where
  "phase_value Phase_running = ''running''"
| "phase_value Phase_stopped = ''stopped''"
| "phase_value Phase_recovery_required = ''recovery_required''"
| "phase_value Phase_completed = ''completed''"
| "phase_value Phase_failed = ''failed''"

definition all_phases :: "run_phase list" where
  "all_phases =
     [Phase_running, Phase_stopped, Phase_recovery_required, Phase_completed, Phase_failed]"

datatype record_kind = Kind_prepared | Kind_terminal

fun kind_value :: "record_kind \<Rightarrow> string" where
  "kind_value Kind_prepared = ''prepared''"
| "kind_value Kind_terminal = ''terminal''"

definition all_kinds :: "record_kind list" where
  "all_kinds = [Kind_prepared, Kind_terminal]"

text \<open>\<open>RunControlPhase(value)\<close> and its siblings: the member with that value, or \<open>ValueError\<close>.\<close>

definition phase_of_value :: "string \<Rightarrow> run_phase option" where
  "phase_of_value v = find (\<lambda>p. phase_value p = v) all_phases"

definition action_of_value :: "string \<Rightarrow> run_action option" where
  "action_of_value v = find (\<lambda>a. action_value a = v) all_actions"

definition kind_of_value :: "string \<Rightarrow> record_kind option" where
  "kind_of_value v = find (\<lambda>k. kind_value k = v) all_kinds"

lemma phase_of_value [simp]: "phase_of_value (phase_value p) = Some p"
  by (cases p) (simp_all add: phase_of_value_def all_phases_def)

lemma action_of_value [simp]: "action_of_value (action_value a) = Some a"
  by (cases a) (simp_all add: action_of_value_def all_actions_def)

lemma kind_of_value [simp]: "kind_of_value (kind_value k) = Some k"
  by (cases k) (simp_all add: kind_of_value_def all_kinds_def)

datatype execution_outcome =
  Exec_in_progress | Exec_succeeded | Exec_failed | Exec_stopped | Exec_recovery_required

datatype task_outcome = Task_not_evaluated | Task_succeeded | Task_failed | Task_blocked

datatype evidence_validity =
  Evidence_not_observed | Evidence_not_finalized | Evidence_finalized_valid

datatype scientific_validity = Science_not_evaluated | Science_valid | Science_invalid

fun execution_value :: "execution_outcome \<Rightarrow> string" where
  "execution_value Exec_in_progress = ''in_progress''"
| "execution_value Exec_succeeded = ''succeeded''"
| "execution_value Exec_failed = ''failed''"
| "execution_value Exec_stopped = ''stopped''"
| "execution_value Exec_recovery_required = ''recovery_required''"

fun task_value :: "task_outcome \<Rightarrow> string" where
  "task_value Task_not_evaluated = ''not_evaluated''"
| "task_value Task_succeeded = ''succeeded''"
| "task_value Task_failed = ''failed''"
| "task_value Task_blocked = ''blocked''"

fun evidence_value :: "evidence_validity \<Rightarrow> string" where
  "evidence_value Evidence_not_observed = ''not_observed''"
| "evidence_value Evidence_not_finalized = ''not_finalized''"
| "evidence_value Evidence_finalized_valid = ''finalized_valid''"

fun scientific_value :: "scientific_validity \<Rightarrow> string" where
  "scientific_value Science_not_evaluated = ''not_evaluated''"
| "scientific_value Science_valid = ''valid''"
| "scientific_value Science_invalid = ''invalid''"

subsection \<open>Identities\<close>

record cycle_identity =
  ci_run_id :: string
  ci_decision_cycle_id :: string
  ci_session_id :: string
  ci_task_id :: string
  ci_trace_id :: string

text \<open>\<open>DecisionCycleIdentity.__post_init__\<close> strips every field and refuses a blank one.\<close>

definition make_cycle_identity :: "'e \<Rightarrow> cycle_identity \<Rightarrow> 'e + cycle_identity" where
  "make_cycle_identity err c =
     (let fs = [ci_run_id c, ci_decision_cycle_id c, ci_session_id c, ci_task_id c, ci_trace_id c]
      in if list_ex blank fs then Inl err
         else Inr \<lparr>ci_run_id = py_strip (ci_run_id c),
                   ci_decision_cycle_id = py_strip (ci_decision_cycle_id c),
                   ci_session_id = py_strip (ci_session_id c),
                   ci_task_id = py_strip (ci_task_id c),
                   ci_trace_id = py_strip (ci_trace_id c)\<rparr>)"

definition cycle_digest :: "cycle_identity \<Rightarrow> string" where
  "cycle_digest c = digest_of (JObj [
     (''run_id'', JStr (ci_run_id c)),
     (''decision_cycle_id'', JStr (ci_decision_cycle_id c)),
     (''session_id'', JStr (ci_session_id c)),
     (''task_id'', JStr (ci_task_id c)),
     (''trace_id'', JStr (ci_trace_id c))])"

record run_identity =
  ri_run_id :: string
  ri_session_id :: string
  ri_trace_id :: string

definition valid_run_identity :: "run_identity \<Rightarrow> bool" where
  "valid_run_identity i \<longleftrightarrow> \<not> blank (ri_run_id i) \<and> \<not> blank (ri_session_id i) \<and> \<not> blank (ri_trace_id i)"

definition run_identity_digest :: "run_identity \<Rightarrow> string" where
  "run_identity_digest i = digest_of (JObj [
     (''run_id'', JStr (ri_run_id i)),
     (''session_id'', JStr (ri_session_id i)),
     (''trace_id'', JStr (ri_trace_id i))])"

text \<open>What the run control reads of a \<open>RunLaunchManifest\<close>.\<close>

record launch_manifest =
  lm_digest :: string
  lm_experiment_spec_digest :: string

text \<open>\<open>RunCheckpointManifest\<close>; the participant references are kept as documents.\<close>

record checkpoint_manifest =
  cm_checkpoint_id :: string
  cm_schema_version :: string
  cm_experiment_spec_digest :: string
  cm_run_id :: string
  cm_session_id :: string
  cm_decision_cycle_id :: string
  cm_cycle_identity_digest :: string
  cm_participant_snapshots :: "json list"

definition checkpoint_digest :: "checkpoint_manifest \<Rightarrow> string" where
  "checkpoint_digest c = digest_of (JObj [
     (''checkpoint_id'', JStr (cm_checkpoint_id c)),
     (''schema_version'', JStr (cm_schema_version c)),
     (''experiment_spec_digest'', JStr (cm_experiment_spec_digest c)),
     (''run_id'', JStr (cm_run_id c)),
     (''session_id'', JStr (cm_session_id c)),
     (''decision_cycle_id'', JStr (cm_decision_cycle_id c)),
     (''cycle_identity_digest'', JStr (cm_cycle_identity_digest c)),
     (''participant_snapshots'', JArr (cm_participant_snapshots c))])"

text \<open>\<open>EvidenceBundleReceipt\<close>; the finalized artifact receipt is kept as a document.\<close>

record evidence_receipt =
  ev_bundle_id :: string
  ev_run_id :: string
  ev_run_manifest_digest :: string
  ev_manifest_artifact :: json

definition evidence_digest :: "string \<Rightarrow> evidence_receipt \<Rightarrow> string" where
  "evidence_digest schema e = digest_of (JObj [
     (''schema_version'', JStr schema),
     (''bundle_id'', JStr (ev_bundle_id e)),
     (''run_id'', JStr (ev_run_id e)),
     (''run_manifest_digest'', JStr (ev_run_manifest_digest e)),
     (''manifest_artifact_receipt'', ev_manifest_artifact e)])"

subsection \<open>Requests\<close>

record run_target =
  tg_run_id :: string
  tg_run_manifest_digest :: string
  tg_expected_generation :: "int option"

definition valid_target :: "run_target \<Rightarrow> bool" where
  "valid_target t \<longleftrightarrow>
     require_text (tg_run_id t) \<and> require_sha256 (tg_run_manifest_digest t)
     \<and> (case tg_expected_generation t of None \<Rightarrow> True | Some g \<Rightarrow> 0 \<le> g)"

record run_request =
  rq_action :: run_action
  rq_target :: run_target
  rq_restore_checkpoint_id :: "string option"
  rq_restore_cycle_identity :: "cycle_identity option"

definition valid_request :: "run_request \<Rightarrow> bool" where
  "valid_request r \<longleftrightarrow>
     valid_target (rq_target r)
     \<and> require_optional_text (rq_restore_checkpoint_id r)
     \<and> \<not> (rq_action r \<in> {Action_run, Action_stop, Action_resume, Action_reconcile}
          \<and> tg_expected_generation (rq_target r) = None)
     \<and> (if rq_action r = Action_resume
        then \<not> (rq_restore_checkpoint_id r = None \<or> rq_restore_cycle_identity r = None)
        else \<not> (rq_restore_checkpoint_id r \<noteq> None \<or> rq_restore_cycle_identity r \<noteq> None))"

subsection \<open>Intents, prepared operations and projections\<close>

record run_intent =
  in_operation_id :: string
  in_action :: run_action
  in_base_generation :: int
  in_restore_checkpoint_id :: "string option"
  in_restore_checkpoint_manifest_digest :: "string option"
  in_restore_cycle_identity_digest :: "string option"

definition valid_intent :: "run_intent \<Rightarrow> bool" where
  "valid_intent i \<longleftrightarrow>
     require_sha256 (in_operation_id i)
     \<and> in_action i \<in> {Action_run, Action_stop, Action_resume}
     \<and> 0 \<le> in_base_generation i
     \<and> require_optional_text (in_restore_checkpoint_id i)
     \<and> (if in_action i = Action_resume
        then (case (in_restore_checkpoint_id i, in_restore_checkpoint_manifest_digest i,
                    in_restore_cycle_identity_digest i) of
                (Some _, Some d, Some c) \<Rightarrow> require_sha256 d \<and> require_sha256 c
              | _ \<Rightarrow> False)
        else in_restore_checkpoint_id i = None
             \<and> in_restore_checkpoint_manifest_digest i = None
             \<and> in_restore_cycle_identity_digest i = None)"

record prepared_operation =
  po_operation_id :: string
  po_action :: run_action
  po_base_generation :: int
  po_base_phase :: "run_phase option"
  po_base_latest_checkpoint_id :: "string option"
  po_base_checkpoint_manifest_digest :: "string option"
  po_restore_checkpoint_id :: "string option"
  po_restore_checkpoint_manifest_digest :: "string option"
  po_restore_cycle_identity_digest :: "string option"
  po_record_sequence :: int
  po_record_digest :: string

definition po_intent :: "prepared_operation \<Rightarrow> run_intent" where
  "po_intent p = \<lparr>in_operation_id = po_operation_id p, in_action = po_action p,
     in_base_generation = po_base_generation p,
     in_restore_checkpoint_id = po_restore_checkpoint_id p,
     in_restore_checkpoint_manifest_digest = po_restore_checkpoint_manifest_digest p,
     in_restore_cycle_identity_digest = po_restore_cycle_identity_digest p\<rparr>"

definition valid_prepared :: "prepared_operation \<Rightarrow> bool" where
  "valid_prepared p \<longleftrightarrow>
     valid_intent (po_intent p)
     \<and> (if po_base_generation p = 0 then po_base_phase p = None else po_base_phase p \<noteq> None)
     \<and> require_optional_text (po_base_latest_checkpoint_id p)
     \<and> (po_base_latest_checkpoint_id p = None \<longleftrightarrow> po_base_checkpoint_manifest_digest p = None)
     \<and> optional_sha256 (po_base_checkpoint_manifest_digest p)
     \<and> 0 < po_record_sequence p
     \<and> require_sha256 (po_record_digest p)"

record event_receipt =
  er_run_id :: string
  er_record_sequence :: int
  er_record_kind :: record_kind
  er_control_generation :: int
  er_action :: run_action
  er_phase :: run_phase
  er_operation_id :: string
  er_event_digest :: string

definition valid_event :: "event_receipt \<Rightarrow> bool" where
  "valid_event e \<longleftrightarrow>
     require_text (er_run_id e) \<and> 0 < er_record_sequence e \<and> 0 \<le> er_control_generation e
     \<and> require_sha256 (er_operation_id e) \<and> require_sha256 (er_event_digest e)
     \<and> \<not> (er_record_kind e = Kind_prepared \<and> er_phase e \<noteq> Phase_recovery_required)"

record projection =
  pj_run_id :: string
  pj_run_identity_digest :: string
  pj_run_manifest_digest :: string
  pj_phase :: run_phase
  pj_control_generation :: int
  pj_latest_checkpoint_id :: "string option"
  pj_checkpoint_manifest_digest :: "string option"
  pj_event_receipt :: event_receipt
  pj_pending_operation :: "prepared_operation option"

record preparation =
  pr_projection :: projection
  pr_prepared_operation :: prepared_operation
  pr_created :: bool

subsection \<open>Receipts\<close>

record outcome_projection =
  oc_execution :: execution_outcome
  oc_task :: task_outcome
  oc_evidence :: evidence_validity
  oc_scientific :: scientific_validity

record run_receipt =
  rr_action :: run_action
  rr_run_id :: string
  rr_run_identity_digest :: string
  rr_run_manifest_digest :: string
  rr_phase :: run_phase
  rr_control_generation :: int
  rr_latest_checkpoint_id :: "string option"
  rr_checkpoint_manifest_digest :: "string option"
  rr_evidence_bundle_receipt :: "evidence_receipt option"
  rr_outcomes :: outcome_projection
  rr_control_event_receipt :: event_receipt

fun expected_execution :: "run_phase \<Rightarrow> execution_outcome" where
  "expected_execution Phase_running = Exec_in_progress"
| "expected_execution Phase_stopped = Exec_stopped"
| "expected_execution Phase_recovery_required = Exec_recovery_required"
| "expected_execution Phase_completed = Exec_succeeded"
| "expected_execution Phase_failed = Exec_failed"

definition expected_evidence :: "evidence_receipt option \<Rightarrow> run_action \<Rightarrow> evidence_validity" where
  "expected_evidence ev a =
     (if ev \<noteq> None then Evidence_finalized_valid
      else if a = Action_evidence then Evidence_not_finalized
      else Evidence_not_observed)"

definition valid_receipt :: "run_receipt \<Rightarrow> bool" where
  "valid_receipt r \<longleftrightarrow>
     require_text (rr_run_id r)
     \<and> require_sha256 (rr_run_identity_digest r) \<and> require_sha256 (rr_run_manifest_digest r)
     \<and> 0 \<le> rr_control_generation r
     \<and> require_optional_text (rr_latest_checkpoint_id r)
     \<and> (rr_latest_checkpoint_id r = None \<longleftrightarrow> rr_checkpoint_manifest_digest r = None)
     \<and> optional_sha256 (rr_checkpoint_manifest_digest r)
     \<and> oc_execution (rr_outcomes r) = expected_execution (rr_phase r)
     \<and> oc_evidence (rr_outcomes r) = expected_evidence (rr_evidence_bundle_receipt r) (rr_action r)
     \<and> oc_task (rr_outcomes r) = Task_not_evaluated
     \<and> oc_scientific (rr_outcomes r) = Science_not_evaluated
     \<and> er_run_id (rr_control_event_receipt r) = rr_run_id r
     \<and> er_control_generation (rr_control_event_receipt r) = rr_control_generation r
     \<and> er_phase (rr_control_event_receipt r) = rr_phase r"

definition opt_text :: "string option \<Rightarrow> json" where
  "opt_text v = (case v of None \<Rightarrow> JNull | Some t \<Rightarrow> JStr t)"

definition receipt_schema_version :: string where
  "receipt_schema_version = ''run-control.receipt.v1''"

definition receipt_digest :: "string \<Rightarrow> run_receipt \<Rightarrow> string" where
  "receipt_digest evidence_schema r = digest_of (JObj [
     (''schema_version'', JStr receipt_schema_version),
     (''action'', JStr (action_value (rr_action r))),
     (''run_id'', JStr (rr_run_id r)),
     (''run_identity_digest'', JStr (rr_run_identity_digest r)),
     (''run_manifest_digest'', JStr (rr_run_manifest_digest r)),
     (''phase'', JStr (phase_value (rr_phase r))),
     (''control_generation'', JInt (rr_control_generation r)),
     (''latest_checkpoint_id'', opt_text (rr_latest_checkpoint_id r)),
     (''checkpoint_manifest_digest'', opt_text (rr_checkpoint_manifest_digest r)),
     (''evidence_bundle_receipt'',
        opt_text (map_option (evidence_digest evidence_schema) (rr_evidence_bundle_receipt r))),
     (''outcomes'', JObj [
        (''execution'', JStr (execution_value (oc_execution (rr_outcomes r)))),
        (''task'', JStr (task_value (oc_task (rr_outcomes r)))),
        (''evidence'', JStr (evidence_value (oc_evidence (rr_outcomes r)))),
        (''scientific'', JStr (scientific_value (oc_scientific (rr_outcomes r))))]),
     (''control_event_receipt'', JObj [
        (''run_id'', JStr (er_run_id (rr_control_event_receipt r))),
        (''record_sequence'', JInt (er_record_sequence (rr_control_event_receipt r))),
        (''record_kind'', JStr (kind_value (er_record_kind (rr_control_event_receipt r)))),
        (''control_generation'', JInt (er_control_generation (rr_control_event_receipt r))),
        (''action'', JStr (action_value (er_action (rr_control_event_receipt r)))),
        (''phase'', JStr (phase_value (er_phase (rr_control_event_receipt r)))),
        (''operation_id'', JStr (er_operation_id (rr_control_event_receipt r))),
        (''event_digest'', JStr (er_event_digest (rr_control_event_receipt r)))])])"

record receipt_reference =
  rf_schema_version :: string
  rf_run_id :: string
  rf_record_sequence :: int
  rf_receipt_digest :: string

definition valid_reference :: "receipt_reference \<Rightarrow> bool" where
  "valid_reference f \<longleftrightarrow>
     rf_schema_version f = receipt_schema_version \<and> require_text (rf_run_id f)
     \<and> 0 < rf_record_sequence f \<and> require_sha256 (rf_receipt_digest f)"

definition reference_key :: "receipt_reference \<Rightarrow> string" where
  "reference_key f =
     rf_run_id f @ '':'' @ int_text (rf_record_sequence f) @ '':'' @ rf_receipt_digest f"

definition receipt_reference :: "string \<Rightarrow> 'e \<Rightarrow> run_receipt \<Rightarrow> 'e + receipt_reference" where
  "receipt_reference evidence_schema err r =
     construct valid_reference err
       \<lparr>rf_schema_version = receipt_schema_version, rf_run_id = rr_run_id r,
        rf_record_sequence = er_record_sequence (rr_control_event_receipt r),
        rf_receipt_digest = receipt_digest evidence_schema r\<rparr>"

subsection \<open>Errors\<close>

text \<open>
  The exceptions of the component; \<open>Run_value_error\<close> also stands for a failed \<open>assert\<close>.
  \<open>RunControlActionFailure\<close>, which only the controller raises, is in \<open>control_error\<close>.
\<close>

datatype run_error =
    Run_not_found
  | Run_conflict
  | Run_stale_generation int int
  | Run_integrity_error
  | Run_value_error

text \<open>\<open>RunControlStaleGeneration\<close> is a \<open>RunControlConflict\<close>.\<close>

fun is_conflict :: "run_error \<Rightarrow> bool" where
  "is_conflict Run_conflict = True"
| "is_conflict (Run_stale_generation _ _) = True"
| "is_conflict _ = False"

text \<open>
  What the controller raises: an error of the component, an exception of a provider that it lets
  through, or \<open>RunControlActionFailure\<close> with the receipt of the unresolved operation.
\<close>

datatype control_error = Refused run_error | Provider_error | Action_failure run_receipt

definition refuse :: "run_error + 'a \<Rightarrow> control_error + 'a" where
  "refuse r = (case r of Inl e \<Rightarrow> Inl (Refused e) | Inr x \<Rightarrow> Inr x)"

lemma refuse_simps [simp]: "refuse (Inl e) = Inl (Refused e)" "refuse (Inr x) = Inr x"
  by (simp_all add: refuse_def)

lemmas require_defs = require_text_def require_sha256_def require_optional_text_def optional_sha256_def

lemma require_digest_of [simp]: "require_sha256 (digest_of j)"
  by (simp add: require_sha256_def)

end
