(* ===== verification/Run_Port.thy ===== *)
theory Run_Port
  imports Run_Contracts
begin

text \<open>
  The interface between the run controller and its durable ledger
  (\<open>RunControlLedgerPort\<close> in \<open>research/experimentation/run/control/api/contracts.py\<close>):
  the identity the port carries, what a projection read from it satisfies, the abstract
  state of a run (generation, phase, checkpoint, unresolved operation) with the abstract
  prepare and commit, and the locale that states the port's laws. Run_Ledger interprets the
  locale on the directory ledger; Run_Controller proves the controller inside it.
\<close>

subsection \<open>The identity and the projections of a port\<close>

record ledger_id =
  li_run_id :: string
  li_run_identity_digest :: string
  li_run_manifest_digest :: string

definition valid_ledger_id :: "ledger_id \<Rightarrow> bool" where
  "valid_ledger_id L \<longleftrightarrow> \<not> blank (li_run_id L)
     \<and> is_sha256 (li_run_identity_digest L) \<and> is_sha256 (li_run_manifest_digest L)"

definition checkpoint_ok :: "string option \<Rightarrow> string option \<Rightarrow> bool" where
  "checkpoint_ok cid cdg \<longleftrightarrow>
     require_optional_text cid \<and> optional_sha256 cdg \<and> (cid = None \<longleftrightarrow> cdg = None)"

text \<open>An unresolved operation and the projection that carries it.\<close>

definition pending_matches :: "projection \<Rightarrow> prepared_operation \<Rightarrow> bool" where
  "pending_matches p q \<longleftrightarrow>
     valid_prepared q
     \<and> po_base_phase q \<noteq> Some Phase_recovery_required
     \<and> pj_phase p = Phase_recovery_required
     \<and> po_base_generation q = pj_control_generation p
     \<and> po_base_latest_checkpoint_id q = pj_latest_checkpoint_id p
     \<and> po_base_checkpoint_manifest_digest q = pj_checkpoint_manifest_digest p
     \<and> po_record_sequence q = er_record_sequence (pj_event_receipt p)
     \<and> po_record_digest q = er_event_digest (pj_event_receipt p)
     \<and> po_operation_id q = er_operation_id (pj_event_receipt p)
     \<and> po_action q = er_action (pj_event_receipt p)
     \<and> er_record_kind (pj_event_receipt p) = Kind_prepared"

definition ledger_projection :: "ledger_id \<Rightarrow> projection \<Rightarrow> bool" where
  "ledger_projection L p \<longleftrightarrow>
     pj_run_id p = li_run_id L
     \<and> pj_run_identity_digest p = li_run_identity_digest L
     \<and> pj_run_manifest_digest p = li_run_manifest_digest L
     \<and> 0 \<le> pj_control_generation p
     \<and> checkpoint_ok (pj_latest_checkpoint_id p) (pj_checkpoint_manifest_digest p)
     \<and> valid_event (pj_event_receipt p)
     \<and> er_run_id (pj_event_receipt p) = pj_run_id p
     \<and> er_control_generation (pj_event_receipt p) = pj_control_generation p
     \<and> er_phase (pj_event_receipt p) = pj_phase p
     \<and> (case pj_pending_operation p of
          None \<Rightarrow> 0 < pj_control_generation p \<and> pj_phase p \<noteq> Phase_recovery_required
                  \<and> er_record_kind (pj_event_receipt p) = Kind_terminal
        | Some q \<Rightarrow> pending_matches p q)"

definition current_generation :: "projection option \<Rightarrow> int" where
  "current_generation current = (case current of None \<Rightarrow> 0 | Some p \<Rightarrow> pj_control_generation p)"

subsection \<open>The abstract run\<close>

text \<open>
  The state of a run as its clients see it: the number of committed transitions, the phase
  of the last one, the checkpoint it rests on and the operation that is prepared and not yet
  resolved.
\<close>

record run_spec =
  sp_generation :: int
  sp_phase :: "run_phase option"
  sp_checkpoint :: "string option \<times> string option"
  sp_pending :: "run_intent option"

definition spec_of :: "projection option \<Rightarrow> run_spec" where
  "spec_of current =
     (case current of
        None \<Rightarrow> \<lparr>sp_generation = 0, sp_phase = None, sp_checkpoint = (None, None), sp_pending = None\<rparr>
      | Some p \<Rightarrow>
          \<lparr>sp_generation = pj_control_generation p,
           sp_phase = (case pj_pending_operation p of
                         None \<Rightarrow> Some (pj_phase p) | Some q \<Rightarrow> po_base_phase q),
           sp_checkpoint = (pj_latest_checkpoint_id p, pj_checkpoint_manifest_digest p),
           sp_pending = map_option po_intent (pj_pending_operation p)\<rparr>)"

text \<open>Which action may start from which phase.\<close>

fun spec_startable :: "run_action \<Rightarrow> run_phase option \<Rightarrow> run_error + unit" where
  "spec_startable Action_run None = Inr ()"
| "spec_startable Action_run (Some p) = (if p = Phase_failed then Inr () else Inl Run_conflict)"
| "spec_startable a None = Inl Run_integrity_error"
| "spec_startable Action_stop (Some p) =
     (if p \<in> {Phase_running, Phase_failed} then Inr () else Inl Run_conflict)"
| "spec_startable Action_resume (Some p) =
     (if p \<in> {Phase_stopped, Phase_failed} then Inr () else Inl Run_conflict)"
| "spec_startable a (Some p) = Inr ()"

definition spec_prepare :: "run_intent \<Rightarrow> run_spec \<Rightarrow> run_error + run_spec \<times> bool" where
  "spec_prepare i sp =
     (case sp_pending sp of
        Some j \<Rightarrow> if j = i then Inr (sp, False) else Inl Run_conflict
      | None \<Rightarrow>
          if in_base_generation i \<noteq> sp_generation sp
          then Inl (Run_stale_generation (in_base_generation i) (sp_generation sp))
          else bind_result (spec_startable (in_action i) (sp_phase sp)) (\<lambda>_.
                 Inr (sp\<lparr>sp_pending := Some i\<rparr>, True)))"

definition spec_commit ::
    "string \<Rightarrow> run_phase \<Rightarrow> string option \<Rightarrow> string option \<Rightarrow> run_spec \<Rightarrow> run_error + run_spec" where
  "spec_commit operation_id phase cid cdg sp =
     (if \<not> is_sha256 operation_id then Inl Run_integrity_error
      else if phase = Phase_recovery_required then Inl Run_value_error
      else (case sp_pending sp of
          None \<Rightarrow> Inl Run_conflict
        | Some i \<Rightarrow>
            if in_operation_id i \<noteq> operation_id then Inl Run_conflict
            else if \<not> checkpoint_ok cid cdg then Inl Run_integrity_error
            else Inr \<lparr>sp_generation = sp_generation sp + 1, sp_phase = Some phase,
                      sp_checkpoint = (cid, cdg), sp_pending = None\<rparr>))"

subsection \<open>The laws of a ledger\<close>

text \<open>
  \<open>room k s\<close>: the ledger can be read and can take \<open>k\<close> more publications. An operation that
  reports an error after its guards leaves the old state or exactly the new one; on a
  \<open>durable\<close> store, one whose writes succeed, there is no such error.
\<close>

locale run_control_ledger =
  fixes ident :: ledger_id
    and read_port :: "int option \<Rightarrow> 's \<Rightarrow> run_error + projection option"
    and prepare_port :: "run_intent \<Rightarrow> 's \<Rightarrow> 's \<times> (run_error + preparation)"
    and commit_port :: "string \<Rightarrow> run_phase \<Rightarrow> string option \<Rightarrow> string option \<Rightarrow> 's
                          \<Rightarrow> 's \<times> (run_error + projection)"
    and room :: "nat \<Rightarrow> 's \<Rightarrow> bool"
    and durable :: "'s \<Rightarrow> bool"
  assumes ident_valid: "room k s \<Longrightarrow> valid_ledger_id ident"
    and room_less: "room (Suc k) s \<Longrightarrow> room k s"
    and read_room: "room k s \<Longrightarrow> \<exists>c. read_port None s = Inr c"
    and read_valid: "room k s \<Longrightarrow> read_port None s = Inr (Some p) \<Longrightarrow> ledger_projection ident p"
    and read_expected: "read_port None s = Inr c \<Longrightarrow>
      read_port (Some g) s =
        (if g = current_generation c then Inr c else Inl (Run_stale_generation g (current_generation c)))"
    and prepare_room: "room (Suc k) s \<Longrightarrow> valid_intent i \<Longrightarrow> room k (fst (prepare_port i s))"
    and prepare_refused: "room (Suc k) s \<Longrightarrow> valid_intent i \<Longrightarrow> read_port None s = Inr c \<Longrightarrow>
      spec_prepare i (spec_of c) = Inl e \<Longrightarrow> prepare_port i s = (s, Inl e)"
    and prepare_again: "room (Suc k) s \<Longrightarrow> valid_intent i \<Longrightarrow> read_port None s = Inr (Some p) \<Longrightarrow>
      spec_prepare i (spec_of (Some p)) = Inr (sp, False) \<Longrightarrow>
      prepare_port i s = (s, Inr \<lparr>pr_projection = p,
        pr_prepared_operation = the (pj_pending_operation p), pr_created = False\<rparr>)"
    and prepare_created: "room (Suc k) s \<Longrightarrow> valid_intent i \<Longrightarrow> read_port None s = Inr c \<Longrightarrow>
      spec_prepare i (spec_of c) = Inr (sp, True) \<Longrightarrow> prepare_port i s = (s', Inr r) \<Longrightarrow>
      read_port None s' = Inr (Some (pr_projection r)) \<and> spec_of (Some (pr_projection r)) = sp
      \<and> pj_pending_operation (pr_projection r) = Some (pr_prepared_operation r) \<and> pr_created r"
    and prepare_failed: "room (Suc k) s \<Longrightarrow> valid_intent i \<Longrightarrow> read_port None s = Inr c \<Longrightarrow>
      spec_prepare i (spec_of c) = Inr (sp, True) \<Longrightarrow> prepare_port i s = (s', Inl e) \<Longrightarrow>
      read_port None s' = Inr c \<or> (\<exists>c'. read_port None s' = Inr c' \<and> spec_of c' = sp)"
    and commit_room: "room (Suc k) s \<Longrightarrow> room k (fst (commit_port op phase cid cdg s))"
    and commit_refused: "room (Suc k) s \<Longrightarrow> read_port None s = Inr c \<Longrightarrow>
      spec_commit op phase cid cdg (spec_of c) = Inl e \<Longrightarrow> commit_port op phase cid cdg s = (s, Inl e)"
    and commit_done: "room (Suc k) s \<Longrightarrow> read_port None s = Inr c \<Longrightarrow>
      spec_commit op phase cid cdg (spec_of c) = Inr sp \<Longrightarrow>
      commit_port op phase cid cdg s = (s', Inr p) \<Longrightarrow>
      read_port None s' = Inr (Some p) \<and> spec_of (Some p) = sp
      \<and> er_operation_id (pj_event_receipt p) = op"
    and commit_failed: "room (Suc k) s \<Longrightarrow> read_port None s = Inr c \<Longrightarrow>
      spec_commit op phase cid cdg (spec_of c) = Inr sp \<Longrightarrow>
      commit_port op phase cid cdg s = (s', Inl e) \<Longrightarrow>
      read_port None s' = Inr c
      \<or> (\<exists>p. read_port None s' = Inr (Some p) \<and> spec_of (Some p) = sp
            \<and> er_operation_id (pj_event_receipt p) = op)"
    and prepare_durable: "room (Suc k) s \<Longrightarrow> durable s \<Longrightarrow> valid_intent i \<Longrightarrow>
      read_port None s = Inr c \<Longrightarrow> spec_prepare i (spec_of c) = Inr (sp, b) \<Longrightarrow>
      \<exists>s' x. prepare_port i s = (s', Inr x) \<and> durable s'"
    and commit_durable: "room (Suc k) s \<Longrightarrow> durable s \<Longrightarrow> read_port None s = Inr c \<Longrightarrow>
      spec_commit op phase cid cdg (spec_of c) = Inr sp \<Longrightarrow>
      \<exists>s' p. commit_port op phase cid cdg s = (s', Inr p) \<and> durable s'"

end
