(* ===== verification/Run_Ledger.thy ===== *)
theory Run_Ledger
  imports Run_Port "HOL-Library.Multiset"
begin

text \<open>
  The directory run-control ledger
  (\<open>research/experimentation/run/control/providers/directory_ledger.py\<close>): immutable
  prepared/terminal records, one file each, linked by a hash chain. The state is the records
  directory with the outcomes the next file publications will have; each operation reads the
  whole directory, checks every record and the chain, and publishes at most one new file.
  The inter-process lock and the writer actor make an operation atomic, and are not modelled
  beyond that.
\<close>

subsection \<open>The records directory\<close>

text \<open>
  A regular file holds its text, \<open>None\<close> for bytes that cannot be read or are not UTF-8.
\<close>

datatype dir_entry = Regular_file "string option" | Symlink | Other_entry

datatype records_root = Root_missing | Root_invalid | Root_directory "(string \<times> dir_entry) list"

text \<open>
  What one \<open>atomic_replace_bytes\<close> does: succeed; replace the target but fail to flush the
  directory (\<open>DurableFileWriteError\<close>); fail before the replacement.
\<close>

datatype write_outcome = Write_durable | Write_replaced_unflushed | Write_not_replaced

record ledger_store =
  ls_root :: records_root
  ls_writes :: "write_outcome list"

fun root_entries :: "records_root \<Rightarrow> (string \<times> dir_entry) list" where
  "root_entries (Root_directory es) = es"
| "root_entries _ = []"

definition atomic_replace :: "string \<Rightarrow> string \<Rightarrow> ledger_store \<Rightarrow> ledger_store \<times> bool" where
  "atomic_replace name payload s =
     (let outcome = (case ls_writes s of [] \<Rightarrow> Write_durable | w # _ \<Rightarrow> w);
          old = root_entries (ls_root s);
          new = dict_set name (Regular_file (Some payload)) old
      in (case ls_root s of
            Root_invalid \<Rightarrow> (s\<lparr>ls_writes := tl (ls_writes s)\<rparr>, False)
          | _ \<Rightarrow> (s\<lparr>ls_root := Root_directory (if outcome = Write_not_replaced then old else new),
                   ls_writes := tl (ls_writes s)\<rparr>,
                 outcome = Write_durable)))"

subsection \<open>Record names and record files\<close>

definition record_name :: "nat \<Rightarrow> string" where
  "record_name n = pad_text 20 n @ ''.json''"

definition valid_record_name :: "string \<Rightarrow> bool" where
  "valid_record_name s \<longleftrightarrow>
     length s = 25 \<and> list_all is_digit (take 20 s) \<and> drop 20 s = ''.json''"

definition hidden_name :: "string \<Rightarrow> bool" where
  "hidden_name s \<longleftrightarrow> s \<noteq> [] \<and> hd s = CHR ''.''"

definition is_regular :: "dir_entry \<Rightarrow> bool" where
  "is_regular e = (case e of Regular_file _ \<Rightarrow> True | _ \<Rightarrow> False)"

definition record_paths :: "records_root \<Rightarrow> run_error + (string \<times> dir_entry) list" where
  "record_paths root =
     (case root of
        Root_missing \<Rightarrow> Inr []
      | Root_invalid \<Rightarrow> Inl Run_integrity_error
      | Root_directory es \<Rightarrow>
          (let visible = filter (\<lambda>(n, e). \<not> hidden_name n) es;
               rows = sort_key fst visible
           in if list_ex (\<lambda>(n, e). \<not> valid_record_name n \<or> \<not> is_regular e) visible
              then Inl Run_integrity_error
              else if map fst rows \<noteq> map record_name [1..<Suc (length rows)]
              then Inl Run_integrity_error
              else Inr rows))"

type_synonym document = "(string \<times> json) list"

definition record_fields :: "string list" where
  "record_fields =
     [''schema_version'', ''record_sequence'', ''record_kind'', ''operation_id'', ''action'',
      ''run_id'', ''run_identity_digest'', ''run_manifest_digest'', ''base_generation'',
      ''base_phase'', ''base_latest_checkpoint_id'', ''base_checkpoint_manifest_digest'',
      ''restore_checkpoint_id'', ''restore_checkpoint_manifest_digest'',
      ''restore_cycle_identity_digest'', ''terminal_phase'', ''terminal_latest_checkpoint_id'',
      ''terminal_checkpoint_manifest_digest'', ''previous_record_digest'', ''record_digest'']"

definition ledger_schema_version :: string where
  "ledger_schema_version = ''2''"

definition canonical_record :: "document \<Rightarrow> string" where
  "canonical_record d = dumps False (JObj d) @ [CHR 0x0A]"

definition record_digest :: "document \<Rightarrow> string" where
  "record_digest d = digest_of (JObj d)"

text \<open>\<open>document[k]\<close>; the field set is checked before any field is read.\<close>

definition field :: "document \<Rightarrow> string \<Rightarrow> json" where
  "field d k = (case map_of d k of None \<Rightarrow> JNull | Some v \<Rightarrow> v)"

definition decode_record :: "dir_entry \<Rightarrow> run_error + document" where
  "decode_record e =
     (case e of
        Regular_file (Some raw) \<Rightarrow>
          (case json_loads False raw of
             Inl _ \<Rightarrow> Inl Run_integrity_error
           | Inr j \<Rightarrow>
               if raw = [] \<or> last raw \<noteq> CHR 0x0A then Inl Run_integrity_error
               else (case j of
                   JObj d \<Rightarrow>
                     if canonical_record d \<noteq> raw then Inl Run_integrity_error
                     else if set (map fst d) \<noteq> set record_fields then Inl Run_integrity_error
                     else if field d ''schema_version'' \<noteq> JStr ledger_schema_version
                     then Inl Run_integrity_error
                     else Inr d
                 | _ \<Rightarrow> Inl Run_integrity_error))
      | _ \<Rightarrow> Inl Run_integrity_error)"

subsection \<open>Field decoding\<close>

definition doc_sha256 :: "json \<Rightarrow> run_error + string" where
  "doc_sha256 v =
     (case v of JStr s \<Rightarrow> if is_sha256 s then Inr s else Inl Run_integrity_error
      | _ \<Rightarrow> Inl Run_integrity_error)"

definition doc_text :: "json \<Rightarrow> run_error + string" where
  "doc_text v =
     (case v of JStr s \<Rightarrow> if blank s then Inl Run_integrity_error else Inr s
      | _ \<Rightarrow> Inl Run_integrity_error)"

definition doc_optional :: "(json \<Rightarrow> run_error + string) \<Rightarrow> json \<Rightarrow> run_error + string option" where
  "doc_optional f v =
     (if v = JNull then Inr None else bind_result (f v) (\<lambda>s. Inr (Some s)))"

definition doc_phase :: "bool \<Rightarrow> json \<Rightarrow> run_error + run_phase option" where
  "doc_phase optional v =
     (if v = JNull \<and> optional then Inr None
      else (case v of
          JStr s \<Rightarrow> (case phase_of_value s of
                       None \<Rightarrow> Inl Run_integrity_error | Some p \<Rightarrow> Inr (Some p))
        | _ \<Rightarrow> Inl Run_integrity_error))"

definition doc_action :: "json \<Rightarrow> run_error + run_action" where
  "doc_action v =
     (case v of
        JStr s \<Rightarrow> (case action_of_value s of
            None \<Rightarrow> Inl Run_integrity_error
          | Some a \<Rightarrow> if a \<in> {Action_run, Action_stop, Action_resume} then Inr a
                      else Inl Run_integrity_error)
      | _ \<Rightarrow> Inl Run_integrity_error)"

definition doc_kind :: "json \<Rightarrow> run_error + record_kind" where
  "doc_kind v =
     (case v of
        JStr s \<Rightarrow> (case kind_of_value s of None \<Rightarrow> Inl Run_integrity_error | Some k \<Rightarrow> Inr k)
      | _ \<Rightarrow> Inl Run_integrity_error)"

definition checkpoint_pair :: "json \<Rightarrow> json \<Rightarrow> run_error + string option \<times> string option" where
  "checkpoint_pair cid cdg =
     bind_result (doc_optional doc_text cid) (\<lambda>i.
     bind_result (doc_optional doc_sha256 cdg) (\<lambda>d.
       if (i = None) \<noteq> (d = None) then Inl Run_integrity_error else Inr (i, d)))"

text \<open>\<open>_prepared_from_document\<close>; the base generation has been checked to be an integer.\<close>

definition prepared_from_document ::
    "document \<Rightarrow> int \<Rightarrow> int \<Rightarrow> string \<Rightarrow> run_error + prepared_operation" where
  "prepared_from_document d base_generation seq digest =
     bind_result (doc_sha256 (field d ''operation_id'')) (\<lambda>op.
     bind_result (doc_action (field d ''action'')) (\<lambda>act.
     bind_result (doc_phase True (field d ''base_phase'')) (\<lambda>bphase.
     bind_result (doc_optional doc_text (field d ''base_latest_checkpoint_id'')) (\<lambda>bcp.
     bind_result (doc_optional doc_sha256 (field d ''base_checkpoint_manifest_digest'')) (\<lambda>bdg.
     bind_result (doc_optional doc_text (field d ''restore_checkpoint_id'')) (\<lambda>rcp.
     bind_result (doc_optional doc_sha256 (field d ''restore_checkpoint_manifest_digest'')) (\<lambda>rdg.
     bind_result (doc_optional doc_sha256 (field d ''restore_cycle_identity_digest'')) (\<lambda>rcy.
       construct valid_prepared Run_value_error
         \<lparr>po_operation_id = op, po_action = act, po_base_generation = base_generation,
          po_base_phase = bphase, po_base_latest_checkpoint_id = bcp,
          po_base_checkpoint_manifest_digest = bdg, po_restore_checkpoint_id = rcp,
          po_restore_checkpoint_manifest_digest = rdg, po_restore_cycle_identity_digest = rcy,
          po_record_sequence = seq, po_record_digest = digest\<rparr>))))))))"

definition validate_identity ::
    "ledger_id \<Rightarrow> document \<Rightarrow> nat \<Rightarrow> run_error + string \<times> record_kind \<times> run_action" where
  "validate_identity L d seq =
     (if field d ''record_sequence'' \<noteq> JInt (int seq) then Inl Run_integrity_error
      else
        bind_result (doc_text (field d ''run_id'')) (\<lambda>rid.
        if rid \<noteq> li_run_id L then Inl Run_integrity_error else
        bind_result (doc_sha256 (field d ''run_identity_digest'')) (\<lambda>rdg.
        if rdg \<noteq> li_run_identity_digest L then Inl Run_integrity_error else
        bind_result (doc_sha256 (field d ''run_manifest_digest'')) (\<lambda>mdg.
        if mdg \<noteq> li_run_manifest_digest L then Inl Run_integrity_error else
        bind_result (doc_sha256 (field d ''operation_id'')) (\<lambda>op.
        bind_result (doc_kind (field d ''record_kind'')) (\<lambda>k.
        bind_result (doc_action (field d ''action'')) (\<lambda>a. Inr (op, k, a))))))))"

subsection \<open>Replaying the records\<close>

record replay =
  rp_projection :: "projection option"
  rp_pending :: "prepared_operation option"
  rp_previous :: "string option"

definition empty_replay :: replay where
  "empty_replay = \<lparr>rp_projection = None, rp_pending = None, rp_previous = None\<rparr>"

text \<open>The fields of a record that both branches of the loop use.\<close>

record record_base =
  rb_operation_id :: string
  rb_kind :: record_kind
  rb_action :: run_action
  rb_digest :: string
  rb_generation :: int
  rb_phase :: "run_phase option"
  rb_checkpoint :: "string option \<times> string option"
  rb_restore :: "string option \<times> string option"
  rb_restore_cycle :: "string option"

definition check_base ::
    "ledger_id \<Rightarrow> string option \<Rightarrow> nat \<Rightarrow> document \<Rightarrow> run_error + record_base" where
  "check_base L previous_digest seq d =
     bind_result (validate_identity L d seq) (\<lambda>(op, k, a).
     bind_result (doc_optional doc_sha256 (field d ''previous_record_digest'')) (\<lambda>prev.
     if prev \<noteq> previous_digest then Inl Run_integrity_error else
     bind_result (doc_sha256 (field d ''record_digest'')) (\<lambda>observed.
     if record_digest (filter (\<lambda>(k, v). k \<noteq> ''record_digest'') d) \<noteq> observed
     then Inl Run_integrity_error else
     (case field d ''base_generation'' of
        JInt g \<Rightarrow>
          if g < 0 then Inl Run_integrity_error else
          bind_result (doc_phase True (field d ''base_phase'')) (\<lambda>bphase.
          bind_result (checkpoint_pair (field d ''base_latest_checkpoint_id'')
                         (field d ''base_checkpoint_manifest_digest'')) (\<lambda>bcp.
          bind_result (checkpoint_pair (field d ''restore_checkpoint_id'')
                         (field d ''restore_checkpoint_manifest_digest'')) (\<lambda>rcp.
          bind_result (doc_optional doc_sha256 (field d ''restore_cycle_identity_digest'')) (\<lambda>rcy.
          if a = Action_resume \<and> (fst rcp = None \<or> rcy = None) then Inl Run_integrity_error
          else if a \<noteq> Action_resume \<and> (fst rcp \<noteq> None \<or> snd rcp \<noteq> None \<or> rcy \<noteq> None)
          then Inl Run_integrity_error
          else Inr \<lparr>rb_operation_id = op, rb_kind = k, rb_action = a, rb_digest = observed,
                    rb_generation = g, rb_phase = bphase, rb_checkpoint = bcp,
                    rb_restore = rcp, rb_restore_cycle = rcy\<rparr>))))
      | _ \<Rightarrow> Inl Run_integrity_error))))"

definition make_projection ::
    "ledger_id \<Rightarrow> nat \<Rightarrow> record_base \<Rightarrow> int \<Rightarrow> run_phase \<Rightarrow> string option \<times> string option
       \<Rightarrow> prepared_operation option \<Rightarrow> run_error + projection" where
  "make_projection L seq b generation phase cp pending =
     bind_result
       (construct valid_event Run_value_error
          \<lparr>er_run_id = li_run_id L, er_record_sequence = int seq, er_record_kind = rb_kind b,
           er_control_generation = generation, er_action = rb_action b, er_phase = phase,
           er_operation_id = rb_operation_id b, er_event_digest = rb_digest b\<rparr>)
       (\<lambda>ev. Inr \<lparr>pj_run_id = li_run_id L, pj_run_identity_digest = li_run_identity_digest L,
              pj_run_manifest_digest = li_run_manifest_digest L, pj_phase = phase,
              pj_control_generation = generation, pj_latest_checkpoint_id = fst cp,
              pj_checkpoint_manifest_digest = snd cp, pj_event_receipt = ev,
              pj_pending_operation = pending\<rparr>)"

definition replay_prepared ::
    "ledger_id \<Rightarrow> nat \<Rightarrow> document \<Rightarrow> record_base \<Rightarrow> replay \<Rightarrow> run_error + replay" where
  "replay_prepared L seq d b st =
     (let pj = rp_projection st;
          expected_generation = (case pj of None \<Rightarrow> 0 | Some p \<Rightarrow> pj_control_generation p);
          expected_phase = map_option pj_phase pj;
          expected_checkpoint =
            (case pj of None \<Rightarrow> (None, None)
             | Some p \<Rightarrow> (pj_latest_checkpoint_id p, pj_checkpoint_manifest_digest p))
      in if rp_pending st \<noteq> None then Inl Run_integrity_error
         else if rb_generation b \<noteq> expected_generation \<or> rb_phase b \<noteq> expected_phase
         then Inl Run_integrity_error
         else if rb_checkpoint b \<noteq> expected_checkpoint then Inl Run_integrity_error
         else if field d ''terminal_phase'' \<noteq> JNull
                 \<or> field d ''terminal_latest_checkpoint_id'' \<noteq> JNull
                 \<or> field d ''terminal_checkpoint_manifest_digest'' \<noteq> JNull
         then Inl Run_integrity_error
         else
           bind_result (prepared_from_document d (rb_generation b) (int seq) (rb_digest b)) (\<lambda>pending.
           bind_result (make_projection L seq b (rb_generation b) Phase_recovery_required
                          (rb_checkpoint b) (Some pending)) (\<lambda>p.
             Inr \<lparr>rp_projection = Some p, rp_pending = Some pending,
                  rp_previous = Some (rb_digest b)\<rparr>)))"

definition replay_terminal ::
    "ledger_id \<Rightarrow> nat \<Rightarrow> document \<Rightarrow> record_base \<Rightarrow> replay \<Rightarrow> run_error + replay" where
  "replay_terminal L seq d b st =
     (case rp_pending st of
        None \<Rightarrow> Inl Run_integrity_error
      | Some pending \<Rightarrow>
          if po_operation_id pending \<noteq> rb_operation_id b \<or> po_action pending \<noteq> rb_action b
          then Inl Run_integrity_error
          else if rb_generation b \<noteq> po_base_generation pending \<or> rb_phase b \<noteq> po_base_phase pending
          then Inl Run_integrity_error
          else if rb_checkpoint b \<noteq>
                    (po_base_latest_checkpoint_id pending, po_base_checkpoint_manifest_digest pending)
          then Inl Run_integrity_error
          else if (rb_restore b, rb_restore_cycle b) \<noteq>
                    ((po_restore_checkpoint_id pending, po_restore_checkpoint_manifest_digest pending),
                     po_restore_cycle_identity_digest pending)
          then Inl Run_integrity_error
          else
            bind_result (doc_phase False (field d ''terminal_phase'')) (\<lambda>tphase.
            (case tphase of
               None \<Rightarrow> Inl Run_integrity_error
             | Some phase \<Rightarrow>
                 if phase = Phase_recovery_required then Inl Run_integrity_error
                 else
                   bind_result (checkpoint_pair (field d ''terminal_latest_checkpoint_id'')
                                  (field d ''terminal_checkpoint_manifest_digest'')) (\<lambda>tcp.
                   bind_result (make_projection L seq b (po_base_generation pending + 1) phase tcp None)
                     (\<lambda>p. Inr \<lparr>rp_projection = Some p, rp_pending = None,
                               rp_previous = Some (rb_digest b)\<rparr>)))))"

definition replay_step ::
    "ledger_id \<Rightarrow> replay \<Rightarrow> nat \<Rightarrow> dir_entry \<Rightarrow> run_error + replay" where
  "replay_step L st seq e =
     bind_result (decode_record e) (\<lambda>d.
     bind_result (check_base L (rp_previous st) seq d) (\<lambda>b.
       (case rb_kind b of
          Kind_prepared \<Rightarrow> replay_prepared L seq d b st
        | Kind_terminal \<Rightarrow> replay_terminal L seq d b st)))"

fun replay_rows ::
    "ledger_id \<Rightarrow> replay \<Rightarrow> nat \<Rightarrow> (string \<times> dir_entry) list \<Rightarrow> run_error + replay" where
  "replay_rows L st seq [] = Inr st"
| "replay_rows L st seq ((n, e) # rows) =
     bind_result (replay_step L st seq e) (\<lambda>st'. replay_rows L st' (Suc seq) rows)"

text \<open>\<open>_load_unlocked\<close>\<close>

definition load_ledger :: "ledger_id \<Rightarrow> ledger_store \<Rightarrow> run_error + projection option" where
  "load_ledger L s =
     bind_result (record_paths (ls_root s)) (\<lambda>rows.
     bind_result (replay_rows L empty_replay 1 rows) (\<lambda>st. Inr (rp_projection st)))"

subsection \<open>Publication\<close>

text \<open>\<open>target.is_file() and not target.is_symlink() and target.read_bytes() == payload\<close>\<close>

definition target_holds :: "string \<Rightarrow> string \<Rightarrow> ledger_store \<Rightarrow> bool" where
  "target_holds name payload s \<longleftrightarrow>
     map_of (root_entries (ls_root s)) name = Some (Regular_file (Some payload))"

definition sign_document :: "document \<Rightarrow> document" where
  "sign_document d =
     dict_set ''record_digest''
       (JStr (record_digest (filter (\<lambda>(k, v). k \<noteq> ''record_digest'') d))) d"

text \<open>\<open>_publish_unlocked\<close>\<close>

definition publish :: "nat \<Rightarrow> document \<Rightarrow> ledger_store \<Rightarrow> ledger_store \<times> (run_error + string)" where
  "publish seq d s =
     (let payload = canonical_record (sign_document d);
          name = record_name seq
      in if map_of (root_entries (ls_root s)) name \<noteq> None
         then (s, if target_holds name payload s then Inr payload else Inl Run_integrity_error)
         else
           (let (s1, ok1) = atomic_replace name payload s
            in if ok1 then (s1, Inr payload)
               else if target_holds name payload s1
               then (let (s2, ok2) = atomic_replace name payload s1
                     in (s2, if ok2 then Inr payload else Inl Run_integrity_error))
               else (s1, Inl Run_integrity_error)))"

definition prepared_document ::
    "ledger_id \<Rightarrow> nat \<Rightarrow> run_intent \<Rightarrow> projection option \<Rightarrow> string option \<Rightarrow> document" where
  "prepared_document L seq i current previous_digest =
     [(''schema_version'', JStr ledger_schema_version),
      (''record_sequence'', JInt (int seq)),
      (''record_kind'', JStr (kind_value Kind_prepared)),
      (''operation_id'', JStr (in_operation_id i)),
      (''action'', JStr (action_value (in_action i))),
      (''run_id'', JStr (li_run_id L)),
      (''run_identity_digest'', JStr (li_run_identity_digest L)),
      (''run_manifest_digest'', JStr (li_run_manifest_digest L)),
      (''base_generation'', JInt (in_base_generation i)),
      (''base_phase'', opt_text (map_option (phase_value \<circ> pj_phase) current)),
      (''base_latest_checkpoint_id'',
         opt_text (Option.bind current pj_latest_checkpoint_id)),
      (''base_checkpoint_manifest_digest'',
         opt_text (Option.bind current pj_checkpoint_manifest_digest)),
      (''restore_checkpoint_id'', opt_text (in_restore_checkpoint_id i)),
      (''restore_checkpoint_manifest_digest'', opt_text (in_restore_checkpoint_manifest_digest i)),
      (''restore_cycle_identity_digest'', opt_text (in_restore_cycle_identity_digest i)),
      (''terminal_phase'', JNull),
      (''terminal_latest_checkpoint_id'', JNull),
      (''terminal_checkpoint_manifest_digest'', JNull),
      (''previous_record_digest'', opt_text previous_digest),
      (''record_digest'', JNull)]"

definition terminal_document ::
    "ledger_id \<Rightarrow> int \<Rightarrow> prepared_operation \<Rightarrow> run_phase \<Rightarrow> string option \<Rightarrow> string option \<Rightarrow> document" where
  "terminal_document L seq p phase cid cdg =
     [(''schema_version'', JStr ledger_schema_version),
      (''record_sequence'', JInt seq),
      (''record_kind'', JStr (kind_value Kind_terminal)),
      (''operation_id'', JStr (po_operation_id p)),
      (''action'', JStr (action_value (po_action p))),
      (''run_id'', JStr (li_run_id L)),
      (''run_identity_digest'', JStr (li_run_identity_digest L)),
      (''run_manifest_digest'', JStr (li_run_manifest_digest L)),
      (''base_generation'', JInt (po_base_generation p)),
      (''base_phase'', opt_text (map_option phase_value (po_base_phase p))),
      (''base_latest_checkpoint_id'', opt_text (po_base_latest_checkpoint_id p)),
      (''base_checkpoint_manifest_digest'', opt_text (po_base_checkpoint_manifest_digest p)),
      (''restore_checkpoint_id'', opt_text (po_restore_checkpoint_id p)),
      (''restore_checkpoint_manifest_digest'', opt_text (po_restore_checkpoint_manifest_digest p)),
      (''restore_cycle_identity_digest'', opt_text (po_restore_cycle_identity_digest p)),
      (''terminal_phase'', JStr (phase_value phase)),
      (''terminal_latest_checkpoint_id'', opt_text cid),
      (''terminal_checkpoint_manifest_digest'', opt_text cdg),
      (''previous_record_digest'', JStr (po_record_digest p)),
      (''record_digest'', JNull)]"

subsection \<open>Operations\<close>

definition require_expected :: "projection option \<Rightarrow> int \<Rightarrow> run_error + unit" where
  "require_expected current expected =
     (let observed = (case current of None \<Rightarrow> 0 | Some p \<Rightarrow> pj_control_generation p)
      in if expected \<noteq> observed then Inl (Run_stale_generation expected observed) else Inr ())"

definition ledger_read ::
    "ledger_id \<Rightarrow> int option \<Rightarrow> ledger_store \<Rightarrow> run_error + projection option" where
  "ledger_read L expected s =
     bind_result (load_ledger L s) (\<lambda>current.
       (case expected of
          None \<Rightarrow> Inr current
        | Some g \<Rightarrow> bind_result (require_expected current g) (\<lambda>_. Inr current)))"

definition intent_matches :: "prepared_operation \<Rightarrow> run_intent \<Rightarrow> bool" where
  "intent_matches p i \<longleftrightarrow>
     po_operation_id p = in_operation_id i
     \<and> po_action p = in_action i
     \<and> po_base_generation p = in_base_generation i
     \<and> po_restore_checkpoint_id p = in_restore_checkpoint_id i
     \<and> po_restore_checkpoint_manifest_digest p = in_restore_checkpoint_manifest_digest i
     \<and> po_restore_cycle_identity_digest p = in_restore_cycle_identity_digest i"

text \<open>Which action may start from which phase.\<close>

definition require_startable :: "run_action \<Rightarrow> projection option \<Rightarrow> run_error + unit" where
  "require_startable a current =
     (if a = Action_run then
        (case current of
           None \<Rightarrow> Inr ()
         | Some p \<Rightarrow> if pj_phase p \<noteq> Phase_failed then Inl Run_conflict else Inr ())
      else
        (case current of
           None \<Rightarrow> Inl Run_integrity_error
         | Some p \<Rightarrow>
             if a = Action_stop \<and> pj_phase p \<notin> {Phase_running, Phase_failed} then Inl Run_conflict
             else if a = Action_resume \<and> pj_phase p \<notin> {Phase_stopped, Phase_failed}
             then Inl Run_conflict
             else Inr ()))"

definition last_record_digest :: "(string \<times> dir_entry) list \<Rightarrow> run_error + string option" where
  "last_record_digest rows =
     (if rows = [] then Inr None
      else bind_result (decode_record (snd (last rows))) (\<lambda>d.
           bind_result (doc_sha256 (field d ''record_digest'')) (\<lambda>g. Inr (Some g))))"

text \<open>The part of \<open>prepare\<close> after the check for an unresolved operation.\<close>

definition prepare_slot ::
    "run_intent \<Rightarrow> projection option \<Rightarrow> ledger_store \<Rightarrow> run_error + nat \<times> string option" where
  "prepare_slot i current s =
     bind_result (require_expected current (in_base_generation i)) (\<lambda>_.
     bind_result (require_startable (in_action i) current) (\<lambda>_.
     bind_result (record_paths (ls_root s)) (\<lambda>rows.
     bind_result (last_record_digest rows) (\<lambda>prev. Inr (Suc (length rows), prev)))))"

definition reload_prepared :: "ledger_id \<Rightarrow> ledger_store \<Rightarrow> run_error + preparation" where
  "reload_prepared L s =
     bind_result (load_ledger L s) (\<lambda>projected.
       (case projected of
          None \<Rightarrow> Inl Run_integrity_error
        | Some p \<Rightarrow>
            (case pj_pending_operation p of
               None \<Rightarrow> Inl Run_integrity_error
             | Some op \<Rightarrow>
                 Inr \<lparr>pr_projection = p, pr_prepared_operation = op, pr_created = True\<rparr>)))"

definition prepare_new ::
    "ledger_id \<Rightarrow> run_intent \<Rightarrow> projection option \<Rightarrow> ledger_store
       \<Rightarrow> ledger_store \<times> (run_error + preparation)" where
  "prepare_new L i current s =
     (case prepare_slot i current s of
        Inl e \<Rightarrow> (s, Inl e)
      | Inr (seq, prev) \<Rightarrow>
          (let (s', r) = publish seq (prepared_document L seq i current prev) s
           in (s', bind_result r (\<lambda>_. reload_prepared L s'))))"

definition ledger_prepare ::
    "ledger_id \<Rightarrow> run_intent \<Rightarrow> ledger_store \<Rightarrow> ledger_store \<times> (run_error + preparation)" where
  "ledger_prepare L i s =
     (case load_ledger L s of
        Inl e \<Rightarrow> (s, Inl e)
      | Inr None \<Rightarrow> prepare_new L i None s
      | Inr (Some cur) \<Rightarrow>
          (case pj_pending_operation cur of
             Some pending \<Rightarrow>
               (s, if intent_matches pending i
                   then Inr \<lparr>pr_projection = cur, pr_prepared_operation = pending,
                             pr_created = False\<rparr>
                   else Inl Run_conflict)
           | None \<Rightarrow> prepare_new L i (Some cur) s))"

definition reload_terminal :: "ledger_id \<Rightarrow> ledger_store \<Rightarrow> run_error + projection" where
  "reload_terminal L s =
     bind_result (load_ledger L s) (\<lambda>projected.
       (case projected of
          None \<Rightarrow> Inl Run_integrity_error
        | Some p \<Rightarrow>
            if pj_pending_operation p \<noteq> None then Inl Run_integrity_error else Inr p))"

definition ledger_commit ::
    "ledger_id \<Rightarrow> string \<Rightarrow> run_phase \<Rightarrow> string option \<Rightarrow> string option \<Rightarrow> ledger_store
       \<Rightarrow> ledger_store \<times> (run_error + projection)" where
  "ledger_commit L operation_id phase cid cdg s =
     (if \<not> is_sha256 operation_id then (s, Inl Run_integrity_error)
      else if phase = Phase_recovery_required then (s, Inl Run_value_error)
      else (case load_ledger L s of
          Inl e \<Rightarrow> (s, Inl e)
        | Inr current \<Rightarrow>
            (case current of
               None \<Rightarrow> (s, Inl Run_conflict)
             | Some cur \<Rightarrow>
                 (case pj_pending_operation cur of
                    None \<Rightarrow> (s, Inl Run_conflict)
                  | Some pending \<Rightarrow>
                      if po_operation_id pending \<noteq> operation_id then (s, Inl Run_conflict)
                      else if \<not> require_optional_text cid then (s, Inl Run_integrity_error)
                      else if \<not> optional_sha256 cdg then (s, Inl Run_integrity_error)
                      else if (cid = None) \<noteq> (cdg = None) then (s, Inl Run_integrity_error)
                      else
                        (let seq = er_record_sequence (pj_event_receipt cur) + 1;
                             (s', r) = publish (nat seq) (terminal_document L seq pending phase cid cdg) s
                         in (s', bind_result r (\<lambda>_. reload_terminal L s')))))))"

subsection \<open>Record names sort in the order of their sequence numbers\<close>

lemma record_name_less: "i < j \<Longrightarrow> j < 10 ^ 20 \<Longrightarrow> record_name i < record_name j"
  unfolding record_name_def by (rule pad_text_less)

lemma valid_record_name [simp]: "n < 10 ^ 20 \<Longrightarrow> valid_record_name (record_name n)"
proof -
  assume n: "n < 10 ^ 20"
  then show ?thesis
    by (simp add: valid_record_name_def record_name_def fixed_digits_pad [symmetric])
qed

lemma record_name_not_hidden [simp]: "n < 10 ^ 20 \<Longrightarrow> \<not> hidden_name (record_name n)"
  using valid_record_name [of n]
  by (cases "record_name n")
    (auto simp: valid_record_name_def hidden_name_def is_digit_def code_point_def)

subsection \<open>The directory after a publication\<close>

lemma record_paths_entries:
  assumes "record_paths root = Inr rows" "length rows < 10 ^ 20"
  shows "record_paths (Root_directory (root_entries root)) = Inr rows"
  using assms by (cases root) (auto simp: record_paths_def)

lemma record_paths_names:
  "record_paths root = Inr rows \<Longrightarrow> map fst rows = map record_name [1..<Suc (length rows)]"
  by (auto simp: record_paths_def Let_def split: records_root.splits if_splits)

lemma record_paths_visible:
  "record_paths root = Inr rows \<Longrightarrow>
     set rows = {(n, e) \<in> set (root_entries root). \<not> hidden_name n}"
proof (cases root)
  case (Root_directory es)
  assume "record_paths root = Inr rows"
  then have "rows = sort_key fst (filter (\<lambda>(n, e). \<not> hidden_name n) es)"
    by (simp add: Root_directory record_paths_def Let_def split: if_splits)
  then show ?thesis by (auto simp: Root_directory)
qed (simp_all add: record_paths_def)

lemma record_paths_free:
  assumes "record_paths root = Inr rows" "length rows < n" "n < 10 ^ 20"
  shows "record_name n \<notin> set (map fst (root_entries root))"
proof
  assume "record_name n \<in> set (map fst (root_entries root))"
  then obtain e where "(record_name n, e) \<in> set (root_entries root)" by auto
  with assms have "(record_name n, e) \<in> set rows" by (simp add: record_paths_visible)
  then have "record_name n \<in> record_name ` set [1..<Suc (length rows)]"
    using record_paths_names [OF assms(1)] by (metis image_eqI fst_conv list.set_map)
  then obtain m where "record_name n = record_name m" "m < n" using assms(2) by auto
  with record_name_less [of m n] assms(3) show False by simp
qed

lemma record_paths_snoc:
  assumes rows: "record_paths root = Inr rows" and len: "Suc (length rows) < 10 ^ 20"
  shows "record_paths (Root_directory
           (dict_set (record_name (Suc (length rows))) (Regular_file c) (root_entries root)))
         = Inr (rows @ [(record_name (Suc (length rows)), Regular_file c)])"
proof -
  let ?n = "Suc (length rows)" and ?e = "Regular_file c"
  let ?visible = "filter (\<lambda>(n, e). \<not> hidden_name n)"
  have new: "dict_set (record_name ?n) ?e (root_entries root) = root_entries root @ [(record_name ?n, ?e)]"
    by (rule dict_set_new) (rule record_paths_free [OF rows], use len in simp_all)
  have names: "map fst rows = map record_name [1..<?n]" by (rule record_paths_names [OF rows])
  have old: "sort_key fst (?visible (root_entries root)) = rows"
    "\<not> list_ex (\<lambda>(n, e). \<not> valid_record_name n \<or> \<not> is_regular e) (?visible (root_entries root))"
    using rows by (auto simp: record_paths_def Let_def split: records_root.splits if_splits)
  have mono: "sorted_wrt (<) (map record_name [1..<Suc ?n])"
    unfolding sorted_wrt_map
    by (rule sorted_wrt_mono_rel [OF _ sorted_wrt_upt]) (use len in \<open>auto intro!: record_name_less\<close>)
  have "sort_key fst (?visible (root_entries root) @ [(record_name ?n, ?e)]) = rows @ [(record_name ?n, ?e)]"
  proof (rule sort_key_inj_key_eq)
    show "mset (?visible (root_entries root) @ [(record_name ?n, ?e)]) = mset (rows @ [(record_name ?n, ?e)])"
      using old(1) by (metis mset_append mset_sort)
    have "distinct (map fst (rows @ [(record_name ?n, ?e)]))"
      using mono names by (simp add: strict_sorted_iff)
    then have "inj_on fst (set (rows @ [(record_name ?n, ?e)]))" by (simp only: distinct_map)
    moreover have "set (?visible (root_entries root)) = set rows" using old(1) by (metis set_sort)
    then have "set (?visible (root_entries root) @ [(record_name ?n, ?e)])
               = set (rows @ [(record_name ?n, ?e)])"
      by (simp only: set_append)
    ultimately show "inj_on fst (set (?visible (root_entries root) @ [(record_name ?n, ?e)]))"
      by (simp only:)
    show "sorted (map fst (rows @ [(record_name ?n, ?e)]))"
      using mono names by (simp add: strict_sorted_iff)
  qed
  then show ?thesis
    using old(2) names len unfolding new
    by (simp add: record_paths_def Let_def is_regular_def)
qed


subsection \<open>Reading back a published record\<close>

fun scalar :: "json \<Rightarrow> bool" where
  "scalar (JArr _) = False"
| "scalar (JObj _) = False"
| "scalar _ = True"

lemma sort_keys_scalar [simp]: "scalar j \<Longrightarrow> sort_keys j = j"
  by (cases j) simp_all

lemma json_wf_scalar: "scalar j \<Longrightarrow> json_wf j"
  by (cases j) simp_all

lemma scalar_opt_text [simp]: "scalar (opt_text v)"
  by (simp add: opt_text_def split: option.splits)

definition flat :: "document \<Rightarrow> bool" where
  "flat d \<longleftrightarrow> list_all (scalar \<circ> snd) d"

lemma sort_keys_flat: "flat d \<Longrightarrow> sort_keys (JObj d) = JObj (sort_key fst d)"
proof -
  assume "flat d"
  then have "map (\<lambda>(k, v). (k, sort_keys v)) d = d"
    by (induction d) (auto simp: flat_def)
  then show ?thesis by simp
qed

lemma flat_sort: "flat d \<Longrightarrow> flat (sort_key fst d)"
  by (simp add: flat_def list_all_iff)

lemma flat_filter: "flat d \<Longrightarrow> flat (filter P d)"
  by (simp add: flat_def list_all_iff)

lemma json_wf_flat: "flat d \<Longrightarrow> distinct (map fst d) \<Longrightarrow> json_wf (JObj d)"
  by (auto simp: flat_def list_all_iff intro!: json_wf_scalar)

lemma canonical_record_sort: "flat d \<Longrightarrow> canonical_record (sort_key fst d) = canonical_record d"
  using sort_keys_flat [of d] sort_keys_flat [OF flat_sort, of d]
  by (simp add: canonical_record_def dumps_def map_sort_key sort_key_sorted_id del: sort_keys.simps)

lemma record_digest_sort: "flat d \<Longrightarrow> record_digest (sort_key fst d) = record_digest d"
  using sort_keys_flat [of d] sort_keys_flat [OF flat_sort, of d]
  by (simp add: record_digest_def digest_of_def dumps_def map_sort_key sort_key_sorted_id
      del: sort_keys.simps)

lemma distinct_record_fields: "distinct record_fields"
  by (simp add: record_fields_def)

lemma field_sort: "distinct (map fst d) \<Longrightarrow> field (sort_key fst d) k = field d k"
  by (simp add: field_def map_of_sort_key_fst)

lemma decode_canonical:
  assumes "flat d" "map fst d = record_fields"
    "field d ''schema_version'' = JStr ledger_schema_version"
  shows "decode_record (Regular_file (Some (canonical_record d))) = Inr (sort_key fst d)"
proof -
  have dist: "distinct (map fst d)" using assms(2) distinct_record_fields by simp
  have "json_loads False (canonical_record d) = Inr (JObj (sort_key fst d))"
    unfolding canonical_record_def
    using json_loads_dumps(2) [OF json_wf_flat [OF assms(1) dist], of False False]
    unfolding sort_keys_flat [OF assms(1)] .
  moreover have "set (map fst (sort_key fst d)) = set record_fields"
    using assms(2) by (metis map_sort_key set_sort)
  moreover have "canonical_record d \<noteq> []" "last (canonical_record d) = CHR 0x0A"
    by (simp_all add: canonical_record_def)
  ultimately show ?thesis
    by (simp add: decode_record_def canonical_record_sort [OF assms(1)] field_sort [OF dist] assms(3)
        del: set_sort set_map)
qed

lemma filter_dict_set:
  "filter (\<lambda>(k, v). k \<noteq> x) (dict_set x w d) = filter (\<lambda>(k, v). k \<noteq> x) d"
  by (induction x w d rule: dict_set.induct) auto

lemma map_fst_dict_set: "k \<in> set (map fst d) \<Longrightarrow> map fst (dict_set k v d) = map fst d"
  by (induction k v d rule: dict_set.induct) auto

lemma flat_dict_set: "flat d \<Longrightarrow> scalar v \<Longrightarrow> flat (dict_set k v d)"
  by (induction k v d rule: dict_set.induct) (auto simp: flat_def)

text \<open>The digest a published record carries.\<close>

definition published_digest :: "document \<Rightarrow> string" where
  "published_digest d = record_digest (filter (\<lambda>(k, v). k \<noteq> ''record_digest'') d)"

lemma published_digest_sha256 [simp]: "is_sha256 (published_digest d)"
  by (simp add: published_digest_def record_digest_def)

lemma field_sign_document:
  "field (sign_document d) k = (if k = ''record_digest'' then JStr (published_digest d) else field d k)"
  by (simp add: field_def sign_document_def map_of_dict_set published_digest_def)

definition ledger_document :: "document \<Rightarrow> bool" where
  "ledger_document d \<longleftrightarrow> flat d \<and> map fst d = record_fields
     \<and> field d ''schema_version'' = JStr ledger_schema_version"

lemma ledger_document_sign: "ledger_document d \<Longrightarrow> ledger_document (sign_document d)"
  by (simp add: ledger_document_def field_sign_document)
    (simp add: sign_document_def flat_dict_set map_fst_dict_set record_fields_def)

definition published :: "document \<Rightarrow> document" where
  "published d = sort_key fst (sign_document d)"

lemma field_published:
  "ledger_document d \<Longrightarrow>
     field (published d) k = (if k = ''record_digest'' then JStr (published_digest d) else field d k)"
  using ledger_document_sign [of d]
  by (simp add: published_def field_sort ledger_document_def distinct_record_fields field_sign_document)

lemma decode_published:
  "ledger_document d \<Longrightarrow>
     decode_record (Regular_file (Some (canonical_record (sign_document d)))) = Inr (published d)"
  using ledger_document_sign [of d] unfolding published_def
  by (intro decode_canonical) (simp_all add: ledger_document_def)

lemma published_digest_published:
  assumes "ledger_document d"
  shows "record_digest (filter (\<lambda>(k, v). k \<noteq> ''record_digest'') (published d)) = published_digest d"
  using ledger_document_sign [OF assms]
  by (simp add: published_def filter_sort record_digest_sort flat_filter ledger_document_def)
    (simp add: sign_document_def filter_dict_set published_digest_def)

subsection \<open>Decoding the fields an operation wrote\<close>

lemma doc_written [simp]:
  "is_sha256 s \<Longrightarrow> doc_sha256 (JStr s) = Inr s"
  "\<not> blank s \<Longrightarrow> doc_text (JStr s) = Inr s"
  "doc_phase b (JStr (phase_value p)) = Inr (Some p)"
  "doc_phase True (opt_text (map_option phase_value q)) = Inr q"
  "doc_kind (JStr (kind_value k)) = Inr k"
  "a \<in> {Action_run, Action_stop, Action_resume} \<Longrightarrow> doc_action (JStr (action_value a)) = Inr a"
  "optional_sha256 v \<Longrightarrow> doc_optional doc_sha256 (opt_text v) = Inr v"
  "require_optional_text v \<Longrightarrow> doc_optional doc_text (opt_text v) = Inr v"
  by (auto simp: doc_sha256_def doc_text_def doc_phase_def doc_kind_def doc_action_def
      doc_optional_def opt_text_def require_defs split: option.splits)

lemma checkpoint_pair_written [simp]:
  "checkpoint_ok a b \<Longrightarrow> checkpoint_pair (opt_text a) (opt_text b) = Inr (a, b)"
  by (auto simp: checkpoint_ok_def checkpoint_pair_def)

lemma doc_sha256_Inr: "doc_sha256 v = Inr s \<Longrightarrow> is_sha256 s"
  by (simp add: doc_sha256_def split: json.splits if_splits)

lemma doc_optional_sha256_Inr: "doc_optional doc_sha256 v = Inr s \<Longrightarrow> optional_sha256 s"
  by (auto simp: doc_optional_def bind_result_Inr_iff require_defs dest: doc_sha256_Inr split: if_splits)

lemma doc_optional_text_Inr: "doc_optional doc_text v = Inr s \<Longrightarrow> require_optional_text s"
  by (auto simp: doc_optional_def bind_result_Inr_iff require_defs doc_text_def
      split: if_splits json.splits)

lemma checkpoint_pair_Inr: "checkpoint_pair a b = Inr (i, d) \<Longrightarrow> checkpoint_ok i d"
  by (auto simp: checkpoint_pair_def checkpoint_ok_def bind_result_Inr_iff
      dest: doc_optional_sha256_Inr doc_optional_text_Inr split: if_splits)

subsection \<open>The invariant of a replay\<close>

definition record_count :: "projection option \<Rightarrow> int" where
  "record_count current =
     (case current of None \<Rightarrow> 0
      | Some p \<Rightarrow> 2 * pj_control_generation p
                  + (if pj_pending_operation p = None then 0 else 1))"

definition replay_inv :: "ledger_id \<Rightarrow> nat \<Rightarrow> replay \<Rightarrow> bool" where
  "replay_inv L n st \<longleftrightarrow>
     int n = record_count (rp_projection st)
     \<and> (case rp_projection st of
          None \<Rightarrow> rp_pending st = None \<and> rp_previous st = None
        | Some p \<Rightarrow> ledger_projection L p
             \<and> rp_pending st = pj_pending_operation p
             \<and> rp_previous st = Some (er_event_digest (pj_event_receipt p))
             \<and> er_record_sequence (pj_event_receipt p) = int n)"

lemma replay_inv_empty: "replay_inv L 0 empty_replay"
  by (simp add: replay_inv_def empty_replay_def record_count_def)

lemma doc_action_Inr: "doc_action v = Inr a \<Longrightarrow> a \<in> {Action_run, Action_stop, Action_resume}"
  by (auto simp: doc_action_def split: if_splits json.splits option.splits)

lemma doc_text_Inr: "doc_text v = Inr s \<Longrightarrow> \<not> blank s"
  by (auto simp: doc_text_def split: if_splits json.splits)

lemma validate_identity_Inr: "validate_identity L d seq = Inr (op, k, a) \<Longrightarrow>
    is_sha256 op \<and> a \<in> {Action_run, Action_stop, Action_resume} \<and> valid_ledger_id L
    \<and> doc_sha256 (field d ''operation_id'') = Inr op \<and> doc_action (field d ''action'') = Inr a"
  by (auto simp: validate_identity_def bind_result_Inr_iff valid_ledger_id_def
      dest: doc_sha256_Inr doc_action_Inr doc_text_Inr split: if_splits)

lemma check_base_Inr:
  assumes "check_base L prev seq d = Inr b"
  shows "is_sha256 (rb_digest b)" "checkpoint_ok (fst (rb_checkpoint b)) (snd (rb_checkpoint b))"
    "doc_sha256 (field d ''record_digest'') = Inr (rb_digest b)" "0 \<le> rb_generation b"
    "is_sha256 (rb_operation_id b)" "valid_ledger_id L"
    "rb_action b \<in> {Action_run, Action_stop, Action_resume}"
    "doc_sha256 (field d ''operation_id'') = Inr (rb_operation_id b)"
    "doc_action (field d ''action'') = Inr (rb_action b)"
    "doc_phase True (field d ''base_phase'') = Inr (rb_phase b)"
    "checkpoint_pair (field d ''base_latest_checkpoint_id'')
       (field d ''base_checkpoint_manifest_digest'') = Inr (rb_checkpoint b)"
    "record_digest (filter (\<lambda>(k, v). k \<noteq> ''record_digest'') d) = rb_digest b"
    "doc_optional doc_sha256 (field d ''previous_record_digest'') = Inr prev"
  using assms
  by (auto simp: check_base_def bind_result_Inr_iff split: if_splits json.splits
      dest: doc_sha256_Inr validate_identity_Inr checkpoint_pair_Inr)

lemma prepared_from_document_Inr:
  assumes "prepared_from_document d g seq digest = Inr q"
  shows "valid_prepared q" "po_base_generation q = g" "po_record_sequence q = seq"
    "po_record_digest q = digest"
    "doc_sha256 (field d ''operation_id'') = Inr (po_operation_id q)"
    "doc_action (field d ''action'') = Inr (po_action q)"
    "doc_phase True (field d ''base_phase'') = Inr (po_base_phase q)"
    "doc_optional doc_text (field d ''base_latest_checkpoint_id'') = Inr (po_base_latest_checkpoint_id q)"
    "doc_optional doc_sha256 (field d ''base_checkpoint_manifest_digest'')
       = Inr (po_base_checkpoint_manifest_digest q)"
  using assms
  by (auto simp: prepared_from_document_def bind_result_Inr_iff construct_Inr_iff)

lemma make_projection_Inr:
  "make_projection L seq b g phase cp pending = Inr p \<longleftrightarrow>
     valid_event (pj_event_receipt p) \<and>
     p = \<lparr>pj_run_id = li_run_id L, pj_run_identity_digest = li_run_identity_digest L,
          pj_run_manifest_digest = li_run_manifest_digest L, pj_phase = phase,
          pj_control_generation = g, pj_latest_checkpoint_id = fst cp,
          pj_checkpoint_manifest_digest = snd cp,
          pj_event_receipt =
            \<lparr>er_run_id = li_run_id L, er_record_sequence = int seq, er_record_kind = rb_kind b,
             er_control_generation = g, er_action = rb_action b, er_phase = phase,
             er_operation_id = rb_operation_id b, er_event_digest = rb_digest b\<rparr>,
          pj_pending_operation = pending\<rparr>"
  by (auto simp: make_projection_def bind_result_Inr_iff construct_Inr_iff)

lemma replay_prepared_inv:
  assumes inv: "replay_inv L n st" and base: "check_base L (rp_previous st) (Suc n) d = Inr b"
    and kind: "rb_kind b = Kind_prepared" and step: "replay_prepared L (Suc n) d b st = Inr st'"
  shows "replay_inv L (Suc n) st'" "rp_previous st' = Some (rb_digest b)"
proof -
  note b = check_base_Inr [OF base]
  obtain pending p where none: "rp_pending st = None"
    and gen: "rb_generation b = (case rp_projection st of None \<Rightarrow> 0 | Some p \<Rightarrow> pj_control_generation p)"
    and base_phase: "rb_phase b = map_option pj_phase (rp_projection st)"
    and pending: "prepared_from_document d (rb_generation b) (int (Suc n)) (rb_digest b) = Inr pending"
    and p: "make_projection L (Suc n) b (rb_generation b) Phase_recovery_required
              (rb_checkpoint b) (Some pending) = Inr p"
    and st': "st' = \<lparr>rp_projection = Some p, rp_pending = Some pending, rp_previous = Some (rb_digest b)\<rparr>"
    using step by (auto simp: replay_prepared_def Let_def bind_result_Inr_iff split: if_splits)
  note q = prepared_from_document_Inr [OF pending]
  have cp: "rb_checkpoint b = (po_base_latest_checkpoint_id pending, po_base_checkpoint_manifest_digest pending)"
    using b(11) q(8,9) by (auto simp: checkpoint_pair_def split: if_splits)
  have "po_base_phase pending \<noteq> Some Phase_recovery_required"
    using inv none base_phase b(10) q(7)
    by (auto simp: replay_inv_def ledger_projection_def split: option.splits)
  then have "ledger_projection L p"
    using b q kind cp p
    by (auto simp: ledger_projection_def make_projection_Inr pending_matches_def)
  moreover have "int n = 2 * rb_generation b"
    using inv none gen
    by (auto simp: replay_inv_def record_count_def split: option.splits)
  ultimately show "replay_inv L (Suc n) st'"
    using p by (simp add: replay_inv_def st' record_count_def make_projection_Inr)
  show "rp_previous st' = Some (rb_digest b)" by (simp add: st')
qed

lemma replay_terminal_inv:
  assumes inv: "replay_inv L n st" and base: "check_base L (rp_previous st) (Suc n) d = Inr b"
    and kind: "rb_kind b = Kind_terminal" and step: "replay_terminal L (Suc n) d b st = Inr st'"
  shows "replay_inv L (Suc n) st'" "rp_previous st' = Some (rb_digest b)"
proof -
  note b = check_base_Inr [OF base]
  obtain pending phase tcp p where pending: "rp_pending st = Some pending"
    and phase: "phase \<noteq> Phase_recovery_required"
    and tcp: "checkpoint_pair (field d ''terminal_latest_checkpoint_id'')
                (field d ''terminal_checkpoint_manifest_digest'') = Inr tcp"
    and p: "make_projection L (Suc n) b (po_base_generation pending + 1) phase tcp None = Inr p"
    and st': "st' = \<lparr>rp_projection = Some p, rp_pending = None, rp_previous = Some (rb_digest b)\<rparr>"
    using step
    by (auto simp: replay_terminal_def Let_def bind_result_Inr_iff split: if_splits option.splits)
  obtain cur where cur: "rp_projection st = Some cur" "ledger_projection L cur"
    "pj_pending_operation cur = Some pending" "int n = 2 * pj_control_generation cur + 1"
    using inv pending by (auto simp: replay_inv_def record_count_def split: option.splits)
  have "checkpoint_ok (fst tcp) (snd tcp)" using tcp by (cases tcp) (simp add: checkpoint_pair_Inr)
  moreover have "po_base_generation pending = pj_control_generation cur" "0 \<le> pj_control_generation cur"
    using cur by (simp_all add: ledger_projection_def pending_matches_def)
  ultimately show "replay_inv L (Suc n) st'"
    using p b kind phase cur(4)
    by (auto simp: replay_inv_def st' record_count_def make_projection_Inr ledger_projection_def)
  show "rp_previous st' = Some (rb_digest b)" by (simp add: st')
qed

lemma replay_step_inv:
  assumes "replay_inv L n st" "replay_step L st (Suc n) e = Inr st'"
  shows "replay_inv L (Suc n) st'"
    and "\<exists>d g. decode_record e = Inr d \<and> doc_sha256 (field d ''record_digest'') = Inr g
               \<and> rp_previous st' = Some g"
proof -
  obtain d b where d: "decode_record e = Inr d" and b: "check_base L (rp_previous st) (Suc n) d = Inr b"
    and step: "(case rb_kind b of Kind_prepared \<Rightarrow> replay_prepared L (Suc n) d b st
                | Kind_terminal \<Rightarrow> replay_terminal L (Suc n) d b st) = Inr st'"
    using assms(2) by (auto simp: replay_step_def bind_result_Inr_iff)
  have "replay_inv L (Suc n) st' \<and> rp_previous st' = Some (rb_digest b)"
    using step replay_prepared_inv [OF assms(1) b] replay_terminal_inv [OF assms(1) b]
    by (cases "rb_kind b") simp_all
  then show "replay_inv L (Suc n) st'"
    "\<exists>d g. decode_record e = Inr d \<and> doc_sha256 (field d ''record_digest'') = Inr g
           \<and> rp_previous st' = Some g"
    using d check_base_Inr(3) [OF b] by auto
qed

lemma replay_rows_append:
  "replay_rows L st n (xs @ ys) =
     bind_result (replay_rows L st n xs) (\<lambda>st'. replay_rows L st' (n + length xs) ys)"
proof (induction L st n xs rule: replay_rows.induct)
  case (2 L st seq n e rows)
  show ?case by (cases "replay_step L st seq e") (use 2 in simp_all)
qed simp

lemma replay_rows_inv:
  "replay_inv L n st \<Longrightarrow> replay_rows L st (Suc n) rows = Inr st' \<Longrightarrow> replay_inv L (n + length rows) st'"
proof (induction rows arbitrary: n st)
  case (Cons row rows)
  obtain name e st1 where "row = (name, e)" "replay_step L st (Suc n) e = Inr st1"
    "replay_rows L st1 (Suc (Suc n)) rows = Inr st'"
    using Cons.prems(2) by (cases row) (auto simp: bind_result_Inr_iff)
  with Cons.IH [of "Suc n" st1] replay_step_inv(1) [OF Cons.prems(1)] show ?case by auto
qed simp

lemma last_record_digest_replay:
  assumes "replay_rows L empty_replay 1 rows = Inr st"
  shows "last_record_digest rows = Inr (rp_previous st)"
proof (cases rows rule: rev_cases)
  case Nil
  with assms show ?thesis by (auto simp: last_record_digest_def empty_replay_def)
next
  case (snoc xs row)
  then obtain st1 name e where st1: "replay_rows L empty_replay 1 xs = Inr st1" "row = (name, e)"
    "replay_step L st1 (Suc (length xs)) e = Inr st"
    using assms by (cases row) (auto simp: replay_rows_append bind_result_Inr_iff)
  moreover have "replay_inv L (length xs) st1"
    using replay_rows_inv [OF replay_inv_empty, of L xs st1] st1(1) by simp
  ultimately show ?thesis
    using replay_step_inv(2) [of L "length xs" st1 e st] snoc
    by (auto simp: last_record_digest_def)
qed

subsection \<open>What a published record replays to\<close>

lemma ledger_document_prepared [simp]: "ledger_document (prepared_document L seq i current prev)"
  by (simp add: ledger_document_def prepared_document_def flat_def record_fields_def field_def)

lemma ledger_document_terminal [simp]: "ledger_document (terminal_document L seq p phase cid cdg)"
  by (simp add: ledger_document_def terminal_document_def flat_def record_fields_def field_def)

lemma field_prepared [simp]:
  "field (prepared_document L seq i current prev) ''record_sequence'' = JInt (int seq)"
  "field (prepared_document L seq i current prev) ''record_kind'' = JStr (kind_value Kind_prepared)"
  "field (prepared_document L seq i current prev) ''operation_id'' = JStr (in_operation_id i)"
  "field (prepared_document L seq i current prev) ''action'' = JStr (action_value (in_action i))"
  "field (prepared_document L seq i current prev) ''run_id'' = JStr (li_run_id L)"
  "field (prepared_document L seq i current prev) ''run_identity_digest'' = JStr (li_run_identity_digest L)"
  "field (prepared_document L seq i current prev) ''run_manifest_digest'' = JStr (li_run_manifest_digest L)"
  "field (prepared_document L seq i current prev) ''base_generation'' = JInt (in_base_generation i)"
  "field (prepared_document L seq i current prev) ''base_phase''
     = opt_text (map_option phase_value (map_option pj_phase current))"
  "field (prepared_document L seq i current prev) ''base_latest_checkpoint_id''
     = opt_text (Option.bind current pj_latest_checkpoint_id)"
  "field (prepared_document L seq i current prev) ''base_checkpoint_manifest_digest''
     = opt_text (Option.bind current pj_checkpoint_manifest_digest)"
  "field (prepared_document L seq i current prev) ''restore_checkpoint_id''
     = opt_text (in_restore_checkpoint_id i)"
  "field (prepared_document L seq i current prev) ''restore_checkpoint_manifest_digest''
     = opt_text (in_restore_checkpoint_manifest_digest i)"
  "field (prepared_document L seq i current prev) ''restore_cycle_identity_digest''
     = opt_text (in_restore_cycle_identity_digest i)"
  "field (prepared_document L seq i current prev) ''terminal_phase'' = JNull"
  "field (prepared_document L seq i current prev) ''terminal_latest_checkpoint_id'' = JNull"
  "field (prepared_document L seq i current prev) ''terminal_checkpoint_manifest_digest'' = JNull"
  "field (prepared_document L seq i current prev) ''previous_record_digest'' = opt_text prev"
  by (simp_all add: field_def prepared_document_def option.map_comp)

lemma field_terminal [simp]:
  "field (terminal_document L n p phase cid cdg) ''record_sequence'' = JInt n"
  "field (terminal_document L n p phase cid cdg) ''record_kind'' = JStr (kind_value Kind_terminal)"
  "field (terminal_document L n p phase cid cdg) ''operation_id'' = JStr (po_operation_id p)"
  "field (terminal_document L n p phase cid cdg) ''action'' = JStr (action_value (po_action p))"
  "field (terminal_document L n p phase cid cdg) ''run_id'' = JStr (li_run_id L)"
  "field (terminal_document L n p phase cid cdg) ''run_identity_digest'' = JStr (li_run_identity_digest L)"
  "field (terminal_document L n p phase cid cdg) ''run_manifest_digest'' = JStr (li_run_manifest_digest L)"
  "field (terminal_document L n p phase cid cdg) ''base_generation'' = JInt (po_base_generation p)"
  "field (terminal_document L n p phase cid cdg) ''base_phase'' = opt_text (map_option phase_value (po_base_phase p))"
  "field (terminal_document L n p phase cid cdg) ''base_latest_checkpoint_id''
     = opt_text (po_base_latest_checkpoint_id p)"
  "field (terminal_document L n p phase cid cdg) ''base_checkpoint_manifest_digest''
     = opt_text (po_base_checkpoint_manifest_digest p)"
  "field (terminal_document L n p phase cid cdg) ''restore_checkpoint_id'' = opt_text (po_restore_checkpoint_id p)"
  "field (terminal_document L n p phase cid cdg) ''restore_checkpoint_manifest_digest''
     = opt_text (po_restore_checkpoint_manifest_digest p)"
  "field (terminal_document L n p phase cid cdg) ''restore_cycle_identity_digest''
     = opt_text (po_restore_cycle_identity_digest p)"
  "field (terminal_document L n p phase cid cdg) ''terminal_phase'' = JStr (phase_value phase)"
  "field (terminal_document L n p phase cid cdg) ''terminal_latest_checkpoint_id'' = opt_text cid"
  "field (terminal_document L n p phase cid cdg) ''terminal_checkpoint_manifest_digest'' = opt_text cdg"
  "field (terminal_document L n p phase cid cdg) ''previous_record_digest'' = opt_text (Some (po_record_digest p))"
  by (simp_all add: field_def terminal_document_def opt_text_def)

text \<open>The projection a successful \<open>prepare\<close> and a successful \<open>commit\<close> leave behind.\<close>

definition prepared_projection ::
    "ledger_id \<Rightarrow> nat \<Rightarrow> run_intent \<Rightarrow> projection option \<Rightarrow> string option \<Rightarrow> projection" where
  "prepared_projection L seq i current prev =
     (let dg = published_digest (prepared_document L seq i current prev);
          cid = Option.bind current pj_latest_checkpoint_id;
          cdg = Option.bind current pj_checkpoint_manifest_digest
      in \<lparr>pj_run_id = li_run_id L, pj_run_identity_digest = li_run_identity_digest L,
          pj_run_manifest_digest = li_run_manifest_digest L, pj_phase = Phase_recovery_required,
          pj_control_generation = in_base_generation i, pj_latest_checkpoint_id = cid,
          pj_checkpoint_manifest_digest = cdg,
          pj_event_receipt =
            \<lparr>er_run_id = li_run_id L, er_record_sequence = int seq, er_record_kind = Kind_prepared,
             er_control_generation = in_base_generation i, er_action = in_action i,
             er_phase = Phase_recovery_required, er_operation_id = in_operation_id i,
             er_event_digest = dg\<rparr>,
          pj_pending_operation = Some
            \<lparr>po_operation_id = in_operation_id i, po_action = in_action i,
             po_base_generation = in_base_generation i, po_base_phase = map_option pj_phase current,
             po_base_latest_checkpoint_id = cid, po_base_checkpoint_manifest_digest = cdg,
             po_restore_checkpoint_id = in_restore_checkpoint_id i,
             po_restore_checkpoint_manifest_digest = in_restore_checkpoint_manifest_digest i,
             po_restore_cycle_identity_digest = in_restore_cycle_identity_digest i,
             po_record_sequence = int seq, po_record_digest = dg\<rparr>\<rparr>)"

definition committed_projection ::
    "ledger_id \<Rightarrow> nat \<Rightarrow> prepared_operation \<Rightarrow> run_phase \<Rightarrow> string option \<Rightarrow> string option \<Rightarrow> projection" where
  "committed_projection L seq q phase cid cdg =
     \<lparr>pj_run_id = li_run_id L, pj_run_identity_digest = li_run_identity_digest L,
      pj_run_manifest_digest = li_run_manifest_digest L, pj_phase = phase,
      pj_control_generation = po_base_generation q + 1, pj_latest_checkpoint_id = cid,
      pj_checkpoint_manifest_digest = cdg,
      pj_event_receipt =
        \<lparr>er_run_id = li_run_id L, er_record_sequence = int seq, er_record_kind = Kind_terminal,
         er_control_generation = po_base_generation q + 1, er_action = po_action q,
         er_phase = phase, er_operation_id = po_operation_id q,
         er_event_digest = published_digest (terminal_document L (int seq) q phase cid cdg)\<rparr>,
      pj_pending_operation = None\<rparr>"

text \<open>The projection an operation may start from.\<close>

definition settled :: "ledger_id \<Rightarrow> projection option \<Rightarrow> bool" where
  "settled L current \<longleftrightarrow>
     (case current of None \<Rightarrow> True
      | Some p \<Rightarrow> ledger_projection L p \<and> pj_pending_operation p = None)"

lemma settled_checkpoint:
  "settled L current \<Longrightarrow>
     checkpoint_ok (Option.bind current pj_latest_checkpoint_id)
       (Option.bind current pj_checkpoint_manifest_digest)"
  by (cases current) (auto simp: settled_def ledger_projection_def checkpoint_ok_def require_defs)

lemma valid_intent_restore:
  assumes "valid_intent i"
  shows "checkpoint_ok (in_restore_checkpoint_id i) (in_restore_checkpoint_manifest_digest i)"
    "optional_sha256 (in_restore_cycle_identity_digest i)"
    "is_sha256 (in_operation_id i)" "in_action i \<in> {Action_run, Action_stop, Action_resume}"
    "0 \<le> in_base_generation i"
    "in_action i = Action_resume \<Longrightarrow> in_restore_checkpoint_id i \<noteq> None"
    "in_action i = Action_resume \<Longrightarrow> in_restore_cycle_identity_digest i \<noteq> None"
    "in_action i \<noteq> Action_resume \<Longrightarrow> in_restore_checkpoint_id i = None"
    "in_action i \<noteq> Action_resume \<Longrightarrow> in_restore_checkpoint_manifest_digest i = None"
    "in_action i \<noteq> Action_resume \<Longrightarrow> in_restore_cycle_identity_digest i = None"
  using assms
  by (auto simp: valid_intent_def checkpoint_ok_def require_defs split: if_splits option.splits)

lemma check_base_published:
  assumes L: "valid_ledger_id L" and d: "ledger_document d"
    and "field d ''record_sequence'' = JInt (int seq)"
    and "field d ''record_kind'' = JStr (kind_value k)"
    and "field d ''operation_id'' = JStr op" "is_sha256 op"
    and "field d ''action'' = JStr (action_value a)" "a \<in> {Action_run, Action_stop, Action_resume}"
    and "field d ''run_id'' = JStr (li_run_id L)"
    and "field d ''run_identity_digest'' = JStr (li_run_identity_digest L)"
    and "field d ''run_manifest_digest'' = JStr (li_run_manifest_digest L)"
    and "field d ''base_generation'' = JInt g" "0 \<le> g"
    and "field d ''base_phase'' = opt_text (map_option phase_value bphase)"
    and "field d ''base_latest_checkpoint_id'' = opt_text cid"
    and "field d ''base_checkpoint_manifest_digest'' = opt_text cdg" "checkpoint_ok cid cdg"
    and "field d ''restore_checkpoint_id'' = opt_text rid"
    and "field d ''restore_checkpoint_manifest_digest'' = opt_text rdg" "checkpoint_ok rid rdg"
    and "field d ''restore_cycle_identity_digest'' = opt_text rcy" "optional_sha256 rcy"
    and "field d ''previous_record_digest'' = opt_text prev" "optional_sha256 prev"
    and "if a = Action_resume then rid \<noteq> None \<and> rcy \<noteq> None
         else rid = None \<and> rdg = None \<and> rcy = None"
  shows "check_base L prev seq (published d) =
    Inr \<lparr>rb_operation_id = op, rb_kind = k, rb_action = a, rb_digest = published_digest d,
         rb_generation = g, rb_phase = bphase, rb_checkpoint = (cid, cdg),
         rb_restore = (rid, rdg), rb_restore_cycle = rcy\<rparr>"
proof -
  have "validate_identity L (published d) seq = Inr (op, k, a)"
    using assms by (simp add: validate_identity_def field_published valid_ledger_id_def)
  then show ?thesis
    using assms
    by (auto simp: check_base_def field_published published_digest_published split: if_splits)
qed

lemma replay_step_prepared:
  assumes L: "valid_ledger_id L" and i: "valid_intent i" and s: "settled L current"
    and gen: "in_base_generation i = (case current of None \<Rightarrow> 0 | Some p \<Rightarrow> pj_control_generation p)"
    and prev: "optional_sha256 prev" and seq: "0 < seq"
  shows "replay_step L \<lparr>rp_projection = current, rp_pending = None, rp_previous = prev\<rparr> seq
           (Regular_file (Some (canonical_record (sign_document (prepared_document L seq i current prev)))))
         = Inr \<lparr>rp_projection = Some (prepared_projection L seq i current prev),
                rp_pending = pj_pending_operation (prepared_projection L seq i current prev),
                rp_previous = Some (published_digest (prepared_document L seq i current prev))\<rparr>"
proof -
  let ?d = "prepared_document L seq i current prev"
  let ?b = "\<lparr>rb_operation_id = in_operation_id i, rb_kind = Kind_prepared, rb_action = in_action i,
     rb_digest = published_digest ?d, rb_generation = in_base_generation i,
     rb_phase = map_option pj_phase current,
     rb_checkpoint = (Option.bind current pj_latest_checkpoint_id,
                      Option.bind current pj_checkpoint_manifest_digest),
     rb_restore = (in_restore_checkpoint_id i, in_restore_checkpoint_manifest_digest i),
     rb_restore_cycle = in_restore_cycle_identity_digest i\<rparr>"
  note restore = valid_intent_restore [OF i] and cp = settled_checkpoint [OF s]
  have base: "check_base L prev seq (published ?d) = Inr ?b"
    by (rule check_base_published [OF L])
      (use restore cp prev in \<open>simp_all only: ledger_document_prepared field_prepared, auto\<close>)
  have q: "prepared_from_document (published ?d) (in_base_generation i) (int seq) (published_digest ?d)
           = Inr (the (pj_pending_operation (prepared_projection L seq i current prev)))"
    using restore cp seq i gen s
    by (auto simp: prepared_from_document_def field_published prepared_projection_def Let_def
        checkpoint_ok_def construct_def valid_prepared_def po_intent_def valid_intent_def
        settled_def ledger_projection_def require_sha256_def split: option.splits)
  have "current \<noteq> None \<Longrightarrow> fst (rb_checkpoint ?b) = pj_latest_checkpoint_id (the current)
        \<and> snd (rb_checkpoint ?b) = pj_checkpoint_manifest_digest (the current)" by auto
  have "replay_prepared L seq (published ?d) ?b \<lparr>rp_projection = current, rp_pending = None, rp_previous = prev\<rparr>
        = Inr \<lparr>rp_projection = Some (prepared_projection L seq i current prev),
                rp_pending = pj_pending_operation (prepared_projection L seq i current prev),
                rp_previous = Some (published_digest ?d)\<rparr>"
    using gen q restore L seq
    by (cases current)
      (auto simp: replay_prepared_def Let_def field_published make_projection_def construct_def
        valid_event_def prepared_projection_def valid_ledger_id_def require_defs)
  then show ?thesis
    by (simp add: replay_step_def decode_published base)
qed

lemma replay_step_terminal:
  assumes L: "valid_ledger_id L" and cur: "ledger_projection L cur"
    and pending: "pj_pending_operation cur = Some q" and phase: "phase \<noteq> Phase_recovery_required"
    and cp: "checkpoint_ok cid cdg" and seq: "0 < seq"
  shows "replay_step L \<lparr>rp_projection = Some cur, rp_pending = Some q,
                         rp_previous = Some (er_event_digest (pj_event_receipt cur))\<rparr> seq
           (Regular_file (Some (canonical_record (sign_document (terminal_document L (int seq) q phase cid cdg)))))
         = Inr \<lparr>rp_projection = Some (committed_projection L seq q phase cid cdg), rp_pending = None,
                rp_previous = Some (published_digest (terminal_document L (int seq) q phase cid cdg))\<rparr>"
proof -
  let ?d = "terminal_document L (int seq) q phase cid cdg"
  let ?b = "\<lparr>rb_operation_id = po_operation_id q, rb_kind = Kind_terminal, rb_action = po_action q,
     rb_digest = published_digest ?d, rb_generation = po_base_generation q,
     rb_phase = po_base_phase q,
     rb_checkpoint = (po_base_latest_checkpoint_id q, po_base_checkpoint_manifest_digest q),
     rb_restore = (po_restore_checkpoint_id q, po_restore_checkpoint_manifest_digest q),
     rb_restore_cycle = po_restore_cycle_identity_digest q\<rparr>"
  have m: "pending_matches cur q" using cur pending by (simp add: ledger_projection_def)
  then have v: "valid_prepared q" and prev: "er_event_digest (pj_event_receipt cur) = po_record_digest q"
    by (simp_all add: pending_matches_def)
  have base: "check_base L (Some (po_record_digest q)) seq (published ?d) = Inr ?b"
    using valid_intent_restore [of "po_intent q"] v
    by (intro check_base_published [OF L])
      (simp_all only: ledger_document_terminal field_terminal,
        auto simp: valid_prepared_def po_intent_def checkpoint_ok_def require_defs)
  have "replay_terminal L seq (published ?d) ?b
          \<lparr>rp_projection = Some cur, rp_pending = Some q, rp_previous = Some (po_record_digest q)\<rparr>
        = Inr \<lparr>rp_projection = Some (committed_projection L seq q phase cid cdg), rp_pending = None,
                rp_previous = Some (published_digest ?d)\<rparr>"
    using v phase L seq cp
    by (auto simp: replay_terminal_def field_published make_projection_def construct_def
        valid_event_def committed_projection_def valid_ledger_id_def valid_prepared_def
        valid_intent_def po_intent_def require_sha256_def require_text_def)
  then show ?thesis
    by (simp add: replay_step_def decode_published prev base)
qed

subsection \<open>Loading\<close>

definition previous_digest :: "projection option \<Rightarrow> string option" where
  "previous_digest current = map_option (er_event_digest \<circ> pj_event_receipt) current"

definition replay_state :: "projection option \<Rightarrow> replay" where
  "replay_state current = \<lparr>rp_projection = current,
     rp_pending = Option.bind current pj_pending_operation, rp_previous = previous_digest current\<rparr>"

definition loaded :: "ledger_id \<Rightarrow> records_root \<Rightarrow> (string \<times> dir_entry) list \<Rightarrow> projection option \<Rightarrow> bool" where
  "loaded L root rows current \<longleftrightarrow>
     record_paths root = Inr rows \<and> replay_rows L empty_replay 1 rows = Inr (replay_state current)"

lemma replay_state_unique: "replay_inv L n st \<Longrightarrow> st = replay_state (rp_projection st)"
  by (cases st) (auto simp: replay_inv_def replay_state_def previous_digest_def split: option.splits)

lemma load_ledger_loaded: "load_ledger L s = Inr current \<longleftrightarrow> (\<exists>rows. loaded L (ls_root s) rows current)"
proof
  assume "load_ledger L s = Inr current"
  then obtain rows st where "record_paths (ls_root s) = Inr rows"
    "replay_rows L empty_replay 1 rows = Inr st" "current = rp_projection st"
    by (auto simp: load_ledger_def bind_result_Inr_iff)
  moreover from this have "replay_inv L (length rows) st"
    using replay_rows_inv [OF replay_inv_empty, of L rows st] by simp
  ultimately show "\<exists>rows. loaded L (ls_root s) rows current"
    unfolding loaded_def by (metis replay_state_unique)
qed (auto simp: loaded_def load_ledger_def replay_state_def)

lemma loaded_inv:
  assumes "loaded L root rows current"
  shows "int (length rows) = record_count current"
    and "\<And>p. current = Some p \<Longrightarrow> ledger_projection L p"
    and "\<And>p. current = Some p \<Longrightarrow> er_record_sequence (pj_event_receipt p) = int (length rows)"
    and "last_record_digest rows = Inr (previous_digest current)"
    and "optional_sha256 (previous_digest current)"
proof -
  have inv: "replay_inv L (length rows) (replay_state current)"
    using assms replay_rows_inv [OF replay_inv_empty, of L rows] by (simp add: loaded_def)
  then show "int (length rows) = record_count current"
    "\<And>p. current = Some p \<Longrightarrow> ledger_projection L p"
    "\<And>p. current = Some p \<Longrightarrow> er_record_sequence (pj_event_receipt p) = int (length rows)"
    by (simp_all add: replay_inv_def replay_state_def)
  from this(2) show "optional_sha256 (previous_digest current)"
    by (cases current)
      (simp_all add: previous_digest_def ledger_projection_def valid_event_def require_defs)
  show "last_record_digest rows = Inr (previous_digest current)"
    using assms last_record_digest_replay by (fastforce simp: loaded_def replay_state_def)
qed

lemma loaded_snoc:
  assumes "loaded L root rows current"
    and "record_paths root' = Inr (rows @ [(n, e)])"
    and "replay_step L (replay_state current) (Suc (length rows)) e = Inr (replay_state next)"
  shows "loaded L root' (rows @ [(n, e)]) next"
  using assms by (simp add: loaded_def replay_rows_append)

subsection \<open>Publishing the next record\<close>

lemma dict_set_again: "dict_set k v (dict_set k v d) = dict_set k v d"
  by (induction k v d rule: dict_set.induct) auto

lemma publish_next:
  assumes rows: "record_paths (ls_root s) = Inr rows" and len: "Suc (length rows) < 10 ^ 20"
    and pub: "publish (Suc (length rows)) d s = (s', r)"
  shows "(\<exists>e. r = Inl e) \<and> record_paths (ls_root s') = Inr rows
    \<or> record_paths (ls_root s') = Inr (rows @ [(record_name (Suc (length rows)),
         Regular_file (Some (canonical_record (sign_document d))))])"
    (is "_ \<or> ?new (ls_root s')")
proof -
  let ?name = "record_name (Suc (length rows))"
  let ?payload = "canonical_record (sign_document d)"
  let ?old = "root_entries (ls_root s)"
  let ?set = "dict_set ?name (Regular_file (Some ?payload))"
  have free: "map_of ?old ?name = None"
    using record_paths_free [OF rows lessI len] by (simp add: map_of_eq_None_iff)
  have new: "?new (Root_directory (?set ?old))"
    by (rule record_paths_snoc [OF rows len])
  have same: "record_paths (Root_directory ?old) = Inr rows"
    by (rule record_paths_entries [OF rows]) (use len in simp)
  have not_invalid: "ls_root s \<noteq> Root_invalid" using rows by (auto simp: record_paths_def)
  show ?thesis
    using pub free not_invalid new same
    by (cases "ls_root s"; cases "ls_writes s"; cases "tl (ls_writes s)")
      (auto simp: publish_def Let_def atomic_replace_def target_holds_def map_of_dict_set dict_set_again
        split: if_splits prod.splits list.splits)
qed

lemma publish_durable:
  assumes "ls_writes s = []" "ls_root s \<noteq> Root_invalid"
    and "map_of (root_entries (ls_root s)) (record_name n) = None"
  shows "\<exists>s'. publish n d s = (s', Inr (canonical_record (sign_document d))) \<and> ls_writes s' = []"
  using assms by (cases "ls_root s") (auto simp: publish_def Let_def atomic_replace_def)

subsection \<open>The operations refine the abstract run\<close>

definition ledger_room :: "ledger_id \<Rightarrow> nat \<Rightarrow> ledger_store \<Rightarrow> bool" where
  "ledger_room L k s \<longleftrightarrow> valid_ledger_id L
     \<and> (case load_ledger L s of Inl _ \<Rightarrow> False
        | Inr current \<Rightarrow> record_count current + int k < 10 ^ 20)"

lemma ledger_room_loaded:
  assumes "ledger_room L k s"
  obtains rows current where "loaded L (ls_root s) rows current" "load_ledger L s = Inr current"
    "length rows + k < 10 ^ 20" "valid_ledger_id L"
proof -
  obtain current where c: "load_ledger L s = Inr current" "record_count current + int k < 10 ^ 20"
    "valid_ledger_id L"
    using assms by (auto simp: ledger_room_def split: sum.splits)
  then obtain rows where rows: "loaded L (ls_root s) rows current" by (auto simp: load_ledger_loaded)
  have "int (length rows + k) < int (10 ^ 20)" using c(2) loaded_inv(1) [OF rows] by simp
  then have "length rows + k < 10 ^ 20" by (simp only: of_nat_less_iff)
  with that rows c show ?thesis by blast
qed

lemma loaded_load: "loaded L (ls_root s) rows current \<Longrightarrow> load_ledger L s = Inr current"
  by (auto simp: load_ledger_loaded)

lemma loaded_same_root: "record_paths (ls_root s') = record_paths (ls_root s) \<Longrightarrow> load_ledger L s' = load_ledger L s"
  by (simp add: load_ledger_def)

lemma require_startable_spec:
  assumes "settled L current" "a \<in> {Action_run, Action_stop, Action_resume}"
  shows "require_startable a current = spec_startable a (sp_phase (spec_of current))"
  using assms
  by (cases current) (auto simp: require_startable_def spec_of_def settled_def)

lemma intent_matches_iff: "intent_matches p i \<longleftrightarrow> po_intent p = i"
  by (cases i) (auto simp: intent_matches_def po_intent_def)

lemma spec_of_pending: "sp_pending (spec_of current) = map_option po_intent (Option.bind current pj_pending_operation)"
  by (cases current) (simp_all add: spec_of_def)

lemma spec_of_generation [simp]: "sp_generation (spec_of current) = current_generation current"
  by (simp add: spec_of_def current_generation_def split: option.splits)

lemma settled_loaded:
  "loaded L root rows current \<Longrightarrow> Option.bind current pj_pending_operation = None \<Longrightarrow> settled L current"
  using loaded_inv(2) [of L root rows current] by (cases current) (auto simp: settled_def)

text \<open>What \<open>prepare\<close> publishes once its guards have passed.\<close>

lemma prepare_new_cases:
  assumes rows: "loaded L (ls_root s) rows current" and len: "Suc (length rows) < 10 ^ 20"
    and L: "valid_ledger_id L" and i: "valid_intent i"
    and none: "Option.bind current pj_pending_operation = None"
  shows "case spec_prepare i (spec_of current) of
      Inl e \<Rightarrow> prepare_new L i current s = (s, Inl e)
    | Inr _ \<Rightarrow> (let p = prepared_projection L (Suc (length rows)) i current (previous_digest current);
                  (s', r) = prepare_new L i current s
               in (load_ledger L s' = Inr current \<and> (\<exists>e. r = Inl e)
                  \<or> load_ledger L s' = Inr (Some p)
                     \<and> (r = Inr \<lparr>pr_projection = p,
                                pr_prepared_operation = the (pj_pending_operation p),
                                pr_created = True\<rparr> \<or> (\<exists>e. r = Inl e)))
                 \<and> (ls_writes s = [] \<longrightarrow> (\<exists>x. r = Inr x) \<and> ls_writes s' = []))"
proof -
  let ?n = "Suc (length rows)" and ?prev = "previous_digest current"
  let ?d = "prepared_document L ?n i current ?prev"
  let ?p = "prepared_projection L ?n i current ?prev"
  note inv = loaded_inv [OF rows] and set = settled_loaded [OF rows none]
  have paths: "record_paths (ls_root s) = Inr rows" using rows by (simp add: loaded_def)
  have act: "in_action i \<in> {Action_run, Action_stop, Action_resume}"
    by (rule valid_intent_restore(4) [OF i])
  have slot: "prepare_slot i current s =
    (case spec_prepare i (spec_of current) of Inl e \<Rightarrow> Inl e | Inr _ \<Rightarrow> Inr (?n, ?prev))"
    using inv(4) paths none
    by (cases "spec_startable (in_action i) (sp_phase (spec_of current))")
      (auto simp: prepare_slot_def spec_prepare_def spec_of_pending require_expected_def Let_def
        require_startable_spec [OF set act] current_generation_def split: option.splits)
  show ?thesis
  proof (cases "spec_prepare i (spec_of current)")
    case (Inl e)
    then show ?thesis by (simp add: prepare_new_def slot)
  next
    case (Inr x)
    obtain s' r where pub: "publish ?n ?d s = (s', r)" by fastforce
    have gen: "in_base_generation i = current_generation current"
      using Inr none by (auto simp: spec_prepare_def spec_of_pending split: if_splits)
    have step: "replay_step L (replay_state current) ?n
        (Regular_file (Some (canonical_record (sign_document ?d)))) = Inr (replay_state (Some ?p))"
      using replay_step_prepared [OF L i set _ inv(5), of ?n] gen none
      by (simp add: replay_state_def current_generation_def previous_digest_def)
        (simp add: prepared_projection_def Let_def)
    have "(\<exists>e. r = Inl e) \<and> load_ledger L s' = Inr current \<or> load_ledger L s' = Inr (Some ?p)"
      using publish_next [OF paths len pub] loaded_snoc [OF rows _ step] loaded_load
        loaded_same_root [of s' s L] loaded_load [OF rows] paths
      by metis
    moreover have "ls_writes s = [] \<Longrightarrow> (\<exists>x. r = Inr x) \<and> ls_writes s' = []"
      using publish_durable [of s ?n ?d] record_paths_free [OF paths lessI len] paths pub
      by (auto simp: map_of_eq_None_iff record_paths_def split: records_root.splits)
    moreover have "\<exists>q. pj_pending_operation ?p = Some q" by (simp add: prepared_projection_def Let_def)
    moreover have "prepare_new L i current s = (s', bind_result r (\<lambda>_. reload_prepared L s'))"
      by (simp add: prepare_new_def slot Inr pub)
    ultimately show ?thesis
      by (cases r) (auto simp: Inr Let_def reload_prepared_def)
  qed
qed

lemma spec_prepared_projection:
  assumes "spec_prepare i (spec_of current) = Inr (sp, True)"
    and "Option.bind current pj_pending_operation = None"
  shows "spec_of (Some (prepared_projection L n i current prev)) = sp"
  using assms
  by (cases current)
    (auto simp: spec_prepare_def spec_of_def prepared_projection_def Let_def po_intent_def
      bind_result_Inr_iff split: if_splits)

lemma ledger_prepare_unfold:
  assumes "load_ledger L s = Inr current"
  shows "ledger_prepare L i s =
    (case Option.bind current pj_pending_operation of
       None \<Rightarrow> prepare_new L i current s
     | Some q \<Rightarrow> (s, if po_intent q = i
                   then Inr \<lparr>pr_projection = the current, pr_prepared_operation = q, pr_created = False\<rparr>
                   else Inl Run_conflict))"
  using assms
  by (cases current) (auto simp: ledger_prepare_def intent_matches_iff split: option.splits)

text \<open>What \<open>commit\<close> publishes once its guards have passed.\<close>

lemma ledger_commit_cases:
  assumes rows: "loaded L (ls_root s) rows current" and len: "Suc (length rows) < 10 ^ 20"
    and L: "valid_ledger_id L"
  shows "case spec_commit op phase cid cdg (spec_of current) of
      Inl e \<Rightarrow> ledger_commit L op phase cid cdg s = (s, Inl e)
    | Inr _ \<Rightarrow> (let p = committed_projection L (Suc (length rows))
                        (the (Option.bind current pj_pending_operation)) phase cid cdg;
                  (s', r) = ledger_commit L op phase cid cdg s
               in (load_ledger L s' = Inr current \<and> (\<exists>e. r = Inl e)
                  \<or> load_ledger L s' = Inr (Some p) \<and> (r = Inr p \<or> (\<exists>e. r = Inl e)))
                 \<and> (ls_writes s = [] \<longrightarrow> (\<exists>x. r = Inr x) \<and> ls_writes s' = []))"
proof (cases "spec_commit op phase cid cdg (spec_of current)")
  case (Inl e)
  have "ledger_commit L op phase cid cdg s = (s, Inl e)"
    using Inl loaded_load [OF rows]
    by (auto simp: ledger_commit_def spec_commit_def spec_of_pending checkpoint_ok_def po_intent_def
        bind_eq_Some_conv split: if_splits option.splits)
  then show ?thesis by (simp add: Inl)
next
  case (Inr sp)
  then obtain cur q where cur: "current = Some cur" and q: "pj_pending_operation cur = Some q"
    and guards: "is_sha256 op" "phase \<noteq> Phase_recovery_required" "po_operation_id q = op"
      "checkpoint_ok cid cdg"
    by (auto simp: spec_commit_def spec_of_pending po_intent_def bind_eq_Some_conv
        split: if_splits option.splits)
  let ?n = "Suc (length rows)"
  let ?d = "terminal_document L (int ?n) q phase cid cdg"
  let ?p = "committed_projection L ?n q phase cid cdg"
  note inv = loaded_inv [OF rows]
  have paths: "record_paths (ls_root s) = Inr rows" using rows by (simp add: loaded_def)
  have seq: "er_record_sequence (pj_event_receipt cur) + 1 = int ?n" using inv(3) cur by simp
  obtain s' r where pub: "publish ?n ?d s = (s', r)" by fastforce
  have step: "replay_step L (replay_state current) ?n
      (Regular_file (Some (canonical_record (sign_document ?d)))) = Inr (replay_state (Some ?p))"
    using replay_step_terminal [OF L inv(2) [OF cur] q guards(2,4), of ?n] q
    by (simp add: replay_state_def previous_digest_def cur) (simp add: committed_projection_def)
  have "(\<exists>e. r = Inl e) \<and> load_ledger L s' = Inr current \<or> load_ledger L s' = Inr (Some ?p)"
    using publish_next [OF paths len pub] loaded_snoc [OF rows _ step] loaded_load
      loaded_same_root [of s' s L] loaded_load [OF rows] paths
    by metis
  moreover have "ls_writes s = [] \<Longrightarrow> (\<exists>x. r = Inr x) \<and> ls_writes s' = []"
    using publish_durable [of s ?n ?d] record_paths_free [OF paths lessI len] paths pub
    by (auto simp: map_of_eq_None_iff record_paths_def split: records_root.splits)
  moreover have "pj_pending_operation ?p = None" by (simp add: committed_projection_def)
  moreover have "ledger_commit L op phase cid cdg s = (s', bind_result r (\<lambda>_. reload_terminal L s'))"
    using guards loaded_load [OF rows] pub
    by (simp add: ledger_commit_def cur q seq nat_add_distrib checkpoint_ok_def del: of_nat_Suc)
  ultimately show ?thesis
    by (cases r) (auto simp: Inr [unfolded cur] Let_def reload_terminal_def cur q)
qed

lemma spec_committed_projection:
  assumes "spec_commit op phase cid cdg (spec_of current) = Inr sp"
    and "\<And>p. current = Some p \<Longrightarrow> ledger_projection L p"
    and "p = committed_projection L n (the (Option.bind current pj_pending_operation)) phase cid cdg"
  shows "spec_of (Some p) = sp" "er_operation_id (pj_event_receipt p) = op"
    "record_count (Some p) = record_count current + 1"
  using assms
  by (auto simp: spec_commit_def spec_of_def committed_projection_def po_intent_def record_count_def
      ledger_projection_def pending_matches_def split: if_splits option.splits)

subsection \<open>The directory ledger is a run-control ledger\<close>

lemma record_count_prepared:
  "current_generation current = in_base_generation i \<Longrightarrow>
   Option.bind current pj_pending_operation = None \<Longrightarrow>
     record_count (Some (prepared_projection L n i current prev)) = record_count current + 1"
  by (cases current)
    (simp_all add: record_count_def prepared_projection_def Let_def current_generation_def)

lemma ledger_room_suc: "ledger_room L (Suc k) s \<Longrightarrow> ledger_room L k s"
  by (auto simp: ledger_room_def split: sum.splits)

lemma ledger_room_step:
  assumes "ledger_room L (Suc k) s" "load_ledger L s = Inr current"
    and "load_ledger L s' = Inr current \<or>
         (\<exists>p. load_ledger L s' = Inr (Some p) \<and> record_count (Some p) = record_count current + 1)"
  shows "ledger_room L k s'"
  using assms by (auto simp: ledger_room_def)

lemma ledger_room_current:
  assumes "ledger_room L (Suc k) s" "load_ledger L s = Inr current"
  obtains rows where "loaded L (ls_root s) rows current" "valid_ledger_id L"
    "Suc (length rows) < 10 ^ 20"
proof (rule ledger_room_loaded [OF assms(1)])
  fix rows current'
  assume "loaded L (ls_root s) rows current'" "load_ledger L s = Inr current'"
    "length rows + Suc k < 10 ^ 20" "valid_ledger_id L"
  with that assms(2) show thesis by simp
qed

text \<open>One \<open>prepare\<close>, whatever happens to its file writes.\<close>

lemma ledger_prepare_step:
  assumes room: "ledger_room L (Suc k) s" and i: "valid_intent i"
    and load: "load_ledger L s = Inr current"
  shows "case spec_prepare i (spec_of current) of
      Inl e \<Rightarrow> ledger_prepare L i s = (s, Inl e)
    | Inr (sp, False) \<Rightarrow> ledger_prepare L i s = (s, Inr \<lparr>pr_projection = the current,
        pr_prepared_operation = the (Option.bind current pj_pending_operation), pr_created = False\<rparr>)
    | Inr (sp, True) \<Rightarrow> (\<exists>s' r. ledger_prepare L i s = (s', r)
        \<and> (load_ledger L s' = Inr current \<and> (\<exists>e. r = Inl e)
           \<or> (\<exists>p q. load_ledger L s' = Inr (Some p) \<and> spec_of (Some p) = sp
                \<and> record_count (Some p) = record_count current + 1
                \<and> pj_pending_operation p = Some q
                \<and> (r = Inr \<lparr>pr_projection = p, pr_prepared_operation = q, pr_created = True\<rparr>
                   \<or> (\<exists>e. r = Inl e))))
        \<and> (ls_writes s = [] \<longrightarrow> (\<exists>x. r = Inr x) \<and> ls_writes s' = []))"
proof -
  obtain rows where rows: "loaded L (ls_root s) rows current" and L: "valid_ledger_id L"
    and len: "Suc (length rows) < 10 ^ 20"
    by (rule ledger_room_current [OF room load])
  note unfold = ledger_prepare_unfold [OF load, of i]
  show ?thesis
  proof (cases "Option.bind current pj_pending_operation")
    case (Some q)
    then show ?thesis by (simp add: unfold spec_prepare_def spec_of_pending)
  next
    case None
    note new = prepare_new_cases [OF rows len L i None]
    show ?thesis
    proof (cases "spec_prepare i (spec_of current)")
      case (Inl e)
      then show ?thesis using new by (simp add: unfold None)
    next
      case (Inr x)
      then obtain sp where x: "spec_prepare i (spec_of current) = Inr (sp, True)"
        and gen: "current_generation current = in_base_generation i"
        using None by (auto simp: spec_prepare_def spec_of_pending bind_result_Inr_iff split: if_splits)
      have "\<exists>q. pj_pending_operation (prepared_projection L n i current prev) = Some q" for n prev
        by (simp add: prepared_projection_def Let_def)
      then show ?thesis
        using new x spec_prepared_projection [OF x None] record_count_prepared [OF gen None]
        by (fastforce simp: unfold None Let_def split: prod.splits)
    qed
  qed
qed

lemma ledger_commit_step:
  assumes room: "ledger_room L (Suc k) s" and load: "load_ledger L s = Inr current"
  shows "case spec_commit op phase cid cdg (spec_of current) of
      Inl e \<Rightarrow> ledger_commit L op phase cid cdg s = (s, Inl e)
    | Inr sp \<Rightarrow> (\<exists>s' r. ledger_commit L op phase cid cdg s = (s', r)
        \<and> (load_ledger L s' = Inr current \<and> (\<exists>e. r = Inl e)
           \<or> (\<exists>p. load_ledger L s' = Inr (Some p) \<and> spec_of (Some p) = sp
                \<and> record_count (Some p) = record_count current + 1
                \<and> er_operation_id (pj_event_receipt p) = op
                \<and> (r = Inr p \<or> (\<exists>e. r = Inl e))))
        \<and> (ls_writes s = [] \<longrightarrow> (\<exists>x. r = Inr x) \<and> ls_writes s' = []))"
proof -
  obtain rows where rows: "loaded L (ls_root s) rows current" and L: "valid_ledger_id L"
    and len: "Suc (length rows) < 10 ^ 20"
    by (rule ledger_room_current [OF room load])
  note cases = ledger_commit_cases [OF rows len L, of op phase cid cdg]
  show ?thesis
  proof (cases "spec_commit op phase cid cdg (spec_of current)")
    case (Inl e)
    then show ?thesis using cases by simp
  next
    case (Inr sp)
    then show ?thesis
      using cases spec_committed_projection [OF Inr loaded_inv(2) [OF rows] refl]
      by (fastforce simp: Let_def split: prod.splits)
  qed
qed

lemma ledger_read_expected:
  "load_ledger L s = Inr c \<Longrightarrow>
     ledger_read L (Some g) s =
       (if g = current_generation c then Inr c else Inl (Run_stale_generation g (current_generation c)))"
  by (simp add: ledger_read_def require_expected_def current_generation_def)

lemma ledger_read_None [simp]: "ledger_read L None = load_ledger L"
proof
  fix s show "ledger_read L None s = load_ledger L s"
    by (cases "load_ledger L s") (simp_all add: ledger_read_def)
qed

interpretation directory_ledger:
  run_control_ledger L "ledger_read L" "ledger_prepare L" "ledger_commit L" "ledger_room L"
    "\<lambda>s. ls_writes s = []" for L
proof unfold_locales
  fix k s assume room: "ledger_room L k s"
  then show "valid_ledger_id L" by (simp add: ledger_room_def)
  show "\<exists>c. ledger_read L None s = Inr c"
    using room by (auto simp: ledger_room_def split: sum.splits)
next
  fix k s assume "ledger_room L (Suc k) s"
  then show "ledger_room L k s" by (rule ledger_room_suc)
next
  fix k s p assume "ledger_read L None s = Inr (Some p)"
  then show "ledger_projection L p" using loaded_inv(2) by (auto simp: load_ledger_loaded)
next
  fix s c g assume "ledger_read L None s = Inr c"
  then show "ledger_read L (Some g) s =
      (if g = current_generation c then Inr c else Inl (Run_stale_generation g (current_generation c)))"
    by (simp add: ledger_read_expected)
next
  fix k s i assume room: "ledger_room L (Suc k) s" and i: "valid_intent i"
  obtain c where c: "load_ledger L s = Inr c" using ledger_room_loaded [OF room] by metis
  note step = ledger_prepare_step [OF room i c]
  show "ledger_room L k (fst (ledger_prepare L i s))"
    using step ledger_room_step [OF room c] ledger_room_suc [OF room]
    by (auto split: sum.splits prod.splits bool.splits)
next
  fix k s i c e assume room: "ledger_room L (Suc k) s" and i: "valid_intent i"
    and "ledger_read L None s = Inr c" "spec_prepare i (spec_of c) = Inl e"
  then show "ledger_prepare L i s = (s, Inl e)" using ledger_prepare_step [OF room i, of c] by simp
next
  fix k s i p sp assume room: "ledger_room L (Suc k) s" and i: "valid_intent i"
    and "ledger_read L None s = Inr (Some p)" "spec_prepare i (spec_of (Some p)) = Inr (sp, False)"
  then show "ledger_prepare L i s = (s, Inr \<lparr>pr_projection = p,
      pr_prepared_operation = the (pj_pending_operation p), pr_created = False\<rparr>)"
    using ledger_prepare_step [OF room i, of "Some p"] by simp
next
  fix k s i c sp s' r assume room: "ledger_room L (Suc k) s" and i: "valid_intent i"
    and "ledger_read L None s = Inr c" "spec_prepare i (spec_of c) = Inr (sp, True)"
      "ledger_prepare L i s = (s', Inr r)"
  then show "ledger_read L None s' = Inr (Some (pr_projection r)) \<and> spec_of (Some (pr_projection r)) = sp
      \<and> pj_pending_operation (pr_projection r) = Some (pr_prepared_operation r) \<and> pr_created r"
    using ledger_prepare_step [OF room i, of c] by auto
next
  fix k s i c sp s' e assume room: "ledger_room L (Suc k) s" and i: "valid_intent i"
    and "ledger_read L None s = Inr c" "spec_prepare i (spec_of c) = Inr (sp, True)"
      "ledger_prepare L i s = (s', Inl e)"
  then show "ledger_read L None s' = Inr c \<or> (\<exists>c'. ledger_read L None s' = Inr c' \<and> spec_of c' = sp)"
    using ledger_prepare_step [OF room i, of c] by auto
next
  fix k s op phase cid cdg assume room: "ledger_room L (Suc k) s"
  obtain c where c: "load_ledger L s = Inr c" using ledger_room_loaded [OF room] by metis
  show "ledger_room L k (fst (ledger_commit L op phase cid cdg s))"
    using ledger_commit_step [OF room c, of op phase cid cdg] ledger_room_step [OF room c]
      ledger_room_suc [OF room]
    by (auto split: sum.splits)
next
  fix k s c op phase cid cdg e assume room: "ledger_room L (Suc k) s"
    and "ledger_read L None s = Inr c" "spec_commit op phase cid cdg (spec_of c) = Inl e"
  then show "ledger_commit L op phase cid cdg s = (s, Inl e)"
    using ledger_commit_step [OF room, of c op phase cid cdg] by simp
next
  fix k s c op phase cid cdg sp s' p assume room: "ledger_room L (Suc k) s"
    and "ledger_read L None s = Inr c" "spec_commit op phase cid cdg (spec_of c) = Inr sp"
      "ledger_commit L op phase cid cdg s = (s', Inr p)"
  then show "ledger_read L None s' = Inr (Some p) \<and> spec_of (Some p) = sp
      \<and> er_operation_id (pj_event_receipt p) = op"
    using ledger_commit_step [OF room, of c op phase cid cdg] by auto
next
  fix k s c op phase cid cdg sp s' e assume room: "ledger_room L (Suc k) s"
    and "ledger_read L None s = Inr c" "spec_commit op phase cid cdg (spec_of c) = Inr sp"
      "ledger_commit L op phase cid cdg s = (s', Inl e)"
  then show "ledger_read L None s' = Inr c
      \<or> (\<exists>p. ledger_read L None s' = Inr (Some p) \<and> spec_of (Some p) = sp
            \<and> er_operation_id (pj_event_receipt p) = op)"
    using ledger_commit_step [OF room, of c op phase cid cdg] by auto
next
  fix k s i c sp b assume room: "ledger_room L (Suc k) s" and i: "valid_intent i"
    and "ls_writes s = []" "ledger_read L None s = Inr c" "spec_prepare i (spec_of c) = Inr (sp, b)"
  then show "\<exists>s' x. ledger_prepare L i s = (s', Inr x) \<and> ls_writes s' = []"
    using ledger_prepare_step [OF room i, of c] by (cases b) fastforce+
next
  fix k s op phase cid cdg c sp assume room: "ledger_room L (Suc k) s"
    and "ls_writes s = []" "ledger_read L None s = Inr c"
      "spec_commit op phase cid cdg (spec_of c) = Inr sp"
  then show "\<exists>s' p. ledger_commit L op phase cid cdg s = (s', Inr p) \<and> ls_writes s' = []"
    using ledger_commit_step [OF room, of c op phase cid cdg] by fastforce
qed

subsection \<open>The hash chain\<close>

text \<open>The text whose SHA-256 a record carries.\<close>

definition record_preimage :: "dir_entry \<Rightarrow> string option" where
  "record_preimage e =
     (case decode_record e of
        Inl _ \<Rightarrow> None
      | Inr d \<Rightarrow> Some (dumps False (JObj (filter (\<lambda>(k, v). k \<noteq> ''record_digest'') d))))"

lemma decode_record_Inr:
  assumes "decode_record e = Inr d"
  shows "e = Regular_file (Some (canonical_record d))" "json_wf (JObj d)"
    "sort_keys (JObj d) = JObj d" "''record_digest'' \<in> set (map fst d)"
proof -
  obtain raw where e: "e = Regular_file (Some raw)" and raw: "json_loads False raw = Inr (JObj d)"
    "canonical_record d = raw" "set (map fst d) = set record_fields"
    using assms
    by (auto simp: decode_record_def split: dir_entry.splits option.splits sum.splits if_splits json.splits)
  show "e = Regular_file (Some (canonical_record d))" using e raw by simp
  show wf: "json_wf (JObj d)" by (rule json_loads_wf [OF raw(1)])
  show "sort_keys (JObj d) = JObj d"
    using json_loads_dumps(2) [OF wf, of False False] raw unfolding canonical_record_def by simp
  show "''record_digest'' \<in> set (map fst d)" unfolding raw(3) by (simp add: record_fields_def)
qed

lemma sorted_document:
  assumes "sort_keys (JObj d) = JObj d"
  shows "sorted (map fst d)" "\<And>k v. (k, v) \<in> set d \<Longrightarrow> sort_keys v = v"
proof -
  have d: "sort_key fst (map (\<lambda>(k, v). (k, sort_keys v)) d) = d" using assms by simp
  show "sorted (map fst d)" by (subst d [symmetric]) simp
  then have "sort_key fst (map (\<lambda>(k, v). (k, sort_keys v)) d) = map (\<lambda>(k, v). (k, sort_keys v)) d"
    by (intro sort_key_sorted_id) (simp add: comp_def case_prod_unfold)
  then have "map (\<lambda>(k, v). (k, sort_keys v)) d = d" using d by simp
  then show "\<And>k v. (k, v) \<in> set d \<Longrightarrow> sort_keys v = v" by (auto simp: map_eq_conv [of _ _ id, simplified])
qed

lemma sort_keys_filter:
  assumes "sort_keys (JObj d) = JObj d"
  shows "sort_keys (JObj (filter P d)) = JObj (filter P d)"
proof -
  note s = sorted_document [OF assms]
  have "map (\<lambda>(k, v). (k, sort_keys v)) (filter P d) = filter P d"
    by (rule map_idI) (use s(2) in auto)
  moreover have "sorted (map fst (filter P d))" using s(1) by (rule sorted_filter)
  ultimately show ?thesis by (simp add: sort_key_sorted_id)
qed

lemma set_without_key:
  assumes "distinct (map fst x)" "k \<in> set (map fst x)"
  shows "set x = set (filter (\<lambda>(k', v). k' \<noteq> k) x) \<union> {(k, field x k)}"
proof -
  obtain v where v: "(k, v) \<in> set x" using assms(2) by auto
  then have "field x k = v" by (simp add: field_def map_of_is_SomeI [OF assms(1)])
  moreover have "p \<in> set x \<longleftrightarrow> p \<in> set (filter (\<lambda>(k', v). k' \<noteq> k) x) \<union> {(k, v)}" for p
    using v eq_key_imp_eq_value [OF assms(1) v, of "snd p"] by (cases p) auto
  ultimately show ?thesis by blast
qed

text \<open>Two records with the same preimage and the same digest field are the same file.\<close>

lemma same_preimage:
  assumes d: "decode_record e = Inr d" "decode_record e' = Inr d'"
    and pre: "record_preimage e = record_preimage e'"
    and dg: "field d ''record_digest'' = field d' ''record_digest''"
  shows "e = e'" "d = d'"
proof -
  note D = decode_record_Inr [OF d(1)] and D' = decode_record_Inr [OF d(2)]
  let ?P = "\<lambda>(k, v). k \<noteq> ''record_digest''"
  have wf: "json_wf (JObj (filter ?P d))" "json_wf (JObj (filter ?P d'))"
    using D(2) D'(2) by (auto simp: list_all_iff distinct_map_filter)
  have "dumps False (JObj (filter ?P d)) = dumps False (JObj (filter ?P d'))"
    using pre d by (simp add: record_preimage_def)
  then have rest: "filter ?P d = filter ?P d'"
    using dumps_inject [OF wf] sort_keys_filter [OF D(3)] sort_keys_filter [OF D'(3)] by (simp del: sort_keys.simps)
  have split: "set x = set (filter ?P x) \<union> {(''record_digest'', field x ''record_digest'')}"
    if wf: "json_wf (JObj x)" and key: "''record_digest'' \<in> set (map fst x)" for x
    by (rule set_without_key) (use wf key in simp_all)
  have "set d = set (filter ?P d) \<union> {(''record_digest'', field d ''record_digest'')}"
    by (rule split [OF D(2,4)])
  also have "\<dots> = set (filter ?P d') \<union> {(''record_digest'', field d' ''record_digest'')}"
    by (simp only: rest dg)
  also have "\<dots> = set d'" by (rule split [OF D'(2,4), symmetric])
  finally show "d = d'"
    using sorted_document(1) [OF D(3)] sorted_document(1) [OF D'(3)] D(2) D'(2)
    by (intro map_sorted_distinct_set_unique [of fst]) (auto simp: distinct_map)
  then show "e = e'" using D(1) D'(1) by simp
qed

definition digest_collision :: "dir_entry set \<Rightarrow> dir_entry set \<Rightarrow> bool" where
  "digest_collision A B \<longleftrightarrow>
     (\<exists>a\<in>A. \<exists>b\<in>B. \<exists>p q. record_preimage a = Some p \<and> record_preimage b = Some q
        \<and> p \<noteq> q \<and> sha256_text p = sha256_text q)"

lemma digest_collision_mono:
  "digest_collision A B \<Longrightarrow> A \<subseteq> A' \<Longrightarrow> B \<subseteq> B' \<Longrightarrow> digest_collision A' B'"
  unfolding digest_collision_def by blast

lemma replay_prepared_previous:
  "replay_prepared L n d b st = Inr st' \<Longrightarrow> rp_previous st' = Some (rb_digest b)"
  by (auto simp: replay_prepared_def Let_def bind_result_Inr_iff split: if_splits)

lemma replay_terminal_previous:
  "replay_terminal L n d b st = Inr st' \<Longrightarrow> rp_previous st' = Some (rb_digest b)"
  by (auto simp: replay_terminal_def bind_result_Inr_iff split: if_splits option.splits)

lemma chain_step:
  assumes "replay_step L st n e = Inr st'"
  obtains d g where "decode_record e = Inr d" "field d ''record_digest'' = JStr g"
    "rp_previous st' = Some g" "record_digest (filter (\<lambda>(k, v). k \<noteq> ''record_digest'') d) = g"
    "doc_optional doc_sha256 (field d ''previous_record_digest'') = Inr (rp_previous st)"
proof -
  obtain d b where d: "decode_record e = Inr d" and b: "check_base L (rp_previous st) n d = Inr b"
    and step: "(case rb_kind b of Kind_prepared \<Rightarrow> replay_prepared L n d b st
                | Kind_terminal \<Rightarrow> replay_terminal L n d b st) = Inr st'"
    using assms by (auto simp: replay_step_def bind_result_Inr_iff)
  have "rp_previous st' = Some (rb_digest b)"
    using step by (cases "rb_kind b") (auto dest: replay_prepared_previous replay_terminal_previous)
  moreover have "field d ''record_digest'' = JStr (rb_digest b)"
    using check_base_Inr(3) [OF b] by (auto simp: doc_sha256_def split: json.splits if_splits)
  ultimately show ?thesis using that [OF d] check_base_Inr(12,13) [OF b] by blast
qed

lemma chain_tamper:
  assumes "replay_rows L empty_replay 1 xs = Inr st" "replay_rows L' empty_replay 1 ys = Inr st'"
    and "rp_previous st = rp_previous st'"
  shows "map snd xs = map snd ys \<or> digest_collision (snd ` set xs) (snd ` set ys)"
  using assms
proof (induction xs arbitrary: ys st st' rule: rev_induct)
  case Nil
  show ?case
  proof (cases ys rule: rev_cases)
    case (snoc zs b)
    obtain st1 where "replay_step L' st1 (Suc (length zs)) (snd b) = Inr st'"
      using Nil.prems(2) snoc by (cases b) (auto simp: replay_rows_append bind_result_Inr_iff)
    then have "rp_previous st' \<noteq> None" by (rule chain_step) simp
    moreover have "rp_previous st = None" using Nil.prems(1) by (auto simp: empty_replay_def)
    ultimately show ?thesis using Nil.prems(3) by simp
  qed simp
next
  case (snoc a xs)
  obtain s1 where s1: "replay_rows L empty_replay 1 xs = Inr s1"
    "replay_step L s1 (Suc (length xs)) (snd a) = Inr st"
    using snoc.prems(1) by (cases a) (auto simp: replay_rows_append bind_result_Inr_iff)
  show ?case
  proof (cases ys rule: rev_cases)
    case Nil
    have "rp_previous st \<noteq> None" by (rule chain_step [OF s1(2)]) simp
    moreover have "rp_previous st' = None" using snoc.prems(2) Nil by (auto simp: empty_replay_def)
    ultimately show ?thesis using snoc.prems(3) by simp
  next
    case ys: (snoc zs b)
    obtain s2 where s2: "replay_rows L' empty_replay 1 zs = Inr s2"
      "replay_step L' s2 (Suc (length zs)) (snd b) = Inr st'"
      using snoc.prems(2) ys by (cases b) (auto simp: replay_rows_append bind_result_Inr_iff)
    obtain d g where d: "decode_record (snd a) = Inr d" "field d ''record_digest'' = JStr g"
      "rp_previous st = Some g" "record_digest (filter (\<lambda>(k, v). k \<noteq> ''record_digest'') d) = g"
      "doc_optional doc_sha256 (field d ''previous_record_digest'') = Inr (rp_previous s1)"
      by (rule chain_step [OF s1(2)])
    obtain d' g' where d': "decode_record (snd b) = Inr d'" "field d' ''record_digest'' = JStr g'"
      "rp_previous st' = Some g'" "record_digest (filter (\<lambda>(k, v). k \<noteq> ''record_digest'') d') = g'"
      "doc_optional doc_sha256 (field d' ''previous_record_digest'') = Inr (rp_previous s2)"
      by (rule chain_step [OF s2(2)])
    have g: "g = g'" using d d' snoc.prems(3) by simp
    show ?thesis
    proof (cases "record_preimage (snd a) = record_preimage (snd b)")
      case False
      then have "digest_collision (snd ` set (xs @ [a])) (snd ` set (zs @ [b]))"
        unfolding digest_collision_def
        using d d' g
        by (intro bexI [of _ "snd a"] bexI [of _ "snd b"])
          (auto simp: record_preimage_def record_digest_def digest_of_def)
      then show ?thesis by (simp add: ys)
    next
      case True
      note same = same_preimage [OF d(1) d'(1) True]
      then have "snd a = snd b" "rp_previous s1 = rp_previous s2" using d d' g by auto
      with snoc.IH [OF s1(1) s2(1)] show ?thesis
        using digest_collision_mono [of "snd ` set xs" "snd ` set zs"
            "insert (snd b) (snd ` set xs)" "insert (snd b) (snd ` set zs)"]
        by (auto simp: ys)
    qed
  qed
qed

subsection \<open>Every run of operations keeps the ledger readable\<close>

text \<open>
  The stores that \<open>n\<close> operations reach from an empty directory, the environment choosing
  which file writes fail and how.
\<close>

inductive ledger_reachable :: "ledger_id \<Rightarrow> nat \<Rightarrow> ledger_store \<Rightarrow> bool" for L :: ledger_id where
  start: "ls_root s \<in> {Root_missing, Root_directory []} \<Longrightarrow> ledger_reachable L 0 s"
| faults: "ledger_reachable L n s \<Longrightarrow> ledger_reachable L n (s\<lparr>ls_writes := ws\<rparr>)"
| prepare: "ledger_reachable L n s \<Longrightarrow> valid_intent i \<Longrightarrow>
    ledger_reachable L (Suc n) (fst (ledger_prepare L i s))"
| commit: "ledger_reachable L n s \<Longrightarrow>
    ledger_reachable L (Suc n) (fst (ledger_commit L op phase cid cdg s))"

lemma ledger_empty: "ls_root s \<in> {Root_missing, Root_directory []} \<Longrightarrow> load_ledger L s = Inr None"
  by (auto simp: load_ledger_def record_paths_def empty_replay_def)

lemma ledger_reachable_room:
  "ledger_reachable L n s \<Longrightarrow> valid_ledger_id L \<Longrightarrow> n + k < 10 ^ 20 \<Longrightarrow> ledger_room L k s"
proof (induction n s arbitrary: k rule: ledger_reachable.induct)
  case (start s)
  have "int k < int (10 ^ 20)" using start.prems(2) by (simp only: of_nat_less_iff add_0)
  then show ?case using start ledger_empty [of s L] by (simp add: ledger_room_def record_count_def)
next
  case (faults n s ws)
  then show ?case by (simp add: ledger_room_def load_ledger_def)
next
  case (prepare n s i)
  then have "ledger_room L (Suc k) s" by simp
  then show ?case by (rule directory_ledger.prepare_room) (rule prepare.hyps)
next
  case (commit n s op phase cid cdg)
  then have "ledger_room L (Suc k) s" by simp
  then show ?case by (rule directory_ledger.commit_room)
qed

subsection \<open>Properties of the ledger\<close>

text \<open>
  C6: a \<open>prepare\<close> is atomic under any failure of its file writes. Whatever the writes do, the
  ledger can still be read afterwards, and it holds either exactly what it held before or the
  projection in which precisely this intent has become the unresolved operation of the run;
  and the second is the only state in which a new preparation is reported.
\<close>

theorem ledger_prepare_crash_consistent:
  assumes "valid_ledger_id L" "valid_intent i" "load_ledger L s = Inr current"
    and "record_count current + 1 < 10 ^ 20"
  shows "let (s', r) = ledger_prepare L i s in
           (load_ledger L s' = Inr current \<and> (\<forall>x. r = Inr x \<longrightarrow> \<not> pr_created x))
           \<or> (\<exists>p. load_ledger L s' = Inr (Some p)
                 \<and> spec_prepare i (spec_of current) = Inr (spec_of (Some p), True)
                 \<and> (\<forall>x. r = Inr x \<longrightarrow> pr_projection x = p \<and> pr_created x))"
proof -
  have "ledger_room L (Suc 0) s" using assms by (simp add: ledger_room_def)
  from ledger_prepare_step [OF this assms(2,3)] assms(3) show ?thesis
    by (auto split: sum.splits bool.splits)
qed

text \<open>
  C7: a \<open>commit\<close> is atomic under any failure of its file writes: afterwards the ledger holds the
  old state or exactly the committed one, and a reported success means the committed one.
\<close>

theorem ledger_commit_crash_consistent:
  assumes "valid_ledger_id L" "load_ledger L s = Inr current" "record_count current + 1 < 10 ^ 20"
  shows "let (s', r) = ledger_commit L op phase cid cdg s in
           (load_ledger L s' = Inr current \<and> (\<exists>e. r = Inl e))
           \<or> (\<exists>p. load_ledger L s' = Inr (Some p)
                 \<and> spec_commit op phase cid cdg (spec_of current) = Inr (spec_of (Some p))
                 \<and> er_operation_id (pj_event_receipt p) = op
                 \<and> (\<forall>x. r = Inr x \<longrightarrow> x = p))"
proof -
  have "ledger_room L (Suc 0) s" using assms by (simp add: ledger_room_def)
  from ledger_commit_step [OF this assms(2), of op phase cid cdg] assms(2) show ?thesis
    by (fastforce split: sum.splits)
qed

text \<open>
  C8: when the file writes succeed the directory ledger implements the abstract run. \<open>prepare\<close>
  and \<open>commit\<close> refuse with exactly the error of the abstract operation, leaving the directory
  untouched, and otherwise succeed, and the projection read back afterwards is the abstract
  result: a new unresolved operation, the same one again, or the next generation.
\<close>

theorem ledger_refines_spec:
  assumes "valid_ledger_id L" "valid_intent i" "load_ledger L s = Inr current"
    and "record_count current + 1 < 10 ^ 20" and "ls_writes s = []"
  shows "(case spec_prepare i (spec_of current) of
            Inl e \<Rightarrow> ledger_prepare L i s = (s, Inl e)
          | Inr (sp, created) \<Rightarrow>
              (\<exists>s' x. ledger_prepare L i s = (s', Inr x) \<and> pr_created x = created
                 \<and> load_ledger L s' = Inr (Some (pr_projection x))
                 \<and> spec_of (Some (pr_projection x)) = sp))
       \<and> (case spec_commit op phase cid cdg (spec_of current) of
            Inl e \<Rightarrow> ledger_commit L op phase cid cdg s = (s, Inl e)
          | Inr sp \<Rightarrow>
              (\<exists>s' p. ledger_commit L op phase cid cdg s = (s', Inr p)
                 \<and> load_ledger L s' = Inr (Some p) \<and> spec_of (Some p) = sp))"
proof (rule conjI, goal_cases)
  case 1
  have room: "ledger_room L (Suc 0) s" using assms by (simp add: ledger_room_def)
  have "spec_prepare i (spec_of current) = Inr (sp, False) \<Longrightarrow>
      \<exists>p. current = Some p \<and> sp = spec_of (Some p)" for sp
    by (auto simp: spec_prepare_def spec_of_pending bind_eq_Some_conv bind_result_Inr_iff
        split: option.splits if_splits)
  then show ?case
    using ledger_prepare_step [OF room assms(2,3)] assms(3,5)
    by (fastforce split: sum.splits bool.splits)
next
  case 2
  have room: "ledger_room L (Suc 0) s" using assms by (simp add: ledger_room_def)
  show ?case
    using ledger_commit_step [OF room assms(3), of op phase cid cdg] assms(5)
    by (fastforce split: sum.splits)
qed

text \<open>
  A record file round-trips. Reading the file that \<open>_publish_unlocked\<close> writes for a prepared
  or a terminal document succeeds, every field reads back as it was written, and the digest
  stored in the record is the digest of its other fields.
\<close>

theorem ledger_record_roundtrip:
  assumes "d = prepared_document L seq i current prev \<or> d = terminal_document L n q phase cid cdg"
  shows "\<exists>d'. decode_record (Regular_file (Some (canonical_record (sign_document d)))) = Inr d'
       \<and> (\<forall>k. k \<noteq> ''record_digest'' \<longrightarrow> field d' k = field d k)
       \<and> field d' ''record_digest''
           = JStr (record_digest (filter (\<lambda>(k, v). k \<noteq> ''record_digest'') d'))"
proof -
  have d: "ledger_document d" using assms by auto
  show ?thesis
    using decode_published [OF d] field_published [OF d] published_digest_published [OF d]
    by (intro exI [of _ "published d"]) simp
qed

text \<open>
  C10: every sequence of prepares and commits from an empty directory, with every pattern of
  write failures in between, leaves a ledger that reads without an integrity error, whose
  projection satisfies its invariant, and which holds no more records than operations ran; in
  particular two records for each committed generation and one for an unresolved operation.
\<close>

theorem ledger_reachable_readable:
  assumes "ledger_reachable L n s" "valid_ledger_id L" "n < 10 ^ 20"
  shows "\<exists>current rows. load_ledger L s = Inr current \<and> record_paths (ls_root s) = Inr rows
       \<and> int (length rows) = record_count current
       \<and> (case current of None \<Rightarrow> True | Some p \<Rightarrow> ledger_projection L p)"
proof -
  have "ledger_room L 0 s" using ledger_reachable_room [OF assms(1,2), of 0] assms(3) by simp
  then obtain rows current where "loaded L (ls_root s) rows current" "load_ledger L s = Inr current"
    by (rule ledger_room_loaded)
  then show ?thesis
    using loaded_inv [of L "ls_root s" rows current] by (auto simp: loaded_def split: option.splits)
qed

text \<open>
  C9: the hash chain makes the ledger tamper-evident. If two directories both load and their last
  records carry the same digest, then all their record files are equal, in order and byte for
  byte, or two of the records themselves exhibit a SHA-256 collision (two different preimages
  with the same digest).
\<close>

theorem ledger_tamper_evident:
  assumes "load_ledger L s = Inr (Some p)" "load_ledger L s' = Inr (Some p')"
    and "record_paths (ls_root s) = Inr rows" "record_paths (ls_root s') = Inr rows'"
    and "er_event_digest (pj_event_receipt p) = er_event_digest (pj_event_receipt p')"
  shows "rows = rows' \<or> digest_collision (snd ` set rows) (snd ` set rows')"
proof -
  have "loaded L (ls_root s) rows (Some p)" "loaded L (ls_root s') rows' (Some p')"
    using assms by (auto simp: load_ledger_loaded loaded_def)
  then have "map snd rows = map snd rows' \<or> digest_collision (snd ` set rows) (snd ` set rows')"
    using assms(5)
    by (intro chain_tamper [of L _ "replay_state (Some p)" L _ "replay_state (Some p')"])
      (simp_all add: loaded_def replay_state_def previous_digest_def)
  moreover have "rows = rows'" if "map snd rows = map snd rows'"
  proof -
    have "length rows = length rows'" using that map_eq_imp_length_eq by blast
    then have "map fst rows = map fst rows'"
      using record_paths_names [OF assms(3)] record_paths_names [OF assms(4)] by simp
    with that show ?thesis by (metis zip_map_fst_snd)
  qed
  ultimately show ?thesis by blast
qed


subsection \<open>The properties at concrete inputs\<close>

definition sample_id :: ledger_id where
  "sample_id = \<lparr>li_run_id = ''run-1'', li_run_identity_digest = replicate 64 (CHR ''a''),
     li_run_manifest_digest = replicate 64 (CHR ''b'')\<rparr>"

definition sample_intent :: run_intent where
  "sample_intent = \<lparr>in_operation_id = replicate 64 (CHR ''c''), in_action = Action_run,
     in_base_generation = 0, in_restore_checkpoint_id = None,
     in_restore_checkpoint_manifest_digest = None, in_restore_cycle_identity_digest = None\<rparr>"

definition empty_store :: "write_outcome list \<Rightarrow> ledger_store" where
  "empty_store ws = \<lparr>ls_root = Root_missing, ls_writes = ws\<rparr>"

lemma sample_id_valid: "valid_ledger_id sample_id"
  by (simp add: sample_id_def valid_ledger_id_def is_sha256_def blank_iff py_isspace_def code_point_def
      hex_digits_def list_all_iff Let_def)

lemma sample_intent_valid: "valid_intent sample_intent"
  by (simp add: sample_intent_def valid_intent_def is_sha256_def require_defs hex_digits_def list_all_iff)

lemma sample_empty: "load_ledger L (empty_store ws) = Inr None"
  by (rule ledger_empty) (simp add: empty_store_def)

lemma sample_count: "record_count None + 1 < 10 ^ 20"
  by (simp add: record_count_def)

theorem ledger_prepare_crash_consistent_witness:
  "let (s', r) = ledger_prepare sample_id sample_intent (empty_store [Write_replaced_unflushed, Write_not_replaced]) in
     (load_ledger sample_id s' = Inr None \<and> (\<forall>x. r = Inr x \<longrightarrow> \<not> pr_created x))
     \<or> (\<exists>p. load_ledger sample_id s' = Inr (Some p)
           \<and> spec_prepare sample_intent (spec_of None) = Inr (spec_of (Some p), True)
           \<and> (\<forall>x. r = Inr x \<longrightarrow> pr_projection x = p \<and> pr_created x))"
  by (rule ledger_prepare_crash_consistent
      [OF sample_id_valid sample_intent_valid sample_empty sample_count])

definition sample_store :: ledger_store where
  "sample_store = fst (ledger_prepare sample_id sample_intent (empty_store []))"

lemma sample_store_loads:
  "\<exists>p. load_ledger sample_id sample_store = Inr (Some p)
     \<and> record_count (Some p) = 1 \<and> ls_writes sample_store = []
     \<and> spec_prepare sample_intent (spec_of None) = Inr (spec_of (Some p), True)"
proof -
  have "ledger_room sample_id (Suc 0) (empty_store [])"
    by (simp add: ledger_room_def sample_id_valid sample_empty record_count_def)
  moreover have "spec_prepare sample_intent (spec_of None)
      = Inr ((spec_of None)\<lparr>sp_pending := Some sample_intent\<rparr>, True)"
    by (simp add: spec_prepare_def spec_of_def sample_intent_def)
  ultimately show ?thesis
    using ledger_prepare_step [OF _ sample_intent_valid sample_empty, of sample_id 0 "[]"]
    by (auto simp: sample_store_def record_count_def empty_store_def)
qed

theorem ledger_commit_crash_consistent_witness:
  "\<exists>q. load_ledger sample_id sample_store = Inr (Some q)
     \<and> (let (s', r) = ledger_commit sample_id (replicate 64 (CHR ''c'')) Phase_running None None sample_store in
        (load_ledger sample_id s' = Inr (Some q) \<and> (\<exists>e. r = Inl e))
        \<or> (\<exists>p. load_ledger sample_id s' = Inr (Some p)
              \<and> spec_commit (replicate 64 (CHR ''c'')) Phase_running None None (spec_of (Some q))
                  = Inr (spec_of (Some p))
              \<and> er_operation_id (pj_event_receipt p) = replicate 64 (CHR ''c'')
              \<and> (\<forall>x. r = Inr x \<longrightarrow> x = p)))"
proof -
  obtain q where q: "load_ledger sample_id sample_store = Inr (Some q)" "record_count (Some q) = 1"
    using sample_store_loads by blast
  then show ?thesis
    by (intro exI [of _ q] conjI ledger_commit_crash_consistent [OF sample_id_valid]) simp_all
qed

theorem ledger_refines_spec_witness:
  "\<exists>s' x. ledger_prepare sample_id sample_intent (empty_store []) = (s', Inr x) \<and> pr_created x
     \<and> load_ledger sample_id s' = Inr (Some (pr_projection x))"
proof -
  have "spec_prepare sample_intent (spec_of None)
      = Inr ((spec_of None)\<lparr>sp_pending := Some sample_intent\<rparr>, True)"
    by (simp add: spec_prepare_def spec_of_def sample_intent_def)
  then show ?thesis
    using ledger_refines_spec [OF sample_id_valid sample_intent_valid sample_empty sample_count,
        of "[]" "[]" Phase_failed None None]
    by (auto simp: empty_store_def)
qed

theorem ledger_record_roundtrip_witness:
  "\<exists>d'. decode_record (Regular_file (Some (canonical_record (sign_document
        (prepared_document sample_id 1 sample_intent None None))))) = Inr d'
      \<and> (\<forall>k. k \<noteq> ''record_digest'' \<longrightarrow>
            field d' k = field (prepared_document sample_id 1 sample_intent None None) k)
      \<and> field d' ''record_digest''
          = JStr (record_digest (filter (\<lambda>(k, v). k \<noteq> ''record_digest'') d'))"
  by (rule ledger_record_roundtrip [OF disjI1 [OF refl]])

theorem ledger_reachable_readable_witness:
  "\<exists>current rows. load_ledger sample_id sample_store = Inr current
     \<and> record_paths (ls_root sample_store) = Inr rows
     \<and> int (length rows) = record_count current
     \<and> (case current of None \<Rightarrow> True | Some p \<Rightarrow> ledger_projection sample_id p)"
proof (rule ledger_reachable_readable [OF _ sample_id_valid])
  show "ledger_reachable sample_id (Suc 0) sample_store"
    unfolding sample_store_def
    by (intro ledger_reachable.prepare ledger_reachable.start sample_intent_valid)
      (simp add: empty_store_def)
qed simp

definition sample_store_with_temporary :: ledger_store where
  "sample_store_with_temporary = sample_store\<lparr>ls_root :=
     Root_directory ((''.00000000000000000002.json.tmp'', Regular_file None)
                     # root_entries (ls_root sample_store))\<rparr>"

lemma sample_temporary_ignored:
  "record_paths (ls_root sample_store) = Inr rows \<Longrightarrow>
     record_paths (ls_root sample_store_with_temporary) = Inr rows"
  by (cases "ls_root sample_store")
    (auto simp: sample_store_with_temporary_def record_paths_def hidden_name_def Let_def)

theorem ledger_tamper_evident_witness:
  "\<exists>p rows rows'. load_ledger sample_id sample_store = Inr (Some p)
     \<and> load_ledger sample_id sample_store_with_temporary = Inr (Some p)
     \<and> record_paths (ls_root sample_store) = Inr rows
     \<and> record_paths (ls_root sample_store_with_temporary) = Inr rows'
     \<and> (rows = rows' \<or> digest_collision (snd ` set rows) (snd ` set rows'))"
proof -
  obtain p where p: "load_ledger sample_id sample_store = Inr (Some p)"
    using sample_store_loads by blast
  then obtain rows where rows: "record_paths (ls_root sample_store) = Inr rows"
    by (auto simp: load_ledger_loaded loaded_def)
  note rows' = sample_temporary_ignored [OF rows]
  have p': "load_ledger sample_id sample_store_with_temporary = Inr (Some p)"
    using p rows rows' by (simp add: load_ledger_def)
  show ?thesis
    using p p' rows rows' ledger_tamper_evident [OF p p' rows rows' refl] by blast
qed

end
