(* ===== verification/Run_Controller.thy ===== *)
theory Run_Controller
  imports Run_Ledger
begin

text \<open>
  The durable run controller
  (\<open>research/experimentation/run/control/runtime/controller.py\<close>, \<open>DurableRunControl\<close>): every
  effect of a run (start, stop, resume) is first prepared in the ledger, then performed by the
  lifecycle provider, then committed; an effect whose outcome is uncertain stays prepared until
  it is reconciled. The ledger is any implementation of the port; the providers are functions
  over a state of their own. The lemmas are proved in the locale \<open>run_control_ledger\<close> of
  Run_Port; the properties rest on its interpretation by the directory ledger.
\<close>

subsection \<open>The verdict of a reconciliation\<close>

datatype reconciliation_outcome =
  Outcome_executed | Outcome_not_executed | Outcome_rejected | Outcome_unknown

record reconciliation_verdict =
  rv_request_id :: string
  rv_outcome :: reconciliation_outcome
  rv_effect_id :: "string option"
  rv_request_digest :: "string option"
  rv_verification_required :: bool

definition valid_verdict :: "reconciliation_verdict \<Rightarrow> bool" where
  "valid_verdict v \<longleftrightarrow>
     \<not> blank (rv_request_id v)
     \<and> (rv_effect_id v = None \<longleftrightarrow> rv_request_digest v = None)
     \<and> (case rv_effect_id v of None \<Rightarrow> True | Some t \<Rightarrow> \<not> blank t)
     \<and> (case rv_request_digest v of None \<Rightarrow> True | Some t \<Rightarrow> \<not> blank t)
     \<and> (rv_outcome v \<noteq> Outcome_unknown \<longrightarrow> rv_effect_id v \<noteq> None)"

subsection \<open>The controller and its ports\<close>

text \<open>
  A provider call threads the providers' state; \<open>Inl ()\<close> is an exception, \<open>Inr None\<close> a value of
  the wrong type.
\<close>

type_synonym ('e, 'a) call = "'e \<Rightarrow> 'e \<times> (unit + 'a)"

record ('s, 'e) run_control =
  rc_identity :: run_identity
  rc_manifest :: launch_manifest
  rc_ledger :: ledger_id
  rc_read :: "int option \<Rightarrow> 's \<Rightarrow> run_error + projection option"
  rc_prepare :: "run_intent \<Rightarrow> 's \<Rightarrow> 's \<times> (run_error + preparation)"
  rc_commit :: "string \<Rightarrow> run_phase \<Rightarrow> string option \<Rightarrow> string option \<Rightarrow> 's
                  \<Rightarrow> 's \<times> (run_error + projection)"
  rc_run :: "run_identity \<Rightarrow> launch_manifest \<Rightarrow> string \<Rightarrow> ('e, run_phase option) call"
  rc_stop :: "run_identity \<Rightarrow> launch_manifest \<Rightarrow> string \<Rightarrow> ('e, run_phase option) call"
  rc_resume :: "run_identity \<Rightarrow> launch_manifest \<Rightarrow> checkpoint_manifest \<Rightarrow> cycle_identity \<Rightarrow> string
                  \<Rightarrow> ('e, run_phase option) call"
  rc_load_checkpoint :: "string \<Rightarrow> ('e, checkpoint_manifest option) call"
  rc_reconcile :: "run_identity \<Rightarrow> launch_manifest \<Rightarrow> prepared_operation
                     \<Rightarrow> ('e, reconciliation_verdict option) call"
  rc_evidence :: "run_identity \<Rightarrow> launch_manifest \<Rightarrow> ('e, evidence_receipt option option) call"
  rc_verify_finalized :: "json \<Rightarrow> ('e, unit) call"

text \<open>What \<open>__init__\<close> checks.\<close>

definition valid_control :: "('s, 'e) run_control \<Rightarrow> bool" where
  "valid_control c \<longleftrightarrow>
     li_run_id (rc_ledger c) = ri_run_id (rc_identity c)
     \<and> li_run_identity_digest (rc_ledger c) = run_identity_digest (rc_identity c)
     \<and> li_run_manifest_digest (rc_ledger c) = lm_digest (rc_manifest c)"

definition require_target :: "('s, 'e) run_control \<Rightarrow> run_request \<Rightarrow> run_error + unit" where
  "require_target c rq =
     (if tg_run_id (rq_target rq) \<noteq> ri_run_id (rc_identity c) then Inl Run_conflict
      else if tg_run_manifest_digest (rq_target rq) \<noteq> lm_digest (rc_manifest c) then Inl Run_conflict
      else Inr ())"

definition make_receipt ::
    "('s, 'e) run_control \<Rightarrow> run_request \<Rightarrow> projection \<Rightarrow> evidence_receipt option
       \<Rightarrow> run_error + run_receipt" where
  "make_receipt c rq p evidence =
     construct valid_receipt Run_value_error
       \<lparr>rr_action = rq_action rq, rr_run_id = ri_run_id (rc_identity c),
        rr_run_identity_digest = run_identity_digest (rc_identity c),
        rr_run_manifest_digest = lm_digest (rc_manifest c),
        rr_phase = pj_phase p, rr_control_generation = pj_control_generation p,
        rr_latest_checkpoint_id = pj_latest_checkpoint_id p,
        rr_checkpoint_manifest_digest = pj_checkpoint_manifest_digest p,
        rr_evidence_bundle_receipt = evidence,
        rr_outcomes =
          \<lparr>oc_execution = expected_execution (pj_phase p), oc_task = Task_not_evaluated,
           oc_evidence = (if evidence \<noteq> None then Evidence_finalized_valid
                          else if rq_action rq = Action_evidence then Evidence_not_finalized
                          else Evidence_not_observed),
           oc_scientific = Science_not_evaluated\<rparr>,
        rr_control_event_receipt = pj_event_receipt p\<rparr>"

definition require_outcome :: "run_phase set \<Rightarrow> run_phase option \<Rightarrow> run_error + run_phase" where
  "require_outcome allowed outcome =
     (case outcome of
        None \<Rightarrow> Inl Run_integrity_error
      | Some p \<Rightarrow> if p \<notin> allowed then Inl Run_integrity_error else Inr p)"

definition opt_int :: "int option \<Rightarrow> json" where
  "opt_int v = (case v of None \<Rightarrow> JNull | Some g \<Rightarrow> JInt g)"

definition operation_id :: "('s, 'e) run_control \<Rightarrow> run_request \<Rightarrow> string option \<Rightarrow> string" where
  "operation_id c rq cdg = digest_of (JObj [
     (''schema_version'', JStr ''1''),
     (''run_id'', JStr (ri_run_id (rc_identity c))),
     (''run_identity_digest'', JStr (run_identity_digest (rc_identity c))),
     (''run_manifest_digest'', JStr (lm_digest (rc_manifest c))),
     (''action'', JStr (action_value (rq_action rq))),
     (''base_generation'', opt_int (tg_expected_generation (rq_target rq))),
     (''restore_checkpoint_id'', opt_text (rq_restore_checkpoint_id rq)),
     (''restore_checkpoint_manifest_digest'', opt_text cdg),
     (''restore_cycle_identity_digest'',
        opt_text (map_option cycle_digest (rq_restore_cycle_identity rq)))])"

subsection \<open>Reading\<close>

definition require_projection ::
    "('s, 'e) run_control \<Rightarrow> run_request \<Rightarrow> 's \<Rightarrow> run_error + projection" where
  "require_projection c rq s =
     bind_result (rc_read c (tg_expected_generation (rq_target rq)) s) (\<lambda>current.
       (case current of None \<Rightarrow> Inl Run_not_found | Some p \<Rightarrow> Inr p))"

definition inspect_run :: "('s, 'e) run_control \<Rightarrow> run_request \<Rightarrow> 's \<Rightarrow> run_error + run_receipt" where
  "inspect_run c rq s =
     bind_result (require_projection c rq s) (\<lambda>p. make_receipt c rq p None)"

definition load_restore_checkpoint ::
    "('s, 'e) run_control \<Rightarrow> string \<Rightarrow> cycle_identity \<Rightarrow> 'e
       \<Rightarrow> 'e \<times> (run_error + checkpoint_manifest)" where
  "load_restore_checkpoint c checkpoint_id cycle e =
     (let (e', r) = rc_load_checkpoint c checkpoint_id e
      in (e', case r of
            Inl _ \<Rightarrow> Inl Run_integrity_error
          | Inr None \<Rightarrow> Inl Run_integrity_error
          | Inr (Some cp) \<Rightarrow>
              if cm_checkpoint_id cp \<noteq> checkpoint_id then Inl Run_integrity_error
              else if cm_run_id cp \<noteq> ri_run_id (rc_identity c)
                      \<or> cm_session_id cp \<noteq> ri_session_id (rc_identity c)
              then Inl Run_integrity_error
              else if cm_experiment_spec_digest cp \<noteq> lm_experiment_spec_digest (rc_manifest c)
              then Inl Run_integrity_error
              else if (ci_run_id cycle, ci_session_id cycle, ci_trace_id cycle,
                       ci_decision_cycle_id cycle)
                      \<noteq> (ri_run_id (rc_identity c), ri_session_id (rc_identity c),
                         ri_trace_id (rc_identity c), cm_decision_cycle_id cp)
              then Inl Run_integrity_error
              else if cm_cycle_identity_digest cp \<noteq> cycle_digest cycle
              then Inl Run_integrity_error
              else Inr cp))"

subsection \<open>Preparing and committing\<close>

definition request_intent ::
    "('s, 'e) run_control \<Rightarrow> run_request \<Rightarrow> string option \<Rightarrow> run_error + run_intent" where
  "request_intent c rq cdg =
     (case tg_expected_generation (rq_target rq) of
        None \<Rightarrow> Inl Run_value_error
      | Some expected \<Rightarrow>
          construct valid_intent Run_value_error
            \<lparr>in_operation_id = operation_id c rq cdg, in_action = rq_action rq,
             in_base_generation = expected,
             in_restore_checkpoint_id = rq_restore_checkpoint_id rq,
             in_restore_checkpoint_manifest_digest = cdg,
             in_restore_cycle_identity_digest =
               map_option cycle_digest (rq_restore_cycle_identity rq)\<rparr>)"

definition prepare_operation ::
    "('s, 'e) run_control \<Rightarrow> run_request \<Rightarrow> string option \<Rightarrow> 's \<Rightarrow> 's \<times> (run_error + preparation)" where
  "prepare_operation c rq cdg s =
     (case request_intent c rq cdg of Inl e \<Rightarrow> (s, Inl e) | Inr i \<Rightarrow> rc_prepare c i s)"

definition commit_or_recover ::
    "('s, 'e) run_control \<Rightarrow> run_request \<Rightarrow> prepared_operation \<Rightarrow> run_phase
       \<Rightarrow> string option \<Rightarrow> string option \<Rightarrow> 's \<Rightarrow> 's \<times> (control_error + run_receipt)" where
  "commit_or_recover c rq prepared phase cid cdg s =
     (if phase = Phase_recovery_required then
        (s, refuse (bind_result (rc_read c None s) (\<lambda>current.
              (case current of
                 None \<Rightarrow> Inl Run_integrity_error | Some p \<Rightarrow> make_receipt c rq p None))))
      else
        (let (s', committed) = rc_commit c (po_operation_id prepared) phase cid cdg s
         in (s', case bind_result committed (\<lambda>p. make_receipt c rq p None) of
                   Inr receipt \<Rightarrow> Inr receipt
                 | Inl _ \<Rightarrow>
                     (case rc_read c None s' of
                        Inl _ \<Rightarrow> Inl (Refused Run_integrity_error)
                      | Inr None \<Rightarrow> Inl (Refused Run_integrity_error)
                      | Inr (Some p) \<Rightarrow>
                          bind_result (refuse (make_receipt c rq p None)) (\<lambda>receipt.
                            if pj_pending_operation p \<noteq> None then Inl (Action_failure receipt)
                            else if er_operation_id (pj_event_receipt p) \<noteq> po_operation_id prepared
                            then Inl (Refused Run_integrity_error)
                            else Inr receipt)))))"

subsection \<open>The effectful actions\<close>

text \<open>
  The \<open>try\<close> around a lifecycle call: an exception or a phase outside \<open>allowed\<close> leaves the
  operation prepared and reports it; otherwise the transition is committed.
\<close>

definition perform_effect ::
    "('s, 'e) run_control \<Rightarrow> run_request \<Rightarrow> prepared_operation \<Rightarrow> ('e, run_phase option) call
       \<Rightarrow> run_phase set \<Rightarrow> string option \<Rightarrow> string option \<Rightarrow> 's \<times> 'e
       \<Rightarrow> ('s \<times> 'e) \<times> (control_error + run_receipt)" where
  "perform_effect c rq prepared lifecycle allowed cid cdg st =
     (let (s, e) = st; (e', outcome) = lifecycle e
      in (case (case outcome of Inl _ \<Rightarrow> Inl Provider_error
                 | Inr o' \<Rightarrow> refuse (require_outcome allowed o')) of
            Inl _ \<Rightarrow>
              ((s, e'), bind_result (refuse (rc_read c None s)) (\<lambda>current.
                 (case current of
                    None \<Rightarrow> Inl (Refused Run_integrity_error)
                  | Some p \<Rightarrow> bind_result (refuse (make_receipt c rq p None))
                                (\<lambda>receipt. Inl (Action_failure receipt)))))
          | Inr phase \<Rightarrow>
              (let (s', r) = commit_or_recover c rq prepared phase cid cdg s
               in ((s', e'), r))))"

text \<open>
  What the three effectful actions share: prepare; an operation that was already prepared is
  only reported, a new one is performed.
\<close>

definition prepare_and_perform ::
    "('s, 'e) run_control \<Rightarrow> run_request \<Rightarrow> string option
       \<Rightarrow> (prepared_operation \<Rightarrow> ('e, run_phase option) call) \<Rightarrow> run_phase set
       \<Rightarrow> (prepared_operation \<Rightarrow> string option \<times> string option) \<Rightarrow> 's \<times> 'e
       \<Rightarrow> ('s \<times> 'e) \<times> (control_error + run_receipt)" where
  "prepare_and_perform c rq cdg lifecycle allowed checkpoint st =
     (let (s, e) = st in
      case prepare_operation c rq cdg s of
        (s1, Inl err) \<Rightarrow> ((s1, e), Inl (Refused err))
      | (s1, Inr preparation) \<Rightarrow>
          if \<not> pr_created preparation
          then ((s1, e), refuse (make_receipt c rq (pr_projection preparation) None))
          else
            (let prepared = pr_prepared_operation preparation; (cid, cd) = checkpoint prepared
             in perform_effect c rq prepared (lifecycle prepared) allowed cid cd (s1, e)))"

definition base_checkpoint :: "prepared_operation \<Rightarrow> string option \<times> string option" where
  "base_checkpoint q = (po_base_latest_checkpoint_id q, po_base_checkpoint_manifest_digest q)"

definition effectful_run ::
    "('s, 'e) run_control \<Rightarrow> run_request \<Rightarrow> 's \<times> 'e \<Rightarrow> ('s \<times> 'e) \<times> (control_error + run_receipt)" where
  "effectful_run c rq st =
     (case rc_read c (tg_expected_generation (rq_target rq)) (fst st) of
        Inl err \<Rightarrow> (st, Inl (Refused err))
      | Inr existing \<Rightarrow>
          if existing \<noteq> None \<and> pj_pending_operation (the existing) = None
             \<and> pj_phase (the existing) = Phase_running
          then (st, refuse (make_receipt c rq (the existing) None))
          else prepare_and_perform c rq None
                 (\<lambda>q. rc_run c (rc_identity c) (rc_manifest c) (po_operation_id q))
                 {Phase_running, Phase_recovery_required, Phase_failed} base_checkpoint st)"

definition effectful_stop ::
    "('s, 'e) run_control \<Rightarrow> run_request \<Rightarrow> 's \<times> 'e \<Rightarrow> ('s \<times> 'e) \<times> (control_error + run_receipt)" where
  "effectful_stop c rq st =
     (case require_projection c rq (fst st) of
        Inl err \<Rightarrow> (st, Inl (Refused err))
      | Inr existing \<Rightarrow>
          if pj_pending_operation existing = None
             \<and> pj_phase existing \<in> {Phase_stopped, Phase_completed}
          then (st, refuse (make_receipt c rq existing None))
          else prepare_and_perform c rq None
                 (\<lambda>q. rc_stop c (rc_identity c) (rc_manifest c) (po_operation_id q))
                 {Phase_stopped, Phase_completed, Phase_recovery_required, Phase_failed}
                 base_checkpoint st)"

definition effectful_resume ::
    "('s, 'e) run_control \<Rightarrow> run_request \<Rightarrow> 's \<times> 'e \<Rightarrow> ('s \<times> 'e) \<times> (control_error + run_receipt)" where
  "effectful_resume c rq st =
     (let (s, e) = st in
      case (rq_restore_checkpoint_id rq, rq_restore_cycle_identity rq) of
        (Some checkpoint_id, Some cycle) \<Rightarrow>
          (case load_restore_checkpoint c checkpoint_id cycle e of
             (e1, Inl err) \<Rightarrow> ((s, e1), Inl (Refused err))
           | (e1, Inr cp) \<Rightarrow>
               (case require_projection c rq s of
                  Inl err \<Rightarrow> ((s, e1), Inl (Refused err))
                | Inr existing \<Rightarrow>
                    if pj_pending_operation existing = None
                       \<and> pj_phase existing = Phase_running
                       \<and> pj_latest_checkpoint_id existing = Some (cm_checkpoint_id cp)
                       \<and> pj_checkpoint_manifest_digest existing = Some (checkpoint_digest cp)
                    then ((s, e1), refuse (make_receipt c rq existing None))
                    else prepare_and_perform c rq (Some (checkpoint_digest cp))
                           (\<lambda>q. rc_resume c (rc_identity c) (rc_manifest c) cp cycle (po_operation_id q))
                           {Phase_running, Phase_recovery_required, Phase_failed}
                           (\<lambda>_. (Some (cm_checkpoint_id cp), Some (checkpoint_digest cp)))
                           (s, e1)))
      | _ \<Rightarrow> (st, Inl (Refused Run_value_error)))"

subsection \<open>Reconciliation\<close>

definition executed_phase :: "run_action \<Rightarrow> run_error + run_phase" where
  "executed_phase a =
     (case a of
        Action_run \<Rightarrow> Inr Phase_running
      | Action_stop \<Rightarrow> Inr Phase_stopped
      | Action_resume \<Rightarrow> Inr Phase_running
      | _ \<Rightarrow> Inl Run_value_error)"

text \<open>\<open>None\<close>: the operation stays unresolved. \<open>base_phase or FAILED\<close> falls back when it is \<open>None\<close>.\<close>

definition resolved_reconciliation_phase ::
    "prepared_operation \<Rightarrow> reconciliation_verdict option \<Rightarrow> run_error + run_phase option" where
  "resolved_reconciliation_phase pending verdict =
     (case verdict of
        None \<Rightarrow> Inl Run_integrity_error
      | Some v \<Rightarrow>
          if rv_request_id v \<noteq> po_operation_id pending then Inl Run_integrity_error
          else if rv_outcome v = Outcome_unknown \<or> rv_verification_required v then Inr None
          else if rv_request_digest v \<noteq> Some (po_operation_id pending) then Inl Run_integrity_error
          else if rv_outcome v = Outcome_executed
          then bind_result (executed_phase (po_action pending)) (\<lambda>p. Inr (Some p))
          else if rv_outcome v = Outcome_not_executed
          then (if po_action pending = Action_run \<and> po_base_phase pending = None
                then Inr (Some Phase_failed)
                else Inr (Some (case po_base_phase pending of None \<Rightarrow> Phase_failed | Some p \<Rightarrow> p)))
          else (if po_action pending = Action_run then Inr (Some Phase_failed)
                else Inr (Some (case po_base_phase pending of None \<Rightarrow> Phase_failed | Some p \<Rightarrow> p))))"

definition reconcile_run ::
    "('s, 'e) run_control \<Rightarrow> run_request \<Rightarrow> 's \<times> 'e \<Rightarrow> ('s \<times> 'e) \<times> (control_error + run_receipt)" where
  "reconcile_run c rq st =
     (let (s, e) = st in
      case require_projection c rq s of
        Inl err \<Rightarrow> (st, Inl (Refused err))
      | Inr p \<Rightarrow>
          (case pj_pending_operation p of
             None \<Rightarrow>
               (st, refuse (if pj_phase p = Phase_running then make_receipt c rq p None
                            else Inl Run_conflict))
           | Some pending \<Rightarrow>
               (case rc_reconcile c (rc_identity c) (rc_manifest c) pending e of
                  (e1, Inl _) \<Rightarrow> ((s, e1), Inl Provider_error)
                | (e1, Inr verdict) \<Rightarrow>
                    (case resolved_reconciliation_phase pending verdict of
                       Inl err \<Rightarrow> ((s, e1), Inl (Refused err))
                     | Inr None \<Rightarrow> ((s, e1), refuse (make_receipt c rq p None))
                     | Inr (Some phase) \<Rightarrow>
                         (let restored = (po_action pending = Action_resume \<and> phase = Phase_running);
                              cid = (if restored then po_restore_checkpoint_id pending
                                     else po_base_latest_checkpoint_id pending);
                              cdg = (if restored then po_restore_checkpoint_manifest_digest pending
                                     else po_base_checkpoint_manifest_digest pending);
                              (s1, r) = commit_or_recover c rq pending phase cid cdg s
                          in ((s1, e1), r))))))"

subsection \<open>Evidence and dispatch\<close>

definition evidence_run ::
    "('s, 'e) run_control \<Rightarrow> run_request \<Rightarrow> 's \<times> 'e \<Rightarrow> ('s \<times> 'e) \<times> (control_error + run_receipt)" where
  "evidence_run c rq st =
     (let (s, e) = st in
      case require_projection c rq s of
        Inl err \<Rightarrow> (st, Inl (Refused err))
      | Inr p \<Rightarrow>
          (case rc_evidence c (rc_identity c) (rc_manifest c) e of
             (e1, Inl _) \<Rightarrow> ((s, e1), Inl Provider_error)
           | (e1, Inr None) \<Rightarrow> ((s, e1), refuse (make_receipt c rq p None))
           | (e1, Inr (Some None)) \<Rightarrow> ((s, e1), Inl (Refused Run_integrity_error))
           | (e1, Inr (Some (Some receipt))) \<Rightarrow>
               if ev_run_id receipt \<noteq> ri_run_id (rc_identity c)
                  \<or> ev_run_manifest_digest receipt \<noteq> lm_digest (rc_manifest c)
               then ((s, e1), Inl (Refused Run_integrity_error))
               else (case rc_verify_finalized c (ev_manifest_artifact receipt) e1 of
                       (e2, Inl _) \<Rightarrow> ((s, e2), Inl (Refused Run_integrity_error))
                     | (e2, Inr _) \<Rightarrow> ((s, e2), refuse (make_receipt c rq p (Some receipt))))))"

definition execute ::
    "('s, 'e) run_control \<Rightarrow> run_request \<Rightarrow> 's \<times> 'e \<Rightarrow> ('s \<times> 'e) \<times> (control_error + run_receipt)" where
  "execute c rq st =
     (case require_target c rq of
        Inl err \<Rightarrow> (st, Inl (Refused err))
      | Inr _ \<Rightarrow>
          (case rq_action rq of
             Action_inspect \<Rightarrow> (st, refuse (inspect_run c rq (fst st)))
           | Action_run \<Rightarrow> effectful_run c rq st
           | Action_stop \<Rightarrow> effectful_stop c rq st
           | Action_resume \<Rightarrow> effectful_resume c rq st
           | Action_reconcile \<Rightarrow> reconcile_run c rq st
           | Action_evidence \<Rightarrow> evidence_run c rq st))"

subsection \<open>The controller on a lawful ledger\<close>

definition wired ::
    "('s, 'e) run_control \<Rightarrow> ledger_id \<Rightarrow> (int option \<Rightarrow> 's \<Rightarrow> run_error + projection option)
       \<Rightarrow> (run_intent \<Rightarrow> 's \<Rightarrow> 's \<times> (run_error + preparation))
       \<Rightarrow> (string \<Rightarrow> run_phase \<Rightarrow> string option \<Rightarrow> string option \<Rightarrow> 's \<Rightarrow> 's \<times> (run_error + projection))
       \<Rightarrow> bool" where
  "wired c L rd pr cm \<longleftrightarrow> valid_control c \<and> rc_ledger c = L \<and> rc_read c = rd
     \<and> rc_prepare c = pr \<and> rc_commit c = cm"

text \<open>A receipt that states what a projection holds.\<close>

definition reports :: "run_receipt \<Rightarrow> projection \<Rightarrow> bool" where
  "reports r p \<longleftrightarrow>
     rr_run_id r = pj_run_id p
     \<and> rr_run_identity_digest r = pj_run_identity_digest p
     \<and> rr_run_manifest_digest r = pj_run_manifest_digest p
     \<and> rr_phase r = pj_phase p
     \<and> rr_control_generation r = pj_control_generation p
     \<and> rr_latest_checkpoint_id r = pj_latest_checkpoint_id p
     \<and> rr_checkpoint_manifest_digest r = pj_checkpoint_manifest_digest p
     \<and> rr_control_event_receipt r = pj_event_receipt p"

text \<open>A request names the base generation and the restore checkpoint its intent needs.\<close>

lemma request_intent_valid:
  "request_intent c rq cdg = Inr i \<Longrightarrow> valid_intent i \<and> in_action i = rq_action rq
     \<and> tg_expected_generation (rq_target rq) = Some (in_base_generation i)
     \<and> in_restore_checkpoint_id i = rq_restore_checkpoint_id rq
     \<and> in_restore_checkpoint_manifest_digest i = cdg"
  by (auto simp: request_intent_def construct_Inr_iff split: option.splits)

text \<open>What one step of the controller does to the run.\<close>

definition spec_step :: "run_spec \<Rightarrow> run_spec \<Rightarrow> bool" where
  "spec_step sp sp' \<longleftrightarrow>
     sp' = sp
     \<or> (sp_pending sp = None \<and> (\<exists>i. sp' = sp\<lparr>sp_pending := Some i\<rparr>))
     \<or> (sp_generation sp' = sp_generation sp + 1 \<and> sp_pending sp' = None)"

lemma spec_step_prepare: "spec_prepare i sp = Inr (sp', b) \<Longrightarrow> spec_step sp sp'"
  by (auto simp: spec_prepare_def spec_step_def bind_result_Inr_iff split: option.splits if_splits)

lemma spec_step_commit: "spec_commit op phase cid cdg sp = Inr sp' \<Longrightarrow> spec_step sp sp'"
  by (auto simp: spec_commit_def spec_step_def split: option.splits if_splits)

lemma spec_step_refl [simp]: "spec_step sp sp"
  by (simp add: spec_step_def)

text \<open>
  A receipt, returned or carried by an action failure, reports what the ledger holds, and a
  failure one that is unresolved.
\<close>

definition truthful :: "('s \<Rightarrow> run_error + projection option) \<Rightarrow> 's \<Rightarrow> control_error + run_receipt \<Rightarrow> bool" where
  "truthful rd s r \<longleftrightarrow>
     (case r of
        Inr receipt \<Rightarrow>
          (case rd s of Inr (Some p) \<Rightarrow> reports receipt p | _ \<Rightarrow> False)
      | Inl (Action_failure receipt) \<Rightarrow>
          (case rd s of Inr (Some p) \<Rightarrow> reports receipt p \<and> pj_pending_operation p \<noteq> None | _ \<Rightarrow> False)
      | Inl _ \<Rightarrow> True)"

context run_control_ledger
begin

lemma make_receipt_ok:
  assumes "wired c ident read_port prepare_port commit_port" "room k s"
    "read_port None s = Inr (Some p)"
  shows "\<exists>r. make_receipt c rq p ev = Inr r \<and> reports r p \<and> rr_action r = rq_action rq
           \<and> rr_evidence_bundle_receipt r = ev"
  using read_valid [OF assms(2,3)] assms(1) ident_valid [OF assms(2)]
  by (auto simp: make_receipt_def construct_def reports_def valid_receipt_def expected_evidence_def
      wired_def valid_control_def ledger_projection_def checkpoint_ok_def valid_ledger_id_def require_defs)

lemma read_any:
  assumes "room k s" "read_port g s = Inr c"
  shows "read_port None s = Inr c"
proof -
  obtain c0 where c0: "read_port None s = Inr c0" using read_room [OF assms(1)] by blast
  then show ?thesis using read_expected [OF c0] assms(2) by (cases g) (auto split: if_splits)
qed

lemma commit_or_recover_step:
  assumes w: "wired c ident read_port prepare_port commit_port" and room: "room (Suc k) s"
    and read: "read_port None s = Inr c0"
    and step: "commit_or_recover c rq q phase cid cdg s = (s', r)"
  shows "room k s'" "truthful (read_port None) s' r"
    "\<exists>c1. read_port None s' = Inr c1 \<and> spec_step (spec_of c0) (spec_of c1)"
proof -
  have ports: "rc_read c = read_port" "rc_commit c = commit_port" using w by (simp_all add: wired_def)
  note receipt = make_receipt_ok [OF w]
  show "room k s'"
  proof (cases "phase = Phase_recovery_required")
    case True
    then show ?thesis using step room_less [OF room] by (simp add: commit_or_recover_def)
  next
    case False
    then have "s' = fst (commit_port (po_operation_id q) phase cid cdg s)"
      using step by (auto simp: commit_or_recover_def ports split: prod.splits)
    then show ?thesis using commit_room [OF room] by simp
  qed
  obtain s1 m where m: "commit_port (po_operation_id q) phase cid cdg s = (s1, m)" by fastforce
  consider (recover) "phase = Phase_recovery_required" "s' = s"
    | (refused) e where "phase \<noteq> Phase_recovery_required" "m = Inl e" "s' = s1"
        "\<exists>c1. read_port None s' = Inr c1 \<and> spec_step (spec_of c0) (spec_of c1)"
    | (success) p where "phase \<noteq> Phase_recovery_required" "m = Inr p" "s' = s1"
        "read_port None s' = Inr (Some p)" "spec_step (spec_of c0) (spec_of (Some p))"
  proof (cases "phase = Phase_recovery_required")
    case False
    then have s': "s' = s1" using step m by (auto simp: commit_or_recover_def ports)
    show ?thesis
    proof (cases "spec_commit (po_operation_id q) phase cid cdg (spec_of c0)")
      case (Inl e)
      show ?thesis
        by (rule that(2)) (use False s' commit_refused [OF room read Inl] m read in auto)
    next
      case (Inr sp)
      note sp = spec_step_commit [OF Inr]
      show ?thesis
      proof (cases m)
        case (Inl e)
        show ?thesis
          by (rule that(2)) (use False s' commit_failed [OF room read Inr, of s1 e] m read Inl sp in auto)
      next
        case (Inr p)
        show ?thesis
          by (rule that(3))
            (use False s' commit_done [OF room read \<open>spec_commit _ _ _ _ _ = _\<close>, of s1 p] m Inr sp in auto)
      qed
    qed
  qed (use that(1) step in \<open>auto simp: commit_or_recover_def\<close>)
  then have "truthful (read_port None) s' r
      \<and> (\<exists>c1. read_port None s' = Inr c1 \<and> spec_step (spec_of c0) (spec_of c1))"
  proof cases
    case recover
    then show ?thesis
      using step read receipt [OF room, of _ rq None]
      by (cases c0) (fastforce simp: commit_or_recover_def ports truthful_def)+
  next
    case refused
    then obtain c1 where c1: "read_port None s' = Inr c1" by blast
    then show ?thesis
      using refused step m receipt [OF \<open>room k s'\<close>, of _ rq None]
      by (cases c1) (fastforce simp: commit_or_recover_def ports truthful_def)+
  next
    case success
    then show ?thesis
      using step m receipt [OF \<open>room k s'\<close> success(4), of rq None]
      by (auto simp: commit_or_recover_def ports truthful_def)
  qed
  then show "truthful (read_port None) s' r"
    "\<exists>c1. read_port None s' = Inr c1 \<and> spec_step (spec_of c0) (spec_of c1)"
    by blast+
qed

lemma prepare_operation_step:
  assumes w: "wired c ident read_port prepare_port commit_port" and room: "room (Suc k) s"
    and read: "read_port None s = Inr c0"
    and step: "prepare_operation c rq cdg s = (s1, r)"
  shows "room k s1"
    "\<exists>c1. read_port None s1 = Inr c1 \<and> spec_step (spec_of c0) (spec_of c1)"
    "\<And>x. r = Inr x \<Longrightarrow> read_port None s1 = Inr (Some (pr_projection x))
       \<and> pj_pending_operation (pr_projection x) = Some (pr_prepared_operation x)
       \<and> request_intent c rq cdg = Inr (po_intent (pr_prepared_operation x))"
    "\<And>x. r = Inr x \<Longrightarrow> pr_created x \<longleftrightarrow> sp_pending (spec_of c0) = None"
    "sp_pending (spec_of c0) \<noteq> None \<Longrightarrow> s1 = s"
proof -
  have all: "room k s1 \<and> (\<exists>c1. read_port None s1 = Inr c1 \<and> spec_step (spec_of c0) (spec_of c1))
    \<and> (\<forall>x. r = Inr x \<longrightarrow> read_port None s1 = Inr (Some (pr_projection x))
         \<and> pj_pending_operation (pr_projection x) = Some (pr_prepared_operation x)
         \<and> request_intent c rq cdg = Inr (po_intent (pr_prepared_operation x))
         \<and> (pr_created x \<longleftrightarrow> sp_pending (spec_of c0) = None))
    \<and> (sp_pending (spec_of c0) \<noteq> None \<longrightarrow> s1 = s)"
  proof (cases "request_intent c rq cdg")
    case (Inl e)
    then show ?thesis using step read room_less [OF room] by (auto simp: prepare_operation_def)
  next
    case (Inr i)
    have i: "valid_intent i" using request_intent_valid [OF Inr] by blast
    have port: "prepare_port i s = (s1, r)" using step w by (simp add: prepare_operation_def Inr wired_def)
    have room': "room k s1" using prepare_room [OF room i] port by simp
    show ?thesis
    proof (cases "spec_prepare i (spec_of c0)")
      case (Inl e)
      then show ?thesis using prepare_refused [OF room i read Inl] port read room_less [OF room] by auto
    next
      case spec: (Inr x)
      obtain sp created where x: "x = (sp, created)" by force
      show ?thesis
      proof (cases created)
        case False
        then obtain p q where p: "c0 = Some p" "pj_pending_operation p = Some q" "po_intent q = i"
          "sp = spec_of (Some p)"
          using spec x
          by (cases c0)
            (auto simp: spec_prepare_def spec_of_def bind_result_Inr_iff split: option.splits if_splits)
        then show ?thesis
          using prepare_again [OF room i, of p sp] read spec x False port room' Inr
          by (auto simp: spec_of_def)
      next
        case True
        then have none: "sp_pending (spec_of c0) = None" and sp: "sp = (spec_of c0)\<lparr>sp_pending := Some i\<rparr>"
          using spec x by (auto simp: spec_prepare_def bind_result_Inr_iff split: option.splits if_splits)
        have created: "spec_prepare i (spec_of c0) = Inr (sp, True)" using spec x True by simp
        show ?thesis
        proof (cases r)
          case (Inl e)
          then show ?thesis
            using prepare_failed [OF room i read created, of s1 e] port room' none read
              spec_step_prepare [OF created]
            by auto
        next
          case (Inr y)
          note y = prepare_created [OF room i read created, of s1 y]
          then have "sp_pending (spec_of (Some (pr_projection y))) = Some i"
            "pj_pending_operation (pr_projection y) = Some (pr_prepared_operation y)"
            using port Inr sp by simp_all
          then have "po_intent (pr_prepared_operation y) = i" by (simp add: spec_of_pending)
          then show ?thesis
            using y port room' none spec_step_prepare [OF created] Inr \<open>request_intent c rq cdg = Inr i\<close>
            by auto
        qed
      qed
    qed
  qed
  then show "room k s1"
    "\<exists>c1. read_port None s1 = Inr c1 \<and> spec_step (spec_of c0) (spec_of c1)"
    "\<And>x. r = Inr x \<Longrightarrow> read_port None s1 = Inr (Some (pr_projection x))
       \<and> pj_pending_operation (pr_projection x) = Some (pr_prepared_operation x)
       \<and> request_intent c rq cdg = Inr (po_intent (pr_prepared_operation x))"
    "\<And>x. r = Inr x \<Longrightarrow> pr_created x \<longleftrightarrow> sp_pending (spec_of c0) = None"
    "sp_pending (spec_of c0) \<noteq> None \<Longrightarrow> s1 = s"
    by blast+
qed

end

context run_control_ledger
begin

lemma perform_effect_step:
  assumes w: "wired c ident read_port prepare_port commit_port" and room: "room (Suc k) s"
    and read: "read_port None s = Inr (Some p)" and pending: "pj_pending_operation p \<noteq> None"
    and step: "perform_effect c rq q life allowed cid cdg (s, e) = ((s', e'), r)"
  shows "room k s'" "truthful (read_port None) s' r"
    "\<exists>c1. read_port None s' = Inr c1 \<and> spec_step (spec_of (Some p)) (spec_of c1)"
    "e' = fst (life e)"
proof -
  have ports: "rc_read c = read_port" using w by (simp add: wired_def)
  obtain e1 o1 where life: "life e = (e1, o1)" by fastforce
  let ?out = "case o1 of Inl _ \<Rightarrow> Inl Provider_error | Inr o' \<Rightarrow> refuse (require_outcome allowed o')"
  have "room k s' \<and> truthful (read_port None) s' r
      \<and> (\<exists>c1. read_port None s' = Inr c1 \<and> spec_step (spec_of (Some p)) (spec_of c1)) \<and> e' = e1"
  proof (cases ?out)
    case (Inl err)
    then show ?thesis
      using step room_less [OF room] read pending make_receipt_ok [OF w room read, of rq None]
      by (auto simp: perform_effect_def life ports truthful_def)
  next
    case (Inr phase)
    obtain s1 r1 where cr: "commit_or_recover c rq q phase cid cdg s = (s1, r1)" by fastforce
    then have "s' = s1" "r = r1" "e' = e1" using step Inr by (simp_all add: perform_effect_def life)
    then show ?thesis using commit_or_recover_step [OF w room read cr] by simp
  qed
  then show "room k s'" "truthful (read_port None) s' r"
    "\<exists>c1. read_port None s' = Inr c1 \<and> spec_step (spec_of (Some p)) (spec_of c1)"
    "e' = fst (life e)"
    using life by simp_all
qed

text \<open>The effect of an action that prepares first.\<close>

lemma prepare_and_perform_step:
  assumes w: "wired c ident read_port prepare_port commit_port" and room: "room (Suc (Suc k)) s"
    and read: "read_port None s = Inr c0"
    and step: "prepare_and_perform c rq cdg life allowed checkpoint (s, e) = ((s', e'), r)"
  shows "room k s' \<and> truthful (read_port None) s' r"
    "\<exists>c1 c2. read_port None s' = Inr c2 \<and> spec_step (spec_of c0) (spec_of c1)
       \<and> spec_step (spec_of c1) (spec_of c2)"
    "e' = e \<or> (\<exists>s1 p q. prepare_operation c rq cdg s = (s1, Inr \<lparr>pr_projection = p,
         pr_prepared_operation = q, pr_created = True\<rparr>)
       \<and> read_port None s1 = Inr (Some p) \<and> pj_pending_operation p = Some q
       \<and> request_intent c rq cdg = Inr (po_intent q) \<and> e' = fst (life q e))"
    "sp_pending (spec_of c0) \<noteq> None \<Longrightarrow> s' = s \<and> e' = e"
proof -
  obtain s1 r1 where prep: "prepare_operation c rq cdg s = (s1, r1)" by fastforce
  note P = prepare_operation_step [OF w room read prep]
  obtain c1 where c1: "read_port None s1 = Inr c1" "spec_step (spec_of c0) (spec_of c1)"
    using P(2) by blast
  have "room k s' \<and> truthful (read_port None) s' r
    \<and> (\<exists>c1 c2. read_port None s' = Inr c2 \<and> spec_step (spec_of c0) (spec_of c1)
         \<and> spec_step (spec_of c1) (spec_of c2))
    \<and> (e' = e \<or> (\<exists>s1 p q. prepare_operation c rq cdg s = (s1, Inr \<lparr>pr_projection = p,
         pr_prepared_operation = q, pr_created = True\<rparr>)
       \<and> read_port None s1 = Inr (Some p) \<and> pj_pending_operation p = Some q
       \<and> request_intent c rq cdg = Inr (po_intent q) \<and> e' = fst (life q e)))
    \<and> (sp_pending (spec_of c0) \<noteq> None \<longrightarrow> s' = s \<and> e' = e)"
  proof (cases r1)
    case (Inl err)
    then have "s' = s1" "e' = e" "r = Inl (Refused err)"
      using step by (simp_all add: prepare_and_perform_def prep)
    then show ?thesis
      using P(1,5) c1 room_less by (auto simp: truthful_def)
  next
    case (Inr x)
    note X = P(3,4) [OF Inr]
    show ?thesis
    proof (cases "pr_created x")
      case False
      then have "s' = s1" "e' = e" "r = refuse (make_receipt c rq (pr_projection x) None)"
        using step Inr by (simp_all add: prepare_and_perform_def prep)
      then show ?thesis
        using P(1,5) X make_receipt_ok [OF w P(1), of "pr_projection x" rq None] room_less [OF P(1)] c1
        by (auto simp: truthful_def)
    next
      case True
      let ?q = "pr_prepared_operation x"
      have x: "x = \<lparr>pr_projection = pr_projection x, pr_prepared_operation = ?q, pr_created = True\<rparr>"
        using True by (cases x) simp
      have "perform_effect c rq ?q (life ?q) allowed (fst (checkpoint ?q)) (snd (checkpoint ?q)) (s1, e)
            = ((s', e'), r)"
        using step Inr True by (simp add: prepare_and_perform_def prep Let_def split: prod.splits)
      from perform_effect_step [OF w P(1) _ _ this] X
      have "room k s' \<and> truthful (read_port None) s' r
        \<and> (\<exists>c2. read_port None s' = Inr c2 \<and> spec_step (spec_of (Some (pr_projection x))) (spec_of c2))
        \<and> e' = fst (life ?q e)"
        by auto
      then show ?thesis using X c1 True prep Inr x by auto
    qed
  qed
  then show "room k s' \<and> truthful (read_port None) s' r"
    "\<exists>c1 c2. read_port None s' = Inr c2 \<and> spec_step (spec_of c0) (spec_of c1)
       \<and> spec_step (spec_of c1) (spec_of c2)"
    "e' = e \<or> (\<exists>s1 p q. prepare_operation c rq cdg s = (s1, Inr \<lparr>pr_projection = p,
         pr_prepared_operation = q, pr_created = True\<rparr>)
       \<and> read_port None s1 = Inr (Some p) \<and> pj_pending_operation p = Some q
       \<and> request_intent c rq cdg = Inr (po_intent q) \<and> e' = fst (life q e))"
    "sp_pending (spec_of c0) \<noteq> None \<Longrightarrow> s' = s \<and> e' = e"
    by blast+
qed

end

text \<open>The providers' state when a lifecycle call may start: a resume has loaded its checkpoint.\<close>

definition before_effect :: "('s, 'e) run_control \<Rightarrow> run_request \<Rightarrow> 'e \<Rightarrow> 'e" where
  "before_effect c rq e =
     (case (rq_action rq, rq_restore_checkpoint_id rq, rq_restore_cycle_identity rq) of
        (Action_resume, Some cid, Some cycle) \<Rightarrow> fst (rc_load_checkpoint c cid e)
      | _ \<Rightarrow> e)"

text \<open>\<open>e'\<close> is the providers' state after the lifecycle call for operation \<open>q\<close>.\<close>

definition lifecycle_effect ::
    "('s, 'e) run_control \<Rightarrow> run_request \<Rightarrow> prepared_operation \<Rightarrow> 'e \<Rightarrow> 'e \<Rightarrow> bool" where
  "lifecycle_effect c rq q e e' \<longleftrightarrow>
     (let ident = rc_identity c; man = rc_manifest c; op = po_operation_id q
      in (rq_action rq = Action_run \<and> e' = fst (rc_run c ident man op e))
         \<or> (rq_action rq = Action_stop \<and> e' = fst (rc_stop c ident man op e))
         \<or> (rq_action rq = Action_resume
            \<and> (\<exists>cp cycle. rq_restore_cycle_identity rq = Some cycle
                 \<and> rq_restore_checkpoint_id rq = Some (cm_checkpoint_id cp)
                 \<and> cm_cycle_identity_digest cp = cycle_digest cycle
                 \<and> e' = fst (rc_resume c ident man cp cycle op e))))"

lemma load_restore_checkpoint_fst: "fst (load_restore_checkpoint c cid cycle e) = fst (rc_load_checkpoint c cid e)"
  by (simp add: load_restore_checkpoint_def split: prod.splits)

lemma load_restore_checkpoint_Inr:
  "load_restore_checkpoint c cid cycle e = (e1, Inr cp) \<Longrightarrow>
     cm_checkpoint_id cp = cid \<and> cm_cycle_identity_digest cp = cycle_digest cycle"
  by (auto simp: load_restore_checkpoint_def split: prod.splits sum.splits option.splits if_splits)

text \<open>Everything a \<open>run\<close>, \<open>stop\<close> or \<open>resume\<close> may do to the ledger and to the providers.\<close>

definition effect_ok :: "('s, 'e) run_control \<Rightarrow> run_request \<Rightarrow> 's \<times> 'e \<Rightarrow> projection option
    \<Rightarrow> 's \<times> 'e \<Rightarrow> control_error + run_receipt \<Rightarrow> bool" where
  "effect_ok c rq st c0 st' r \<longleftrightarrow>
     truthful (rc_read c None) (fst st') r
     \<and> (\<exists>c1 c2. rc_read c None (fst st') = Inr c2 \<and> spec_step (spec_of c0) (spec_of c1)
          \<and> spec_step (spec_of c1) (spec_of c2))
     \<and> (snd st' = before_effect c rq (snd st)
        \<or> (\<exists>s1 p q. rc_prepare c (po_intent q) (fst st) = (s1, Inr \<lparr>pr_projection = p,
               pr_prepared_operation = q, pr_created = True\<rparr>)
             \<and> rc_read c None s1 = Inr (Some p) \<and> pj_pending_operation p = Some q
             \<and> po_action q = rq_action rq
             \<and> lifecycle_effect c rq q (before_effect c rq (snd st)) (snd st')))
     \<and> (sp_pending (spec_of c0) \<noteq> None \<longrightarrow>
          fst st' = fst st \<and> snd st' = before_effect c rq (snd st))"

context run_control_ledger
begin

lemma prepare_and_perform_ok:
  assumes w: "wired c ident read_port prepare_port commit_port" and room: "room (Suc (Suc k)) s"
    and read: "read_port None s = Inr c0"
    and step: "prepare_and_perform c rq cdg life allowed checkpoint (s, before_effect c rq e) = ((s', e'), r)"
    and life: "\<And>q. lifecycle_effect c rq q (before_effect c rq e) (fst (life q (before_effect c rq e)))"
  shows "room k s' \<and> effect_ok c rq (s, e) c0 (s', e') r"
proof -
  note P = prepare_and_perform_step [OF w room read step]
  have ports: "rc_read c = read_port" using w by (simp add: wired_def)
  have "rc_prepare c (po_intent q) s = (s1, Inr x)" "po_action q = rq_action rq"
    if "prepare_operation c rq cdg s = (s1, Inr x)" "request_intent c rq cdg = Inr (po_intent q)" for s1 x q
    using that request_intent_valid [OF that(2)] by (simp_all add: prepare_operation_def po_intent_def)
  then show ?thesis
    using P life unfolding effect_ok_def ports by (simp only: fst_conv snd_conv) metis
qed

lemma report_ok:
  assumes "wired c ident read_port prepare_port commit_port" "room k s"
    "read_port None s = Inr (Some p)" "e' = before_effect c rq e"
  shows "effect_ok c rq (s, e) (Some p) (s, e') (refuse (make_receipt c rq p ev))"
  using make_receipt_ok [OF assms(1-3), of rq ev] assms
  by (auto simp: effect_ok_def truthful_def wired_def intro: spec_step_refl)

lemma refused_ok:
  assumes "wired c ident read_port prepare_port commit_port"
    "read_port None s = Inr c0" "e' = before_effect c rq e"
  shows "effect_ok c rq (s, e) c0 (s, e') (Inl (Refused err))"
  using assms by (auto simp: effect_ok_def truthful_def wired_def intro: spec_step_refl)

lemma require_projection_Inr:
  assumes "wired c ident read_port prepare_port commit_port" "room k s"
    "require_projection c rq s = Inr p"
  shows "read_port None s = Inr (Some p)"
  using assms read_any [OF assms(2)]
  by (auto simp: require_projection_def wired_def bind_result_Inr_iff split: option.splits)

lemma effectful_run_ok:
  assumes w: "wired c ident read_port prepare_port commit_port" and room: "room (Suc (Suc k)) s"
    and read: "read_port None s = Inr c0" and act: "rq_action rq = Action_run"
    and step: "effectful_run c rq (s, e) = ((s', e'), r)"
  shows "room k s' \<and> effect_ok c rq (s, e) c0 (s', e') r"
proof -
  have ports: "rc_read c = read_port" using w by (simp add: wired_def)
  have less: "room k s" using room room_less by blast
  have before: "before_effect c rq e = e" by (simp add: before_effect_def act)
  consider (refused) err where "s' = s" "e' = e" "r = Inl (Refused err)"
    | (report) p where "s' = s" "e' = e" "read_port None s = Inr (Some p)"
        "r = refuse (make_receipt c rq p None)"
    | (perform) "prepare_and_perform c rq None
        (\<lambda>q. rc_run c (rc_identity c) (rc_manifest c) (po_operation_id q))
        {Phase_running, Phase_recovery_required, Phase_failed} base_checkpoint (s, e) = ((s', e'), r)"
    using step read_any [OF less]
    by (auto simp: effectful_run_def ports split: sum.splits if_splits)
  then show ?thesis
  proof cases
    case refused
    then show ?thesis using refused_ok [OF w read, of e rq e err] less before by simp
  next
    case report
    then show ?thesis using report_ok [OF w less, of p e rq e None] less before read by simp
  next
    case perform
    then show ?thesis
      by (intro prepare_and_perform_ok [OF w room read]) (simp_all add: before lifecycle_effect_def act)
  qed
qed

lemma effectful_stop_ok:
  assumes w: "wired c ident read_port prepare_port commit_port" and room: "room (Suc (Suc k)) s"
    and read: "read_port None s = Inr c0" and act: "rq_action rq = Action_stop"
    and step: "effectful_stop c rq (s, e) = ((s', e'), r)"
  shows "room k s' \<and> effect_ok c rq (s, e) c0 (s', e') r"
proof -
  have less: "room k s" using room room_less by blast
  have before: "before_effect c rq e = e" by (simp add: before_effect_def act)
  consider (refused) err where "s' = s" "e' = e" "r = Inl (Refused err)"
    | (report) p where "s' = s" "e' = e" "read_port None s = Inr (Some p)"
        "r = refuse (make_receipt c rq p None)"
    | (perform) "prepare_and_perform c rq None
        (\<lambda>q. rc_stop c (rc_identity c) (rc_manifest c) (po_operation_id q))
        {Phase_stopped, Phase_completed, Phase_recovery_required, Phase_failed} base_checkpoint (s, e)
        = ((s', e'), r)"
    using step require_projection_Inr [OF w less, of rq]
    by (auto simp: effectful_stop_def split: sum.splits if_splits)
  then show ?thesis
  proof cases
    case refused
    then show ?thesis using refused_ok [OF w read, of e rq e err] less before by simp
  next
    case report
    then show ?thesis using report_ok [OF w less, of p e rq e None] less before read by simp
  next
    case perform
    then show ?thesis
      by (intro prepare_and_perform_ok [OF w room read]) (simp_all add: before lifecycle_effect_def act)
  qed
qed

lemma effectful_resume_ok:
  assumes w: "wired c ident read_port prepare_port commit_port" and room: "room (Suc (Suc k)) s"
    and read: "read_port None s = Inr c0" and act: "rq_action rq = Action_resume"
    and step: "effectful_resume c rq (s, e) = ((s', e'), r)"
  shows "room k s' \<and> effect_ok c rq (s, e) c0 (s', e') r"
proof (cases "\<exists>cid cycle. rq_restore_checkpoint_id rq = Some cid \<and> rq_restore_cycle_identity rq = Some cycle")
  case False
  have less: "room k s" using room room_less by blast
  have "before_effect c rq e = e" "s' = s" "e' = e" "r = Inl (Refused Run_value_error)"
    using False step by (auto simp: act before_effect_def effectful_resume_def split: option.splits)
  then show ?thesis using refused_ok [OF w read, of e rq e] less by simp
next
  case True
  then obtain cid cycle where cid: "rq_restore_checkpoint_id rq = Some cid"
    and cycle: "rq_restore_cycle_identity rq = Some cycle" by blast
  have less: "room k s" using room room_less by blast
  obtain e1 o1 where load: "load_restore_checkpoint c cid cycle e = (e1, o1)" by fastforce
  have before: "before_effect c rq e = e1"
    using load_restore_checkpoint_fst [of c cid cycle e] load
    by (simp add: before_effect_def act cid cycle)
  consider (refused) err where "s' = s" "e' = e1" "r = Inl (Refused err)"
    | (report) p where "s' = s" "e' = e1" "read_port None s = Inr (Some p)"
        "r = refuse (make_receipt c rq p None)"
    | (perform) cp where "o1 = Inr cp" "prepare_and_perform c rq (Some (checkpoint_digest cp))
        (\<lambda>q. rc_resume c (rc_identity c) (rc_manifest c) cp cycle (po_operation_id q))
        {Phase_running, Phase_recovery_required, Phase_failed}
        (\<lambda>_. (Some (cm_checkpoint_id cp), Some (checkpoint_digest cp))) (s, e1) = ((s', e'), r)"
    using step require_projection_Inr [OF w less, of rq]
    by (auto simp: effectful_resume_def cid cycle load split: sum.splits if_splits)
  then show ?thesis
  proof cases
    case refused
    then show ?thesis using refused_ok [OF w read, of e1 rq e err] less before by simp
  next
    case report
    then show ?thesis using report_ok [OF w less, of p e1 rq e None] less before read by simp
  next
    case (perform cp)
    note cp = load_restore_checkpoint_Inr [of c cid cycle e e1 cp]
    show ?thesis
      by (rule prepare_and_perform_ok [OF w room read])
        (use perform cp load cid cycle in \<open>auto simp: before lifecycle_effect_def act Let_def\<close>)
  qed
qed

end

text \<open>An action that performs no lifecycle call.\<close>

definition observe_ok :: "('s, 'e) run_control \<Rightarrow> 's \<times> 'e \<Rightarrow> projection option \<Rightarrow> 's \<times> 'e
    \<Rightarrow> control_error + run_receipt \<Rightarrow> bool" where
  "observe_ok c st c0 st' r \<longleftrightarrow>
     truthful (rc_read c None) (fst st') r
     \<and> (\<exists>c1. rc_read c None (fst st') = Inr c1 \<and> spec_step (spec_of c0) (spec_of c1))"

context run_control_ledger
begin

lemma observe_report:
  assumes "wired c ident read_port prepare_port commit_port" "room k s"
    "read_port None s = Inr (Some p)"
  shows "observe_ok c (s, e) (Some p) (s, e') (refuse (make_receipt c rq p ev))"
  using make_receipt_ok [OF assms(1-3), of rq ev] assms
  by (auto simp: observe_ok_def truthful_def wired_def intro: spec_step_refl)

lemma observe_refused:
  assumes "wired c ident read_port prepare_port commit_port" "read_port None s = Inr c0"
    "err = Provider_error \<or> (\<exists>x. err = Refused x)"
  shows "observe_ok c (s, e) c0 (s, e') (Inl err)"
  using assms by (auto simp: observe_ok_def truthful_def wired_def intro: spec_step_refl)

lemma evidence_run_ok:
  assumes w: "wired c ident read_port prepare_port commit_port" and room: "room k s"
    and read: "read_port None s = Inr c0"
    and step: "evidence_run c rq (s, e) = ((s', e'), r)"
  shows "s' = s \<and> observe_ok c (s, e) c0 (s', e') r"
proof -
  consider (refused) err where "s' = s" "r = Inl err" "err = Provider_error \<or> (\<exists>x. err = Refused x)"
    | (report) p ev where "s' = s" "read_port None s = Inr (Some p)"
        "r = refuse (make_receipt c rq p ev)"
    using step require_projection_Inr [OF w room, of rq]
    by (auto simp: evidence_run_def split: sum.splits if_splits option.splits prod.splits)
  then show ?thesis
    by cases (use observe_refused [OF w read] observe_report [OF w room] read in auto)
qed

lemma reconcile_run_ok:
  assumes w: "wired c ident read_port prepare_port commit_port" and room: "room (Suc k) s"
    and read: "read_port None s = Inr c0"
    and step: "reconcile_run c rq (s, e) = ((s', e'), r)"
  shows "room k s' \<and> observe_ok c (s, e) c0 (s', e') r"
proof -
  have less: "room k s" using room room_less by blast
  have ports: "rc_read c = read_port" using w by (simp add: wired_def)
  consider (refused) err where "s' = s" "r = Inl err" "err = Provider_error \<or> (\<exists>x. err = Refused x)"
    | (report) p where "s' = s" "read_port None s = Inr (Some p)"
        "r = refuse (make_receipt c rq p None)"
    | (commit) q phase cid cdg where "commit_or_recover c rq q phase cid cdg s = (s', r)"
    using step require_projection_Inr [OF w less, of rq]
    by (auto simp: reconcile_run_def Let_def split: sum.splits if_splits option.splits prod.splits)
  then show ?thesis
  proof cases
    case commit
    then show ?thesis
      using commit_or_recover_step [OF w room read commit] by (simp add: observe_ok_def ports)
  qed (use observe_refused [OF w read] observe_report [OF w less] read less in auto)
qed

text \<open>Every request: receipts are truthful and the run takes at most two abstract steps.\<close>

lemma execute_ok:
  assumes w: "wired c ident read_port prepare_port commit_port" and room: "room (Suc (Suc k)) s"
    and read: "read_port None s = Inr c0"
    and step: "execute c rq (s, e) = ((s', e'), r)"
  shows "room k s' \<and> truthful (rc_read c None) s' r
    \<and> (\<exists>c1 c2. rc_read c None s' = Inr c2 \<and> spec_step (spec_of c0) (spec_of c1)
         \<and> spec_step (spec_of c1) (spec_of c2))"
proof (cases "require_target c rq")
  case (Inl err)
  have "observe_ok c (s, e) c0 (s, e) (Inl (Refused err))" by (rule observe_refused [OF w read]) simp
  then show ?thesis
    using Inl step room room_less by (fastforce simp: execute_def observe_ok_def intro: spec_step_refl)
next
  case (Inr u)
  have less: "room (Suc k) s" "room k s" using room room_less by blast+
  have obs: ?thesis if "room k s'" "observe_ok c (s, e) c0 (s', e') r"
    using that by (fastforce simp: observe_ok_def intro: spec_step_refl)
  have eff: ?thesis if "room k s' \<and> effect_ok c rq (s, e) c0 (s', e') r"
    using that by (simp add: effect_ok_def)
  have run: "(case rq_action rq of
       Action_inspect \<Rightarrow> ((s, e), refuse (inspect_run c rq s))
     | Action_run \<Rightarrow> effectful_run c rq (s, e) | Action_stop \<Rightarrow> effectful_stop c rq (s, e)
     | Action_resume \<Rightarrow> effectful_resume c rq (s, e) | Action_reconcile \<Rightarrow> reconcile_run c rq (s, e)
     | Action_evidence \<Rightarrow> evidence_run c rq (s, e)) = ((s', e'), r)"
    using step by (cases "rq_action rq") (auto simp: execute_def Inr)
  show ?thesis
  proof (cases "rq_action rq")
    case Action_run
    then show ?thesis using eff effectful_run_ok [OF w room read] run by simp
  next
    case Action_stop
    then show ?thesis using eff effectful_stop_ok [OF w room read] run by simp
  next
    case Action_resume
    then show ?thesis using eff effectful_resume_ok [OF w room read] run by simp
  next
    case Action_reconcile
    then show ?thesis using obs reconcile_run_ok [OF w less(1) read] run by simp
  next
    case Action_evidence
    then have "evidence_run c rq (s, e) = ((s', e'), r)" using run by simp
    from evidence_run_ok [OF w less(2) read this] show ?thesis using obs less(2) by auto
  next
    case Action_inspect
    then have "observe_ok c (s, e) c0 (s', e') r \<and> s' = s"
      using run observe_refused [OF w read, of _ e e] observe_report [OF w less(2), of _ e e rq None] read
        require_projection_Inr [OF w less(2), of rq]
      by (cases "require_projection c rq s") (auto simp: inspect_run_def)
    then show ?thesis using obs less(2) by auto
  qed
qed

lemma execute_effect_ok:
  assumes w: "wired c ident read_port prepare_port commit_port" and room: "room (Suc (Suc k)) s"
    and read: "read_port None s = Inr c0" and act: "rq_action rq \<in> {Action_run, Action_stop, Action_resume}"
    and target: "require_target c rq = Inr ()"
    and step: "execute c rq (s, e) = ((s', e'), r)"
  shows "effect_ok c rq (s, e) c0 (s', e') r"
  using act step target effectful_run_ok [OF w room read] effectful_stop_ok [OF w room read]
    effectful_resume_ok [OF w room read]
  by (auto simp: execute_def)

end

subsection \<open>What a settled effect does when the ledger's writes succeed\<close>

lemma pending_operation_sha256:
  assumes "ledger_projection L p" "pj_pending_operation p = Some q"
  shows "is_sha256 (po_operation_id q)"
proof -
  have "valid_intent (po_intent q)"
    using assms by (simp add: ledger_projection_def pending_matches_def valid_prepared_def)
  from valid_intent_restore(3) [OF this] show ?thesis by (simp add: po_intent_def)
qed

context run_control_ledger
begin

lemma commit_or_recover_durable:
  assumes w: "wired c ident read_port prepare_port commit_port" and room: "room (Suc k) s"
    and dur: "durable s" and read: "read_port None s = Inr (Some p)"
    and pending: "pj_pending_operation p = Some q"
    and phase: "phase \<noteq> Phase_recovery_required" and cp: "checkpoint_ok cid cdg"
  shows "\<exists>s' receipt p'. commit_or_recover c rq q phase cid cdg s = (s', Inr receipt)
     \<and> durable s' \<and> room k s' \<and> read_port None s' = Inr (Some p') \<and> reports receipt p'
     \<and> spec_of (Some p') = \<lparr>sp_generation = pj_control_generation p + 1, sp_phase = Some phase,
                            sp_checkpoint = (cid, cdg), sp_pending = None\<rparr>"
proof -
  have "is_sha256 (po_operation_id q)"
    by (rule pending_operation_sha256 [OF read_valid [OF room read] pending])
  then have spec: "spec_commit (po_operation_id q) phase cid cdg (spec_of (Some p))
      = Inr \<lparr>sp_generation = pj_control_generation p + 1, sp_phase = Some phase,
             sp_checkpoint = (cid, cdg), sp_pending = None\<rparr>" (is "_ = Inr ?sp")
    using pending phase cp by (simp add: spec_commit_def spec_of_def po_intent_def)
  obtain s' p' where s': "commit_port (po_operation_id q) phase cid cdg s = (s', Inr p')" "durable s'"
    using commit_durable [OF room dur read spec] by blast
  note d = commit_done [OF room read spec s'(1)]
  have room': "room k s'" using commit_room [OF room] s'(1) by (metis fst_conv)
  show ?thesis
    using make_receipt_ok [OF w room', of p' rq None] d s' w phase room'
    by (auto simp: commit_or_recover_def wired_def)
qed

lemma prepare_operation_durable:
  assumes w: "wired c ident read_port prepare_port commit_port" and room: "room (Suc k) s"
    and dur: "durable s" and read: "read_port None s = Inr c0"
    and intent: "request_intent c rq cdg = Inr i"
    and spec: "spec_prepare i (spec_of c0) = Inr (sp, True)"
  shows "\<exists>s1 p q. prepare_operation c rq cdg s = (s1, Inr \<lparr>pr_projection = p,
       pr_prepared_operation = q, pr_created = True\<rparr>) \<and> durable s1 \<and> room k s1
     \<and> read_port None s1 = Inr (Some p) \<and> pj_pending_operation p = Some q \<and> po_intent q = i
     \<and> spec_of (Some p) = sp"
proof -
  have i: "valid_intent i" using request_intent_valid [OF intent] by blast
  obtain s1 x where x: "prepare_port i s = (s1, Inr x)" "durable s1"
    using prepare_durable [OF room dur i read spec] by blast
  note d = prepare_created [OF room i read spec x(1)]
  have "room k s1" using prepare_room [OF room i] x(1) by (metis fst_conv)
  moreover have "sp_pending sp = Some i"
    using spec by (auto simp: spec_prepare_def bind_result_Inr_iff split: option.splits if_splits)
  moreover have "x = \<lparr>pr_projection = pr_projection x, pr_prepared_operation = pr_prepared_operation x,
      pr_created = True\<rparr>" using d by (cases x) simp
  ultimately show ?thesis
    using x d intent w
    by (intro exI [of _ s1] exI [of _ "pr_projection x"] exI [of _ "pr_prepared_operation x"])
      (auto simp: prepare_operation_def wired_def spec_of_pending)
qed

text \<open>The result of a newly prepared effect, by what the lifecycle provider answers.\<close>

lemma prepare_and_perform_durable:
  assumes w: "wired c ident read_port prepare_port commit_port" and room: "room (Suc (Suc k)) s"
    and dur: "durable s" and read: "read_port None s = Inr c0"
    and intent: "request_intent c rq cdg = Inr i"
    and spec: "spec_prepare i (spec_of c0) = Inr (sp, True)"
    and cp: "\<forall>q. po_intent q = i \<longrightarrow> base_checkpoint q = sp_checkpoint sp \<longrightarrow>
               checkpoint q = (cid, cd)" and ok: "checkpoint_ok cid cd"
  shows "\<exists>s' q p'. fst (fst (prepare_and_perform c rq cdg life allowed checkpoint (s, e))) = s'
     \<and> po_intent q = i \<and> snd (fst (prepare_and_perform c rq cdg life allowed checkpoint (s, e))) = fst (life q e)
     \<and> read_port None s' = Inr (Some p')
     \<and> (case snd (life q e) of
          Inr (Some phase) \<Rightarrow>
            if phase \<in> allowed \<and> phase \<noteq> Phase_recovery_required
            then (\<exists>receipt. snd (prepare_and_perform c rq cdg life allowed checkpoint (s, e)) = Inr receipt
                    \<and> reports receipt p')
                 \<and> spec_of (Some p') = \<lparr>sp_generation = sp_generation sp + 1, sp_phase = Some phase,
                                        sp_checkpoint = (cid, cd), sp_pending = None\<rparr>
            else spec_of (Some p') = sp
                 \<and> (\<exists>receipt. snd (prepare_and_perform c rq cdg life allowed checkpoint (s, e))
                      = (if phase \<in> allowed then Inr receipt else Inl (Action_failure receipt))
                    \<and> reports receipt p')
        | _ \<Rightarrow> spec_of (Some p') = sp
               \<and> (\<exists>receipt. snd (prepare_and_perform c rq cdg life allowed checkpoint (s, e))
                      = Inl (Action_failure receipt) \<and> reports receipt p'))"
proof -
  obtain s1 p q where prep: "prepare_operation c rq cdg s = (s1, Inr \<lparr>pr_projection = p,
       pr_prepared_operation = q, pr_created = True\<rparr>)" and s1: "durable s1" "room (Suc k) s1"
     "read_port None s1 = Inr (Some p)" "pj_pending_operation p = Some q" "po_intent q = i"
     "spec_of (Some p) = sp"
    using prepare_operation_durable [OF w room dur read intent spec] by blast
  have ports: "rc_read c = read_port" using w by (simp add: wired_def)
  have "base_checkpoint q = sp_checkpoint sp"
    using read_valid [OF s1(2,3)] s1(4,6)
    by (auto simp: ledger_projection_def pending_matches_def base_checkpoint_def spec_of_def)
  then have checkpoint: "checkpoint q = (cid, cd)" using cp s1(5) by blast
  obtain e1 o1 where life: "life q e = (e1, o1)" by fastforce
  obtain rec where rec: "make_receipt c rq p None = Inr rec" "reports rec p"
    using make_receipt_ok [OF w s1(2,3), of rq None] by blast
  have run: "prepare_and_perform c rq cdg life allowed checkpoint (s, e)
      = perform_effect c rq q (life q) allowed cid cd (s1, e)"
    by (simp add: prepare_and_perform_def prep checkpoint)
  consider (bad) "case o1 of Inl _ \<Rightarrow> True | Inr None \<Rightarrow> True | Inr (Some ph) \<Rightarrow> ph \<notin> allowed"
    | (recover) "o1 = Inr (Some Phase_recovery_required)" "Phase_recovery_required \<in> allowed"
    | (ok) phase where "o1 = Inr (Some phase)" "phase \<in> allowed" "phase \<noteq> Phase_recovery_required"
    by (cases o1; cases "projr o1") (fastforce split: sum.splits option.splits)+
  then show ?thesis
  proof cases
    case bad
    then have "perform_effect c rq q (life q) allowed cid cd (s1, e)
        = ((s1, e1), Inl (Action_failure rec))"
      using rec s1(3)
      by (auto simp: perform_effect_def life require_outcome_def ports split: sum.splits option.splits)
    then show ?thesis
      using bad s1 rec life run
      by (intro exI [of _ s1] exI [of _ q] exI [of _ p]) (auto split: sum.splits option.splits)
  next
    case recover
    then have "perform_effect c rq q (life q) allowed cid cd (s1, e) = ((s1, e1), Inr rec)"
      using rec s1(3) by (simp add: perform_effect_def life require_outcome_def ports commit_or_recover_def)
    then show ?thesis
      using recover s1 rec life run by (intro exI [of _ s1] exI [of _ q] exI [of _ p]) auto
  next
    case (ok phase)
    obtain s' receipt p' where c: "commit_or_recover c rq q phase cid cd s1 = (s', Inr receipt)"
      "read_port None s' = Inr (Some p')" "reports receipt p'"
      "spec_of (Some p') = \<lparr>sp_generation = pj_control_generation p + 1, sp_phase = Some phase,
                            sp_checkpoint = (cid, cd), sp_pending = None\<rparr>"
      using commit_or_recover_durable [OF w s1(2,1,3,4) ok(3) \<open>checkpoint_ok cid cd\<close>, of rq] by blast
    have "sp_generation sp = pj_control_generation p" using s1(6) by (auto simp: spec_of_def)
    moreover have "perform_effect c rq q (life q) allowed cid cd (s1, e) = ((s', e1), Inr receipt)"
      using c(1) ok by (simp add: perform_effect_def life require_outcome_def)
    ultimately show ?thesis
      using ok s1 c life run by (intro exI [of _ s'] exI [of _ q] exI [of _ p']) auto
  qed
qed

end

subsection \<open>The controller on the directory ledger\<close>

definition on_directory :: "(ledger_store, 'e) run_control \<Rightarrow> bool" where
  "on_directory c \<longleftrightarrow>
     wired c (rc_ledger c) (ledger_read (rc_ledger c)) (ledger_prepare (rc_ledger c))
       (ledger_commit (rc_ledger c))"

lemma on_directory_read: "on_directory c \<Longrightarrow> rc_read c = ledger_read (rc_ledger c)"
  and on_directory_prepare: "on_directory c \<Longrightarrow> rc_prepare c = ledger_prepare (rc_ledger c)"
  by (simp_all add: on_directory_def wired_def)

text \<open>
  C2: receipts are truthful. Whatever the request, the providers and the file writes do, a
  receipt that \<open>execute\<close> returns states the phase, generation, checkpoint and last event the
  ledger holds at that moment, and the receipt inside a \<open>RunControlActionFailure\<close> does so for a
  run whose operation is still unresolved. The ledger stays readable, and the abstract run has
  made at most one prepare and one commit.
\<close>

theorem execute_truthful:
  assumes "on_directory c" "ledger_room (rc_ledger c) 2 s" "load_ledger (rc_ledger c) s = Inr c0"
    and "execute c rq (s, e) = ((s', e'), r)"
  shows "truthful (load_ledger (rc_ledger c)) s' r
       \<and> (\<exists>c1 c2. load_ledger (rc_ledger c) s' = Inr c2
            \<and> spec_step (spec_of c0) (spec_of c1) \<and> spec_step (spec_of c1) (spec_of c2))"
proof -
  have "ledger_room (rc_ledger c) (Suc (Suc 0)) s" using assms(2) by (simp add: numeral_2_eq_2)
  from directory_ledger.execute_ok [OF assms(1) [unfolded on_directory_def] this _ assms(4)] assms(1,3)
  show ?thesis by (simp add: on_directory_read)
qed

text \<open>
  C1: no effect without a durable record. If \<open>run\<close>, \<open>stop\<close> or \<open>resume\<close> touches the lifecycle
  provider at all, it makes one call, for an operation that the ledger has just been asked to
  prepare, and at that moment the ledger on disk holds exactly that operation, for that action,
  as the unresolved one. (A resume loads its checkpoint first.)
\<close>

theorem effect_only_when_prepared:
  assumes "on_directory c" "ledger_room (rc_ledger c) 2 s" "load_ledger (rc_ledger c) s = Inr c0"
    and "rq_action rq \<in> {Action_run, Action_stop, Action_resume}" "require_target c rq = Inr ()"
    and "execute c rq (s, e) = ((s', e'), r)"
  shows "e' = before_effect c rq e
       \<or> (\<exists>s1 p q. ledger_prepare (rc_ledger c) (po_intent q) s = (s1, Inr \<lparr>pr_projection = p,
              pr_prepared_operation = q, pr_created = True\<rparr>)
            \<and> load_ledger (rc_ledger c) s1 = Inr (Some p) \<and> pj_pending_operation p = Some q
            \<and> po_action q = rq_action rq
            \<and> lifecycle_effect c rq q (before_effect c rq e) e')"
proof -
  have "ledger_room (rc_ledger c) (Suc (Suc 0)) s" using assms(2) by (simp add: numeral_2_eq_2)
  from directory_ledger.execute_effect_ok [OF assms(1) [unfolded on_directory_def] this _ assms(4-6)] assms(1,3)
  have "effect_ok c rq (s, e) c0 (s', e') r" by simp
  then show ?thesis
    unfolding effect_ok_def on_directory_read [OF assms(1)] on_directory_prepare [OF assms(1)]
      ledger_read_None fst_conv snd_conv
    by blast
qed

text \<open>
  C5: while an operation is unresolved the run is frozen. No \<open>run\<close>, \<open>stop\<close> or \<open>resume\<close> changes
  the ledger or reaches the lifecycle provider, whatever the request; the answer is a refusal,
  or a receipt that reports \<open>recovery_required\<close>.
\<close>

theorem unresolved_blocks_effects:
  assumes "on_directory c" "ledger_room (rc_ledger c) 2 s"
    and "load_ledger (rc_ledger c) s = Inr (Some p)" "pj_pending_operation p \<noteq> None"
    and "rq_action rq \<in> {Action_run, Action_stop, Action_resume}" "require_target c rq = Inr ()"
    and "execute c rq (s, e) = ((s', e'), r)"
  shows "s' = s \<and> e' = before_effect c rq e
       \<and> (\<forall>receipt. r = Inr receipt \<longrightarrow> rr_phase receipt = Phase_recovery_required)"
proof -
  have "ledger_room (rc_ledger c) (Suc (Suc 0)) s" using assms(2) by (simp add: numeral_2_eq_2)
  from directory_ledger.execute_effect_ok [OF assms(1) [unfolded on_directory_def] this _ assms(5-7)] assms(1,3)
  have ok: "effect_ok c rq (s, e) (Some p) (s', e') r" by simp
  have s': "s' = s \<and> e' = before_effect c rq e"
    using ok assms(4) by (simp add: effect_ok_def spec_of_pending)
  have "pj_phase p = Phase_recovery_required"
    using directory_ledger.read_valid [OF assms(2), of p] assms(3,4)
    by (auto simp: ledger_projection_def pending_matches_def)
  moreover have "truthful (load_ledger (rc_ledger c)) s r"
    using ok s' by (simp add: effect_ok_def on_directory_read [OF assms(1)])
  ultimately show ?thesis using s' assms(3) by (auto simp: truthful_def reports_def)
qed

text \<open>
  C3: the outcome of a \<open>run\<close> that may start, when the ledger's writes succeed. The provider is
  called once, with the digest of the request as operation id. If it answers \<open>running\<close> or
  \<open>failed\<close>, the run is at the next generation in that phase and the receipt says so; if it
  answers \<open>recovery_required\<close>, the operation stays unresolved and the receipt says so; if it
  raises, or answers anything else, the operation stays unresolved and the caller gets a
  \<open>RunControlActionFailure\<close> with the receipt.
\<close>

theorem run_outcome:
  fixes c :: "(ledger_store, 'e) run_control" and e :: 'e
  assumes "on_directory c" "ledger_room (rc_ledger c) 2 s" "ls_writes s = []"
    and "load_ledger (rc_ledger c) s = Inr c0"
    and "rq_action rq = Action_run" "require_target c rq = Inr ()"
    and "request_intent c rq None = Inr i" "spec_prepare i (spec_of c0) = Inr (sp, True)"
  defines "call \<equiv> rc_run c (rc_identity c) (rc_manifest c) (operation_id c rq None) e"
  shows "\<exists>s' r p. execute c rq (s, e) = ((s', fst call), r)
     \<and> load_ledger (rc_ledger c) s' = Inr (Some p)
     \<and> (case snd call of
          Inr (Some phase) \<Rightarrow>
            if phase \<in> {Phase_running, Phase_failed}
            then (\<exists>receipt. r = Inr receipt \<and> reports receipt p)
                 \<and> spec_of (Some p) = \<lparr>sp_generation = sp_generation sp + 1, sp_phase = Some phase,
                                       sp_checkpoint = sp_checkpoint sp, sp_pending = None\<rparr>
            else spec_of (Some p) = sp
                 \<and> (\<exists>receipt. r = (if phase = Phase_recovery_required then Inr receipt
                                  else Inl (Action_failure receipt)) \<and> reports receipt p)
        | _ \<Rightarrow> spec_of (Some p) = sp
               \<and> (\<exists>receipt. r = Inl (Action_failure receipt) \<and> reports receipt p))"
proof -
  have room: "ledger_room (rc_ledger c) (Suc (Suc 0)) s" using assms(2) by (simp add: numeral_2_eq_2)
  note w = assms(1) [unfolded on_directory_def]
  have read: "ledger_read (rc_ledger c) None s = Inr c0" using assms(4) by simp
  let ?life = "\<lambda>q. rc_run c (rc_identity c) (rc_manifest c) (po_operation_id q)"
  let ?allowed = "{Phase_running, Phase_recovery_required, Phase_failed}"
  have none: "sp_pending (spec_of c0) = None"
    using assms(8) by (auto simp: spec_prepare_def bind_result_Inr_iff split: option.splits if_splits)
  have cp: "sp_checkpoint sp = (fst (sp_checkpoint (spec_of c0)), snd (sp_checkpoint (spec_of c0)))"
    using assms(8) none by (auto simp: spec_prepare_def bind_result_Inr_iff split: if_splits)
  have ok: "checkpoint_ok (fst (sp_checkpoint sp)) (snd (sp_checkpoint sp))"
    using directory_ledger.read_valid [OF room, of "the c0"] read cp
    by (cases c0) (auto simp: spec_of_def checkpoint_ok_def require_defs ledger_projection_def)
  have op: "po_operation_id q = operation_id c rq None" if "po_intent q = i" for q
    using assms(7) that by (auto simp: request_intent_def construct_Inr_iff po_intent_def split: option.splits)
  have start: "spec_startable Action_run (sp_phase (spec_of c0)) = Inr ()"
    and gen: "in_base_generation i = current_generation c0"
    using assms(5,8) none request_intent_valid [OF assms(7)]
    by (auto simp: spec_prepare_def bind_result_Inr_iff split: if_splits)
  have expected: "rc_read c (tg_expected_generation (rq_target rq)) s = Inr c0"
    using request_intent_valid [OF assms(7)] gen assms(1,4)
    by (simp add: on_directory_read ledger_read_expected)
  have "\<not> (c0 \<noteq> None \<and> pj_pending_operation (the c0) = None \<and> pj_phase (the c0) = Phase_running)"
    using start by (auto simp: spec_of_def)
  then have run: "execute c rq (s, e) = prepare_and_perform c rq None ?life ?allowed base_checkpoint (s, e)"
    using expected by (auto simp: execute_def assms(5,6) effectful_run_def)
  have pair: "\<forall>q. po_intent q = i \<longrightarrow> base_checkpoint q = sp_checkpoint sp \<longrightarrow>
      base_checkpoint q = (fst (sp_checkpoint sp), snd (sp_checkpoint sp))"
    by simp
  obtain s' q p where res: "fst (fst (execute c rq (s, e))) = s'" "po_intent q = i"
    "snd (fst (execute c rq (s, e))) = fst (?life q e)" "load_ledger (rc_ledger c) s' = Inr (Some p)"
    "case snd (?life q e) of
          Inr (Some phase) \<Rightarrow>
            if phase \<in> ?allowed \<and> phase \<noteq> Phase_recovery_required
            then (\<exists>receipt. snd (execute c rq (s, e)) = Inr receipt \<and> reports receipt p)
                 \<and> spec_of (Some p) = \<lparr>sp_generation = sp_generation sp + 1, sp_phase = Some phase,
                                        sp_checkpoint = (fst (sp_checkpoint sp), snd (sp_checkpoint sp)),
                                        sp_pending = None\<rparr>
            else spec_of (Some p) = sp
                 \<and> (\<exists>receipt. snd (execute c rq (s, e))
                      = (if phase \<in> ?allowed then Inr receipt else Inl (Action_failure receipt))
                    \<and> reports receipt p)
        | _ \<Rightarrow> spec_of (Some p) = sp
               \<and> (\<exists>receipt. snd (execute c rq (s, e)) = Inl (Action_failure receipt) \<and> reports receipt p)"
    using directory_ledger.prepare_and_perform_durable
      [OF w room assms(3) read assms(7,8) pair ok, where life = ?life and allowed = ?allowed and e = e]
    unfolding run ledger_read_None by blast
  have q: "?life q e = call" using op [OF res(2)] by (simp add: call_def)
  have "execute c rq (s, e) = ((s', fst call), snd (execute c rq (s, e)))"
    using res(1,3) q by (metis prod.collapse)
  then show ?thesis
    using res(4,5) unfolding q
    by (intro exI [of _ s'] exI [of _ "snd (execute c rq (s, e))"] exI [of _ p])
      (auto split: sum.splits option.splits if_splits)
qed

text \<open>The phase an authoritative verdict settles the run in.\<close>

fun settled_phase :: "prepared_operation \<Rightarrow> reconciliation_outcome \<Rightarrow> run_phase" where
  "settled_phase q Outcome_executed =
     (if po_action q = Action_stop then Phase_stopped else Phase_running)"
| "settled_phase q Outcome_not_executed =
     (case po_base_phase q of None \<Rightarrow> Phase_failed | Some p \<Rightarrow> p)"
| "settled_phase q Outcome_rejected =
     (if po_action q = Action_run then Phase_failed
      else case po_base_phase q of None \<Rightarrow> Phase_failed | Some p \<Rightarrow> p)"
| "settled_phase q Outcome_unknown = Phase_recovery_required"

lemma resolved_phase_settled:
  assumes "po_action q \<in> {Action_run, Action_stop, Action_resume}"
    "rv_request_id v = po_operation_id q" "rv_request_digest v = Some (po_operation_id q)"
    "rv_outcome v \<noteq> Outcome_unknown" "\<not> rv_verification_required v"
  shows "resolved_reconciliation_phase q (Some v) = Inr (Some (settled_phase q (rv_outcome v)))"
  using assms
  by (cases "rv_outcome v") (auto simp: resolved_reconciliation_phase_def executed_phase_def
      split: option.splits)

text \<open>
  C4: reconciliation settles an unresolved operation. On a ledger whose writes succeed, an
  authoritative verdict about the pending operation moves the run to its next generation with
  nothing pending: an executed effect to the phase of its action (and, for a resume, onto the
  restored checkpoint), an effect that did not happen back to the phase and checkpoint before
  it, or to \<open>failed\<close> where there was none. A verdict that is unknown, or still needs
  verification, changes nothing and is reported as \<open>recovery_required\<close>.
\<close>

theorem reconcile_settles:
  fixes c :: "(ledger_store, 'e) run_control" and e :: 'e
  assumes "on_directory c" "ledger_room (rc_ledger c) 2 s" "ls_writes s = []"
    and "load_ledger (rc_ledger c) s = Inr (Some p)" "pj_pending_operation p = Some q"
    and "rq_action rq = Action_reconcile" "require_target c rq = Inr ()"
    and "tg_expected_generation (rq_target rq) = Some (pj_control_generation p)"
    and "rc_reconcile c (rc_identity c) (rc_manifest c) q e = (e', Inr (Some v))"
    and "rv_request_id v = po_operation_id q" "rv_request_digest v = Some (po_operation_id q)"
  shows "\<exists>s' receipt p'. execute c rq (s, e) = ((s', e'), Inr receipt)
     \<and> load_ledger (rc_ledger c) s' = Inr (Some p') \<and> reports receipt p'
     \<and> (if rv_outcome v = Outcome_unknown \<or> rv_verification_required v
        then s' = s \<and> rr_phase receipt = Phase_recovery_required
        else (let phase = settled_phase q (rv_outcome v) in spec_of (Some p') =
               \<lparr>sp_generation = pj_control_generation p + 1, sp_phase = Some phase,
                sp_checkpoint = (if po_action q = Action_resume \<and> phase = Phase_running
                  then (po_restore_checkpoint_id q, po_restore_checkpoint_manifest_digest q)
                  else base_checkpoint q),
                sp_pending = None\<rparr>))"
proof -
  have room: "ledger_room (rc_ledger c) (Suc (Suc 0)) s" using assms(2) by (simp add: numeral_2_eq_2)
  note w = assms(1) [unfolded on_directory_def]
  have read: "ledger_read (rc_ledger c) None s = Inr (Some p)" using assms(4) by simp
  have valid: "ledger_projection (rc_ledger c) p" by (rule directory_ledger.read_valid [OF room read])
  then have match: "pending_matches p q" using assms(5) by (simp add: ledger_projection_def)
  then have intent: "valid_intent (po_intent q)" and base: "po_base_phase q \<noteq> Some Phase_recovery_required"
    by (simp_all add: pending_matches_def valid_prepared_def)
  note I = valid_intent_restore [OF intent]
  have act: "po_action q \<in> {Action_run, Action_stop, Action_resume}" using I(4) by (simp add: po_intent_def)
  have req: "require_projection c rq s = Inr p"
    using assms(4,8) ledger_read_expected [OF assms(4), of "pj_control_generation p"]
    by (simp add: require_projection_def on_directory_read [OF assms(1)] current_generation_def)
  show ?thesis
  proof (cases "rv_outcome v = Outcome_unknown \<or> rv_verification_required v")
    case True
    obtain r where "make_receipt c rq p None = Inr r" "reports r p"
      using directory_ledger.make_receipt_ok [OF w room read, of rq None] by blast
    moreover have "pj_phase p = Phase_recovery_required" using match by (simp add: pending_matches_def)
    moreover have "resolved_reconciliation_phase q (Some v) = Inr None"
      using True assms(10) by (simp add: resolved_reconciliation_phase_def)
    ultimately show ?thesis
      using True assms(4-7,9) req
      by (auto simp: execute_def reconcile_run_def reports_def)
  next
    case False
    let ?ph = "settled_phase q (rv_outcome v)"
    let ?restored = "po_action q = Action_resume \<and> ?ph = Phase_running"
    let ?cid = "if ?restored then po_restore_checkpoint_id q else po_base_latest_checkpoint_id q"
    let ?cdg = "if ?restored then po_restore_checkpoint_manifest_digest q
                else po_base_checkpoint_manifest_digest q"
    have phase: "?ph \<noteq> Phase_recovery_required"
      using base False by (cases "rv_outcome v") (auto split: option.splits)
    have "checkpoint_ok ?cid ?cdg"
      using I(1) match valid
      by (simp add: po_intent_def pending_matches_def ledger_projection_def)
    then obtain s' r p' where c: "commit_or_recover c rq q ?ph ?cid ?cdg s = (s', Inr r)"
      "ledger_read (rc_ledger c) None s' = Inr (Some p')" "reports r p'"
      "spec_of (Some p') = \<lparr>sp_generation = pj_control_generation p + 1, sp_phase = Some ?ph,
                            sp_checkpoint = (?cid, ?cdg), sp_pending = None\<rparr>"
      using directory_ledger.commit_or_recover_durable [OF w room assms(3) read assms(5) phase, of ?cid ?cdg rq]
      by blast
    have res: "resolved_reconciliation_phase q (Some v) = Inr (Some ?ph)"
      using resolved_phase_settled [OF act assms(10,11)] False by simp
    have "execute c rq (s, e) = ((s', e'), Inr r)"
      using c(1) assms(5-7,9) req res by (simp add: execute_def reconcile_run_def)
    then show ?thesis
      using c(2-4) False
      by (intro exI [of _ s'] exI [of _ r] exI [of _ p']) (simp add: Let_def base_checkpoint_def)
  qed
qed

subsection \<open>The properties at concrete inputs\<close>

text \<open>A run whose provider records the operations it performs and answers \<open>answer\<close>.\<close>

definition sample_control :: "run_phase option \<Rightarrow> (ledger_store, string list) run_control" where
  "sample_control answer =
     (let ident = \<lparr>ri_run_id = ''run-1'', ri_session_id = ''session-1'', ri_trace_id = ''trace-1''\<rparr>;
          man = \<lparr>lm_digest = replicate 64 (CHR ''b''), lm_experiment_spec_digest = replicate 64 (CHR ''d'')\<rparr>;
          L = \<lparr>li_run_id = ''run-1'', li_run_identity_digest = run_identity_digest ident,
               li_run_manifest_digest = lm_digest man\<rparr>
      in \<lparr>rc_identity = ident, rc_manifest = man, rc_ledger = L,
          rc_read = ledger_read L, rc_prepare = ledger_prepare L, rc_commit = ledger_commit L,
          rc_run = (\<lambda>_ _ op e. (op # e, Inr answer)), rc_stop = (\<lambda>_ _ op e. (op # e, Inr answer)),
          rc_resume = (\<lambda>_ _ _ _ op e. (op # e, Inr answer)),
          rc_load_checkpoint = (\<lambda>_ e. (e, Inl ())),
          rc_reconcile = (\<lambda>_ _ q e. (e, Inr (Some \<lparr>rv_request_id = po_operation_id q,
             rv_outcome = Outcome_executed, rv_effect_id = Some ''effect-1'',
             rv_request_digest = Some (po_operation_id q), rv_verification_required = False\<rparr>))),
          rc_evidence = (\<lambda>_ _ e. (e, Inr None)), rc_verify_finalized = (\<lambda>_ e. (e, Inr ()))\<rparr>)"

definition sample_request :: "run_action \<Rightarrow> run_request" where
  "sample_request a = \<lparr>rq_action = a,
     rq_target = \<lparr>tg_run_id = ''run-1'', tg_run_manifest_digest = replicate 64 (CHR ''b''),
                  tg_expected_generation = Some 0\<rparr>,
     rq_restore_checkpoint_id = None, rq_restore_cycle_identity = None\<rparr>"

lemma sample_on_directory: "on_directory (sample_control answer)"
  by (simp add: on_directory_def wired_def valid_control_def sample_control_def Let_def)

lemma sample_target: "require_target (sample_control answer) (sample_request a) = Inr ()"
  by (simp add: require_target_def sample_control_def sample_request_def Let_def)

lemma sample_control_id: "valid_ledger_id (rc_ledger (sample_control answer))"
  by (simp add: sample_control_def Let_def valid_ledger_id_def run_identity_digest_def blank_iff
      py_isspace_def code_point_def is_sha256_def [of "replicate _ _"] hex_digits_def list_all_iff)

lemma sample_control_room: "ledger_room (rc_ledger (sample_control answer)) 2 (empty_store ws)"
  using sample_control_id [of answer] by (simp add: ledger_room_def sample_empty record_count_def)

lemma sample_request_intent:
  "\<exists>i. request_intent (sample_control answer) (sample_request Action_run) None = Inr i
     \<and> spec_prepare i (spec_of None) = Inr ((spec_of None)\<lparr>sp_pending := Some i\<rparr>, True)"
  by (simp add: request_intent_def sample_request_def construct_def valid_intent_def
      operation_id_def require_defs spec_prepare_def spec_of_def)

theorem execute_truthful_witness:
  "\<exists>s' e' r. execute (sample_control (Some Phase_running)) (sample_request Action_run)
       (empty_store [Write_durable, Write_replaced_unflushed, Write_not_replaced], []) = ((s', e'), r)
     \<and> truthful (load_ledger (rc_ledger (sample_control (Some Phase_running)))) s' r
     \<and> (\<exists>c1 c2. load_ledger (rc_ledger (sample_control (Some Phase_running))) s' = Inr c2
          \<and> spec_step (spec_of None) (spec_of c1) \<and> spec_step (spec_of c1) (spec_of c2))"
proof -
  obtain s' e' r where "execute (sample_control (Some Phase_running)) (sample_request Action_run)
       (empty_store [Write_durable, Write_replaced_unflushed, Write_not_replaced], []) = ((s', e'), r)"
    by (metis prod.exhaust)
  from this execute_truthful [OF sample_on_directory sample_control_room sample_empty this]
  show ?thesis by blast
qed

theorem effect_only_when_prepared_witness:
  "\<exists>s' e' r. execute (sample_control None) (sample_request Action_run) (empty_store [], []) = ((s', e'), r)
     \<and> (e' = before_effect (sample_control None) (sample_request Action_run) []
       \<or> (\<exists>s1 p q. ledger_prepare (rc_ledger (sample_control None)) (po_intent q) (empty_store [])
              = (s1, Inr \<lparr>pr_projection = p, pr_prepared_operation = q, pr_created = True\<rparr>)
            \<and> load_ledger (rc_ledger (sample_control None)) s1 = Inr (Some p)
            \<and> pj_pending_operation p = Some q
            \<and> po_action q = rq_action (sample_request Action_run)
            \<and> lifecycle_effect (sample_control None) (sample_request Action_run) q
                (before_effect (sample_control None) (sample_request Action_run) []) e'))"
proof -
  obtain s' e' r where step:
    "execute (sample_control None) (sample_request Action_run) (empty_store [], []) = ((s', e'), r)"
    by (metis prod.exhaust)
  have "rq_action (sample_request Action_run) \<in> {Action_run, Action_stop, Action_resume}"
    by (simp add: sample_request_def)
  from step effect_only_when_prepared [OF sample_on_directory sample_control_room sample_empty this
      sample_target step]
  show ?thesis by blast
qed

text \<open>The store after a run whose provider gave no valid answer: its operation is unresolved.\<close>

lemma sample_unresolved:
  "\<exists>s p q. load_ledger (rc_ledger (sample_control answer)) s = Inr (Some p)
     \<and> pj_pending_operation p = Some q \<and> pj_control_generation p = 0
     \<and> ledger_room (rc_ledger (sample_control answer)) 2 s \<and> ls_writes s = []"
proof -
  let ?L = "rc_ledger (sample_control answer)"
  have room: "ledger_room ?L (Suc 0) (empty_store [])"
    using sample_control_id [of answer] by (simp add: ledger_room_def sample_empty record_count_def)
  have spec: "spec_prepare sample_intent (spec_of None)
      = Inr ((spec_of None)\<lparr>sp_pending := Some sample_intent\<rparr>, True)"
    by (simp add: spec_prepare_def spec_of_def sample_intent_def)
  obtain s p where s: "load_ledger ?L s = Inr (Some p)"
      "spec_of (Some p) = (spec_of None)\<lparr>sp_pending := Some sample_intent\<rparr>"
      "record_count (Some p) = 1" "ls_writes s = []"
    using ledger_prepare_step [OF room sample_intent_valid sample_empty] spec
    by (auto simp: empty_store_def record_count_def)
  then have "\<exists>q. pj_pending_operation p = Some q" "pj_control_generation p = 0"
    by (auto simp: spec_of_def)
  moreover have "ledger_room ?L 2 s" using sample_control_id [of answer] s by (simp add: ledger_room_def)
  ultimately show ?thesis using s by blast
qed

theorem unresolved_blocks_effects_witness:
  "\<exists>s p. load_ledger (rc_ledger (sample_control None)) s = Inr (Some p) \<and> pj_pending_operation p \<noteq> None
     \<and> fst (execute (sample_control None) (sample_request Action_stop) (s, [''earlier'']))
         = (s, [''earlier''])"
proof -
  obtain s p q where s: "load_ledger (rc_ledger (sample_control None)) s = Inr (Some p)"
    "pj_pending_operation p = Some q" "ledger_room (rc_ledger (sample_control None)) 2 s"
    using sample_unresolved [of None] by blast
  obtain s' e' r where step:
    "execute (sample_control None) (sample_request Action_stop) (s, [''earlier'']) = ((s', e'), r)"
    by (metis prod.exhaust)
  have "s' = s \<and> e' = before_effect (sample_control None) (sample_request Action_stop) [''earlier'']"
    using unresolved_blocks_effects [OF sample_on_directory s(3,1) _ _ sample_target step] s(2)
    by (simp add: sample_request_def)
  moreover have "before_effect (sample_control None) (sample_request Action_stop) x = x" for x
    by (simp add: before_effect_def sample_request_def)
  ultimately show ?thesis using s step by (intro exI [of _ s] exI [of _ p]) simp
qed

theorem run_outcome_witness:
  "\<exists>s' receipt p. execute (sample_control (Some Phase_running)) (sample_request Action_run)
       (empty_store [], [])
     = ((s', [operation_id (sample_control (Some Phase_running)) (sample_request Action_run) None]), Inr receipt)
     \<and> load_ledger (rc_ledger (sample_control (Some Phase_running))) s' = Inr (Some p)
     \<and> reports receipt p \<and> sp_generation (spec_of (Some p)) = 1
     \<and> sp_phase (spec_of (Some p)) = Some Phase_running"
proof -
  let ?c = "sample_control (Some Phase_running)"
  obtain i where i: "request_intent ?c (sample_request Action_run) None = Inr i"
    "spec_prepare i (spec_of None) = Inr ((spec_of None)\<lparr>sp_pending := Some i\<rparr>, True)"
    using sample_request_intent by blast
  have "rc_run ?c (rc_identity ?c) (rc_manifest ?c) op e = (op # e, Inr (Some Phase_running))" for op e
    by (simp add: sample_control_def Let_def)
  then show ?thesis
    using run_outcome [OF sample_on_directory sample_control_room _ sample_empty _ sample_target i, of "[]" "[]"]
    by (auto simp: empty_store_def sample_request_def spec_of_def)
qed

theorem reconcile_settles_witness:
  "\<exists>s p q s' receipt p'. load_ledger (rc_ledger (sample_control None)) s = Inr (Some p)
     \<and> pj_pending_operation p = Some q
     \<and> execute (sample_control None) (sample_request Action_reconcile) (s, []) = ((s', []), Inr receipt)
     \<and> load_ledger (rc_ledger (sample_control None)) s' = Inr (Some p') \<and> reports receipt p'
     \<and> sp_generation (spec_of (Some p')) = 1"
proof -
  obtain s p q where s: "load_ledger (rc_ledger (sample_control None)) s = Inr (Some p)"
    "pj_pending_operation p = Some q" "pj_control_generation p = 0"
    "ledger_room (rc_ledger (sample_control None)) 2 s" "ls_writes s = []"
    using sample_unresolved [of None] by blast
  let ?v = "\<lparr>rv_request_id = po_operation_id q, rv_outcome = Outcome_executed,
     rv_effect_id = Some ''effect-1'', rv_request_digest = Some (po_operation_id q),
     rv_verification_required = False\<rparr>"
  have "rc_reconcile (sample_control None) (rc_identity (sample_control None))
      (rc_manifest (sample_control None)) q [] = ([], Inr (Some ?v))"
    by (simp add: sample_control_def Let_def)
  from reconcile_settles [OF sample_on_directory s(4,5,1,2) _ sample_target _ this] s
  show ?thesis by (fastforce simp: sample_request_def Let_def)
qed

end
