(* ===== verification/Python_Effects.thy ===== *)
theory Python_Effects
  imports Canonical_Json
begin

text \<open>
  What the components with Python-style errors and SQLite tables share: exceptions, calls on ports
  that act on an environment, checked constructors, reading fields of a decoded document, and a
  table keyed by its primary key.
\<close>

subsection \<open>Exceptions and port calls\<close>

text \<open>The class name and the message of a Python exception, and \<open>f"{type(exc).__name__}: {exc}"\<close>.\<close>

type_synonym exc = "string \<times> string"

definition exc_text :: "exc \<Rightarrow> string" where
  "exc_text x = fst x @ '': '' @ snd x"

definition value_error :: "string \<Rightarrow> exc" where
  "value_error m = (''ValueError'', m)"

text \<open>Stands for a result of the code that the model does not follow.\<close>

definition unmodelled :: exc where
  "unmodelled = (''Unmodelled'', [])"

lemma exc_text_nonempty [simp]: "exc_text x \<noteq> []"
  by (simp add: exc_text_def)

type_synonym ('e, 'a) port_call = "'e \<Rightarrow> 'e \<times> (exc + 'a)"

text \<open>A constructor that checks its arguments; the message names the class.\<close>

definition checked :: "('a \<Rightarrow> bool) \<Rightarrow> string \<Rightarrow> 'a \<Rightarrow> exc + 'a" where
  "checked valid what x = (if valid x then Inr x else Inl (value_error what))"

lemma checked_Inr_iff: "checked valid what x = Inr y \<longleftrightarrow> valid x \<and> y = x"
  by (auto simp: checked_def)

subsection \<open>Canonical text and its errors\<close>

fun decode_message :: "decode_fail \<Rightarrow> string" where
  "decode_message Duplicate_key = ''canonical JSON contains duplicate object key''"
| "decode_message Non_finite = ''canonical JSON contains forbidden non-finite value''"
| "decode_message Syntax = ''canonical JSON cannot be decoded''"
| "decode_message Domain = ''canonical JSON violates strict finite JSON domain''"
| "decode_message _ = []"

definition text_of :: "json \<Rightarrow> exc + string" where
  "text_of j = (case canonical_text j of
     Inl _ \<Rightarrow> Inl (''CanonicalEncodingError'', ''canonical payload exceeds maximum depth 128'') | Inr t \<Rightarrow> Inr t)"

definition frozen_of :: "json \<Rightarrow> exc + json" where
  "frozen_of j = (case freeze_json j of
     Inl _ \<Rightarrow> Inl (''CanonicalEncodingError'', ''frozen JSON exceeds maximum depth 128'') | Inr v \<Rightarrow> Inr v)"

text \<open>\<open>require_sha256\<close>\<close>

definition digest_required :: "string \<Rightarrow> string \<Rightarrow> exc + unit" where
  "digest_required what s =
     (if is_sha256 s then Inr ()
      else Inl (''DigestValidationError'', what @ '' must be canonical lowercase SHA-256''))"

subsection \<open>Reading a document\<close>

text \<open>\<open>value.get(k, default)\<close>\<close>

definition doc_get :: "string \<Rightarrow> json \<Rightarrow> (string \<times> json) list \<Rightarrow> json" where
  "doc_get k dflt kvs = (case map_of kvs k of None \<Rightarrow> dflt | Some v \<Rightarrow> v)"

text \<open>A constructor argument that has to be a string or an integer; a Boolean is neither.\<close>

fun as_str :: "json \<Rightarrow> exc + string" where
  "as_str (JStr s) = Inr s"
| "as_str _ = Inl (value_error ''text required'')"

fun as_int :: "json \<Rightarrow> exc + int" where
  "as_int (JInt i) = Inr i"
| "as_int _ = Inl (value_error ''integer required'')"

fun map_result :: "('a \<Rightarrow> 'e + 'b) \<Rightarrow> 'a list \<Rightarrow> 'e + 'b list" where
  "map_result f [] = Inr []"
| "map_result f (x # xs) = bind_result (f x) (\<lambda>y. bind_result (map_result f xs) (\<lambda>ys. Inr (y # ys)))"

fun as_rows :: "string \<Rightarrow> json \<Rightarrow> exc + json list" where
  "as_rows what (JArr xs) = Inr xs"
| "as_rows what _ = Inl (value_error what)"

lemma values_containers_within: "values_within m d j \<Longrightarrow> containers_within m d j"
  by (induction m d j rule: containers_within.induct) (auto simp: list_all_iff)

lemma strict_json_loads_text:
  assumes "json_wf j" "values_within default_max_depth 0 j"
  shows "canonical_text j = Inr (dumps False j)" "strict_json_loads (dumps False j) = Inr (sort_keys j)"
  using assms
  by (simp_all add: canonical_text_def values_containers_within strict_json_loads_def
      json_loads_dumps freeze_json_def values_within_sort_keys)

definition sorted_fields :: "(string \<times> json) list \<Rightarrow> (string \<times> json) list" where
  "sorted_fields kvs = sort_key fst (map (\<lambda>(k, v). (k, sort_keys v)) kvs)"

lemma sort_keys_JObj: "sort_keys (JObj kvs) = JObj (sorted_fields kvs)"
  by (simp add: sorted_fields_def)

lemma map_of_map_values: "map_of (map (\<lambda>(k, v). (k, f v)) kvs) k = map_option f (map_of kvs k)"
  by (induction kvs) auto

lemma map_sort_key_commute:
  "(\<And>x. f (h x) = f x) \<Longrightarrow> map h (sort_key f xs) = sort_key f (map h xs)"
proof (induction xs)
  case (Cons x xs)
  have "map h (insort_key f x ys) = insort_key f (h x) (map h ys)" for ys
    using Cons.prems by (induction ys) auto
  with Cons show ?case by simp
qed simp

lemma sort_keys_idem [simp]: "sort_keys (sort_keys j) = sort_keys j"
proof (induction j rule: sort_keys.induct)
  case (2 kvs)
  let ?h = "\<lambda>(k, v). (k, sort_keys v)"
  have "map ?h (map ?h kvs) = map ?h kvs" using 2 by auto
  moreover have "map ?h (sort_key fst (map ?h kvs)) = sort_key fst (map ?h (map ?h kvs))"
    by (rule map_sort_key_commute) auto
  ultimately show ?case
    by (simp add: sort_key_sorted_id map_sort_key del: map_map)
qed auto

lemma sorted_fields_idem [simp]: "sorted_fields (sorted_fields kvs) = sorted_fields kvs"
  using sort_keys_idem [of "JObj kvs"] by (simp only: sort_keys_JObj json.inject)

lemma doc_get_sorted:
  assumes "distinct (map fst kvs)" "map_of kvs k = Some v"
  shows "doc_get k d (sorted_fields kvs) = sort_keys v"
proof -
  have "distinct (map fst (map (\<lambda>(k, v). (k, sort_keys v)) kvs))"
    using assms(1) by (simp add: comp_def split_def)
  then show ?thesis
    by (simp add: doc_get_def sorted_fields_def map_of_sort_key_fst map_of_map_values assms(2))
qed

lemma map_result_map: "(\<And>x. x \<in> set xs \<Longrightarrow> f (g x) = Inr (h x)) \<Longrightarrow> map_result f (map g xs) = Inr (map h xs)"
  by (induction xs) auto

lemma map_result_JStr: "map_result as_str (map JStr xs) = Inr xs"
  using map_result_map [of xs as_str JStr id] by simp

subsection \<open>Tables\<close>

text \<open>\<open>INSERT OR IGNORE\<close> by primary key.\<close>

definition insert_or_ignore :: "'k \<Rightarrow> 'v \<Rightarrow> ('k \<times> 'v) list \<Rightarrow> ('k \<times> 'v) list" where
  "insert_or_ignore k v t = (if map_of t k = None then t @ [(k, v)] else t)"

lemma map_of_insert_or_ignore:
  "map_of (insert_or_ignore k v t) k' = (if k' = k \<and> map_of t k = None then Some v else map_of t k')"
  by (auto simp: insert_or_ignore_def map_add_def split: option.splits)

text \<open>\<open>dict.setdefault\<close>\<close>

definition set_default :: "'k \<Rightarrow> 'v \<Rightarrow> ('k \<times> 'v) list \<Rightarrow> ('k \<times> 'v) list" where
  "set_default k v d = (if map_of d k = None then d @ [(k, v)] else d)"

lemma map_of_in_keys: "map_of d k \<noteq> None \<longleftrightarrow> k \<in> set (map fst d)"
  by (auto simp: map_of_eq_None_iff)

lemma map_of_set_default: "map_of (set_default k v d) k' = (if k' = k \<and> map_of d k = None then Some v else map_of d k')"
  by (auto simp: set_default_def map_add_def split: option.splits)

lemma map_of_drop_key: "map_of (filter (\<lambda>e. fst e \<noteq> k) kvs) = (map_of kvs)(k := None)"
  by (induction kvs) auto

lemma sort_key_map: "sort_key f (map g xs) = map g (sort_key (\<lambda>x. f (g x)) xs)"
proof (induction xs)
  case (Cons x xs)
  have "insort_key f (g x) (map g ys) = map g (insort_key (\<lambda>x. f (g x)) x ys)" for ys
    by (induction ys) auto
  with Cons show ?case by simp
qed simp

lemma sort_key_cong: "(\<And>x. x \<in> set xs \<Longrightarrow> f x = g x) \<Longrightarrow> sort_key f xs = sort_key g xs"
proof (induction xs)
  case (Cons x xs)
  have "insort_key f x ys = insort_key g x ys" if "set ys \<subseteq> set xs" for ys
    using that Cons.prems by (induction ys) auto
  with Cons show ?case by simp
qed simp

lemma sorted_by_key:
  assumes "distinct ks" "\<And>k. k \<in> set ks \<Longrightarrow> f (g k) = k"
  shows "sort_key f (map g ks) = map g (sorted_list_of_set (set ks))"
proof -
  have "sort_key (\<lambda>x. f (g x)) ks = sort ks" by (rule sort_key_cong) (simp add: assms(2))
  then show ?thesis by (simp add: sort_key_map sorted_list_of_set_sort_remdups distinct_remdups_id assms(1))
qed

lemma map_of_replaced:
  "map_of (map (\<lambda>(k', w). (k', if k' = k then v else w)) kvs) x
     = (if x = k then map_option (\<lambda>_. v) (map_of kvs k) else map_of kvs x)"
  by (induction kvs) auto

lemma map_of_replace:
  assumes "distinct (map fst kvs)" "map_of kvs k = Some old"
  shows "map_of (map (\<lambda>(k', w). (k', if k' = k then v else w)) kvs) = (map_of kvs)(k \<mapsto> v)"
    and "length (filter (\<lambda>(k', w). k' = k) kvs) = 1"
proof -
  show "map_of (map (\<lambda>(k', w). (k', if k' = k then v else w)) kvs) = (map_of kvs)(k \<mapsto> v)"
    by (simp add: fun_eq_iff map_of_replaced assms(2))
  have none: "k \<notin> fst ` set xs \<Longrightarrow> filter (\<lambda>(k', w). k' = k) xs = []" for xs :: "('a \<times> 'b) list"
    by (induction xs) auto
  show "length (filter (\<lambda>(k', w). k' = k) kvs) = 1"
    using assms by (induction kvs) (auto simp: none split: if_splits)
qed

lemma keys_filter: "k \<in> set (map fst (filter (\<lambda>e. P (snd e)) kvs)) \<longleftrightarrow> (\<exists>v. (k, v) \<in> set kvs \<and> P v)"
  by force

end
