(* ===== verification/Multi_Agent_Contracts.thy ===== *)
theory Multi_Agent_Contracts
  imports Python_Effects
begin

text \<open>
  The multi-agent contracts (\<open>src/orchestration/multi_agent/contracts.py\<close>): communication
  edges and topologies, messages with their content-derived identity, delivery receipts,
  checkpoints and run results, each with the check its constructor makes. A counter that the
  constructor requires to be non-negative is an \<open>int\<close> with that check.
\<close>

subsection \<open>Topologies\<close>

record comm_edge =
  ce_sender :: string
  ce_recipient :: string
  ce_max_in_flight :: int
  ce_ordered :: bool

definition valid_edge :: "comm_edge \<Rightarrow> bool" where
  "valid_edge e \<longleftrightarrow>
     \<not> blank (ce_sender e) \<and> \<not> blank (ce_recipient e)
     \<and> ce_sender e \<noteq> ce_recipient e \<and> 0 < ce_max_in_flight e"

record topology =
  tp_nodes :: "string list"
  tp_edges :: "comm_edge list"

definition valid_topology :: "topology \<Rightarrow> bool" where
  "valid_topology t \<longleftrightarrow>
     tp_nodes t \<noteq> [] \<and> list_all (\<lambda>n. \<not> blank n) (tp_nodes t) \<and> distinct (tp_nodes t)
     \<and> list_all valid_edge (tp_edges t)
     \<and> list_all (\<lambda>e. ce_sender e \<in> set (tp_nodes t) \<and> ce_recipient e \<in> set (tp_nodes t)) (tp_edges t)
     \<and> distinct (tp_edges t)"

definition topology_digest :: "topology \<Rightarrow> string" where
  "topology_digest t = digest_of (JObj [
     (''nodes'', JArr (map JStr (tp_nodes t))),
     (''edges'', JArr (map (\<lambda>e. JArr [JStr (ce_sender e), JStr (ce_recipient e),
                                      JInt (ce_max_in_flight e), JBool (ce_ordered e)]) (tp_edges t)))])"

definition on_route :: "string \<Rightarrow> string \<Rightarrow> comm_edge \<Rightarrow> bool" where
  "on_route a b e \<longleftrightarrow> ce_sender e = a \<and> ce_recipient e = b"

definition can_send :: "topology \<Rightarrow> string \<Rightarrow> string \<Rightarrow> bool" where
  "can_send t a b \<longleftrightarrow> list_ex (on_route a b) (tp_edges t)"

text \<open>\<open>edge\<close> returns the first edge of the route; \<open>None\<close> is its \<open>KeyError\<close>.\<close>

definition topology_edge :: "topology \<Rightarrow> string \<Rightarrow> string \<Rightarrow> comm_edge option" where
  "topology_edge t a b = find (on_route a b) (tp_edges t)"

definition neighbors :: "topology \<Rightarrow> string \<Rightarrow> string list" where
  "neighbors t a = sort (map ce_recipient (filter (\<lambda>e. ce_sender e = a) (tp_edges t)))"

lemma can_send_edge: "can_send t a b \<Longrightarrow> \<exists>e. topology_edge t a b = Some e"
  by (auto simp: can_send_def topology_edge_def list_ex_iff find_None_iff
      simp flip: not_None_eq)

lemma topology_edge_Some:
  "topology_edge t a b = Some e \<Longrightarrow> e \<in> set (tp_edges t) \<and> ce_sender e = a \<and> ce_recipient e = b"
  by (auto simp: topology_edge_def find_Some_iff on_route_def)

lemma topology_edge_only:
  assumes "distinct (map (\<lambda>e. (ce_sender e, ce_recipient e)) (tp_edges t))" "e \<in> set (tp_edges t)"
  shows "topology_edge t (ce_sender e) (ce_recipient e) = Some e"
proof -
  have "find (on_route (ce_sender e) (ce_recipient e)) es = Some e"
    if "distinct (map (\<lambda>e. (ce_sender e, ce_recipient e)) es)" "e \<in> set es" for es
    using that by (induction es) (force simp: on_route_def)+
  with assms show ?thesis by (simp add: topology_edge_def)
qed

lemma can_send_nodes:
  "valid_topology t \<Longrightarrow> can_send t a b \<Longrightarrow> a \<in> set (tp_nodes t) \<and> b \<in> set (tp_nodes t)"
  by (auto simp: valid_topology_def can_send_def list_ex_iff list_all_iff on_route_def)

lemma neighbors_iff: "b \<in> set (neighbors t a) \<longleftrightarrow> can_send t a b"
  by (auto simp: neighbors_def can_send_def list_ex_iff on_route_def)

subsection \<open>Messages\<close>

record ma_message =
  mm_sender :: string
  mm_recipient :: string
  mm_content :: string
  mm_turn :: int
  mm_conversation_id :: string
  mm_causal_parent_ids :: "string list"
  mm_delivery_attempt :: int

definition valid_message :: "ma_message \<Rightarrow> bool" where
  "valid_message m \<longleftrightarrow>
     \<not> blank (mm_sender m) \<and> \<not> blank (mm_recipient m) \<and> \<not> blank (mm_conversation_id m)
     \<and> mm_content m \<noteq> [] \<and> 0 \<le> mm_turn m
     \<and> list_all is_sha256 (mm_causal_parent_ids m) \<and> distinct (mm_causal_parent_ids m)
     \<and> 0 \<le> mm_delivery_attempt m"

text \<open>The identity leaves the delivery attempt out.\<close>

definition message_id :: "ma_message \<Rightarrow> string" where
  "message_id m = digest_of (JObj [
     (''sender'', JStr (mm_sender m)),
     (''recipient'', JStr (mm_recipient m)),
     (''content'', JStr (mm_content m)),
     (''turn'', JInt (mm_turn m)),
     (''conversation_id'', JStr (mm_conversation_id m)),
     (''causal_parent_ids'', JArr (map JStr (mm_causal_parent_ids m)))])"

lemma message_id_sha256 [simp]: "is_sha256 (message_id m)"
  by (simp add: message_id_def)

subsection \<open>Delivery receipts\<close>

datatype delivery_status =
  Delivery_delivered | Delivery_duplicate | Delivery_rejected | Delivery_failed

fun delivery_value :: "delivery_status \<Rightarrow> string" where
  "delivery_value Delivery_delivered = ''delivered''"
| "delivery_value Delivery_duplicate = ''duplicate''"
| "delivery_value Delivery_rejected = ''rejected''"
| "delivery_value Delivery_failed = ''failed''"

record ma_receipt =
  mr_message_id :: string
  mr_sender :: string
  mr_recipient :: string
  mr_status :: delivery_status
  mr_attempt :: int
  mr_round :: int
  mr_detail :: string

definition valid_ma_receipt :: "ma_receipt \<Rightarrow> bool" where
  "valid_ma_receipt r \<longleftrightarrow>
     is_sha256 (mr_message_id r) \<and> \<not> blank (mr_sender r) \<and> \<not> blank (mr_recipient r)
     \<and> 0 \<le> mr_attempt r \<and> 0 \<le> mr_round r"

definition receipt_fields :: "ma_receipt \<Rightarrow> json" where
  "receipt_fields r = JObj [
     (''message_id'', JStr (mr_message_id r)),
     (''sender'', JStr (mr_sender r)),
     (''recipient'', JStr (mr_recipient r)),
     (''status'', JStr (delivery_value (mr_status r))),
     (''attempt'', JInt (mr_attempt r)),
     (''round'', JInt (mr_round r)),
     (''detail'', JStr (mr_detail r))]"

definition receipt_id :: "ma_receipt \<Rightarrow> string" where
  "receipt_id r = digest_of (receipt_fields r)"

subsection \<open>Checkpoints\<close>

record ma_checkpoint =
  mc_schema_version :: string
  mc_topology_digest :: string
  mc_conversation_id :: string
  mc_pending :: "ma_message list"
  mc_delivered_message_ids :: "string list"
  mc_round :: int
  mc_delivered_messages :: "ma_message list"

definition checkpoint_schema :: string where
  "checkpoint_schema = ''multi-agent-checkpoint.v1''"

definition valid_ma_checkpoint :: "ma_checkpoint \<Rightarrow> bool" where
  "valid_ma_checkpoint c \<longleftrightarrow>
     mc_schema_version c = checkpoint_schema
     \<and> is_sha256 (mc_topology_digest c) \<and> \<not> blank (mc_conversation_id c)
     \<and> list_all valid_message (mc_pending c)
     \<and> list_all (\<lambda>m. mm_conversation_id m = mc_conversation_id c) (mc_pending c)
     \<and> list_all valid_message (mc_delivered_messages c)
     \<and> list_all (\<lambda>m. mm_conversation_id m = mc_conversation_id c) (mc_delivered_messages c)
     \<and> mc_delivered_message_ids c = map message_id (mc_delivered_messages c)
     \<and> distinct (mc_delivered_message_ids c @ map message_id (mc_pending c))
     \<and> 0 \<le> mc_round c"

text \<open>The canonical document of a message dataclass: its fields, the identity last.\<close>

definition message_dataclass :: "ma_message \<Rightarrow> json" where
  "message_dataclass m = JObj [
     (''sender'', JStr (mm_sender m)),
     (''recipient'', JStr (mm_recipient m)),
     (''content'', JStr (mm_content m)),
     (''turn'', JInt (mm_turn m)),
     (''conversation_id'', JStr (mm_conversation_id m)),
     (''causal_parent_ids'', JArr (map JStr (mm_causal_parent_ids m))),
     (''delivery_attempt'', JInt (mm_delivery_attempt m)),
     (''message_id'', JStr (message_id m))]"

definition ma_checkpoint_digest :: "ma_checkpoint \<Rightarrow> string" where
  "ma_checkpoint_digest c = digest_of (JObj [
     (''schema_version'', JStr (mc_schema_version c)),
     (''topology_digest'', JStr (mc_topology_digest c)),
     (''conversation_id'', JStr (mc_conversation_id c)),
     (''pending'', JArr (map message_dataclass (mc_pending c))),
     (''delivered_messages'', JArr (map message_dataclass (mc_delivered_messages c))),
     (''delivered_message_ids'', JArr (map JStr (mc_delivered_message_ids c))),
     (''round'', JInt (mc_round c))])"

subsection \<open>Run results\<close>

datatype ma_run_status =
  Run_completed | Run_max_rounds | Run_max_messages | Run_cancelled | Run_failed

record ma_result =
  mx_topology_digest :: string
  mx_messages :: "ma_message list"
  mx_rounds :: int
  mx_terminated :: bool
  mx_status :: ma_run_status
  mx_receipts :: "ma_receipt list"
  mx_checkpoint :: "ma_checkpoint option"
  mx_error :: "string option"

definition valid_result :: "ma_result \<Rightarrow> bool" where
  "valid_result r \<longleftrightarrow>
     is_sha256 (mx_topology_digest r) \<and> 0 \<le> mx_rounds r
     \<and> (mx_status r = Run_completed \<longrightarrow> mx_terminated r)
     \<and> (mx_status r = Run_failed \<longrightarrow> (case mx_error r of None \<Rightarrow> False | Some e \<Rightarrow> e \<noteq> []))"

end
