(* ===== verification/Multi_Agent.thy ===== *)
theory Multi_Agent
  imports Multi_Agent_Contracts
begin

text \<open>
  The multi-agent coordinator (\<open>src/orchestration/multi_agent/orchestration.py\<close>, with the
  transport variant of \<open>transport.py\<close>): bounded rounds of message delivery over a topology,
  with duplicate detection, per-edge limits, cancellation, journalling and resumption from a
  checkpoint.

  The nodes, the journal and the cancellation port act on an environment \<open>'e\<close>; a call returns
  the new environment and a value or an exception. A node that returns something other than a
  tuple of messages is \<open>None\<close>. The coordinator's own variables are the record \<open>ma_state\<close>.
\<close>

subsection \<open>Ports and state\<close>

record 'e ma_journal =
  jn_record :: "ma_message \<Rightarrow> ma_receipt \<Rightarrow> ('e, unit) port_call"
  jn_checkpoint :: "ma_checkpoint \<Rightarrow> ('e, unit) port_call"
  jn_latest_checkpoint :: "string \<Rightarrow> ('e, ma_checkpoint option) port_call"

record 'e coordinator =
  co_topology :: topology
  co_nodes :: "(string \<times> (ma_message \<Rightarrow> ('e, ma_message list option) port_call)) list"
  co_journal :: "'e ma_journal option"

text \<open>What the constructor checks.\<close>

definition valid_coordinator :: "'e coordinator \<Rightarrow> bool" where
  "valid_coordinator c \<longleftrightarrow>
     valid_topology (co_topology c) \<and> distinct (map fst (co_nodes c))
     \<and> set (map fst (co_nodes c)) = set (tp_nodes (co_topology c))"

text \<open>\<open>_TransportNode.handle\<close> and the nodes of the transport-backed coordinator.\<close>

definition transport_node ::
    "(ma_message \<Rightarrow> ('e, ma_message list option) port_call)
       \<Rightarrow> ma_message \<Rightarrow> ('e, ma_message list option) port_call" where
  "transport_node send m e =
     (case send m e of
        (e', Inl x) \<Rightarrow> (e', Inl x)
      | (e', Inr None) \<Rightarrow> (e', Inl (''TypeError'', ''multi-agent transport must return a tuple of messages''))
      | (e', Inr (Some outputs)) \<Rightarrow> (e', Inr (Some outputs)))"

definition transport_coordinator ::
    "topology \<Rightarrow> (ma_message \<Rightarrow> ('e, ma_message list option) port_call)
       \<Rightarrow> string list option \<Rightarrow> 'e ma_journal option \<Rightarrow> exc + 'e coordinator" where
  "transport_coordinator t send members journal =
     (case members of
        Some ms \<Rightarrow>
          if set ms \<noteq> set (tp_nodes t)
          then Inl (value_error ''transport membership must exactly match topology nodes'')
          else Inr \<lparr>co_topology = t, co_nodes = map (\<lambda>n. (n, transport_node send)) (tp_nodes t),
                    co_journal = journal\<rparr>
      | None \<Rightarrow> Inr \<lparr>co_topology = t, co_nodes = map (\<lambda>n. (n, transport_node send)) (tp_nodes t),
                    co_journal = journal\<rparr>)"

record 'e ma_state =
  ms_env :: 'e
  ms_queue :: "ma_message list"
  ms_delivered :: "ma_message list"
  ms_receipts :: "ma_receipt list"
  ms_seen :: "string set"
  ms_scheduled :: "string set"

definition make_ma_receipt :: "ma_message \<Rightarrow> delivery_status \<Rightarrow> int \<Rightarrow> string \<Rightarrow> ma_receipt" where
  "make_ma_receipt m status rnd detail =
     \<lparr>mr_message_id = message_id m, mr_sender = mm_sender m, mr_recipient = mm_recipient m,
      mr_status = status, mr_attempt = mm_delivery_attempt m, mr_round = rnd, mr_detail = detail\<rparr>"

text \<open>\<open>receipts.append(receipt)\<close> followed by \<open>_journal_record\<close>.\<close>

definition journal_record ::
    "'e coordinator \<Rightarrow> ma_message \<Rightarrow> ma_receipt \<Rightarrow> 'e ma_state \<Rightarrow> 'e ma_state \<times> (exc + unit)" where
  "journal_record c m r st =
     (case co_journal c of
        None \<Rightarrow> (st, Inr ())
      | Some j \<Rightarrow> (let (e', x) = jn_record j m r (ms_env st) in (st\<lparr>ms_env := e'\<rparr>, x)))"

definition append_receipt ::
    "'e coordinator \<Rightarrow> ma_message \<Rightarrow> ma_receipt \<Rightarrow> 'e ma_state \<Rightarrow> 'e ma_state \<times> (exc + unit)" where
  "append_receipt c m r st = journal_record c m r (st\<lparr>ms_receipts := ms_receipts st @ [r]\<rparr>)"

subsection \<open>Delivering one message\<close>

definition validate_delivery :: "'e coordinator \<Rightarrow> string \<Rightarrow> ma_message \<Rightarrow> exc + unit" where
  "validate_delivery c conv m =
     (if mm_conversation_id m \<noteq> conv
      then Inl (value_error ''message crosses conversation boundary'')
      else if mm_sender m \<notin> set (map fst (co_nodes c)) \<or> mm_recipient m \<notin> set (map fst (co_nodes c))
      then Inl (value_error ''message endpoints are not topology nodes'')
      else if \<not> can_send (co_topology c) (mm_sender m) (mm_recipient m)
      then Inl (value_error ''message violates communication topology'')
      else Inr ())"

definition edge_load :: "string \<Rightarrow> string \<Rightarrow> ma_message list \<Rightarrow> nat" where
  "edge_load a b q = length (filter (\<lambda>m. mm_sender m = a \<and> mm_recipient m = b) q)"

definition validate_output ::
    "'e coordinator \<Rightarrow> ma_message \<Rightarrow> ma_message \<Rightarrow> string \<Rightarrow> string set \<Rightarrow> ma_message list
       \<Rightarrow> exc + ma_receipt option" where
  "validate_output c parent out conv scheduled queue =
     (if mm_sender out \<noteq> mm_recipient parent
      then Inl (value_error ''node emitted a message with a foreign sender'')
      else if mm_conversation_id out \<noteq> conv
      then Inl (value_error ''node emitted a cross-conversation message'')
      else if mm_turn out \<noteq> mm_turn parent + 1
      then Inl (value_error ''node emitted a non-contiguous message turn'')
      else if message_id parent \<notin> set (mm_causal_parent_ids out)
      then Inl (value_error ''node output must carry its causal parent message ID'')
      else if \<not> can_send (co_topology c) (mm_sender out) (mm_recipient out)
      then Inl (value_error ''message violates communication topology'')
      else if message_id out \<in> scheduled
      then Inr (Some (make_ma_receipt out Delivery_duplicate (mm_turn parent + 1)
                        ''message ID already scheduled''))
      else (case topology_edge (co_topology c) (mm_sender out) (mm_recipient out) of
              None \<Rightarrow> Inl (''KeyError'', [])
            | Some e \<Rightarrow>
                if ce_max_in_flight e \<le> int (edge_load (mm_sender out) (mm_recipient out) queue)
                then Inr (Some (make_ma_receipt out Delivery_rejected (mm_turn parent + 1)
                                  ''edge in-flight limit reached''))
                else Inr None))"

fun emit_outputs ::
    "'e coordinator \<Rightarrow> string \<Rightarrow> ma_message \<Rightarrow> ma_message list \<Rightarrow> 'e ma_state
       \<Rightarrow> 'e ma_state \<times> (exc + unit)" where
  "emit_outputs c conv parent [] st = (st, Inr ())"
| "emit_outputs c conv parent (out # outs) st =
     (case validate_output c parent out conv (ms_scheduled st) (ms_queue st) of
        Inl x \<Rightarrow> (st, Inl x)
      | Inr (Some disposition) \<Rightarrow>
          (case append_receipt c out disposition st of
             (st1, Inl x) \<Rightarrow> (st1, Inl x)
           | (st1, Inr _) \<Rightarrow> emit_outputs c conv parent outs st1)
      | Inr None \<Rightarrow>
          emit_outputs c conv parent outs
            (st\<lparr>ms_scheduled := insert (message_id out) (ms_scheduled st),
                ms_queue := ms_queue st @ [out]\<rparr>))"

definition call_node ::
    "'e coordinator \<Rightarrow> ma_message \<Rightarrow> ('e, ma_message list option) port_call" where
  "call_node c m e =
     (case map_of (co_nodes c) (mm_recipient m) of
        None \<Rightarrow> (e, Inl (''KeyError'', []))
      | Some handle \<Rightarrow> handle m e)"

text \<open>The body of the \<open>try\<close>; an object that fails its constructor's checks is no message.\<close>

definition deliver ::
    "'e coordinator \<Rightarrow> string \<Rightarrow> int \<Rightarrow> ma_message \<Rightarrow> 'e ma_state \<Rightarrow> 'e ma_state \<times> (exc + unit)" where
  "deliver c conv rnd m st =
     (case validate_delivery c conv m of
        Inl x \<Rightarrow> (st, Inl x)
      | Inr _ \<Rightarrow>
          (let st1 = st\<lparr>ms_seen := insert (message_id m) (ms_seen st),
                        ms_delivered := ms_delivered st @ [m]\<rparr>;
               (e', outputs) = call_node c m (ms_env st1);
               st2 = st1\<lparr>ms_env := e'\<rparr>
           in case outputs of
                Inl x \<Rightarrow> (st2, Inl x)
              | Inr result \<Rightarrow>
                  (if result = None \<or> \<not> list_all valid_message (the result)
                   then (st2, Inl (''TypeError'', ''multi-agent node must return a tuple of messages''))
                   else
                     (case append_receipt c m (make_ma_receipt m Delivery_delivered rnd []) st2 of
                        (st3, Inl x) \<Rightarrow> (st3, Inl x)
                      | (st3, Inr _) \<Rightarrow> emit_outputs c conv m (the result) st3))))"

subsection \<open>Rounds\<close>

text \<open>
  One pass over \<open>current\<close>; \<open>Inl\<close> is an exception that leaves the coordinator, which only the
  journal can cause. \<open>queue.extendleft(reversed(rest))\<close> puts \<open>rest\<close> in front.
\<close>

fun deliver_round ::
    "'e coordinator \<Rightarrow> string \<Rightarrow> int \<Rightarrow> int \<Rightarrow> ma_message list \<Rightarrow> 'e ma_state
       \<Rightarrow> 'e ma_state \<times> (exc + ma_run_status \<times> string option)" where
  "deliver_round c conv rnd max_messages [] st = (st, Inr (Run_completed, None))"
| "deliver_round c conv rnd max_messages (m # rest) st =
     (if max_messages \<le> int (length (ms_delivered st))
      then (st\<lparr>ms_queue := (m # rest) @ ms_queue st\<rparr>, Inr (Run_max_messages, None))
      else if message_id m \<in> ms_seen st
      then (case append_receipt c m (make_ma_receipt m Delivery_duplicate rnd
                                       ''message ID already delivered'') st of
              (st1, Inl x) \<Rightarrow> (st1, Inl x)
            | (st1, Inr _) \<Rightarrow> deliver_round c conv rnd max_messages rest st1)
      else (case deliver c conv rnd m st of
              (st1, Inr _) \<Rightarrow> deliver_round c conv rnd max_messages rest st1
            | (st1, Inl x) \<Rightarrow>
                (case append_receipt c m (make_ma_receipt m Delivery_failed rnd (exc_text x)) st1 of
                   (st2, Inl y) \<Rightarrow> (st2, Inl y)
                 | (st2, Inr _) \<Rightarrow>
                     (st2\<lparr>ms_queue := rest @ ms_queue st2\<rparr>, Inr (Run_failed, Some (exc_text x))))))"

text \<open>\<open>cancellation is not None and cancellation.cancelled()\<close>\<close>

definition check_cancelled ::
    "('e, bool) port_call option \<Rightarrow> 'e ma_state \<Rightarrow> 'e ma_state \<times> (exc + bool)" where
  "check_cancelled cancellation st =
     (case cancellation of
        None \<Rightarrow> (st, Inr False)
      | Some cancelled \<Rightarrow> (let (e', x) = cancelled (ms_env st) in (st\<lparr>ms_env := e'\<rparr>, x)))"

text \<open>The \<open>while\<close> loop; it returns the number of rounds made, the status and the error.\<close>

function run_rounds ::
    "'e coordinator \<Rightarrow> string \<Rightarrow> int \<Rightarrow> int \<Rightarrow> ('e, bool) port_call option \<Rightarrow> int \<Rightarrow> 'e ma_state
       \<Rightarrow> 'e ma_state \<times> (exc + int \<times> ma_run_status \<times> string option)" where
  "run_rounds c conv max_rounds max_messages cancellation rounds st =
     (if ms_queue st = [] \<or> max_rounds \<le> rounds
      then (st, Inr (rounds, Run_completed, None))
      else
        (case check_cancelled cancellation st of
           (st1, Inl x) \<Rightarrow> (st1, Inl x)
         | (st1, Inr True) \<Rightarrow> (st1, Inr (rounds, Run_cancelled, None))
         | (st1, Inr False) \<Rightarrow>
             (case deliver_round c conv (rounds + 1) max_messages (ms_queue st1)
                     (st1\<lparr>ms_queue := []\<rparr>) of
                (st2, Inl x) \<Rightarrow> (st2, Inl x)
              | (st2, Inr (status, error)) \<Rightarrow>
                  if status \<noteq> Run_completed then (st2, Inr (rounds + 1, status, error))
                  else run_rounds c conv max_rounds max_messages cancellation (rounds + 1) st2)))"
  by pat_completeness auto
termination
  by (relation "measure (\<lambda>(c, conv, max_rounds, max_messages, cancellation, rounds, st).
                  nat (max_rounds - rounds))") auto

declare run_rounds.simps [simp del]

definition final_status :: "ma_run_status \<Rightarrow> 'e ma_state \<Rightarrow> ma_run_status" where
  "final_status status st =
     (if status = Run_completed \<and> ms_queue st \<noteq> [] then Run_max_rounds else status)"

definition state_checkpoint :: "'e coordinator \<Rightarrow> string \<Rightarrow> int \<Rightarrow> 'e ma_state \<Rightarrow> ma_checkpoint" where
  "state_checkpoint c conv rounds st =
     \<lparr>mc_schema_version = checkpoint_schema, mc_topology_digest = topology_digest (co_topology c),
      mc_conversation_id = conv, mc_pending = ms_queue st,
      mc_delivered_message_ids = map message_id (ms_delivered st), mc_round = rounds,
      mc_delivered_messages = ms_delivered st\<rparr>"

definition finish_run ::
    "'e coordinator \<Rightarrow> string \<Rightarrow> int \<times> ma_run_status \<times> string option \<Rightarrow> 'e ma_state
       \<Rightarrow> 'e \<times> (exc + ma_result)" where
  "finish_run c conv outcome st =
     (let (rounds, status, error) = outcome in
      case checked valid_ma_checkpoint ''multi-agent checkpoint'' (state_checkpoint c conv rounds st) of
        Inl x \<Rightarrow> (ms_env st, Inl x)
      | Inr cp \<Rightarrow>
          (case (case co_journal c of None \<Rightarrow> (ms_env st, Inr ())
                 | Some j \<Rightarrow> jn_checkpoint j cp (ms_env st)) of
             (e', Inl x) \<Rightarrow> (e', Inl x)
           | (e', Inr _) \<Rightarrow>
               (e', checked valid_result ''multi-agent result''
                  \<lparr>mx_topology_digest = topology_digest (co_topology c),
                   mx_messages = ms_delivered st, mx_rounds = rounds,
                   mx_terminated = (ms_queue st = []), mx_status = final_status status st,
                   mx_receipts = ms_receipts st, mx_checkpoint = Some cp, mx_error = error\<rparr>)))"

definition execute_run ::
    "'e coordinator \<Rightarrow> ma_message list \<Rightarrow> string \<Rightarrow> string list \<Rightarrow> ma_message list \<Rightarrow> int
       \<Rightarrow> int \<Rightarrow> int \<Rightarrow> ('e, bool) port_call option \<Rightarrow> 'e \<Rightarrow> 'e \<times> (exc + ma_result)" where
  "execute_run c queue conv delivered_ids delivered start_round max_rounds max_messages cancellation e =
     (if map message_id delivered \<noteq> delivered_ids
      then (e, Inl (value_error ''multi-agent delivered transcript does not match IDs''))
      else
        (case run_rounds c conv max_rounds max_messages cancellation start_round
                \<lparr>ms_env = e, ms_queue = queue, ms_delivered = delivered, ms_receipts = [],
                 ms_seen = set delivered_ids,
                 ms_scheduled = set delivered_ids \<union> set (map message_id queue)\<rparr> of
           (st, Inl x) \<Rightarrow> (ms_env st, Inl x)
         | (st, Inr outcome) \<Rightarrow> finish_run c conv outcome st))"

subsection \<open>Entry points\<close>

definition validate_limits :: "int \<Rightarrow> int \<Rightarrow> exc + unit" where
  "validate_limits max_rounds max_messages =
     (if max_rounds \<le> 0 then Inl (value_error ''multi-agent max_rounds must be positive'')
      else if max_messages \<le> 0 then Inl (value_error ''multi-agent max_messages must be positive'')
      else Inr ())"

definition valid_initial :: "topology \<Rightarrow> string \<Rightarrow> ma_message \<Rightarrow> bool" where
  "valid_initial t conv m \<longleftrightarrow>
     valid_message m \<and> mm_conversation_id m = conv \<and> mm_turn m = 0
     \<and> mm_causal_parent_ids m = [] \<and> can_send t (mm_sender m) (mm_recipient m)"

definition run_many ::
    "'e coordinator \<Rightarrow> ma_message list \<Rightarrow> int \<Rightarrow> int \<Rightarrow> ('e, bool) port_call option \<Rightarrow> 'e
       \<Rightarrow> 'e \<times> (exc + ma_result)" where
  "run_many c initials max_rounds max_messages cancellation e =
     (case validate_limits max_rounds max_messages of
        Inl x \<Rightarrow> (e, Inl x)
      | Inr _ \<Rightarrow>
          if initials = []
          then (e, Inl (value_error ''multi-agent initials must be a non-empty tuple''))
          else
            (let conv = mm_conversation_id (hd initials) in
             if \<not> list_all (valid_initial (co_topology c) conv) initials
             then (e, Inl (value_error
                     ''multi-agent initial messages must be topology-valid turn-zero messages''))
             else if \<not> distinct (map message_id initials)
             then (e, Inl (value_error ''multi-agent initial messages must have unique IDs''))
             else execute_run c initials conv [] [] 0 max_rounds max_messages cancellation e))"

definition run_one ::
    "'e coordinator \<Rightarrow> ma_message \<Rightarrow> int \<Rightarrow> int \<Rightarrow> ('e, bool) port_call option \<Rightarrow> 'e
       \<Rightarrow> 'e \<times> (exc + ma_result)" where
  "run_one c initial = run_many c [initial]"

definition resume_run ::
    "'e coordinator \<Rightarrow> ma_checkpoint \<Rightarrow> int \<Rightarrow> int \<Rightarrow> ('e, bool) port_call option \<Rightarrow> 'e
       \<Rightarrow> 'e \<times> (exc + ma_result)" where
  "resume_run c cp max_rounds max_messages cancellation e =
     (case validate_limits max_rounds max_messages of
        Inl x \<Rightarrow> (e, Inl x)
      | Inr _ \<Rightarrow>
          if mc_topology_digest cp \<noteq> topology_digest (co_topology c)
          then (e, Inl (value_error ''multi-agent checkpoint topology digest mismatch''))
          else execute_run c (mc_pending cp) (mc_conversation_id cp) (mc_delivered_message_ids cp)
                 (mc_delivered_messages cp) (mc_round cp) max_rounds max_messages cancellation e)"

definition resume_from_journal ::
    "'e coordinator \<Rightarrow> string \<Rightarrow> int \<Rightarrow> int \<Rightarrow> ('e, bool) port_call option \<Rightarrow> 'e
       \<Rightarrow> 'e \<times> (exc + ma_result)" where
  "resume_from_journal c conv max_rounds max_messages cancellation e =
     (if blank conv then (e, Inl (value_error ''multi-agent conversation_id must be non-empty''))
      else (case co_journal c of
          None \<Rightarrow> (e, Inl (''RuntimeError'', ''multi-agent journal is required for journal resume''))
        | Some j \<Rightarrow>
            (case jn_latest_checkpoint j conv e of
               (e', Inl x) \<Rightarrow> (e', Inl x)
             | (e', Inr None) \<Rightarrow> (e', Inl (''KeyError'', ''no checkpoint for conversation''))
             | (e', Inr (Some cp)) \<Rightarrow> resume_run c cp max_rounds max_messages cancellation e')))"

subsection \<open>Group chat, debate and hierarchy\<close>

definition initial_message :: "string \<Rightarrow> string \<Rightarrow> string \<Rightarrow> ma_message" where
  "initial_message sender recipient content =
     \<lparr>mm_sender = sender, mm_recipient = recipient, mm_content = content, mm_turn = 0,
      mm_conversation_id = ''default'', mm_causal_parent_ids = [], mm_delivery_attempt = 0\<rparr>"

definition make_initials :: "ma_message list \<Rightarrow> exc + ma_message list" where
  "make_initials ms = checked (list_all valid_message) ''multi-agent message'' ms"

definition group_chat_run ::
    "'e coordinator \<Rightarrow> string \<Rightarrow> string \<Rightarrow> int \<Rightarrow> int \<Rightarrow> ('e, bool) port_call option \<Rightarrow> 'e
       \<Rightarrow> 'e \<times> (exc + ma_result)" where
  "group_chat_run c moderator topic max_rounds max_messages cancellation e =
     (let targets = neighbors (co_topology c) moderator in
      if targets = [] then (e, Inl (value_error ''group chat moderator has no participants''))
      else (case make_initials (map (\<lambda>t. initial_message moderator t topic) targets) of
              Inl x \<Rightarrow> (e, Inl x)
            | Inr ms \<Rightarrow> run_many c ms max_rounds max_messages cancellation e))"

definition debate_run ::
    "'e coordinator \<Rightarrow> string \<Rightarrow> string \<Rightarrow> string \<Rightarrow> int \<Rightarrow> int \<Rightarrow> ('e, bool) port_call option \<Rightarrow> 'e
       \<Rightarrow> 'e \<times> (exc + ma_result)" where
  "debate_run c judge proposer topic max_rounds max_messages cancellation e =
     (if blank judge then (e, Inl (value_error ''debate judge must be non-empty''))
      else (case make_initials [initial_message proposer judge topic] of
              Inl x \<Rightarrow> (e, Inl x)
            | Inr ms \<Rightarrow> run_one c (hd ms) max_rounds max_messages cancellation e))"

definition hierarchical_run ::
    "'e coordinator \<Rightarrow> string \<Rightarrow> string \<Rightarrow> string \<Rightarrow> int \<Rightarrow> int \<Rightarrow> ('e, bool) port_call option \<Rightarrow> 'e
       \<Rightarrow> 'e \<times> (exc + ma_result)" where
  "hierarchical_run c manager task worker max_rounds max_messages cancellation e =
     (if blank manager then (e, Inl (value_error ''hierarchical manager must be non-empty''))
      else (case make_initials [initial_message manager worker task] of
              Inl x \<Rightarrow> (e, Inl x)
            | Inr ms \<Rightarrow> run_one c (hd ms) max_rounds max_messages cancellation e))"

subsection \<open>What each step keeps\<close>

lemma append_receipt_state:
  assumes "append_receipt c m r st = (st', x)"
  shows "ms_queue st' = ms_queue st" "ms_delivered st' = ms_delivered st"
    "ms_seen st' = ms_seen st" "ms_scheduled st' = ms_scheduled st"
    "ms_receipts st' = ms_receipts st @ [r]"
  using assms
  by (auto simp: append_receipt_def journal_record_def Let_def split: option.splits prod.splits)

lemma validate_output_admits:
  assumes "validate_output c parent out conv scheduled queue = Inr None"
  shows "mm_sender out = mm_recipient parent \<and> mm_conversation_id out = conv
    \<and> mm_turn out = mm_turn parent + 1 \<and> message_id parent \<in> set (mm_causal_parent_ids out)
    \<and> can_send (co_topology c) (mm_sender out) (mm_recipient out) \<and> message_id out \<notin> scheduled"
  using assms by (auto simp: validate_output_def Let_def split: if_splits option.splits)

text \<open>
  The identities of delivered, current and queued messages are distinct and scheduled, the seen
  identities are the delivered ones, and every message is valid and of the conversation.
\<close>

definition ma_inv :: "string \<Rightarrow> ma_message list \<Rightarrow> 'e ma_state \<Rightarrow> bool" where
  "ma_inv conv rest st \<longleftrightarrow>
     (let ms = ms_delivered st @ rest @ ms_queue st in
      distinct (map message_id ms) \<and> ms_seen st = message_id ` set (ms_delivered st)
      \<and> message_id ` set ms \<subseteq> ms_scheduled st
      \<and> (\<forall>m \<in> set ms. valid_message m \<and> mm_conversation_id m = conv))"

text \<open>\<open>m\<close> is a root, or the answer of the recipient of an already delivered message.\<close>

definition caused :: "ma_message list \<Rightarrow> ma_message list \<Rightarrow> ma_message \<Rightarrow> bool" where
  "caused roots ds m \<longleftrightarrow>
     m \<in> set roots
     \<or> list_ex (\<lambda>p. mm_sender m = mm_recipient p \<and> mm_turn m = mm_turn p + 1
                    \<and> message_id p \<in> set (mm_causal_parent_ids m)) ds"

fun causal_from :: "ma_message list \<Rightarrow> ma_message list \<Rightarrow> ma_message list \<Rightarrow> bool" where
  "causal_from roots ds [] = True"
| "causal_from roots ds (m # ms) = (caused roots ds m \<and> causal_from roots (ds @ [m]) ms)"

definition routed :: "topology \<Rightarrow> ma_message \<Rightarrow> bool" where
  "routed t m = can_send t (mm_sender m) (mm_recipient m)"

definition causal_inv :: "topology \<Rightarrow> ma_message list \<Rightarrow> ma_message list \<Rightarrow> 'e ma_state \<Rightarrow> bool" where
  "causal_inv t roots rest st \<longleftrightarrow>
     causal_from roots [] (ms_delivered st)
     \<and> list_all (caused roots (ms_delivered st)) (rest @ ms_queue st)
     \<and> list_all (routed t) (ms_delivered st @ rest @ ms_queue st)"

lemma causal_from_snoc:
  "causal_from roots ds (ms @ [x]) \<longleftrightarrow> causal_from roots ds ms \<and> caused roots (ds @ ms) x"
  by (induction roots ds ms rule: causal_from.induct) auto

lemma caused_mono: "caused roots ds m \<Longrightarrow> caused roots (ds @ [x]) m"
  by (auto simp: caused_def)

lemma list_all_caused_mono:
  "list_all (caused roots ds) ms \<Longrightarrow> list_all (caused roots (ds @ [x])) ms"
  by (auto simp: list_all_iff intro: caused_mono)

lemma ma_inv_cong:
  assumes "ma_inv conv rest st" "ms_queue st' = ms_queue st" "ms_delivered st' = ms_delivered st"
    "ms_seen st' = ms_seen st" "ms_scheduled st' = ms_scheduled st"
  shows "ma_inv conv rest st'"
  using assms by (simp add: ma_inv_def)

lemma causal_inv_cong:
  assumes "causal_inv t roots rest st" "ms_queue st' = ms_queue st" "ms_delivered st' = ms_delivered st"
  shows "causal_inv t roots rest st'"
  using assms by (simp add: causal_inv_def)

lemma ma_inv_enqueue:
  assumes "ma_inv conv rest st" "valid_message out" "mm_conversation_id out = conv"
    "message_id out \<notin> ms_scheduled st"
  shows "ma_inv conv rest (st\<lparr>ms_scheduled := insert (message_id out) (ms_scheduled st),
                              ms_queue := ms_queue st @ [out]\<rparr>)"
  using assms by (auto simp: ma_inv_def Let_def)

lemma causal_inv_enqueue:
  assumes "causal_inv t roots rest st" "caused roots (ms_delivered st) out" "routed t out"
  shows "causal_inv t roots rest (st\<lparr>ms_scheduled := insert (message_id out) (ms_scheduled st),
                                     ms_queue := ms_queue st @ [out]\<rparr>)"
  using assms by (auto simp: causal_inv_def)

subsection \<open>Invariants of the coordinator's loop\<close>

text \<open>
  The contract of an invariant of the delivery loop: \<open>I rest st\<close> holds between two deliveries of a
  round, \<open>rest\<close> being what the round still has to deliver, and \<open>K\<close> is what a round that stops
  early leaves.
\<close>

locale delivery_invariant =
  fixes c :: "'e coordinator" and conv :: string and mm :: int
    and I :: "ma_message list \<Rightarrow> 'e ma_state \<Rightarrow> bool" and K :: "'e ma_state \<Rightarrow> bool"
  assumes frame: "I rest st \<Longrightarrow> I rest (st\<lparr>ms_env := e, ms_receipts := rs\<rparr>)"
    and take_message: "I (m # rest) st \<Longrightarrow> validate_delivery c conv m = Inr () \<Longrightarrow>
      message_id m \<notin> ms_seen st \<Longrightarrow> int (length (ms_delivered st)) < mm \<Longrightarrow>
      I rest (st\<lparr>ms_seen := insert (message_id m) (ms_seen st), ms_delivered := ms_delivered st @ [m]\<rparr>)"
    and skip_message: "I (m # rest) st \<Longrightarrow> message_id m \<in> ms_seen st \<Longrightarrow> I rest st"
    and enqueue: "I rest st \<Longrightarrow> parent \<in> set (ms_delivered st) \<Longrightarrow> valid_message out \<Longrightarrow>
      validate_output c parent out conv (ms_scheduled st) (ms_queue st) = Inr None \<Longrightarrow>
      I rest (st\<lparr>ms_scheduled := insert (message_id out) (ms_scheduled st),
                 ms_queue := ms_queue st @ [out]\<rparr>)"
    and stop: "I rest st \<Longrightarrow> K (st\<lparr>ms_queue := rest @ ms_queue st\<rparr>)"
    and drop_message: "I (m # rest) st \<Longrightarrow> K (st\<lparr>ms_queue := rest @ ms_queue st\<rparr>)"
begin

lemma append_receipt_keeps:
  assumes "append_receipt c m r st = (st', x)" "I rest st"
  shows "I rest st'"
proof -
  have "st' = st\<lparr>ms_env := ms_env st', ms_receipts := ms_receipts st'\<rparr>"
    using append_receipt_state [OF assms(1)] by (intro ma_state.equality) simp_all
  then show ?thesis using frame [OF assms(2)] by metis
qed

lemma emit_outputs_keeps:
  assumes "emit_outputs c conv parent outs st = (st', x)" "list_all valid_message outs"
    "parent \<in> set (ms_delivered st)" "I rest st"
  shows "I rest st' \<and> ms_delivered st' = ms_delivered st"
  using assms
proof (induction outs arbitrary: st)
  case (Cons out outs)
  show ?case
  proof (cases "validate_output c parent out conv (ms_scheduled st) (ms_queue st)")
    case (Inl y)
    then show ?thesis using Cons.prems by simp
  next
    case (Inr d)
    show ?thesis
    proof (cases d)
      case None
      with Inr Cons.prems enqueue [OF Cons.prems(4,3)] show ?thesis
        by (auto dest!: Cons.IH)
    next
      case (Some r)
      obtain st1 y where a: "append_receipt c out r st = (st1, y)" by fastforce
      note keep = append_receipt_keeps [OF a Cons.prems(4)] append_receipt_state [OF a]
      show ?thesis
        using Cons.prems Inr Some a keep Cons.IH [of st1] by (auto split: sum.splits)
    qed
  qed
qed simp

lemma deliver_keeps:
  assumes "deliver c conv rnd m st = (st', x)" "I (m # rest) st" "message_id m \<notin> ms_seen st"
    "int (length (ms_delivered st)) < mm"
  shows "I rest st' \<or> (st' = st \<and> x \<noteq> Inr ())"
proof (cases "validate_delivery c conv m")
  case (Inl y)
  then show ?thesis using assms(1) by (auto simp: deliver_def)
next
  case (Inr u)
  define st1 where "st1 = st\<lparr>ms_seen := insert (message_id m) (ms_seen st),
                             ms_delivered := ms_delivered st @ [m]\<rparr>"
  have I1: "I rest st1" unfolding st1_def by (rule take_message) (use Inr assms in auto)
  obtain e' outputs where node: "call_node c m (ms_env st1) = (e', outputs)" by fastforce
  define st2 where "st2 = st1\<lparr>ms_env := e'\<rparr>"
  have I2: "I rest st2" using frame [OF I1, where rs = "ms_receipts st1" and e = e'] by (simp add: st2_def)
  have m2: "m \<in> set (ms_delivered st2)" by (simp add: st2_def st1_def)
  obtain st3 y where rec: "append_receipt c m (make_ma_receipt m Delivery_delivered rnd []) st2 = (st3, y)"
    by fastforce
  have I3: "I rest st3" by (rule append_receipt_keeps [OF rec I2])
  have m3: "m \<in> set (ms_delivered st3)" using m2 append_receipt_state(2) [OF rec] by simp
  have D: "deliver c conv rnd m st =
     (case outputs of Inl x \<Rightarrow> (st2, Inl x)
      | Inr result \<Rightarrow>
          if result = None \<or> \<not> list_all valid_message (the result)
          then (st2, Inl (''TypeError'', ''multi-agent node must return a tuple of messages''))
          else case (st3, y) of (st3, Inl x) \<Rightarrow> (st3, Inl x)
               | (st3, Inr _) \<Rightarrow> emit_outputs c conv m (the result) st3)"
    using Inr node rec
    by (auto simp: deliver_def Let_def st1_def [symmetric] st2_def [symmetric] split: sum.splits)
  show ?thesis
  proof (cases outputs)
    case (Inr result)
    with assms(1) D I2 I3 emit_outputs_keeps [OF _ _ m3 I3] show ?thesis
      by (auto split: if_splits sum.splits)
  qed (use assms(1) D I2 in auto)
qed

lemma deliver_round_keeps:
  assumes "deliver_round c conv rnd mm rest st = (st', Inr (status, err))" "I rest st"
  shows "if status = Run_completed then I [] st' else K st'"
  using assms
proof (induction rest arbitrary: st)
  case (Cons m rest)
  consider "mm \<le> int (length (ms_delivered st))"
    | "int (length (ms_delivered st)) < mm" "message_id m \<in> ms_seen st"
    | "int (length (ms_delivered st)) < mm" "message_id m \<notin> ms_seen st" by linarith
  then show ?case
  proof cases
    case 1
    with Cons.prems stop [OF Cons.prems(2)] show ?thesis by auto
  next
    case 2
    obtain st1 y where a: "append_receipt c m (make_ma_receipt m Delivery_duplicate rnd
        ''message ID already delivered'') st = (st1, y)" by fastforce
    with 2 Cons.prems append_receipt_keeps [OF a skip_message [OF Cons.prems(2) 2(2)]]
    show ?thesis using Cons.IH [of st1] by (auto split: sum.splits)
  next
    case 3
    obtain st1 x where d: "deliver c conv rnd m st = (st1, x)" by fastforce
    note kept = deliver_keeps [OF d Cons.prems(2) 3(2,1)]
    show ?thesis
    proof (cases x)
      case (Inr u)
      with kept have "I rest st1" by simp
      moreover have "deliver_round c conv rnd mm rest st1 = (st', Inr (status, err))"
        using Inr Cons.prems 3 d by simp
      ultimately show ?thesis by (intro Cons.IH)
    next
      case (Inl y)
      obtain st2 z where a: "append_receipt c m (make_ma_receipt m Delivery_failed rnd (exc_text y)) st1 = (st2, z)"
        by fastforce
      from Inl Cons.prems(1) 3 d a
      have st': "st' = st2\<lparr>ms_queue := rest @ ms_queue st2\<rparr>" "status = Run_failed"
        by (auto split: sum.splits)
      show ?thesis
      proof (cases "I rest st1")
        case True
        show ?thesis using stop [OF append_receipt_keeps [OF a True]] st' by simp
      next
        case False
        with kept Cons.prems(2) have "I (m # rest) st1" by simp
        from drop_message [OF append_receipt_keeps [OF a this]] st' show ?thesis by simp
      qed
    qed
  qed
qed simp

end

lemma deliver_round_status:
  "deliver_round c conv rnd mm rest st = (st', Inr (status, err)) \<Longrightarrow>
     status \<in> {Run_completed, Run_max_messages, Run_failed}
     \<and> (status = Run_failed \<longleftrightarrow> err \<noteq> None) \<and> err \<noteq> Some []"
  by (induction rest arbitrary: st) (auto split: if_splits prod.splits sum.splits)

text \<open>An invariant that a new round starts from.\<close>

locale loop_invariant = delivery_invariant +
  assumes start: "I [] st \<Longrightarrow> I (ms_queue st) (st\<lparr>ms_queue := []\<rparr>)"
    and leave: "I [] st \<Longrightarrow> K st"
begin

lemma check_cancelled_keeps:
  assumes "check_cancelled cancellation st = (st', x)" "I [] st"
  shows "I [] st'"
  using assms frame [OF assms(2), where rs = "ms_receipts st"]
  by (auto simp: check_cancelled_def split: option.splits prod.splits)

lemma run_rounds_keeps:
  assumes "run_rounds c conv max_rounds mm cancellation rounds st = (st', Inr (rounds', status, err))"
    "I [] st"
  shows "K st' \<and> (status \<in> {Run_completed, Run_cancelled} \<longrightarrow> I [] st')"
  using assms
proof (induction "nat (max_rounds - rounds)" arbitrary: rounds st rule: less_induct)
  case less
  show ?case
  proof (cases "ms_queue st = [] \<or> max_rounds \<le> rounds")
    case True
    with less.prems leave show ?thesis by (auto simp: run_rounds.simps [of c conv max_rounds])
  next
    case False
    obtain st1 x where cc: "check_cancelled cancellation st = (st1, x)" by fastforce
    have I1: "I [] st1" by (rule check_cancelled_keeps [OF cc less.prems(2)])
    obtain st2 y where dr: "deliver_round c conv (rounds + 1) mm (ms_queue st1) (st1\<lparr>ms_queue := []\<rparr>) = (st2, y)"
      by fastforce
    note step = less.prems(1) [unfolded run_rounds.simps [of c conv max_rounds mm cancellation rounds st]]
    consider "x = Inr True" | status2 err2 where "x = Inr False" "y = Inr (status2, err2)"
      using step False cc dr by (cases x; cases y) (auto split: bool.splits)
    then show ?thesis
    proof cases
      case 1
      with step False cc I1 leave show ?thesis by auto
    next
      case 2
      note kept = deliver_round_keeps [OF dr [unfolded 2(2)] start [OF I1]]
      show ?thesis
      proof (cases "status2 = Run_completed")
        case True
        then show ?thesis
          using less.hyps [of "rounds + 1" st2] step False cc dr 2 kept by simp
      next
        case other: False
        with step False cc dr 2 kept deliver_round_status [OF dr [unfolded 2(2)]] show ?thesis
          by auto
      qed
    qed
  qed
qed

end

subsection \<open>The invariants\<close>

interpretation ids: loop_invariant c conv mm "ma_inv conv" "ma_inv conv []" for c conv mm
  by unfold_locales
    (auto simp: ma_inv_def Let_def dest!: validate_output_admits)

lemma caused_by_parent:
  "p \<in> set ds \<Longrightarrow> mm_sender m = mm_recipient p \<Longrightarrow> mm_turn m = mm_turn p + 1 \<Longrightarrow>
     message_id p \<in> set (mm_causal_parent_ids m) \<Longrightarrow> caused roots ds m"
  by (auto simp: caused_def list_ex_iff)

interpretation causal: loop_invariant c conv mm "causal_inv (co_topology c) roots"
    "causal_inv (co_topology c) roots []" for c conv mm roots
  by unfold_locales
    (auto simp: causal_inv_def causal_from_snoc routed_def list_all_caused_mono
      intro: caused_by_parent dest!: validate_output_admits)

text \<open>
  No route holds more queued messages than the first of its edges allows, the one that \<open>edge\<close>
  returns and that the coordinator consults.
\<close>

definition within_limits :: "topology \<Rightarrow> ma_message list \<Rightarrow> bool" where
  "within_limits t q \<longleftrightarrow>
     list_all (\<lambda>e. topology_edge t (ce_sender e) (ce_recipient e) = Some e \<longrightarrow>
                    int (edge_load (ce_sender e) (ce_recipient e) q) \<le> ce_max_in_flight e) (tp_edges t)"

lemma within_limits_enqueue:
  assumes "within_limits (co_topology c) q"
    "validate_output c parent out conv scheduled q = Inr None"
  shows "within_limits (co_topology c) (q @ [out])"
  using assms
  by (auto simp: within_limits_def list_all_iff validate_output_def edge_load_def Let_def
      split: if_splits option.splits)

interpretation limits: delivery_invariant c conv mm
    "\<lambda>rest st. within_limits (co_topology c) (ms_queue st)" "\<lambda>st. True" for c conv mm
  by unfold_locales (auto intro: within_limits_enqueue)

interpretation bounded: loop_invariant c conv mm
    "\<lambda>rest st. int (length (ms_delivered st)) \<le> max mm base"
    "\<lambda>st. int (length (ms_delivered st)) \<le> max mm base" for c conv mm base
  by unfold_locales auto

text \<open>Every scheduled identity is delivered or waits.\<close>

definition exact_inv :: "string \<Rightarrow> ma_message list \<Rightarrow> 'e ma_state \<Rightarrow> bool" where
  "exact_inv conv rest st \<longleftrightarrow> ma_inv conv rest st
     \<and> ms_scheduled st = message_id ` set (ms_delivered st @ rest @ ms_queue st)"

interpretation exact: loop_invariant c conv mm "exact_inv conv" "\<lambda>st. True" for c conv mm
proof unfold_locales
  show "exact_inv conv rest (st\<lparr>ms_seen := insert (message_id m) (ms_seen st),
                                ms_delivered := ms_delivered st @ [m]\<rparr>)"
    if "exact_inv conv (m # rest) st" for m rest and st :: "'e ma_state"
    using that by (auto simp: exact_inv_def ma_inv_def Let_def)
  show "exact_inv conv rest st"
    if "exact_inv conv (m # rest) st" "message_id m \<in> ms_seen st" for m rest and st :: "'e ma_state"
    using that by (auto simp: exact_inv_def ma_inv_def Let_def)
  show "exact_inv conv rest (st\<lparr>ms_scheduled := insert (message_id out) (ms_scheduled st),
                                ms_queue := ms_queue st @ [out]\<rparr>)"
    if "exact_inv conv rest st" "valid_message out"
      "validate_output c parent out conv (ms_scheduled st) (ms_queue st) = Inr None"
    for c parent out rest and st :: "'e ma_state"
    using that by (auto simp: exact_inv_def ma_inv_def Let_def dest!: validate_output_admits)
qed (simp_all add: exact_inv_def ma_inv_def Let_def Un_ac)

subsection \<open>Runs\<close>

lemma run_rounds_outcome:
  assumes "run_rounds c conv max_rounds mm cancellation rounds st = (st', Inr (rounds', status, err))"
  shows "rounds \<le> rounds' \<and> rounds' \<le> max rounds max_rounds
    \<and> (status = Run_completed \<longrightarrow> ms_queue st' = [] \<or> max_rounds \<le> rounds')
    \<and> (status = Run_failed \<longleftrightarrow> err \<noteq> None) \<and> err \<noteq> Some []
    \<and> status \<noteq> Run_max_rounds"
  using assms
proof (induction "nat (max_rounds - rounds)" arbitrary: rounds st rule: less_induct)
  case less
  note step = less.prems [unfolded run_rounds.simps [of c conv max_rounds mm cancellation rounds st]]
  show ?case
  proof (cases "ms_queue st = [] \<or> max_rounds \<le> rounds")
    case True
    with step show ?thesis by auto
  next
    case False
    obtain st1 x where cc: "check_cancelled cancellation st = (st1, x)" by fastforce
    obtain st2 y where dr: "deliver_round c conv (rounds + 1) mm (ms_queue st1) (st1\<lparr>ms_queue := []\<rparr>) = (st2, y)"
      by fastforce
    consider "x = Inr True" | status2 err2 where "x = Inr False" "y = Inr (status2, err2)"
      using step False cc dr by (cases x; cases y) (auto split: bool.splits)
    then show ?thesis
    proof cases
      case 1
      with step False cc show ?thesis by auto
    next
      case 2
      note rs = deliver_round_status [OF dr [unfolded 2(2)]]
      show ?thesis
      proof (cases "status2 = Run_completed")
        case True
        then show ?thesis
          using less.hyps [of "rounds + 1" st2] step False cc dr 2 by simp
      next
        case other: False
        with step False cc dr 2 rs show ?thesis by auto
      qed
    qed
  qed
qed

lemma execute_run_Inr:
  assumes "execute_run c queue conv dids ds start max_rounds mm cancellation e = (e', Inr r)"
  obtains st rounds status err where
    "run_rounds c conv max_rounds mm cancellation start
       \<lparr>ms_env = e, ms_queue = queue, ms_delivered = ds, ms_receipts = [], ms_seen = set dids,
        ms_scheduled = set dids \<union> set (map message_id queue)\<rparr> = (st, Inr (rounds, status, err))"
    "dids = map message_id ds"
    "valid_ma_checkpoint (state_checkpoint c conv rounds st)"
    "r = \<lparr>mx_topology_digest = topology_digest (co_topology c), mx_messages = ms_delivered st,
          mx_rounds = rounds, mx_terminated = (ms_queue st = []),
          mx_status = final_status status st, mx_receipts = ms_receipts st,
          mx_checkpoint = Some (state_checkpoint c conv rounds st), mx_error = err\<rparr>"
  using assms
  by (auto simp: execute_run_def finish_run_def Let_def checked_Inr_iff
      split: if_splits prod.splits sum.splits)

lemma run_many_Inr:
  assumes "run_many c initials max_rounds mm cancellation e = (e', Inr r)"
  shows "execute_run c initials (mm_conversation_id (hd initials)) [] [] 0 max_rounds mm cancellation e = (e', Inr r)
    \<and> 0 < max_rounds \<and> 0 < mm \<and> initials \<noteq> [] \<and> distinct (map message_id initials)
    \<and> list_all (valid_initial (co_topology c) (mm_conversation_id (hd initials))) initials"
  using assms
  by (auto simp: run_many_def validate_limits_def Let_def split: if_splits)

definition ports_quiet :: "'e coordinator \<Rightarrow> ('e, bool) port_call option \<Rightarrow> bool" where
  "ports_quiet c cancellation \<longleftrightarrow>
     (\<forall>j. co_journal c = Some j \<longrightarrow>
        (\<forall>m r e. snd (jn_record j m r e) = Inr ()) \<and> (\<forall>cp e. snd (jn_checkpoint j cp e) = Inr ()))
     \<and> (\<forall>cancelled e. cancellation = Some cancelled \<longrightarrow> (\<exists>b. snd (cancelled e) = Inr b))"

lemma append_receipt_quiet:
  assumes "ports_quiet c cancellation"
  obtains st' where "append_receipt c m r st = (st', Inr ())"
proof (cases "co_journal c")
  case None
  then show ?thesis using that by (simp add: append_receipt_def journal_record_def)
next
  case (Some j)
  obtain e' where "jn_record j m r (ms_env st) = (e', Inr ())"
    using assms Some unfolding ports_quiet_def by (metis prod.collapse)
  with Some show ?thesis using that by (simp add: append_receipt_def journal_record_def)
qed

lemma check_cancelled_quiet:
  assumes "ports_quiet c cancellation"
  obtains st' b where "check_cancelled cancellation st = (st', Inr b)"
proof (cases cancellation)
  case None
  then show ?thesis using that [of st False] by (simp add: check_cancelled_def)
next
  case (Some cancelled)
  obtain e' b where "cancelled (ms_env st) = (e', Inr b)"
    using assms Some unfolding ports_quiet_def by (metis prod.collapse)
  with Some show ?thesis using that by (simp add: check_cancelled_def)
qed

lemma deliver_round_quiet:
  assumes "ports_quiet c cancellation"
  shows "\<exists>st' y. deliver_round c conv rnd mm rest st = (st', Inr y)"
proof (induction rest arbitrary: st)
  case (Cons m rest)
  obtain std where d: "append_receipt c m (make_ma_receipt m Delivery_duplicate rnd
      ''message ID already delivered'') st = (std, Inr ())"
    using append_receipt_quiet [OF assms] .
  obtain st1 x where dm: "deliver c conv rnd m st = (st1, x)" by fastforce
  show ?case
  proof (cases x)
    case (Inr u)
    with d dm Cons.IH show ?thesis by simp
  next
    case (Inl y)
    obtain st2 where "append_receipt c m (make_ma_receipt m Delivery_failed rnd (exc_text y)) st1 = (st2, Inr ())"
      using append_receipt_quiet [OF assms] .
    with Inl d dm Cons.IH show ?thesis by simp
  qed
qed simp

lemma run_rounds_quiet:
  assumes "ports_quiet c cancellation"
  shows "\<exists>st' y. run_rounds c conv max_rounds mm cancellation rounds st = (st', Inr y)"
proof (induction "nat (max_rounds - rounds)" arbitrary: rounds st rule: less_induct)
  case less
  obtain st1 b where cc: "check_cancelled cancellation st = (st1, Inr b)"
    using check_cancelled_quiet [OF assms] .
  obtain st2 status err where dr:
    "deliver_round c conv (rounds + 1) mm (ms_queue st1) (st1\<lparr>ms_queue := []\<rparr>) = (st2, Inr (status, err))"
    using deliver_round_quiet [OF assms] by (metis prod.exhaust)
  note step = run_rounds.simps [of c conv max_rounds mm cancellation rounds st]
  show ?case
  proof (cases "ms_queue st = [] \<or> max_rounds \<le> rounds")
    case True
    with step show ?thesis by auto
  next
    case False
    then have "nat (max_rounds - (rounds + 1)) < nat (max_rounds - rounds)" by auto
    from less [OF this, of st2] step False cc dr show ?thesis by (cases b) auto
  qed
qed

lemma execute_run_returns:
  assumes "ports_quiet c cancellation" "\<not> blank conv" "0 \<le> start"
    and inv: "ma_inv conv [] \<lparr>ms_env = e, ms_queue = queue, ms_delivered = ds, ms_receipts = [],
      ms_seen = set (map message_id ds),
      ms_scheduled = set (map message_id ds) \<union> set (map message_id queue)\<rparr>"
  shows "\<exists>e' r. execute_run c queue conv (map message_id ds) ds start max_rounds mm cancellation e = (e', Inr r)"
proof -
  obtain st rounds status err where rr:
    "run_rounds c conv max_rounds mm cancellation start
       \<lparr>ms_env = e, ms_queue = queue, ms_delivered = ds, ms_receipts = [],
        ms_seen = set (map message_id ds),
        ms_scheduled = set (map message_id ds) \<union> set (map message_id queue)\<rparr>
     = (st, Inr (rounds, status, err))"
    using run_rounds_quiet [OF assms(1)] by (metis prod.exhaust)
  have K: "ma_inv conv [] st" using ids.run_rounds_keeps [OF rr inv] by simp
  note out = run_rounds_outcome [OF rr]
  have cp: "valid_ma_checkpoint (state_checkpoint c conv rounds st)"
    using K out assms(2,3)
    by (auto simp: valid_ma_checkpoint_def state_checkpoint_def ma_inv_def Let_def list_all_iff
        topology_digest_def)
  have res: "valid_result \<lparr>mx_topology_digest = topology_digest (co_topology c), mx_messages = ms_delivered st,
          mx_rounds = rounds, mx_terminated = (ms_queue st = []),
          mx_status = final_status status st, mx_receipts = ms_receipts st,
          mx_checkpoint = Some (state_checkpoint c conv rounds st), mx_error = err\<rparr>"
    using out assms(3)
    by (auto simp: valid_result_def topology_digest_def final_status_def split: option.splits if_splits)
  obtain e' where "(case co_journal c of None \<Rightarrow> (ms_env st, Inr ())
      | Some j \<Rightarrow> jn_checkpoint j (state_checkpoint c conv rounds st) (ms_env st)) = (e', Inr ())"
    using assms(1) unfolding ports_quiet_def
    by (cases "co_journal c") (auto, metis prod.collapse)
  with rr cp res show ?thesis
    by (auto simp: execute_run_def finish_run_def checked_def simp del: set_map)
qed

subsection \<open>Splitting a run at a checkpoint\<close>

text \<open>Receipts already collected have no influence on what follows.\<close>

definition prior_receipts :: "ma_receipt list \<Rightarrow> 'e ma_state \<Rightarrow> 'e ma_state" where
  "prior_receipts rs st = st\<lparr>ms_receipts := rs @ ms_receipts st\<rparr>"

lemma prior_receipts_sel [simp]:
  "ms_env (prior_receipts rs st) = ms_env st" "ms_queue (prior_receipts rs st) = ms_queue st"
  "ms_delivered (prior_receipts rs st) = ms_delivered st" "ms_seen (prior_receipts rs st) = ms_seen st"
  "ms_scheduled (prior_receipts rs st) = ms_scheduled st"
  "ms_receipts (prior_receipts rs st) = rs @ ms_receipts st"
  by (simp_all add: prior_receipts_def)

lemma prior_receipts_upd:
  "prior_receipts rs st\<lparr>ms_env := e\<rparr> = prior_receipts rs (st\<lparr>ms_env := e\<rparr>)"
  "prior_receipts rs st\<lparr>ms_queue := q\<rparr> = prior_receipts rs (st\<lparr>ms_queue := q\<rparr>)"
  "prior_receipts rs st\<lparr>ms_delivered := ds\<rparr> = prior_receipts rs (st\<lparr>ms_delivered := ds\<rparr>)"
  "prior_receipts rs st\<lparr>ms_seen := s\<rparr> = prior_receipts rs (st\<lparr>ms_seen := s\<rparr>)"
  "prior_receipts rs st\<lparr>ms_scheduled := s\<rparr> = prior_receipts rs (st\<lparr>ms_scheduled := s\<rparr>)"
  "prior_receipts rs st\<lparr>ms_receipts := rs @ rs'\<rparr> = prior_receipts rs (st\<lparr>ms_receipts := rs'\<rparr>)"
  by (simp_all add: prior_receipts_def)

abbreviation on_prior :: "ma_receipt list \<Rightarrow> 'e ma_state \<times> 'b \<Rightarrow> 'e ma_state \<times> 'b" where
  "on_prior rs \<equiv> map_prod (prior_receipts rs) id"

lemma append_receipt_prior:
  "append_receipt c m r (prior_receipts rs st) = on_prior rs (append_receipt c m r st)"
  by (auto simp: append_receipt_def journal_record_def Let_def prior_receipts_upd
      split: option.splits prod.splits)

lemma emit_outputs_prior:
  "emit_outputs c conv parent outs (prior_receipts rs st) = on_prior rs (emit_outputs c conv parent outs st)"
  by (induction outs arbitrary: st)
    (auto simp: append_receipt_prior prior_receipts_upd split: sum.splits option.splits prod.splits)

lemma deliver_prior:
  "deliver c conv rnd m (prior_receipts rs st) = on_prior rs (deliver c conv rnd m st)"
  by (auto simp: deliver_def Let_def append_receipt_prior emit_outputs_prior prior_receipts_upd
      split: sum.splits prod.splits)

lemma deliver_round_prior:
  "deliver_round c conv rnd mm rest (prior_receipts rs st) = on_prior rs (deliver_round c conv rnd mm rest st)"
  by (induction rest arbitrary: st)
    (auto simp: append_receipt_prior deliver_prior prior_receipts_upd split: sum.splits prod.splits)

lemma check_cancelled_prior:
  "check_cancelled cancellation (prior_receipts rs st) = on_prior rs (check_cancelled cancellation st)"
  by (auto simp: check_cancelled_def Let_def prior_receipts_upd split: option.splits prod.splits)

lemma run_rounds_prior:
  "run_rounds c conv max_rounds mm cancellation rounds (prior_receipts rs st)
   = on_prior rs (run_rounds c conv max_rounds mm cancellation rounds st)"
proof (induction "nat (max_rounds - rounds)" arbitrary: rounds st rule: less_induct)
  case less
  note unfold_both = run_rounds.simps [of c conv max_rounds mm cancellation rounds st]
    run_rounds.simps [of c conv max_rounds mm cancellation rounds "prior_receipts rs st"]
  show ?case
  proof (cases "ms_queue st = [] \<or> max_rounds \<le> rounds")
    case True
    then show ?thesis by (auto simp: unfold_both)
  next
    case False
    then have "nat (max_rounds - (rounds + 1)) < nat (max_rounds - rounds)" by auto
    from less [OF this] False show ?thesis
      by (auto simp: unfold_both check_cancelled_prior deliver_round_prior prior_receipts_upd
          split: sum.splits prod.splits bool.splits)
  qed
qed

lemma run_rounds_split:
  assumes "run_rounds c conv n mm cancellation rounds st = (st1, Inr (r1, Run_completed, err))" "n \<le> m"
  shows "run_rounds c conv m mm cancellation rounds st = run_rounds c conv m mm cancellation r1 st1"
  using assms
proof (induction "nat (n - rounds)" arbitrary: rounds st rule: less_induct)
  case less
  note step = less.prems(1) [unfolded run_rounds.simps [of c conv n mm cancellation rounds st]]
  show ?case
  proof (cases "ms_queue st = [] \<or> n \<le> rounds")
    case True
    with step show ?thesis by auto
  next
    case False
    obtain sta x where cc: "check_cancelled cancellation st = (sta, x)" by fastforce
    obtain stb y where dr: "deliver_round c conv (rounds + 1) mm (ms_queue sta) (sta\<lparr>ms_queue := []\<rparr>) = (stb, y)"
      by fastforce
    have eqs: "x = Inr False" "y = Inr (Run_completed, snd (projr y))"
      using step False cc dr by (auto split: sum.splits prod.splits bool.splits if_splits)
    have "run_rounds c conv n mm cancellation (rounds + 1) stb = (st1, Inr (r1, Run_completed, err))"
      using step False cc dr eqs by (auto split: sum.splits prod.splits if_splits)
    from less.hyps [OF _ this less.prems(2)] False
    have "run_rounds c conv m mm cancellation (rounds + 1) stb = run_rounds c conv m mm cancellation r1 st1"
      by auto
    with False cc dr eqs less.prems(2) show ?thesis
      by (auto simp: run_rounds.simps [of c conv m mm cancellation rounds st] split: sum.splits prod.splits)
  qed
qed

subsection \<open>Receipts\<close>

lemma append_receipt_stateD:
  "append_receipt c m r st = (st', x) \<Longrightarrow>
     ms_queue st' = ms_queue st \<and> ms_delivered st' = ms_delivered st \<and> ms_seen st' = ms_seen st
     \<and> ms_scheduled st' = ms_scheduled st \<and> ms_receipts st' = ms_receipts st @ [r]"
  by (simp add: append_receipt_state)

definition delivered_ids :: "ma_receipt list \<Rightarrow> string list" where
  "delivered_ids rs = map mr_message_id (filter (\<lambda>r. mr_status r = Delivery_delivered) rs)"

definition acknowledged :: "'e ma_state \<Rightarrow> bool" where
  "acknowledged st \<longleftrightarrow> delivered_ids (ms_receipts st) = map message_id (ms_delivered st)"

definition half_acknowledged :: "'e ma_state \<Rightarrow> bool" where
  "half_acknowledged st \<longleftrightarrow> delivered_ids (ms_receipts st) = map message_id (butlast (ms_delivered st))"

lemma delivered_ids_append [simp]: "delivered_ids (xs @ ys) = delivered_ids xs @ delivered_ids ys"
  by (simp add: delivered_ids_def)

lemma delivered_ids_make [simp]:
  "delivered_ids [make_ma_receipt m s rnd d] = (if s = Delivery_delivered then [message_id m] else [])"
  by (simp add: delivered_ids_def make_ma_receipt_def)

lemma validate_output_disposition:
  "validate_output c parent out conv scheduled q = Inr (Some r) \<Longrightarrow> delivered_ids [r] = []"
  by (auto simp: validate_output_def Let_def split: if_splits option.splits)

lemma emit_outputs_receipts:
  assumes "emit_outputs c conv parent outs st = (st', x)"
  shows "delivered_ids (ms_receipts st') = delivered_ids (ms_receipts st)
    \<and> ms_delivered st' = ms_delivered st"
  using assms
proof (induction outs arbitrary: st)
  case (Cons out outs)
  then show ?case
    by (auto split: sum.splits option.splits prod.splits
        dest!: append_receipt_stateD validate_output_disposition)
qed simp

lemma deliver_receipts:
  assumes "deliver c conv rnd m st = (st', x)" "acknowledged st"
  shows "acknowledged st' \<or> (x \<noteq> Inr () \<and> half_acknowledged st')"
  using assms
  by (auto simp: deliver_def Let_def acknowledged_def half_acknowledged_def
      split: sum.splits prod.splits if_splits
      dest!: append_receipt_stateD emit_outputs_receipts)

lemma deliver_round_receipts:
  assumes "deliver_round c conv rnd mm rest st = (st', Inr (status, err))" "acknowledged st"
  shows "acknowledged st' \<or> (status = Run_failed \<and> half_acknowledged st')"
  using assms
proof (induction rest arbitrary: st)
  case (Cons m rest)
  consider "mm \<le> int (length (ms_delivered st))"
    | "int (length (ms_delivered st)) < mm" "message_id m \<in> ms_seen st"
    | "int (length (ms_delivered st)) < mm" "message_id m \<notin> ms_seen st" by linarith
  then show ?case
  proof cases
    case 1
    with Cons.prems show ?thesis by (auto simp: acknowledged_def)
  next
    case 2
    obtain st1 y where a: "append_receipt c m (make_ma_receipt m Delivery_duplicate rnd
        ''message ID already delivered'') st = (st1, y)" by fastforce
    from append_receipt_stateD [OF a] Cons.prems(2) have "acknowledged st1"
      by (simp add: acknowledged_def)
    with 2 a Cons.prems(1) Cons.IH [of st1] show ?thesis by (auto split: sum.splits)
  next
    case 3
    obtain st1 x where d: "deliver c conv rnd m st = (st1, x)" by fastforce
    note ack = deliver_receipts [OF d Cons.prems(2)]
    show ?thesis
    proof (cases x)
      case (Inr u)
      with ack 3 d Cons.prems(1) Cons.IH [of st1] show ?thesis by auto
    next
      case (Inl y)
      obtain st2 z where a: "append_receipt c m (make_ma_receipt m Delivery_failed rnd (exc_text y)) st1 = (st2, z)"
        by fastforce
      with Inl 3 d Cons.prems(1) have "st' = st2\<lparr>ms_queue := rest @ ms_queue st2\<rparr>" "status = Run_failed"
        by (auto split: sum.splits)
      with ack append_receipt_stateD [OF a] show ?thesis
        by (auto simp: acknowledged_def half_acknowledged_def)
    qed
  qed
qed simp

lemma run_rounds_receipts:
  assumes "run_rounds c conv max_rounds mm cancellation rounds st = (st', Inr (rounds', status, err))"
    "acknowledged st"
  shows "acknowledged st' \<or> (status = Run_failed \<and> half_acknowledged st')"
  using assms
proof (induction "nat (max_rounds - rounds)" arbitrary: rounds st rule: less_induct)
  case less
  note step = less.prems(1) [unfolded run_rounds.simps [of c conv max_rounds mm cancellation rounds st]]
  show ?case
  proof (cases "ms_queue st = [] \<or> max_rounds \<le> rounds")
    case True
    with step less.prems(2) show ?thesis by auto
  next
    case False
    obtain st1 x where cc: "check_cancelled cancellation st = (st1, x)" by fastforce
    have A1: "acknowledged st1" "acknowledged (st1\<lparr>ms_queue := []\<rparr>)"
      using cc less.prems(2)
      by (auto simp: check_cancelled_def acknowledged_def split: option.splits prod.splits)
    obtain st2 y where dr: "deliver_round c conv (rounds + 1) mm (ms_queue st1) (st1\<lparr>ms_queue := []\<rparr>) = (st2, y)"
      by fastforce
    consider "x = Inr True" | status2 err2 where "x = Inr False" "y = Inr (status2, err2)"
      using step False cc dr by (cases x; cases y) (auto split: bool.splits)
    then show ?thesis
    proof cases
      case 1
      with step False cc A1 show ?thesis by auto
    next
      case 2
      note kept = deliver_round_receipts [OF dr [unfolded 2(2)] A1(2)]
      show ?thesis
      proof (cases "status2 = Run_completed")
        case True
        with kept have "acknowledged st2" by simp
        with True less.hyps [of "rounds + 1" st2] step False cc dr 2 show ?thesis by simp
      next
        case other: False
        with step False cc dr 2 kept show ?thesis by auto
      qed
    qed
  qed
qed

lemma within_limits_Nil: "valid_topology t \<Longrightarrow> within_limits t []"
  by (simp add: within_limits_def valid_topology_def valid_edge_def list_all_iff edge_load_def
      order_less_imp_le)

lemma run_rounds_limits:
  assumes "run_rounds c conv max_rounds mm cancellation rounds st = (st', Inr (rounds', Run_completed, err))"
    "within_limits (co_topology c) (ms_queue st) \<or> (rounds < max_rounds \<and> ms_queue st \<noteq> [])"
    "valid_topology (co_topology c)"
  shows "within_limits (co_topology c) (ms_queue st')"
  using assms
proof (induction "nat (max_rounds - rounds)" arbitrary: rounds st rule: less_induct)
  case less
  note step = less.prems(1) [unfolded run_rounds.simps [of c conv max_rounds mm cancellation rounds st]]
  show ?case
  proof (cases "ms_queue st = [] \<or> max_rounds \<le> rounds")
    case True
    with step less.prems(2) show ?thesis by auto
  next
    case False
    obtain st1 x where cc: "check_cancelled cancellation st = (st1, x)" by fastforce
    obtain st2 y where dr: "deliver_round c conv (rounds + 1) mm (ms_queue st1) (st1\<lparr>ms_queue := []\<rparr>) = (st2, y)"
      by fastforce
    obtain err2 where eqs: "x = Inr False" "y = Inr (Run_completed, err2)"
      using step False cc dr by (auto split: sum.splits prod.splits bool.splits if_splits)
    have "within_limits (co_topology c) (ms_queue (st1\<lparr>ms_queue := []\<rparr>))"
      using within_limits_Nil [OF less.prems(3)] by simp
    from limits.deliver_round_keeps [OF dr [unfolded eqs(2)]] this
    have "within_limits (co_topology c) (ms_queue st2)" by simp
    then have pre: "within_limits (co_topology c) (ms_queue st2)
        \<or> (rounds + 1 < max_rounds \<and> ms_queue st2 \<noteq> [])" ..
    have again: "run_rounds c conv max_rounds mm cancellation (rounds + 1) st2
        = (st', Inr (rounds', Run_completed, err))"
      using step False cc dr eqs by (auto split: sum.splits prod.splits if_splits)
    have "nat (max_rounds - (rounds + 1)) < nat (max_rounds - rounds)" using False by linarith
    from less.hyps [OF this again pre less.prems(3)] show ?thesis .
  qed
qed

lemma initial_ma_inv:
  assumes "list_all (valid_initial t conv) queue" "distinct (map message_id queue)"
  shows "exact_inv conv [] \<lparr>ms_env = e, ms_queue = queue, ms_delivered = [], ms_receipts = [],
      ms_seen = {}, ms_scheduled = set (map message_id queue)\<rparr>"
  using assms by (auto simp: exact_inv_def ma_inv_def Let_def list_all_iff valid_initial_def)

lemma checkpoint_ma_inv:
  assumes "valid_ma_checkpoint cp"
  shows "ma_inv (mc_conversation_id cp) [] \<lparr>ms_env = e, ms_queue = mc_pending cp,
      ms_delivered = mc_delivered_messages cp, ms_receipts = [],
      ms_seen = set (map message_id (mc_delivered_messages cp)),
      ms_scheduled = set (map message_id (mc_delivered_messages cp)) \<union> set (map message_id (mc_pending cp))\<rparr>"
  using assms by (auto simp: valid_ma_checkpoint_def ma_inv_def Let_def list_all_iff) (metis IntI empty_iff imageI)

lemma initial_not_blank: "list_all (valid_initial t conv) ms \<Longrightarrow> ms \<noteq> [] \<Longrightarrow> \<not> blank conv"
  by (cases ms) (auto simp: valid_initial_def valid_message_def)

lemma run_many_executes:
  assumes "0 < max_rounds" "0 < mm" "initials \<noteq> []" "conv = mm_conversation_id (hd initials)"
    "list_all (valid_initial (co_topology c) conv) initials" "distinct (map message_id initials)"
  shows "run_many c initials max_rounds mm cancellation e
    = execute_run c initials conv [] [] 0 max_rounds mm cancellation e"
  using assms by (simp add: run_many_def validate_limits_def Let_def)

lemma run_many_returns:
  assumes "ports_quiet c cancellation" "0 < max_rounds" "0 < mm" "initials \<noteq> []"
    "conv = mm_conversation_id (hd initials)"
    "list_all (valid_initial (co_topology c) conv) initials" "distinct (map message_id initials)"
  shows "\<exists>e' r. run_many c initials max_rounds mm cancellation e = (e', Inr r)"
proof -
  have "ma_inv conv [] \<lparr>ms_env = e, ms_queue = initials, ms_delivered = [], ms_receipts = [],
      ms_seen = set (map message_id []), ms_scheduled = set (map message_id []) \<union> set (map message_id initials)\<rparr>"
    using initial_ma_inv [OF assms(6,7), of e] by (simp add: exact_inv_def)
  from execute_run_returns [OF assms(1) initial_not_blank [OF assms(6,4)] _ this, of 0 max_rounds mm]
  show ?thesis by (simp add: run_many_executes [OF assms(2-7)])
qed

lemma execute_run_result:
  assumes "execute_run c queue conv dids ds start max_rounds mm cancellation e = (e', Inr r)" "0 \<le> start"
  shows "\<exists>cp. mx_checkpoint r = Some cp \<and> valid_ma_checkpoint cp
    \<and> mc_delivered_messages cp = mx_messages r \<and> mc_round cp = mx_rounds r
    \<and> mc_conversation_id cp = conv \<and> mc_topology_digest cp = topology_digest (co_topology c)
    \<and> mx_terminated r = (mc_pending cp = [])
    \<and> start \<le> mx_rounds r \<and> mx_rounds r \<le> max start max_rounds
    \<and> (mx_status r = Run_completed \<longrightarrow> mc_pending cp = [])
    \<and> (mx_status r = Run_max_rounds \<longrightarrow> mc_pending cp \<noteq> [] \<and> max_rounds \<le> mx_rounds r)
    \<and> (mx_status r = Run_failed \<longleftrightarrow> mx_error r \<noteq> None)"
proof -
  obtain st rounds status err where rr:
    "run_rounds c conv max_rounds mm cancellation start
       \<lparr>ms_env = e, ms_queue = queue, ms_delivered = ds, ms_receipts = [], ms_seen = set dids,
        ms_scheduled = set dids \<union> set (map message_id queue)\<rparr> = (st, Inr (rounds, status, err))"
    "valid_ma_checkpoint (state_checkpoint c conv rounds st)"
    "r = \<lparr>mx_topology_digest = topology_digest (co_topology c), mx_messages = ms_delivered st,
          mx_rounds = rounds, mx_terminated = (ms_queue st = []),
          mx_status = final_status status st, mx_receipts = ms_receipts st,
          mx_checkpoint = Some (state_checkpoint c conv rounds st), mx_error = err\<rparr>"
    using execute_run_Inr [OF assms(1)] by metis
  from rr(2,3) run_rounds_outcome [OF rr(1)] show ?thesis
    by (cases status) (auto simp: state_checkpoint_def final_status_def)
qed

subsection \<open>A coordinator of two nodes\<close>

definition demo_topology :: topology where
  "demo_topology = \<lparr>tp_nodes = [''a'', ''b''],
     tp_edges = [\<lparr>ce_sender = ''a'', ce_recipient = ''b'', ce_max_in_flight = 1, ce_ordered = True\<rparr>,
                 \<lparr>ce_sender = ''b'', ce_recipient = ''a'', ce_max_in_flight = 1, ce_ordered = True\<rparr>]\<rparr>"

definition demo_reply :: "ma_message \<Rightarrow> ma_message" where
  "demo_reply m = \<lparr>mm_sender = mm_recipient m, mm_recipient = mm_sender m, mm_content = ''ok'',
     mm_turn = mm_turn m + 1, mm_conversation_id = mm_conversation_id m,
     mm_causal_parent_ids = [message_id m], mm_delivery_attempt = 0\<rparr>"

definition demo_coordinator :: "nat coordinator" where
  "demo_coordinator = \<lparr>co_topology = demo_topology,
     co_nodes = [(''a'', \<lambda>m n. (n + 1, Inr (Some []))), (''b'', \<lambda>m n. (n + 1, Inr (Some [demo_reply m])))],
     co_journal = None\<rparr>"

definition demo_message :: ma_message where
  "demo_message = initial_message ''a'' ''b'' ''hi''"

lemma demo_valid_message: "valid_message demo_message"
  by code_simp

lemma demo_valid_initial: "valid_initial demo_topology ''default'' demo_message"
  by code_simp

lemma demo_quiet: "ports_quiet demo_coordinator None"
  by (simp add: ports_quiet_def demo_coordinator_def)

lemma demo_topology_valid: "valid_topology demo_topology"
  by code_simp

lemma demo_returns:
  "0 < n \<Longrightarrow> \<exists>e' r. run_many demo_coordinator [demo_message] n 10 None 0 = (e', Inr r)"
  by (rule run_many_returns [OF demo_quiet _ _ _ refl])
    (use demo_valid_initial in \<open>simp_all add: demo_coordinator_def demo_message_def initial_message_def\<close>)

lemma state_checkpoint_prior [simp]:
  "state_checkpoint c conv rounds (prior_receipts rs st) = state_checkpoint c conv rounds st"
  "final_status status (prior_receipts rs st) = final_status status st"
  by (simp_all add: state_checkpoint_def final_status_def)

lemma construct_result_prior:
  "checked valid_result what (r\<lparr>mx_receipts := rs\<rparr>)
   = map_sum id (\<lambda>r. r\<lparr>mx_receipts := rs\<rparr>) (checked valid_result what r)"
  by (simp add: checked_def valid_result_def)

lemma finish_run_prior:
  assumes "co_journal c = None"
  shows "finish_run c conv out (prior_receipts rs st)
   = map_prod id (map_sum id (\<lambda>r. r\<lparr>mx_receipts := rs @ mx_receipts r\<rparr>)) (finish_run c conv out st)"
proof (cases out)
  case (fields rounds status err)
  show ?thesis
    by (auto simp: fields finish_run_def checked_def valid_result_def assms)
qed

lemmas demo_simps = demo_coordinator_def demo_topology_def demo_message_def demo_reply_def
  initial_message_def deliver_def validate_delivery_def call_node_def append_receipt_def
  journal_record_def validate_output_def can_send_def topology_edge_def on_route_def edge_load_def
  check_cancelled_def final_status_def

lemma demo_reply_valid: "valid_message (demo_reply demo_message)"
proof -
  have "\<not> blank ''a'' \<and> \<not> blank ''b'' \<and> \<not> blank ''default''" by code_simp
  then show ?thesis
    by (simp add: valid_message_def demo_reply_def demo_message_def initial_message_def)
qed

lemma demo_round:
  "\<exists>st. deliver_round demo_coordinator ''default'' 1 10 [demo_message]
      \<lparr>ms_env = 0, ms_queue = [], ms_delivered = [], ms_receipts = [], ms_seen = {},
       ms_scheduled = {message_id demo_message}\<rparr> = (st, Inr (Run_completed, None))"
  using demo_reply_valid
  by (cases "message_id (demo_reply demo_message) = message_id demo_message")
    (simp_all add: demo_simps Let_def)

lemma demo_runs:
  "\<exists>e' r cp. run_many demo_coordinator [demo_message] 1 10 None 0 = (e', Inr r)
    \<and> mx_status r \<in> {Run_completed, Run_max_rounds} \<and> mx_checkpoint r = Some cp"
proof -
  obtain e' r where r: "run_many demo_coordinator [demo_message] 1 10 None 0 = (e', Inr r)"
    using demo_returns [of 1] by auto
  have conv: "mm_conversation_id demo_message = ''default''"
    by (simp add: demo_message_def initial_message_def)
  obtain st where st: "run_rounds demo_coordinator ''default'' 1 10 None 0
      \<lparr>ms_env = 0, ms_queue = [demo_message], ms_delivered = [], ms_receipts = [], ms_seen = {},
       ms_scheduled = {message_id demo_message}\<rparr> = (st, Inr (1, Run_completed, None))"
    using demo_round
    by (auto simp: run_rounds.simps [of _ _ _ _ _ 0] run_rounds.simps [of _ _ _ _ _ 1] check_cancelled_def)
  from run_many_Inr [OF r] conv
  have "execute_run demo_coordinator [demo_message] ''default'' [] [] 0 1 10 None 0 = (e', Inr r)" by simp
  then have "mx_status r = final_status Run_completed st \<and> mx_checkpoint r \<noteq> None"
    using st by (auto elim!: execute_run_Inr)
  with r show ?thesis by (auto simp: final_status_def split: if_splits)
qed

interpretation extends: loop_invariant c conv mm
    "\<lambda>rest st. take (length ds) (ms_delivered st) = ds"
    "\<lambda>st. take (length ds) (ms_delivered st) = ds" for c conv mm ds
  by unfold_locales (auto simp: take_append dest: arg_cong [of _ _ length])

subsection \<open>Properties\<close>

text \<open>
  C12: A run over valid initial messages never raises when the journal and the cancellation port
  do not: whatever the nodes do, node exceptions and malformed answers included, it returns a
  valid result with a valid checkpoint. The checkpoint's transcript is the result's, the result
  is terminated exactly when nothing is pending, it completes only then, it reports
  \<open>max_rounds\<close> only after that many rounds with messages left, and an error exactly when failed.
\<close>

theorem run_many_total:
  assumes "ports_quiet c cancellation" "0 < max_rounds" "0 < max_messages" "initials \<noteq> []"
    and "list_all (valid_initial (co_topology c) (mm_conversation_id (hd initials))) initials"
    and "distinct (map message_id initials)"
  shows "\<exists>e' r cp. run_many c initials max_rounds max_messages cancellation e = (e', Inr r)
    \<and> mx_checkpoint r = Some cp \<and> valid_ma_checkpoint cp
    \<and> mc_delivered_messages cp = mx_messages r \<and> mc_round cp = mx_rounds r
    \<and> mx_terminated r = (mc_pending cp = [])
    \<and> 0 \<le> mx_rounds r \<and> mx_rounds r \<le> max_rounds
    \<and> (mx_status r = Run_completed \<longrightarrow> mc_pending cp = [])
    \<and> (mx_status r = Run_max_rounds \<longrightarrow> mc_pending cp \<noteq> [] \<and> mx_rounds r = max_rounds)
    \<and> (mx_status r = Run_failed \<longleftrightarrow> mx_error r \<noteq> None)"
proof -
  obtain e' r where r: "run_many c initials max_rounds max_messages cancellation e = (e', Inr r)"
    using run_many_returns [OF assms(1-4) refl assms(5,6)] by blast
  from execute_run_result [OF run_many_Inr [OF r, THEN conjunct1]] assms(2)
  obtain cp where "mx_checkpoint r = Some cp" "valid_ma_checkpoint cp"
    "mc_delivered_messages cp = mx_messages r" "mc_round cp = mx_rounds r"
    "mx_terminated r = (mc_pending cp = [])"
    "0 \<le> mx_rounds r" "mx_rounds r \<le> max 0 max_rounds"
    "mx_status r = Run_completed \<longrightarrow> mc_pending cp = []"
    "mx_status r = Run_max_rounds \<longrightarrow> mc_pending cp \<noteq> [] \<and> max_rounds \<le> mx_rounds r"
    "mx_status r = Run_failed \<longleftrightarrow> mx_error r \<noteq> None" by auto
  with r assms(2) show ?thesis by (intro exI [of _ e'] exI [of _ r] exI [of _ cp]) auto
qed

theorem run_many_total_witness:
  "\<exists>e' r cp. run_many demo_coordinator [demo_message] 3 10 None 0 = (e', Inr r)
    \<and> mx_checkpoint r = Some cp \<and> valid_ma_checkpoint cp"
  using run_many_total [OF demo_quiet, of 3 10 "[demo_message]" 0] demo_valid_initial
  by (auto simp: demo_coordinator_def demo_message_def initial_message_def)

text \<open>
  C13: Every message a run delivers is on an edge of the topology, and is an initial message or
  the answer of the recipient of a message delivered earlier: sent by that recipient, one turn
  later, naming it as a causal parent. No message is delivered twice, and all are of the
  conversation. This holds for every node behaviour and on every status.
\<close>

theorem delivery_is_causal:
  assumes "run_many c initials max_rounds max_messages cancellation e = (e', Inr r)"
  shows "causal_from initials [] (mx_messages r)
    \<and> list_all (routed (co_topology c)) (mx_messages r)
    \<and> distinct (map message_id (mx_messages r))
    \<and> list_all (\<lambda>m. valid_message m \<and> mm_conversation_id m = mm_conversation_id (hd initials)) (mx_messages r)"
proof -
  note run = run_many_Inr [OF assms]
  let ?conv = "mm_conversation_id (hd initials)"
  let ?st = "\<lparr>ms_env = e, ms_queue = initials, ms_delivered = [], ms_receipts = [], ms_seen = {},
      ms_scheduled = set (map message_id initials)\<rparr>"
  obtain st rounds status err where rr:
    "run_rounds c ?conv max_rounds max_messages cancellation 0 ?st = (st, Inr (rounds, status, err))"
    "mx_messages r = ms_delivered st"
    using run by (auto elim!: execute_run_Inr)
  have "ma_inv ?conv [] ?st" using initial_ma_inv run by (auto simp: exact_inv_def)
  from ids.run_rounds_keeps [OF rr(1) this] have "ma_inv ?conv [] st" by simp
  moreover have "causal_inv (co_topology c) initials [] ?st"
    using run by (auto simp: causal_inv_def list_all_iff caused_def routed_def valid_initial_def)
  from causal.run_rounds_keeps [OF rr(1) this] have "causal_inv (co_topology c) initials [] st" by simp
  ultimately show ?thesis
    using rr(2) by (auto simp: ma_inv_def causal_inv_def Let_def list_all_iff)
qed

theorem delivery_is_causal_witness:
  "\<exists>e' r. run_many demo_coordinator [demo_message] 3 10 None 0 = (e', Inr r)
    \<and> causal_from [demo_message] [] (mx_messages r)"
proof -
  obtain e' r where r: "run_many demo_coordinator [demo_message] 3 10 None 0 = (e', Inr r)"
    using demo_returns [of 3] by auto
  from delivery_is_causal [OF r] r show ?thesis by blast
qed

text \<open>
  A run delivers at most \<open>max_messages\<close> messages and makes at most \<open>max_rounds\<close> rounds; a
  resumed one never goes beyond what its checkpoint and these limits allow.
\<close>

theorem run_is_bounded:
  assumes "execute_run c queue conv dids ds start max_rounds max_messages cancellation e = (e', Inr r)"
  shows "int (length (mx_messages r)) \<le> max max_messages (int (length ds))
    \<and> start \<le> mx_rounds r \<and> mx_rounds r \<le> max start max_rounds"
proof -
  let ?st = "\<lparr>ms_env = e, ms_queue = queue, ms_delivered = ds, ms_receipts = [], ms_seen = set dids,
        ms_scheduled = set dids \<union> set (map message_id queue)\<rparr>"
  obtain st rounds status err where rr:
    "run_rounds c conv max_rounds max_messages cancellation start ?st = (st, Inr (rounds, status, err))"
    "mx_messages r = ms_delivered st" "mx_rounds r = rounds"
    using assms by (auto elim!: execute_run_Inr)
  have "int (length (ms_delivered ?st)) \<le> max max_messages (int (length ds))" by simp
  from bounded.run_rounds_keeps [OF rr(1) this] run_rounds_outcome [OF rr(1)] rr(2,3)
  show ?thesis by simp
qed

theorem run_is_bounded_witness:
  "\<exists>e' r. run_many demo_coordinator [demo_message] 3 10 None 0 = (e', Inr r)
    \<and> int (length (mx_messages r)) \<le> 10 \<and> mx_rounds r \<le> 3"
proof -
  obtain e' r where r: "run_many demo_coordinator [demo_message] 3 10 None 0 = (e', Inr r)"
    using demo_returns [of 3] by auto
  from run_is_bounded [OF run_many_Inr [OF r, THEN conjunct1]] r show ?thesis by auto
qed

text \<open>
  C15: When a run ends for its number of rounds, or because nothing is left, the messages it
  leaves pending respect, on every route, the \<open>max_in_flight\<close> of the edge that the topology returns
  for it; in a topology with one edge for a route, that is every edge. A topology may have several
  edges on one route, and of these only the first counts. Nothing is claimed of a run that failed,
  was cancelled or reached its number of messages, which puts the rest of its round back.
\<close>

theorem pending_within_limits:
  assumes "run_many c initials max_rounds max_messages cancellation e = (e', Inr r)"
    and "valid_topology (co_topology c)" "mx_status r \<in> {Run_completed, Run_max_rounds}"
    and "mx_checkpoint r = Some cp"
  shows "(\<forall>a b ed. topology_edge (co_topology c) a b = Some ed \<longrightarrow>
            int (edge_load a b (mc_pending cp)) \<le> ce_max_in_flight ed)
    \<and> (distinct (map (\<lambda>ed. (ce_sender ed, ce_recipient ed)) (tp_edges (co_topology c))) \<longrightarrow>
         (\<forall>ed \<in> set (tp_edges (co_topology c)).
            int (edge_load (ce_sender ed) (ce_recipient ed) (mc_pending cp)) \<le> ce_max_in_flight ed))"
proof -
  note run = run_many_Inr [OF assms(1)]
  let ?conv = "mm_conversation_id (hd initials)"
  let ?st = "\<lparr>ms_env = e, ms_queue = initials, ms_delivered = [], ms_receipts = [], ms_seen = {},
      ms_scheduled = set (map message_id initials)\<rparr>"
  obtain st rounds status err where rr:
    "run_rounds c ?conv max_rounds max_messages cancellation 0 ?st = (st, Inr (rounds, status, err))"
    "mx_status r = final_status status st" "cp = state_checkpoint c ?conv rounds st"
    using run assms(4) by (auto elim!: execute_run_Inr)
  have "status = Run_completed"
    using rr(2) assms(3) run_rounds_outcome [OF rr(1)] by (auto simp: final_status_def split: if_splits)
  with run_rounds_limits [OF rr(1) [unfolded this] _ assms(2)] run rr(3)
  have "within_limits (co_topology c) (mc_pending cp)" by (simp add: state_checkpoint_def)
  then have routes: "int (edge_load a b (mc_pending cp)) \<le> ce_max_in_flight ed"
    if "topology_edge (co_topology c) a b = Some ed" for a b ed
    using that topology_edge_Some [OF that] by (auto simp: within_limits_def list_all_iff)
  moreover have "topology_edge (co_topology c) (ce_sender ed) (ce_recipient ed) = Some ed"
    if "distinct (map (\<lambda>ed. (ce_sender ed, ce_recipient ed)) (tp_edges (co_topology c)))"
      "ed \<in> set (tp_edges (co_topology c))" for ed
    using that by (rule topology_edge_only)
  ultimately show ?thesis by blast
qed

theorem pending_within_limits_witness:
  "\<exists>e' r cp. run_many demo_coordinator [demo_message] 1 10 None 0 = (e', Inr r)
    \<and> mx_checkpoint r = Some cp
    \<and> (\<forall>ed \<in> set (tp_edges demo_topology).
         int (edge_load (ce_sender ed) (ce_recipient ed) (mc_pending cp)) \<le> ce_max_in_flight ed)"
proof -
  obtain e' r cp where r: "run_many demo_coordinator [demo_message] 1 10 None 0 = (e', Inr r)"
    "mx_status r \<in> {Run_completed, Run_max_rounds}" "mx_checkpoint r = Some cp"
    using demo_runs by auto
  have topo: "co_topology demo_coordinator = demo_topology" by (simp add: demo_coordinator_def)
  have "distinct (map (\<lambda>ed. (ce_sender ed, ce_recipient ed)) (tp_edges demo_topology))"
    by (simp add: demo_topology_def)
  with pending_within_limits [OF r(1) _ r(2,3)] demo_topology_valid r show ?thesis
    unfolding topo by blast
qed

text \<open>
  C14: Of a coordinator without a journal, a run of \<open>n\<close> rounds that was neither cut short nor
  failed, resumed from its checkpoint up to \<open>m\<close> rounds, is the run of \<open>m\<close> rounds: the environment, the
  result, the checkpoint, and an exception of the cancellation port are the same, and the receipts
  of the two parts are those of the whole. In particular the identities the coordinator forgets
  between the two parts have no influence. With a journal the first part also stores its own
  checkpoint, so the environments differ by that call.
\<close>

theorem resume_equals_run:
  assumes "run_many c initials n max_messages cancellation e = (e1, Inr r1)"
    and "mx_status r1 \<in> {Run_completed, Run_max_rounds}" "mx_checkpoint r1 = Some cp"
    and "co_journal c = None" "n \<le> m"
  shows "run_many c initials m max_messages cancellation e
    = map_prod id (map_sum id (\<lambda>r2. r2\<lparr>mx_receipts := mx_receipts r1 @ mx_receipts r2\<rparr>))
        (resume_run c cp m max_messages cancellation e1)"
proof -
  note run = run_many_Inr [OF assms(1)]
  let ?conv = "mm_conversation_id (hd initials)"
  let ?st = "\<lparr>ms_env = e, ms_queue = initials, ms_delivered = [], ms_receipts = [], ms_seen = {},
      ms_scheduled = set (map message_id initials)\<rparr>"
  obtain st rounds status err where rr:
    "run_rounds c ?conv n max_messages cancellation 0 ?st = (st, Inr (rounds, status, err))"
    "mx_status r1 = final_status status st" "cp = state_checkpoint c ?conv rounds st"
    "mx_receipts r1 = ms_receipts st"
    using run assms(3) by (auto elim!: execute_run_Inr)
  have e1: "e1 = ms_env st"
    using run assms(4) rr(1)
    by (auto simp: execute_run_def finish_run_def split: prod.splits sum.splits)
  have completed: "status = Run_completed"
    using rr(2) assms(2) run_rounds_outcome [OF rr(1)] by (auto simp: final_status_def split: if_splits)
  have "exact_inv ?conv [] ?st" using initial_ma_inv run by auto
  from exact.run_rounds_keeps [OF rr(1) this] completed have ex: "exact_inv ?conv [] st" by simp
  define st0 where "st0 = \<lparr>ms_env = ms_env st, ms_queue = ms_queue st, ms_delivered = ms_delivered st,
      ms_receipts = [], ms_seen = set (map message_id (ms_delivered st)),
      ms_scheduled = set (map message_id (ms_delivered st)) \<union> set (map message_id (ms_queue st))\<rparr>"
  have st: "st = prior_receipts (ms_receipts st) st0"
    using ex by (intro ma_state.equality) (auto simp: st0_def prior_receipts_def exact_inv_def ma_inv_def Let_def)
  have whole: "run_rounds c ?conv m max_messages cancellation 0 ?st
      = on_prior (ms_receipts st) (run_rounds c ?conv m max_messages cancellation rounds st0)"
    using run_rounds_split [OF rr(1) [unfolded completed] assms(5)] st run_rounds_prior by metis
  have "run_many c initials m max_messages cancellation e
      = execute_run c initials ?conv [] [] 0 m max_messages cancellation e"
    by (rule run_many_executes) (use run assms(5) in auto)
  moreover have "resume_run c cp m max_messages cancellation e1
      = execute_run c (ms_queue st) ?conv (map message_id (ms_delivered st)) (ms_delivered st) rounds m
          max_messages cancellation (ms_env st)"
    using run assms(5) by (simp add: resume_run_def validate_limits_def rr(3) state_checkpoint_def e1)
  ultimately show ?thesis
    using whole assms(4) rr(4)
    by (cases "run_rounds c ?conv m max_messages cancellation rounds st0")
      (auto simp: execute_run_def st0_def finish_run_prior split: sum.splits prod.splits)
qed

theorem resume_equals_run_witness:
  "\<exists>e1 r1 cp. run_many demo_coordinator [demo_message] 1 10 None 0 = (e1, Inr r1)
    \<and> run_many demo_coordinator [demo_message] 3 10 None 0
      = map_prod id (map_sum id (\<lambda>r2. r2\<lparr>mx_receipts := mx_receipts r1 @ mx_receipts r2\<rparr>))
          (resume_run demo_coordinator cp 3 10 None e1)"
proof -
  obtain e1 r1 cp where r: "run_many demo_coordinator [demo_message] 1 10 None 0 = (e1, Inr r1)"
    "mx_status r1 \<in> {Run_completed, Run_max_rounds}" "mx_checkpoint r1 = Some cp"
    using demo_runs by auto
  have "co_journal demo_coordinator = None" by (simp add: demo_coordinator_def)
  from resume_equals_run [OF r this, of 3] r(1) show ?thesis by auto
qed

text \<open>
  A valid checkpoint of the topology can always be resumed: with ports that do not raise, the
  run returns, its transcript extends the checkpoint's, and its own checkpoint is valid.
\<close>

theorem resume_total:
  assumes "ports_quiet c cancellation" "0 < max_rounds" "0 < max_messages"
    and "valid_ma_checkpoint cp" "mc_topology_digest cp = topology_digest (co_topology c)"
  shows "\<exists>e' r cp'. resume_run c cp max_rounds max_messages cancellation e = (e', Inr r)
    \<and> mx_checkpoint r = Some cp' \<and> valid_ma_checkpoint cp'
    \<and> take (length (mc_delivered_messages cp)) (mx_messages r) = mc_delivered_messages cp
    \<and> mc_round cp \<le> mx_rounds r"
proof -
  let ?st = "\<lparr>ms_env = e, ms_queue = mc_pending cp,
      ms_delivered = mc_delivered_messages cp, ms_receipts = [],
      ms_seen = set (map message_id (mc_delivered_messages cp)),
      ms_scheduled = set (map message_id (mc_delivered_messages cp)) \<union> set (map message_id (mc_pending cp))\<rparr>"
  have ids: "mc_delivered_message_ids cp = map message_id (mc_delivered_messages cp)"
    using assms(4) by (simp add: valid_ma_checkpoint_def)
  have run: "resume_run c cp max_rounds max_messages cancellation e
      = execute_run c (mc_pending cp) (mc_conversation_id cp) (map message_id (mc_delivered_messages cp))
          (mc_delivered_messages cp) (mc_round cp) max_rounds max_messages cancellation e"
    using assms(2,3,5) ids by (simp add: resume_run_def validate_limits_def)
  obtain e' r where r: "execute_run c (mc_pending cp) (mc_conversation_id cp)
      (map message_id (mc_delivered_messages cp)) (mc_delivered_messages cp) (mc_round cp)
      max_rounds max_messages cancellation e = (e', Inr r)"
    using execute_run_returns [OF assms(1) _ _ checkpoint_ma_inv [OF assms(4)]] assms(4)
    unfolding valid_ma_checkpoint_def by blast
  have "0 \<le> mc_round cp" using assms(4) by (simp add: valid_ma_checkpoint_def)
  from execute_run_result [OF r this]
  obtain cp' where cp': "mx_checkpoint r = Some cp'" "valid_ma_checkpoint cp'" "mc_round cp \<le> mx_rounds r"
    by auto
  obtain st rounds status err where rr:
    "run_rounds c (mc_conversation_id cp) max_rounds max_messages cancellation (mc_round cp) ?st
      = (st, Inr (rounds, status, err))" "mx_messages r = ms_delivered st"
    using r by (auto elim!: execute_run_Inr)
  have "take (length (mc_delivered_messages cp)) (ms_delivered ?st) = mc_delivered_messages cp" by simp
  from extends.run_rounds_keeps [OF rr(1) this] rr(2) run r cp' show ?thesis by auto
qed

definition demo_checkpoint :: ma_checkpoint where
  "demo_checkpoint = \<lparr>mc_schema_version = checkpoint_schema, mc_topology_digest = topology_digest demo_topology,
     mc_conversation_id = ''default'', mc_pending = [demo_message], mc_delivered_message_ids = [],
     mc_round = 4, mc_delivered_messages = []\<rparr>"

theorem resume_total_witness:
  "\<exists>e' r cp'. resume_run demo_coordinator demo_checkpoint 9 10 None 0 = (e', Inr r)
    \<and> mx_checkpoint r = Some cp' \<and> valid_ma_checkpoint cp' \<and> 4 \<le> mx_rounds r"
proof -
  have "valid_ma_checkpoint demo_checkpoint"
    using demo_valid_initial
    by (simp add: valid_ma_checkpoint_def demo_checkpoint_def topology_digest_def valid_initial_def
        initial_not_blank [of demo_topology _ "[demo_message]"])
  moreover have "mc_topology_digest demo_checkpoint = topology_digest (co_topology demo_coordinator)"
    by (simp add: demo_checkpoint_def demo_coordinator_def)
  ultimately show ?thesis
    using resume_total [OF demo_quiet, of 9 10 demo_checkpoint 0] by (auto simp: demo_checkpoint_def)
qed

text \<open>
  The \<open>delivered\<close> receipts of a run name, in order, exactly the delivered messages. Only a
  failed run may lack the last one, the message whose node failed.
\<close>

theorem receipts_match_deliveries:
  assumes "run_many c initials max_rounds max_messages cancellation e = (e', Inr r)"
  shows "delivered_ids (mx_receipts r) = map message_id (mx_messages r)
    \<or> (mx_status r = Run_failed
       \<and> delivered_ids (mx_receipts r) = map message_id (butlast (mx_messages r)))"
proof -
  let ?conv = "mm_conversation_id (hd initials)"
  let ?st = "\<lparr>ms_env = e, ms_queue = initials, ms_delivered = [], ms_receipts = [], ms_seen = {},
      ms_scheduled = set (map message_id initials)\<rparr>"
  obtain st rounds status err where rr:
    "run_rounds c ?conv max_rounds max_messages cancellation 0 ?st = (st, Inr (rounds, status, err))"
    "mx_messages r = ms_delivered st" "mx_status r = final_status status st" "mx_receipts r = ms_receipts st"
    using run_many_Inr [OF assms] by (auto elim!: execute_run_Inr)
  have "acknowledged ?st" by (simp add: acknowledged_def delivered_ids_def)
  from run_rounds_receipts [OF rr(1) this] rr(2-4) show ?thesis
    by (auto simp: acknowledged_def half_acknowledged_def final_status_def)
qed

theorem receipts_match_deliveries_witness:
  "\<exists>e' r. run_many demo_coordinator [demo_message] 1 10 None 0 = (e', Inr r)
    \<and> delivered_ids (mx_receipts r) = map message_id (mx_messages r)"
proof -
  obtain e' r where r: "run_many demo_coordinator [demo_message] 1 10 None 0 = (e', Inr r)"
    "mx_status r \<in> {Run_completed, Run_max_rounds}"
    using demo_runs by auto
  from receipts_match_deliveries [OF r(1)] r show ?thesis by auto
qed

end
