(* ===== verification/Multi_Agent_Journal.thy ===== *)
theory Multi_Agent_Journal
  imports Multi_Agent
begin

text \<open>
  The SQLite journal of the multi-agent coordinator (\<open>src/orchestration/multi_agent/journal.py\<close>):
  the documents it writes and reads back, and its three tables as association lists keyed by
  their primary key. A write is one transaction; \<open>fault\<close> is the exception of a statement that
  SQLite refuses, after which the transaction is rolled back.
\<close>

subsection \<open>Documents\<close>

definition message_document :: "ma_message \<Rightarrow> json" where
  "message_document m = JObj [
     (''sender'', JStr (mm_sender m)),
     (''recipient'', JStr (mm_recipient m)),
     (''content'', JStr (mm_content m)),
     (''turn'', JInt (mm_turn m)),
     (''conversation_id'', JStr (mm_conversation_id m)),
     (''causal_parent_ids'', JArr (map JStr (mm_causal_parent_ids m))),
     (''delivery_attempt'', JInt (mm_delivery_attempt m))]"

fun message_from :: "json \<Rightarrow> exc + ma_message" where
  "message_from (JObj kvs) =
     bind_result (as_rows ''journal causal_parent_ids must be a sequence''
                    (doc_get ''causal_parent_ids'' (JArr []) kvs)) (\<lambda>parents.
     bind_result (as_str (doc_get ''sender'' JNull kvs)) (\<lambda>sender.
     bind_result (as_str (doc_get ''recipient'' JNull kvs)) (\<lambda>recipient.
     bind_result (as_str (doc_get ''conversation_id'' JNull kvs)) (\<lambda>conv.
     bind_result (as_str (doc_get ''content'' JNull kvs)) (\<lambda>content.
     bind_result (as_int (doc_get ''turn'' JNull kvs)) (\<lambda>turn.
     bind_result (map_result as_str parents) (\<lambda>parent_ids.
     bind_result (as_int (doc_get ''delivery_attempt'' (JInt 0) kvs)) (\<lambda>attempt.
       checked valid_message ''multi-agent message''
         \<lparr>mm_sender = sender, mm_recipient = recipient, mm_content = content, mm_turn = turn,
          mm_conversation_id = conv, mm_causal_parent_ids = parent_ids,
          mm_delivery_attempt = attempt\<rparr>))))))))"
| "message_from _ = Inl (value_error ''journal message must be a mapping'')"

definition checkpoint_document :: "ma_checkpoint \<Rightarrow> json" where
  "checkpoint_document c = JObj [
     (''schema_version'', JStr (mc_schema_version c)),
     (''topology_digest'', JStr (mc_topology_digest c)),
     (''conversation_id'', JStr (mc_conversation_id c)),
     (''pending'', JArr (map message_document (mc_pending c))),
     (''delivered_message_ids'', JArr (map JStr (mc_delivered_message_ids c))),
     (''round'', JInt (mc_round c)),
     (''delivered_messages'', JArr (map message_document (mc_delivered_messages c)))]"

fun checkpoint_from :: "json \<Rightarrow> exc + ma_checkpoint" where
  "checkpoint_from (JObj kvs) =
     bind_result (as_rows ''journal checkpoint sequences are malformed'' (doc_get ''pending'' (JArr []) kvs)) (\<lambda>pending.
     bind_result (as_rows ''journal checkpoint sequences are malformed'' (doc_get ''delivered_messages'' (JArr []) kvs)) (\<lambda>delivered.
     bind_result (as_rows ''journal checkpoint sequences are malformed'' (doc_get ''delivered_message_ids'' (JArr []) kvs)) (\<lambda>ids.
     bind_result (map_result message_from pending) (\<lambda>pending'.
     bind_result (map_result message_from delivered) (\<lambda>delivered'.
     bind_result (as_str (doc_get ''schema_version'' JNull kvs)) (\<lambda>schema.
     bind_result (as_str (doc_get ''topology_digest'' JNull kvs)) (\<lambda>topology.
     bind_result (as_str (doc_get ''conversation_id'' JNull kvs)) (\<lambda>conv.
     bind_result (map_result as_str ids) (\<lambda>ids'.
     bind_result (as_int (doc_get ''round'' JNull kvs)) (\<lambda>rnd.
       checked valid_ma_checkpoint ''multi-agent checkpoint''
         \<lparr>mc_schema_version = schema, mc_topology_digest = topology, mc_conversation_id = conv,
          mc_pending = pending', mc_delivered_message_ids = ids', mc_round = rnd,
          mc_delivered_messages = delivered'\<rparr>))))))))))"
| "checkpoint_from _ = Inl (value_error ''journal checkpoint must be a mapping'')"

definition receipt_document :: "ma_receipt \<Rightarrow> json" where
  "receipt_document r = JObj [
     (''message_id'', JStr (mr_message_id r)),
     (''sender'', JStr (mr_sender r)),
     (''recipient'', JStr (mr_recipient r)),
     (''status'', JStr (delivery_value (mr_status r))),
     (''attempt'', JInt (mr_attempt r)),
     (''round'', JInt (mr_round r)),
     (''detail'', JStr (mr_detail r))]"

subsection \<open>The tables\<close>

record delivery_row =
  dr_message_id :: string
  dr_message_json :: string
  dr_receipt_json :: string

record journal_db =
  jd_deliveries :: "(string \<times> delivery_row) list"
  jd_checkpoints :: "(string \<times> (string \<times> string)) list"
  jd_latest :: "(string \<times> string) list"

definition empty_db :: journal_db where
  "empty_db = \<lparr>jd_deliveries = [], jd_checkpoints = [], jd_latest = []\<rparr>"

definition record_delivery ::
    "exc option \<Rightarrow> ma_message \<Rightarrow> ma_receipt \<Rightarrow> journal_db \<Rightarrow> journal_db \<times> (exc + unit)" where
  "record_delivery fault m r db =
     (if mr_message_id r \<noteq> message_id m
      then (db, Inl (value_error ''multi-agent journal receipt/message identity mismatch''))
      else
        (case (text_of (message_document m), text_of (receipt_document r)) of
           (Inl x, _) \<Rightarrow> (db, Inl x)
         | (_, Inl x) \<Rightarrow> (db, Inl x)
         | (Inr mj, Inr rj) \<Rightarrow>
             (case fault of
                Some x \<Rightarrow> (db, Inl x)
              | None \<Rightarrow>
                  if (case map_of (jd_deliveries db) (receipt_id r) of
                     Some row \<Rightarrow> dr_message_json row \<noteq> mj \<or> dr_receipt_json row \<noteq> rj
                   | None \<Rightarrow> False)
                  then (db, Inl (value_error ''multi-agent journal receipt identity collision''))
                  else (db\<lparr>jd_deliveries := insert_or_ignore (receipt_id r)
                              \<lparr>dr_message_id = message_id m, dr_message_json = mj, dr_receipt_json = rj\<rparr>
                              (jd_deliveries db)\<rparr>, Inr ()))))"

definition store_checkpoint ::
    "exc option \<Rightarrow> ma_checkpoint \<Rightarrow> journal_db \<Rightarrow> journal_db \<times> (exc + unit)" where
  "store_checkpoint fault c db =
     (case text_of (checkpoint_document c) of
        Inl x \<Rightarrow> (db, Inl x)
      | Inr doc \<Rightarrow>
          (case fault of
             Some x \<Rightarrow> (db, Inl x)
           | None \<Rightarrow>
               if (case map_of (jd_checkpoints db) (ma_checkpoint_digest c) of
                     Some row \<Rightarrow> snd row \<noteq> doc | None \<Rightarrow> False)
               then (db, Inl (value_error ''multi-agent journal checkpoint identity collision''))
               else (db\<lparr>jd_checkpoints := insert_or_ignore (ma_checkpoint_digest c)
                             (mc_conversation_id c, doc) (jd_checkpoints db),
                         jd_latest := dict_set (mc_conversation_id c) (ma_checkpoint_digest c)
                             (jd_latest db)\<rparr>, Inr ())))"

definition latest_checkpoint :: "exc option \<Rightarrow> string \<Rightarrow> journal_db \<Rightarrow> exc + ma_checkpoint option" where
  "latest_checkpoint fault conv db =
     (if blank conv then Inl (value_error ''multi-agent journal conversation_id must be non-empty'')
      else (case fault of
         Some x \<Rightarrow> Inl x
       | None \<Rightarrow>
          (case map_of (jd_latest db) conv of
             None \<Rightarrow> Inr None
           | Some digest \<Rightarrow>
               (case map_of (jd_checkpoints db) digest of
                  None \<Rightarrow> Inr None
                | Some row \<Rightarrow>
                    (case strict_json_loads (snd row) of
                       Inl k \<Rightarrow> Inl (''CanonicalDecodingError'', decode_message k)
                     | Inr doc \<Rightarrow>
                         bind_result (checkpoint_from doc) (\<lambda>cp.
                           if \<not> is_sha256 digest
                           then Inl (value_error ''multi-agent journal checkpoint_digest'')
                           else if mc_conversation_id cp \<noteq> conv
                           then Inl (value_error ''multi-agent journal conversation identity mismatch'')
                           else if ma_checkpoint_digest cp \<noteq> digest
                           then Inl (value_error ''multi-agent journal checkpoint digest mismatch'')
                           else Inr (Some cp)))))))"

text \<open>The journal port over a database and the rest \<open>'w\<close> of the environment, which decides the faults.\<close>

definition sqlite_journal :: "('w \<Rightarrow> exc option) \<Rightarrow> (journal_db \<times> 'w) ma_journal" where
  "sqlite_journal fault = \<lparr>
     jn_record = (\<lambda>m r (db, w). let (db', x) = record_delivery (fault w) m r db in ((db', w), x)),
     jn_checkpoint = (\<lambda>c (db, w). let (db', x) = store_checkpoint (fault w) c db in ((db', w), x)),
     jn_latest_checkpoint = (\<lambda>conv (db, w). ((db, w), latest_checkpoint (fault w) conv db))\<rparr>"

subsection \<open>Documents read back\<close>

lemma message_from_document:
  assumes "valid_message m"
  shows "message_from (sort_keys (message_document m)) = Inr m"
  unfolding message_document_def sort_keys_JObj message_from.simps
  using assms by (cases m) (simp add: doc_get_sorted map_result_JStr checked_def comp_def)

lemma checkpoint_from_document:
  assumes "valid_ma_checkpoint c"
  shows "checkpoint_from (sort_keys (checkpoint_document c)) = Inr c"
proof -
  have "map_result message_from (map (sort_keys \<circ> message_document) ms) = Inr ms"
    if "list_all valid_message ms" for ms
    using that map_result_map [of ms message_from "sort_keys \<circ> message_document" id] message_from_document
    by (simp add: list_all_iff)
  moreover have "list_all valid_message (mc_pending c)" "list_all valid_message (mc_delivered_messages c)"
    using assms by (simp_all add: valid_ma_checkpoint_def)
  ultimately show ?thesis
    unfolding checkpoint_document_def sort_keys_JObj checkpoint_from.simps
    using assms by (cases c) (simp add: doc_get_sorted map_result_JStr checked_def comp_def)
qed

lemma message_document_ok: "json_wf (message_document m)" "d + 2 \<le> n \<Longrightarrow> values_within n d (message_document m)"
  by (auto simp: message_document_def list_all_iff)

lemma checkpoint_document_ok:
  "json_wf (checkpoint_document c)" "values_within default_max_depth 0 (checkpoint_document c)"
  by (auto simp: checkpoint_document_def list_all_iff message_document_ok default_max_depth_def)

lemma receipt_document_ok:
  "json_wf (receipt_document r)" "values_within default_max_depth 0 (receipt_document r)"
  by (auto simp: receipt_document_def default_max_depth_def)

lemma document_texts [simp]:
  "text_of (message_document m) = Inr (dumps False (message_document m))"
  "text_of (receipt_document r) = Inr (dumps False (receipt_document r))"
  "text_of (checkpoint_document c) = Inr (dumps False (checkpoint_document c))"
  using strict_json_loads_text(1) [OF message_document_ok(1) message_document_ok(2)]
    strict_json_loads_text(1) [OF receipt_document_ok] strict_json_loads_text(1) [OF checkpoint_document_ok]
  by (simp_all add: text_of_def default_max_depth_def)

subsection \<open>Writes and reads\<close>

lemma store_checkpoint_Inr:
  assumes "store_checkpoint fault c db = (db', Inr ())"
  shows "map_of (jd_latest db') = (map_of (jd_latest db))(mc_conversation_id c \<mapsto> ma_checkpoint_digest c)"
    "\<exists>conv. map_of (jd_checkpoints db') (ma_checkpoint_digest c) = Some (conv, dumps False (checkpoint_document c))"
    "fault = None" "jd_deliveries db' = jd_deliveries db"
    "\<And>d row. map_of (jd_checkpoints db) d = Some row \<Longrightarrow> map_of (jd_checkpoints db') d = Some row"
  using assms
  by (auto simp: store_checkpoint_def map_of_insert_or_ignore map_of_dict_set split: option.splits if_splits)

lemma store_checkpoint_Inl:
  "store_checkpoint fault c db = (db', Inl x) \<Longrightarrow> db' = db"
  by (auto simp: store_checkpoint_def split: option.splits if_splits)

lemma latest_after_store:
  assumes "store_checkpoint None c db = (db', Inr ())" "valid_ma_checkpoint c"
  shows "latest_checkpoint None (mc_conversation_id c) db' = Inr (Some c)"
proof -
  note written = store_checkpoint_Inr [OF assms(1)]
  obtain conv where row: "map_of (jd_checkpoints db') (ma_checkpoint_digest c)
      = Some (conv, dumps False (checkpoint_document c))"
    using written(2) by blast
  have "\<not> blank (mc_conversation_id c)" "is_sha256 (ma_checkpoint_digest c)"
    using assms(2) by (simp_all add: valid_ma_checkpoint_def ma_checkpoint_digest_def)
  then show ?thesis
    using row written(1) checkpoint_from_document [OF assms(2)]
    by (simp add: latest_checkpoint_def strict_json_loads_text(2) [OF checkpoint_document_ok])
qed

lemma record_delivery_tables:
  assumes "record_delivery fault m r db = (db', x)"
  shows "jd_checkpoints db' = jd_checkpoints db" "jd_latest db' = jd_latest db"
    "x \<noteq> Inr () \<Longrightarrow> db' = db"
    "\<And>k row. map_of (jd_deliveries db) k = Some row \<Longrightarrow> map_of (jd_deliveries db') k = Some row"
  using assms
  by (auto simp: record_delivery_def map_of_insert_or_ignore split: if_splits option.splits)

lemma store_checkpoint_deliveries:
  "store_checkpoint fault c db = (db', x) \<Longrightarrow> jd_deliveries db' = jd_deliveries db"
  by (auto simp: store_checkpoint_def split: option.splits if_splits)

text \<open>Every latest pointer names a stored checkpoint.\<close>

definition journal_ok :: "journal_db \<Rightarrow> bool" where
  "journal_ok db \<longleftrightarrow>
     (\<forall>conv d. map_of (jd_latest db) conv = Some d \<longrightarrow> map_of (jd_checkpoints db) d \<noteq> None)"

lemma store_checkpoint_ok:
  assumes "store_checkpoint fault c db = (db', Inr ())" "journal_ok db"
  shows "journal_ok db'"
    "conv \<noteq> mc_conversation_id c \<Longrightarrow> latest_checkpoint f conv db' = latest_checkpoint f conv db"
proof -
  note written = store_checkpoint_Inr [OF assms(1)]
  show "journal_ok db'"
    using assms(2) written(1,2,5) unfolding journal_ok_def
    by (metis fun_upd_apply not_None_eq option.inject)
  show "latest_checkpoint f conv db' = latest_checkpoint f conv db" if "conv \<noteq> mc_conversation_id c"
  proof (cases "map_of (jd_latest db) conv")
    case None
    with that written(1) show ?thesis by (cases f) (simp_all add: latest_checkpoint_def)
  next
    case (Some d)
    then obtain row where "map_of (jd_checkpoints db) d = Some row"
      using assms(2) unfolding journal_ok_def by blast
    with that Some written(1) written(5) [OF this] show ?thesis
      by (cases f) (simp_all add: latest_checkpoint_def)
  qed
qed

subsection \<open>Histories\<close>

datatype journal_op =
    Record_op "exc option" ma_message ma_receipt
  | Store_op "exc option" ma_checkpoint

fun journal_step :: "journal_op \<Rightarrow> journal_db \<Rightarrow> journal_db \<times> (exc + unit)" where
  "journal_step (Record_op f m r) db = record_delivery f m r db"
| "journal_step (Store_op f c) db = store_checkpoint f c db"

fun journal_steps :: "journal_op list \<Rightarrow> journal_db \<Rightarrow> journal_db" where
  "journal_steps [] db = db"
| "journal_steps (op # ops) db = journal_steps ops (fst (journal_step op db))"

text \<open>The specification: the last checkpoint whose write was accepted, by conversation.\<close>

fun spec_step :: "journal_op \<Rightarrow> bool \<Rightarrow> (string \<rightharpoonup> ma_checkpoint) \<Rightarrow> (string \<rightharpoonup> ma_checkpoint)" where
  "spec_step (Store_op f c) True s = s(mc_conversation_id c \<mapsto> c)"
| "spec_step _ _ s = s"

fun spec_steps ::
    "journal_op list \<Rightarrow> journal_db \<Rightarrow> (string \<rightharpoonup> ma_checkpoint) \<Rightarrow> (string \<rightharpoonup> ma_checkpoint)" where
  "spec_steps [] db s = s"
| "spec_steps (op # ops) db s =
     spec_steps ops (fst (journal_step op db)) (spec_step op (snd (journal_step op db) = Inr ()) s)"

fun valid_op :: "journal_op \<Rightarrow> bool" where
  "valid_op (Record_op f m r) = valid_message m"
| "valid_op (Store_op f c) = valid_ma_checkpoint c"

definition journal_refines :: "journal_db \<Rightarrow> (string \<rightharpoonup> ma_checkpoint) \<Rightarrow> bool" where
  "journal_refines db s \<longleftrightarrow>
     journal_ok db \<and> (\<forall>conv. \<not> blank conv \<longrightarrow> latest_checkpoint None conv db = Inr (s conv))"

lemma journal_step_refines:
  assumes "journal_refines db s" "valid_op op" "journal_step op db = (db', x)"
  shows "journal_refines db' (spec_step op (x = Inr ()) s)"
proof (cases op)
  case (Record_op f m r)
  with assms(3) have "record_delivery f m r db = (db', x)" by simp
  note same = record_delivery_tables(1,2) [OF this]
  have "latest_checkpoint None conv db' = latest_checkpoint None conv db" for conv
    unfolding latest_checkpoint_def same ..
  with assms(1) Record_op same show ?thesis by (simp add: journal_refines_def journal_ok_def)
next
  case (Store_op f c)
  show ?thesis
  proof (cases x)
    case (Inl e)
    with Store_op assms show ?thesis by (auto dest!: store_checkpoint_Inl)
  next
    case (Inr u)
    then have st: "store_checkpoint f c db = (db', Inr ())" using Store_op assms(3) by simp
    have st': "store_checkpoint None c db = (db', Inr ())" using st store_checkpoint_Inr(3) [OF st] by simp
    have "journal_ok db" using assms(1) by (simp add: journal_refines_def)
    note keep = store_checkpoint_ok [OF st this]
    have "valid_ma_checkpoint c" using Store_op assms(2) by simp
    note new = latest_after_store [OF st' this]
    show ?thesis
      using assms(1) Store_op Inr keep new by (simp add: journal_refines_def)
  qed
qed

lemma journal_steps_refine:
  assumes "journal_refines db s" "list_all valid_op ops"
  shows "journal_refines (journal_steps ops db) (spec_steps ops db s)"
  using assms
proof (induction ops arbitrary: db s)
  case (Cons op ops)
  obtain db' x where st: "journal_step op db = (db', x)" by fastforce
  from journal_step_refines [OF Cons.prems(1) _ st] Cons.prems(2)
  have "journal_refines db' (spec_step op (x = Inr ()) s)" by simp
  from Cons.IH [OF this] Cons.prems(2) st show ?case by simp
qed simp

lemma empty_db_refines: "journal_refines empty_db Map.empty"
  by (simp add: journal_refines_def journal_ok_def empty_db_def latest_checkpoint_def)

lemma journal_steps_deliveries:
  "map_of (jd_deliveries db) k = Some row \<Longrightarrow> map_of (jd_deliveries (journal_steps ops db)) k = Some row"
proof (induction ops arbitrary: db)
  case (Cons op ops)
  obtain db' x where st: "journal_step op db = (db', x)" by fastforce
  have "map_of (jd_deliveries db') k = Some row"
    using st Cons.prems
    by (cases op) (auto simp: store_checkpoint_deliveries dest: record_delivery_tables(4))
  with Cons.IH st show ?case by simp
qed simp

lemma record_delivery_Inr:
  assumes "record_delivery fault m r db = (db', Inr ())"
  shows "fault = None" "mr_message_id r = message_id m"
    "\<exists>row. map_of (jd_deliveries db') (receipt_id r) = Some row
       \<and> dr_message_json row = dumps False (message_document m)
       \<and> dr_receipt_json row = dumps False (receipt_document r)"
  using assms
  by (auto simp: record_delivery_def map_of_insert_or_ignore split: if_splits option.splits)

subsection \<open>Resuming from the journal\<close>

text \<open>What resuming needs of a journal: a checkpoint that was accepted is the latest one.\<close>

locale checkpoint_journal =
  fixes jn :: "'e ma_journal"
  assumes latest_law: "valid_ma_checkpoint cp \<Longrightarrow> jn_checkpoint jn cp e = (e', Inr ()) \<Longrightarrow>
    \<not> blank conv \<Longrightarrow> conv = mc_conversation_id cp \<Longrightarrow>
    jn_latest_checkpoint jn conv e' = (e', Inr (Some cp))"
begin

lemma run_leaves_checkpoint:
  assumes "execute_run c queue conv dids ds start max_rounds mm cancellation e = (e', Inr r)"
    "co_journal c = Some jn"
  shows "\<exists>cp. mx_checkpoint r = Some cp \<and> mc_conversation_id cp = conv
    \<and> jn_latest_checkpoint jn conv e' = (e', Inr (Some cp))"
proof -
  obtain st outcome where fr: "finish_run c conv outcome st = (e', Inr r)"
    using assms(1) by (auto simp: execute_run_def split: if_splits prod.splits sum.splits)
  obtain rounds status err where out: "outcome = (rounds, status, err)" by (cases outcome)
  let ?cp = "state_checkpoint c conv rounds st"
  have valid: "valid_ma_checkpoint ?cp"
    and stored: "jn_checkpoint jn ?cp (ms_env st) = (e', Inr ())"
    and cp: "mx_checkpoint r = Some ?cp"
    using fr assms(2)
    by (auto simp: finish_run_def out checked_def split: if_splits prod.splits sum.splits)
  have "mc_conversation_id ?cp = conv" by (simp add: state_checkpoint_def)
  with latest_law [OF valid stored, of conv] valid cp show ?thesis
    by (auto simp: valid_ma_checkpoint_def)
qed

lemma resume_from_journal_is_resume:
  assumes "execute_run c queue conv dids ds start max_rounds mm cancellation e = (e', Inr r)"
    "co_journal c = Some jn" "\<not> blank conv"
  shows "\<exists>cp. mx_checkpoint r = Some cp
    \<and> resume_from_journal c conv max_rounds' mm' cancellation' e' = resume_run c cp max_rounds' mm' cancellation' e'"
  using run_leaves_checkpoint [OF assms(1,2)] assms(2,3) by (auto simp: resume_from_journal_def)

end

interpretation sqlite: checkpoint_journal "sqlite_journal fault" for fault :: "'w \<Rightarrow> exc option"
proof
  fix cp :: ma_checkpoint and e e' :: "journal_db \<times> 'w" and conv
  assume v: "valid_ma_checkpoint cp" and s: "jn_checkpoint (sqlite_journal fault) cp e = (e', Inr ())"
    and conv: "conv = mc_conversation_id cp"
  obtain db w where e: "e = (db, w)" by fastforce
  with s obtain db' where db': "store_checkpoint (fault w) cp db = (db', Inr ())" "e' = (db', w)"
    by (auto simp: sqlite_journal_def split: prod.splits)
  note none = store_checkpoint_Inr(3) [OF db'(1)]
  from latest_after_store [OF db'(1) [unfolded none] v] none conv db'(2)
  show "jn_latest_checkpoint (sqlite_journal fault) conv e' = (e', Inr (Some cp))"
    by (simp add: sqlite_journal_def)
qed

subsection \<open>Properties\<close>

text \<open>
  C16: The journal implements its specification. After any sequence of writes, accepted, refused
  by SQLite or rejected as a collision, from an empty database, the latest checkpoint read for
  every conversation is the last one whose write was accepted, read back unchanged from its JSON
  text; a conversation without one has none.
\<close>

theorem journal_refines_latest:
  assumes "list_all valid_op ops" "\<not> blank conv"
  shows "latest_checkpoint None conv (journal_steps ops empty_db) = Inr (spec_steps ops empty_db Map.empty conv)"
  using journal_steps_refine [OF empty_db_refines assms(1)] assms(2) by (simp add: journal_refines_def)

theorem journal_refines_latest_witness:
  "latest_checkpoint None ''default'' (journal_steps [Store_op None demo_checkpoint] empty_db)
     = Inr (Some demo_checkpoint)"
proof -
  have valid: "valid_ma_checkpoint demo_checkpoint"
    using demo_valid_initial
    by (simp add: valid_ma_checkpoint_def demo_checkpoint_def topology_digest_def valid_initial_def
        initial_not_blank [of demo_topology _ "[demo_message]"])
  have "\<not> blank ''default''" by code_simp
  then show ?thesis
    using journal_refines_latest [of "[Store_op None demo_checkpoint]" "''default''"] valid
    by (simp add: store_checkpoint_def empty_db_def demo_checkpoint_def)
qed

text \<open>
  An accepted delivery is durable and idempotent: whatever is written afterwards its row
  keeps the canonical text of its message and receipt, from which the message reads back, and
  recording the same delivery again succeeds and changes nothing.
\<close>

theorem delivery_record_durable:
  assumes "record_delivery fault m r db = (db1, Inr ())" "valid_message m"
    and "db2 = journal_steps ops db1"
  shows "\<exists>row. map_of (jd_deliveries db2) (receipt_id r) = Some row
      \<and> dr_receipt_json row = dumps False (receipt_document r)
      \<and> (\<exists>doc. strict_json_loads (dr_message_json row) = Inr doc \<and> message_from doc = Inr m)
      \<and> record_delivery None m r db2 = (db2, Inr ())"
proof -
  note accepted = record_delivery_Inr [OF assms(1)]
  obtain row where row: "map_of (jd_deliveries db1) (receipt_id r) = Some row"
    "dr_message_json row = dumps False (message_document m)"
    "dr_receipt_json row = dumps False (receipt_document r)"
    using accepted(3) by blast
  have row2: "map_of (jd_deliveries db2) (receipt_id r) = Some row"
    using journal_steps_deliveries [OF row(1)] assms(3) by simp
  have "strict_json_loads (dr_message_json row) = Inr (sort_keys (message_document m))"
    using strict_json_loads_text(2) [OF message_document_ok(1) message_document_ok(2)] row(2)
    by (simp add: default_max_depth_def)
  moreover have "record_delivery None m r db2 = (db2, Inr ())"
    using row row2 accepted(2) by (simp add: record_delivery_def insert_or_ignore_def)
  ultimately show ?thesis using row2 row(3) message_from_document [OF assms(2)] by blast
qed

theorem delivery_record_durable_witness:
  "\<exists>db1 row. record_delivery None demo_message (make_ma_receipt demo_message Delivery_delivered 1 []) empty_db = (db1, Inr ())
    \<and> map_of (jd_deliveries (journal_steps [Store_op (Some (''OperationalError'', [])) demo_checkpoint] db1))
        (receipt_id (make_ma_receipt demo_message Delivery_delivered 1 [])) = Some row"
proof -
  let ?r = "make_ma_receipt demo_message Delivery_delivered 1 []"
  obtain db1 where a: "record_delivery None demo_message ?r empty_db = (db1, Inr ())"
    by (simp add: record_delivery_def empty_db_def make_ma_receipt_def)
  from delivery_record_durable [OF a demo_valid_message refl,
      of "[Store_op (Some (''OperationalError'', [])) demo_checkpoint]"] a
  show ?thesis by blast
qed

text \<open>
  With the SQLite journal, resuming a conversation from the journal after a run is resuming
  from the checkpoint the run returned, under any faults of the database, any node behaviour,
  nodes that write the database included, and any limits of the second run.
\<close>

theorem journal_resume_is_checkpoint_resume:
  assumes "run_many c initials max_rounds max_messages cancellation e = (e', Inr r)"
    and "co_journal c = Some (sqlite_journal fault)"
  shows "\<exists>cp. mx_checkpoint r = Some cp
    \<and> resume_from_journal c (mm_conversation_id (hd initials)) max_rounds' max_messages' cancellation' e'
      = resume_run c cp max_rounds' max_messages' cancellation' e'"
proof -
  note run = run_many_Inr [OF assms(1)]
  then have "\<not> blank (mm_conversation_id (hd initials))" using initial_not_blank by blast
  from sqlite.resume_from_journal_is_resume [OF run [THEN conjunct1] assms(2) this] show ?thesis .
qed

definition demo_journalled :: "(journal_db \<times> nat) coordinator" where
  "demo_journalled = \<lparr>co_topology = demo_topology,
     co_nodes = [(''a'', \<lambda>m e. (e, Inr (Some []))), (''b'', \<lambda>m e. (e, Inr (Some [demo_reply m])))],
     co_journal = Some (sqlite_journal (\<lambda>n. None))\<rparr>"

definition demo_cancel :: "(journal_db \<times> nat, bool) port_call" where
  "demo_cancel = (\<lambda>e. (e, Inr True))"

lemma demo_cancelled_run:
  "\<exists>e' r. run_many demo_journalled [demo_message] 3 10 (Some demo_cancel) (empty_db, 0) = (e', Inr r)"
proof -
  let ?cp = "state_checkpoint demo_journalled ''default'' 0
    \<lparr>ms_env = (empty_db, 0), ms_queue = [demo_message], ms_delivered = [], ms_receipts = [],
     ms_seen = {}, ms_scheduled = {message_id demo_message}\<rparr>"
  have topo: "co_topology demo_journalled = demo_topology" by (simp add: demo_journalled_def)
  have conv: "mm_conversation_id demo_message = ''default''"
    by (simp add: demo_message_def initial_message_def)
  have valid: "valid_ma_checkpoint ?cp"
    using demo_valid_initial
    by (simp add: valid_ma_checkpoint_def state_checkpoint_def topology_digest_def valid_initial_def
        initial_not_blank [of demo_topology _ "[demo_message]"])
  have "run_many demo_journalled [demo_message] 3 10 (Some demo_cancel) (empty_db, 0)
      = execute_run demo_journalled [demo_message] ''default'' [] [] 0 3 10 (Some demo_cancel) (empty_db, 0)"
    by (rule run_many_executes) (use demo_valid_initial in \<open>simp_all add: topo conv\<close>)
  moreover have "jn_checkpoint (sqlite_journal (\<lambda>n. None)) ?cp (empty_db, 0 :: nat)
      = ((fst (store_checkpoint None ?cp empty_db), 0), Inr ())"
    by (simp add: sqlite_journal_def store_checkpoint_def empty_db_def)
  moreover have "co_journal demo_journalled = Some (sqlite_journal (\<lambda>n. None))"
    by (simp add: demo_journalled_def)
  ultimately show ?thesis
    using valid
    by (auto simp: execute_run_def run_rounds.simps [of _ _ _ _ _ 0] check_cancelled_def demo_cancel_def
        finish_run_def checked_def valid_result_def final_status_def topology_digest_def)
qed

theorem journal_resume_is_checkpoint_resume_witness:
  "\<exists>e' r cp. run_many demo_journalled [demo_message] 3 10 (Some demo_cancel) (empty_db, 0) = (e', Inr r)
    \<and> mx_checkpoint r = Some cp
    \<and> resume_from_journal demo_journalled ''default'' 5 10 None e' = resume_run demo_journalled cp 5 10 None e'"
proof -
  obtain e' r where run: "run_many demo_journalled [demo_message] 3 10 (Some demo_cancel) (empty_db, 0) = (e', Inr r)"
    using demo_cancelled_run by blast
  have "co_journal demo_journalled = Some (sqlite_journal (\<lambda>n. None))"
    "mm_conversation_id (hd [demo_message]) = ''default''"
    by (simp_all add: demo_journalled_def demo_message_def initial_message_def)
  with journal_resume_is_checkpoint_resume [OF run this(1), of 5 10 None] run show ?thesis by auto
qed

end
