(* ===== verification/State_Graph.thy ===== *)
theory State_Graph
  imports Python_Effects
begin

text \<open>
  The state-graph runtime (\<open>src/components/reference/graph.py\<close>): commands, snapshots and events,
  the graph builder, and the compiled graph that runs one node after another, merging their
  updates into the state, routing, and saving a snapshot after every step.

  A mapping of JSON values is its list of fields. \<open>None\<close> as a JSON value is \<open>JNull\<close>, so an absent
  interrupt or resume value is \<open>JNull\<close>. Nodes, routers and the checkpointer act on an environment;
  a run is the list of the events it yields and how it ended.
\<close>

subsection \<open>Commands, snapshots and events\<close>

type_synonym fields = "(string \<times> json) list"

record graph_command =
  gm_update :: fields
  gm_goto :: "string option"
  gm_resume :: json
  gm_interrupt :: json

definition valid_command :: "graph_command \<Rightarrow> bool" where
  "valid_command c \<longleftrightarrow>
     values_within default_max_depth 0 (JObj (gm_update c))
     \<and> (case gm_goto c of None \<Rightarrow> True | Some n \<Rightarrow> \<not> blank n)"

record graph_send =
  gn_target :: string
  gn_update :: fields

definition valid_send :: "graph_send \<Rightarrow> bool" where
  "valid_send s \<longleftrightarrow> \<not> blank (gn_target s) \<and> values_within default_max_depth 0 (JObj (gn_update s))"

record graph_snapshot =
  gs_thread :: string
  gs_step :: int
  gs_values :: fields
  gs_next :: "string list"
  gs_parent :: "string option"
  gs_interrupts :: "json list"

definition snapshot_document :: "graph_snapshot \<Rightarrow> json" where
  "snapshot_document s = JObj [
     (''thread_id'', JStr (gs_thread s)),
     (''step'', JInt (gs_step s)),
     (''values'', JObj (gs_values s)),
     (''next_nodes'', JArr (map JStr (gs_next s))),
     (''parent_checkpoint_id'', (case gs_parent s of None \<Rightarrow> JNull | Some p \<Rightarrow> JStr p)),
     (''interrupts'', JArr (gs_interrupts s))]"

definition snapshot_id :: "graph_snapshot \<Rightarrow> string" where
  "snapshot_id s = digest_of (snapshot_document s)"

definition valid_snapshot :: "graph_snapshot \<Rightarrow> bool" where
  "valid_snapshot s \<longleftrightarrow>
     \<not> blank (gs_thread s) \<and> 0 \<le> gs_step s
     \<and> list_all (\<lambda>n. \<not> blank n) (gs_next s) \<and> distinct (gs_next s)
     \<and> (case gs_parent s of None \<Rightarrow> True | Some p \<Rightarrow> is_sha256 p)
     \<and> values_within default_max_depth 0 (JObj (gs_values s))
     \<and> list_all (values_within default_max_depth 0) (gs_interrupts s)
     \<and> containers_within default_max_depth 0 (snapshot_document s)"

definition make_snapshot ::
    "string \<Rightarrow> int \<Rightarrow> fields \<Rightarrow> string list \<Rightarrow> string option \<Rightarrow> json list \<Rightarrow> exc + graph_snapshot" where
  "make_snapshot thread step vals nxt parent interrupts =
     (let s = \<lparr>gs_thread = thread, gs_step = step, gs_values = vals, gs_next = nxt,
               gs_parent = parent, gs_interrupts = interrupts\<rparr> in
      if blank thread then Inl (value_error ''graph snapshot thread_id is required'')
      else if step < 0 then Inl (value_error ''graph snapshot step must be non-negative'')
      else if \<not> list_all (\<lambda>n. \<not> blank n) nxt \<or> \<not> distinct nxt
      then Inl (value_error ''graph snapshot next_nodes must be unique non-empty strings'')
      else
        bind_result (case parent of None \<Rightarrow> Inr ()
                     | Some p \<Rightarrow> digest_required ''graph snapshot parent_checkpoint_id'' p) (\<lambda>_.
        bind_result (frozen_of (JObj vals)) (\<lambda>_.
        bind_result (map_result frozen_of interrupts) (\<lambda>_.
        bind_result (text_of (snapshot_document s)) (\<lambda>_. Inr s)))))"

datatype event_kind = Ev_node | Ev_interrupt | Ev_checkpoint | Ev_completed

fun event_value :: "event_kind \<Rightarrow> string" where
  "event_value Ev_node = ''node''"
| "event_value Ev_interrupt = ''interrupt''"
| "event_value Ev_checkpoint = ''checkpoint''"
| "event_value Ev_completed = ''completed''"

record graph_event =
  ge_kind :: event_kind
  ge_thread :: string
  ge_step :: int
  ge_node :: "string option"
  ge_payload :: json

definition event_document :: "graph_event \<Rightarrow> json" where
  "event_document v = JObj [
     (''event_type'', JStr (event_value (ge_kind v))),
     (''thread_id'', JStr (ge_thread v)),
     (''step'', JInt (ge_step v)),
     (''node'', (case ge_node v of None \<Rightarrow> JNull | Some n \<Rightarrow> JStr n)),
     (''payload'', ge_payload v)]"

definition make_event ::
    "event_kind \<Rightarrow> string \<Rightarrow> int \<Rightarrow> string option \<Rightarrow> json \<Rightarrow> exc + graph_event" where
  "make_event kind thread step node payload =
     (let v = \<lparr>ge_kind = kind, ge_thread = thread, ge_step = step, ge_node = node, ge_payload = payload\<rparr> in
      if blank thread then Inl (value_error ''graph event identity is required'')
      else if step < 0 then Inl (value_error ''graph event step must be non-negative'')
      else bind_result (frozen_of payload) (\<lambda>_. bind_result (text_of (event_document v)) (\<lambda>_. Inr v)))"

subsection \<open>Graphs\<close>

text \<open>What a node or a router may return; \<open>G_other\<close> is any other object.\<close>

datatype graph_value =
    G_command graph_command
  | G_mapping fields
  | G_name string
  | G_send graph_send
  | G_sends "graph_send list"
  | G_other

type_synonym 'e graph_node = "fields \<Rightarrow> ('e, graph_value) port_call"
type_synonym graph_reducer = "json \<Rightarrow> json \<Rightarrow> exc + json"

record 'e graph_checkpointer =
  gc_save :: "graph_snapshot \<Rightarrow> ('e, unit) port_call"
  gc_load :: "string \<Rightarrow> ('e, graph_snapshot option) port_call"
  gc_history :: "string \<Rightarrow> ('e, graph_snapshot list) port_call"
  gc_load_checkpoint :: "string \<Rightarrow> ('e, graph_snapshot option) port_call"

text \<open>\<open>StateGraph\<close>: a builder, its dictionaries as association lists in insertion order.\<close>

record 'e state_graph =
  sg_nodes :: "(string \<times> 'e graph_node) list"
  sg_edges :: "(string \<times> string list) list"
  sg_routers :: "(string \<times> 'e graph_node) list"
  sg_reducers :: "(string \<times> graph_reducer) list"
  sg_entry :: "string option"

definition new_graph :: "(string \<times> graph_reducer) list \<Rightarrow> 'e state_graph" where
  "new_graph reducers = \<lparr>sg_nodes = [], sg_edges = [], sg_routers = [], sg_reducers = reducers,
                         sg_entry = None\<rparr>"

definition add_node :: "string \<Rightarrow> 'e graph_node \<Rightarrow> 'e state_graph \<Rightarrow> exc + 'e state_graph" where
  "add_node name node g =
     (if blank name then Inl (''TypeError'', ''graph node requires a non-empty name and callable'')
      else if map_of (sg_nodes g) name \<noteq> None
      then Inl (value_error (''graph node already exists: '' @ name))
      else Inr (g\<lparr>sg_nodes := dict_set name node (sg_nodes g),
                  sg_edges := set_default name [] (sg_edges g)\<rparr>))"

definition set_entry_point :: "string \<Rightarrow> 'e state_graph \<Rightarrow> 'e state_graph" where
  "set_entry_point name g = g\<lparr>sg_entry := Some name\<rparr>"

definition add_edge :: "string \<Rightarrow> string \<Rightarrow> 'e state_graph \<Rightarrow> 'e state_graph" where
  "add_edge source target g =
     g\<lparr>sg_edges := dict_set source
         ((case map_of (sg_edges g) source of None \<Rightarrow> [] | Some ts \<Rightarrow> ts) @ [target]) (sg_edges g)\<rparr>"

definition add_conditional_edges ::
    "string \<Rightarrow> 'e graph_node \<Rightarrow> 'e state_graph \<Rightarrow> exc + 'e state_graph" where
  "add_conditional_edges source router g =
     (if map_of (sg_nodes g) source = None
      then Inl (value_error ''conditional edge source must be a declared node'')
      else Inr (g\<lparr>sg_routers := dict_set source router (sg_routers g)\<rparr>))"

record 'e compiled_graph =
  cg_nodes :: "(string \<times> 'e graph_node) list"
  cg_edges :: "(string \<times> string list) list"
  cg_routers :: "(string \<times> 'e graph_node) list"
  cg_reducers :: "(string \<times> graph_reducer) list"
  cg_entry :: string
  cg_checkpointer :: "'e graph_checkpointer option"

definition compile_graph ::
    "'e graph_checkpointer option \<Rightarrow> 'e state_graph \<Rightarrow> exc + 'e compiled_graph" where
  "compile_graph checkpointer g =
     (case sg_entry g of
        None \<Rightarrow> Inl (value_error ''graph entry point must be a declared node'')
      | Some entry \<Rightarrow>
          if map_of (sg_nodes g) entry = None
          then Inl (value_error ''graph entry point must be a declared node'')
          else if \<not> list_all (\<lambda>(source, targets). source \<in> set (map fst (sg_nodes g))
                       \<and> list_all (\<lambda>t. t \<in> set (map fst (sg_nodes g))) targets) (sg_edges g)
          then Inl (value_error ''graph edges must reference declared nodes'')
          else Inr \<lparr>cg_nodes = sg_nodes g, cg_edges = sg_edges g, cg_routers = sg_routers g,
                    cg_reducers = sg_reducers g, cg_entry = entry, cg_checkpointer = checkpointer\<rparr>)"

subsection \<open>One step\<close>

text \<open>\<open>_merge\<close>; a reducer receives \<open>None\<close> for a key that is not set.\<close>

fun merge_update :: "(string \<times> graph_reducer) list \<Rightarrow> fields \<Rightarrow> fields \<Rightarrow> exc + fields" where
  "merge_update reducers state [] = Inr state"
| "merge_update reducers state ((k, v) # update) =
     bind_result (frozen_of v) (\<lambda>frozen.
     bind_result (case map_of reducers k of
                    None \<Rightarrow> Inr frozen
                  | Some reducer \<Rightarrow> reducer (doc_get k JNull state) frozen) (\<lambda>x.
       merge_update reducers (dict_set k x state) update))"

datatype graph_targets = T_sends "graph_send list" | T_names "string list"

fun route_targets :: "graph_value \<Rightarrow> exc + graph_targets" where
  "route_targets (G_command c) = Inr (T_names (case gm_goto c of None \<Rightarrow> [] | Some n \<Rightarrow> [n]))"
| "route_targets (G_name n) = Inr (T_names [n])"
| "route_targets (G_send s) = Inr (T_sends [s])"
| "route_targets (G_sends ss) = Inr (T_sends ss)"
| "route_targets _ = Inl (''TypeError'', ''graph route must return GraphCommand, node name, or GraphSend tuple'')"

fun no_targets :: "graph_targets \<Rightarrow> bool" where
  "no_targets (T_sends ss) = (ss = [])"
| "no_targets (T_names ns) = (ns = [])"

definition node_edges :: "'e compiled_graph \<Rightarrow> string \<Rightarrow> exc + graph_targets" where
  "node_edges g name = (case map_of (cg_edges g) name of
     None \<Rightarrow> Inl (''KeyError'', name) | Some ts \<Rightarrow> Inr (T_names ts))"

definition next_targets :: "'e compiled_graph \<Rightarrow> string \<Rightarrow> graph_value \<Rightarrow> exc + graph_targets" where
  "next_targets g name route =
     bind_result (case route of G_mapping _ \<Rightarrow> node_edges g name | _ \<Rightarrow> route_targets route) (\<lambda>ts.
       if no_targets ts then node_edges g name else Inr ts)"

fun merge_sends :: "(string \<times> graph_reducer) list \<Rightarrow> fields \<Rightarrow> graph_send list \<Rightarrow> exc + fields" where
  "merge_sends reducers state [] = Inr state"
| "merge_sends reducers state (s # ss) =
     bind_result (merge_update reducers state (gn_update s)) (\<lambda>state'. merge_sends reducers state' ss)"

fun advance :: "(string \<times> graph_reducer) list \<Rightarrow> fields \<Rightarrow> graph_targets \<Rightarrow> exc + string list \<times> fields" where
  "advance reducers state (T_names ns) = Inr (ns, state)"
| "advance reducers state (T_sends ss) =
     bind_result (merge_sends reducers state ss) (\<lambda>state'. Inr (map gn_target ss, state'))"

fun result_update :: "graph_value \<Rightarrow> fields" where
  "result_update (G_command c) = gm_update c"
| "result_update (G_mapping m) = m"
| "result_update _ = []"

fun interrupt_of :: "graph_value \<Rightarrow> json" where
  "interrupt_of (G_command c) = gm_interrupt c"
| "interrupt_of _ = JNull"

definition call_graph_node :: "'e compiled_graph \<Rightarrow> string \<Rightarrow> 'e graph_node" where
  "call_graph_node g name state e =
     (case map_of (cg_nodes g) name of
        None \<Rightarrow> (e, Inl (''KeyError'', name)) | Some node \<Rightarrow> node state e)"

text \<open>A declared router is called even when the command's \<open>goto\<close> then takes precedence.\<close>

definition choose_route ::
    "'e compiled_graph \<Rightarrow> string \<Rightarrow> graph_value \<Rightarrow> fields \<Rightarrow> ('e, graph_value) port_call" where
  "choose_route g name res state e =
     (let (e', route) = (case map_of (cg_routers g) name of
            None \<Rightarrow> (e, Inr res) | Some router \<Rightarrow> router state e)
      in (e', bind_result route (\<lambda>rt.
           case res of
             G_command c \<Rightarrow> Inr (if gm_goto c \<noteq> None then res else rt)
           | _ \<Rightarrow> Inr rt)))"

definition save_graph :: "'e compiled_graph \<Rightarrow> graph_snapshot \<Rightarrow> ('e, unit) port_call" where
  "save_graph g s e = (case cg_checkpointer g of None \<Rightarrow> (e, Inr ()) | Some ck \<Rightarrow> gc_save ck s e)"

text \<open>The loop's variables, and how a run ends.\<close>

record graph_cursor =
  gu_values :: fields
  gu_next :: "string list"
  gu_step :: int
  gu_parent :: string

datatype graph_outcome =
    Graph_completed
  | Graph_exceeded
  | Graph_interrupted graph_snapshot
  | Graph_raised exc

type_synonym ('e, 'a) graph_run = "'e \<times> graph_event list \<times> 'a"

definition ok_then ::
    "exc + 'a \<Rightarrow> 'e \<Rightarrow> ('a \<Rightarrow> ('e, graph_outcome + 'b) graph_run) \<Rightarrow> ('e, graph_outcome + 'b) graph_run" where
  "ok_then r e k = (case r of Inl x \<Rightarrow> (e, [], Inl (Graph_raised x)) | Inr a \<Rightarrow> k a)"

definition call_then ::
    "'e \<times> (exc + 'a) \<Rightarrow> ('a \<Rightarrow> 'e \<Rightarrow> ('e, graph_outcome + 'b) graph_run)
       \<Rightarrow> ('e, graph_outcome + 'b) graph_run" where
  "call_then r k = ok_then (snd r) (fst r) (\<lambda>a. k a (fst r))"

definition emitting :: "graph_event list \<Rightarrow> ('e, 'a) graph_run \<Rightarrow> ('e, 'a) graph_run" where
  "emitting evs r = (case r of (e, evs', x) \<Rightarrow> (e, evs @ evs', x))"

definition interrupt_step ::
    "'e compiled_graph \<Rightarrow> string \<Rightarrow> string \<Rightarrow> graph_cursor \<Rightarrow> fields \<Rightarrow> json \<Rightarrow> 'e
       \<Rightarrow> ('e, graph_outcome + graph_cursor) graph_run" where
  "interrupt_step g thread name cur state v e =
     ok_then (make_snapshot thread (gu_step cur + 1) state [name] (Some (gu_parent cur)) [v]) e (\<lambda>s.
     call_then (save_graph g s e) (\<lambda>_ e1.
     ok_then (make_event Ev_interrupt thread (gu_step cur + 1) (Some name) v) e1 (\<lambda>ev.
       (e1, [ev], Inl (Graph_interrupted s)))))"

definition route_step ::
    "'e compiled_graph \<Rightarrow> string \<Rightarrow> string \<Rightarrow> graph_cursor \<Rightarrow> graph_value \<Rightarrow> fields \<Rightarrow> 'e
       \<Rightarrow> ('e, graph_outcome + graph_cursor) graph_run" where
  "route_step g thread name cur res state e =
     call_then (choose_route g name res state e) (\<lambda>route e1.
     ok_then (next_targets g name route) e1 (\<lambda>targets.
     ok_then (advance (cg_reducers g) state targets) e1 (\<lambda>(nxt, state').
     ok_then (make_snapshot thread (gu_step cur + 1) state' nxt (Some (gu_parent cur)) []) e1 (\<lambda>s.
     call_then (save_graph g s e1) (\<lambda>_ e2.
     ok_then (make_event Ev_checkpoint thread (gu_step cur + 1) (Some name) (JObj state')) e2 (\<lambda>ev.
       (e2, [ev], Inr \<lparr>gu_values = state', gu_next = nxt, gu_step = gu_step cur + 1,
                        gu_parent = snapshot_id s\<rparr>)))))))"

definition graph_step ::
    "'e compiled_graph \<Rightarrow> string \<Rightarrow> string \<Rightarrow> graph_cursor \<Rightarrow> 'e
       \<Rightarrow> ('e, graph_outcome + graph_cursor) graph_run" where
  "graph_step g thread name cur e =
     call_then (call_graph_node g name (gu_values cur) e) (\<lambda>res e1.
     ok_then (merge_update (cg_reducers g) (gu_values cur) (result_update res)) e1 (\<lambda>state.
     ok_then (make_event Ev_node thread (gu_step cur + 1) (Some name) (JObj (result_update res))) e1 (\<lambda>ev.
       emitting [ev]
         (if interrupt_of res \<noteq> JNull then interrupt_step g thread name cur state (interrupt_of res) e1
          else route_step g thread name cur res state e1))))"

subsection \<open>Running\<close>

text \<open>The \<open>for\<close> loop; of several next nodes the first one runs.\<close>

fun graph_loop ::
    "'e compiled_graph \<Rightarrow> string \<Rightarrow> nat \<Rightarrow> graph_cursor \<Rightarrow> 'e \<Rightarrow> ('e, graph_outcome) graph_run" where
  "graph_loop g thread 0 cur e = (e, [], Graph_exceeded)"
| "graph_loop g thread (Suc n) cur e =
     (case gu_next cur of
        [] \<Rightarrow>
          (case make_event Ev_completed thread (gu_step cur) None (JObj (gu_values cur)) of
             Inl x \<Rightarrow> (e, [], Graph_raised x)
           | Inr ev \<Rightarrow> (e, [ev], Graph_completed))
      | name # _ \<Rightarrow>
          (case graph_step g thread name cur e of
             (e1, evs, Inl outcome) \<Rightarrow> (e1, evs, outcome)
           | (e1, evs, Inr cur') \<Rightarrow> emitting evs (graph_loop g thread n cur' e1)))"

definition load_snapshot ::
    "'e compiled_graph \<Rightarrow> string \<Rightarrow> string option \<Rightarrow> ('e, graph_snapshot option) port_call" where
  "load_snapshot g thread checkpoint_id e =
     (case checkpoint_id of
        Some cid \<Rightarrow>
          (case digest_required ''graph checkpoint_id'' cid of
             Inl x \<Rightarrow> (e, Inl x)
           | Inr _ \<Rightarrow>
               (case cg_checkpointer g of
                  None \<Rightarrow> (e, Inl (''RuntimeError'', ''checkpoint_id requires a configured graph checkpointer''))
                | Some ck \<Rightarrow>
                    (case gc_load_checkpoint ck cid e of
                       (e', Inl x) \<Rightarrow> (e', Inl x)
                     | (e', Inr None) \<Rightarrow> (e', Inl (''KeyError'', ''graph checkpoint not found: '' @ cid))
                     | (e', Inr (Some s)) \<Rightarrow>
                         if gs_thread s \<noteq> thread
                         then (e', Inl (value_error ''graph checkpoint belongs to another thread''))
                         else (e', Inr (Some s)))))
      | None \<Rightarrow>
          (case cg_checkpointer g of None \<Rightarrow> (e, Inr None) | Some ck \<Rightarrow> gc_load ck thread e))"

definition resume_cursor ::
    "json \<Rightarrow> graph_snapshot option \<Rightarrow> 'e \<Rightarrow> ('e, graph_outcome + graph_cursor) graph_run" where
  "resume_cursor resume loaded e =
     (case loaded of
        None \<Rightarrow> (e, [], Inl (Graph_raised (value_error ''graph initial state is required for a new thread'')))
      | Some s \<Rightarrow>
          if gs_interrupts s \<noteq> [] \<and> resume = JNull then (e, [], Inl (Graph_interrupted s))
          else ok_then (if resume = JNull then Inr (gs_values s)
                        else bind_result (frozen_of resume) (\<lambda>v. Inr (dict_set ''__resume__'' v (gs_values s)))) e
                 (\<lambda>state. (e, [], Inr \<lparr>gu_values = state, gu_next = gs_next s, gu_step = gs_step s,
                                       gu_parent = snapshot_id s\<rparr>)))"

definition initial_cursor ::
    "'e compiled_graph \<Rightarrow> string \<Rightarrow> fields \<Rightarrow> 'e \<Rightarrow> ('e, graph_outcome + graph_cursor) graph_run" where
  "initial_cursor g thread initial e =
     ok_then (frozen_of (JObj initial)) e (\<lambda>_.
     ok_then (make_snapshot thread 0 initial [cg_entry g] None []) e (\<lambda>s.
     call_then (save_graph g s e) (\<lambda>_ e1.
       (e1, [], Inr \<lparr>gu_values = initial, gu_next = [cg_entry g], gu_step = 0,
                     gu_parent = snapshot_id s\<rparr>))))"

definition graph_stream ::
    "'e compiled_graph \<Rightarrow> fields option \<Rightarrow> string \<Rightarrow> int \<Rightarrow> json \<Rightarrow> string option \<Rightarrow> 'e
       \<Rightarrow> ('e, graph_outcome) graph_run" where
  "graph_stream g initial thread max_steps resume checkpoint_id e =
     (if blank thread \<or> max_steps \<le> 0
      then (e, [], Graph_raised (value_error ''graph thread_id and max_steps are invalid''))
      else
        (case load_snapshot g thread checkpoint_id e of
           (e1, Inl x) \<Rightarrow> (e1, [], Graph_raised x)
         | (e1, Inr loaded) \<Rightarrow>
             if initial \<noteq> None \<and> checkpoint_id \<noteq> None
             then (e1, [], Graph_raised
                     (value_error ''graph initial state and checkpoint_id are mutually exclusive''))
             else
               (case (case initial of None \<Rightarrow> resume_cursor resume loaded e1
                      | Some init \<Rightarrow> initial_cursor g thread init e1) of
                  (e2, evs, Inl outcome) \<Rightarrow> (e2, evs, outcome)
                | (e2, evs, Inr cur) \<Rightarrow> emitting evs (graph_loop g thread (nat max_steps) cur e2))))"

text \<open>\<open>invoke\<close>: the payload of the completed event.\<close>

definition graph_invoke ::
    "'e compiled_graph \<Rightarrow> fields option \<Rightarrow> string \<Rightarrow> int \<Rightarrow> json \<Rightarrow> string option \<Rightarrow> 'e
       \<Rightarrow> 'e \<times> (graph_outcome + json)" where
  "graph_invoke g initial thread max_steps resume checkpoint_id e =
     (case graph_stream g initial thread max_steps resume checkpoint_id e of
        (e', evs, Graph_completed) \<Rightarrow>
          (case rev (filter (\<lambda>v. ge_kind v = Ev_completed) evs) of
             [] \<Rightarrow> (e', Inl (Graph_raised (''RuntimeError'', ''graph ended without a completed state'')))
           | v # _ \<Rightarrow> (e', Inr (ge_payload v)))
      | (e', evs, outcome) \<Rightarrow> (e', Inl outcome))"

definition graph_history :: "'e compiled_graph \<Rightarrow> string \<Rightarrow> ('e, graph_snapshot list) port_call" where
  "graph_history g thread e =
     (case cg_checkpointer g of None \<Rightarrow> (e, Inr []) | Some ck \<Rightarrow> gc_history ck thread e)"

subsection \<open>Snapshots\<close>

lemma map_result_frozen:
  "map_result frozen_of js = (if list_all (values_within default_max_depth 0) js then Inr js
     else Inl (''CanonicalEncodingError'', ''frozen JSON exceeds maximum depth 128''))"
  by (induction js) (auto simp: frozen_of_def freeze_json_def)

lemma make_snapshot_Inr_iff:
  "make_snapshot thread step vals nxt parent interrupts = Inr s \<longleftrightarrow>
     s = \<lparr>gs_thread = thread, gs_step = step, gs_values = vals, gs_next = nxt,
          gs_parent = parent, gs_interrupts = interrupts\<rparr> \<and> valid_snapshot s"
  by (auto simp: make_snapshot_def valid_snapshot_def Let_def bind_result_Inr_iff map_result_frozen
      frozen_of_def freeze_json_def text_of_def canonical_text_def digest_required_def
      split: option.splits if_splits)

lemma make_event_Inr:
  "make_event kind thread step node payload = Inr v \<Longrightarrow>
     v = \<lparr>ge_kind = kind, ge_thread = thread, ge_step = step, ge_node = node, ge_payload = payload\<rparr>"
  by (auto simp: make_event_def Let_def bind_result_Inr_iff split: if_splits)

lemma emitting_simps [simp]:
  "emitting evs (e, evs', x) = (e, evs @ evs', x)" "emitting [] r = r"
  "emitting evs (emitting evs' r) = emitting (evs @ evs') r"
  by (simp_all add: emitting_def split: prod.splits)

lemma ok_then_cases:
  "ok_then r e k = (e', evs, x) \<longleftrightarrow>
     (\<exists>y. r = Inl y \<and> e' = e \<and> evs = [] \<and> x = Inl (Graph_raised y)) \<or> (\<exists>a. r = Inr a \<and> k a = (e', evs, x))"
  by (cases r) (auto simp: ok_then_def)

lemma call_then_cases:
  "call_then r k = (e', evs, x) \<longleftrightarrow>
     (\<exists>y. r = (e', Inl y) \<and> evs = [] \<and> x = Inl (Graph_raised y)) \<or> (\<exists>a e1. r = (e1, Inr a) \<and> k a e1 = (e', evs, x))"
  by (cases r; cases "snd r") (auto simp: call_then_def ok_then_def)

lemma emitting_cases: "emitting evs r = (e', evs', x) \<longleftrightarrow> (\<exists>l. r = (e', l, x) \<and> evs' = evs @ l)"
  by (cases r) auto

lemmas run_cases = ok_then_cases call_then_cases emitting_cases

text \<open>A step that goes on has saved the snapshot of its cursor as its last effect.\<close>

lemma graph_step_Inr:
  assumes "graph_step g thread name cur e = (e', evs, Inr cur')"
  shows "\<exists>s e1. save_graph g s e1 = (e', Inr ()) \<and> valid_snapshot s
    \<and> s = \<lparr>gs_thread = thread, gs_step = gu_step cur + 1, gs_values = gu_values cur', gs_next = gu_next cur',
          gs_parent = Some (gu_parent cur), gs_interrupts = []\<rparr>
    \<and> gu_step cur' = gu_step cur + 1 \<and> gu_parent cur' = snapshot_id s
    \<and> map ge_kind evs = [Ev_node, Ev_checkpoint]"
  using assms
  by (auto simp: graph_step_def route_step_def interrupt_step_def run_cases make_snapshot_Inr_iff
      split: if_splits prod.splits dest!: make_event_Inr)

lemma graph_step_Inl:
  assumes "graph_step g thread name cur e = (e', evs, Inl out)"
  shows "(case out of
      Graph_completed \<Rightarrow> False | Graph_exceeded \<Rightarrow> False
    | Graph_interrupted s \<Rightarrow> map ge_kind evs = [Ev_node, Ev_interrupt] \<and> valid_snapshot s
        \<and> (\<exists>e1. save_graph g s e1 = (e', Inr ())) \<and> gs_thread s = thread \<and> gs_next s = [name]
        \<and> gs_interrupts s \<noteq> [] \<and> gs_parent s = Some (gu_parent cur) \<and> gs_step s = gu_step cur + 1
    | Graph_raised x \<Rightarrow> map ge_kind evs \<in> {[], [Ev_node]})"
  using assms
  by (auto simp: graph_step_def route_step_def interrupt_step_def run_cases make_snapshot_Inr_iff
      split: if_splits prod.splits dest!: make_event_Inr)

subsection \<open>Runs\<close>

definition node_events :: "graph_event list \<Rightarrow> graph_event list" where
  "node_events evs = filter (\<lambda>v. ge_kind v = Ev_node) evs"

definition completed_events :: "graph_event list \<Rightarrow> graph_event list" where
  "completed_events evs = filter (\<lambda>v. ge_kind v = Ev_completed) evs"

lemma filter_kind: "filter (\<lambda>v. ge_kind v = k) evs = [] \<longleftrightarrow> k \<notin> set (map ge_kind evs)"
  by (induction evs) auto

lemma length_filter_kind: "length (filter (\<lambda>v. ge_kind v = k) evs) = length (filter (\<lambda>x. x = k) (map ge_kind evs))"
  by (induction evs) auto

lemma graph_step_events:
  assumes "graph_step g thread name cur e = (e', evs, x)"
  shows "length (node_events evs) \<le> 1 \<and> completed_events evs = []"
proof (cases x)
  case (Inl out)
  from graph_step_Inl [OF assms [unfolded Inl]] show ?thesis
    unfolding node_events_def completed_events_def filter_kind length_filter_kind
    by (cases out) auto
next
  case (Inr cur')
  from graph_step_Inr [OF assms [unfolded Inr]] show ?thesis
    unfolding node_events_def completed_events_def filter_kind length_filter_kind by auto
qed

lemma graph_loop_events:
  assumes "graph_loop g thread n cur e = (e', evs, out)"
  shows "length (node_events evs) \<le> n
    \<and> (if out = Graph_completed then \<exists>v pre. evs = pre @ [v] \<and> completed_events pre = [] \<and> ge_kind v = Ev_completed
       else completed_events evs = [])"
  using assms
proof (induction g thread n cur e arbitrary: e' evs out rule: graph_loop.induct)
  case (2 g thread n cur e)
  show ?case
  proof (cases "gu_next cur")
    case Nil
    with 2(2) show ?thesis
      by (auto simp: node_events_def completed_events_def split: sum.splits dest!: make_event_Inr)
  next
    case (Cons name names)
    obtain e1 evs1 x where st: "graph_step g thread name cur e = (e1, evs1, x)"
      by (metis prod_cases3)
    note step_events = graph_step_events [OF st]
    show ?thesis
    proof (cases x)
      case (Inl o1)
      with st Cons 2(2) have "evs = evs1" "out = o1" by auto
      moreover have "o1 \<noteq> Graph_completed" using graph_step_Inl [OF st [unfolded Inl]] by auto
      ultimately show ?thesis using step_events by auto
    next
      case (Inr cur')
      obtain e2 evs2 o2 where l: "graph_loop g thread n cur' e1 = (e2, evs2, o2)" by (metis prod_cases3)
      with 2(2) Cons st Inr have eq: "evs = evs1 @ evs2" "out = o2" by auto
      from 2(1) [OF Cons st [symmetric] refl Inr l] step_events eq
      show ?thesis
        by (auto simp: node_events_def completed_events_def)
    qed
  qed
qed (auto simp: node_events_def completed_events_def)

text \<open>
  A counter of node calls kept in the environment: each node adds one to it, routers and the
  checkpointer leave it alone.
\<close>

definition counts_nodes :: "'e compiled_graph \<Rightarrow> ('e \<Rightarrow> nat) \<Rightarrow> bool" where
  "counts_nodes g calls \<longleftrightarrow>
     (\<forall>name f st e. map_of (cg_nodes g) name = Some f \<longrightarrow> calls (fst (f st e)) = calls e + 1)
     \<and> (\<forall>name f st e. map_of (cg_routers g) name = Some f \<longrightarrow> calls (fst (f st e)) = calls e)
     \<and> (\<forall>ck e. cg_checkpointer g = Some ck \<longrightarrow>
          (\<forall>s. calls (fst (gc_save ck s e)) = calls e) \<and> (\<forall>t. calls (fst (gc_load ck t e)) = calls e)
          \<and> (\<forall>cid. calls (fst (gc_load_checkpoint ck cid e)) = calls e))"

lemma counted_calls:
  assumes "counts_nodes g calls"
  shows "call_graph_node g name st e = (e', x) \<Longrightarrow> calls e \<le> calls e' \<and> calls e' \<le> calls e + 1
      \<and> (\<forall>y. x = Inr y \<longrightarrow> calls e' = calls e + 1)"
    and "choose_route g name res st e = (e', y) \<Longrightarrow> calls e' = calls e"
    and "save_graph g s e = (e', z) \<Longrightarrow> calls e' = calls e"
    and "load_snapshot g thread cid e = (e', l) \<Longrightarrow> calls e' = calls e"
proof -
  have node: "map_of (cg_nodes g) name = Some f \<Longrightarrow> f st e = (e', v) \<Longrightarrow> calls e' = calls e + 1"
    and router: "map_of (cg_routers g) name = Some f \<Longrightarrow> f st e = (e', v) \<Longrightarrow> calls e' = calls e"
    and save: "cg_checkpointer g = Some ck \<Longrightarrow> gc_save ck s e = (e', u) \<Longrightarrow> calls e' = calls e"
    and load: "cg_checkpointer g = Some ck \<Longrightarrow> gc_load ck thread e = (e', w) \<Longrightarrow> calls e' = calls e"
    and load_cp: "cg_checkpointer g = Some ck \<Longrightarrow> gc_load_checkpoint ck k e = (e', w) \<Longrightarrow> calls e' = calls e"
    for f v ck u w k
    using assms unfolding counts_nodes_def by (metis fst_conv)+
  show "call_graph_node g name st e = (e', x) \<Longrightarrow> calls e \<le> calls e' \<and> calls e' \<le> calls e + 1
      \<and> (\<forall>y. x = Inr y \<longrightarrow> calls e' = calls e + 1)"
    using node by (auto simp: call_graph_node_def split: option.splits)
  show "choose_route g name res st e = (e', y) \<Longrightarrow> calls e' = calls e"
    using router by (auto simp: choose_route_def split: option.splits prod.splits)
  show "save_graph g s e = (e', z) \<Longrightarrow> calls e' = calls e"
    using save by (auto simp: save_graph_def split: option.splits)
  show "load_snapshot g thread cid e = (e', l) \<Longrightarrow> calls e' = calls e"
    using load load_cp
    by (auto simp: load_snapshot_def split: option.splits sum.splits prod.splits if_splits)
qed

lemma graph_step_calls:
  assumes "graph_step g thread name cur e = (e', evs, x)" "counts_nodes g calls"
  shows "calls e + length (node_events evs) \<le> calls e' \<and> calls e' \<le> calls e + 1
    \<and> (\<forall>c. x = Inr c \<longrightarrow> calls e' = calls e + 1 \<and> length (node_events evs) = 1)"
proof -
  note counted = counted_calls [OF assms(2)]
  obtain e1 y where call: "call_graph_node g name (gu_values cur) e = (e1, y)" by fastforce
  have rest: "calls e' = calls e1"
  proof -
    have "calls e2 = calls e1" if "interrupt_step g thread name cur st v e1 = (e2, evs2, x2)" for st v e2 evs2 x2
      using that counted(3) by (auto simp: interrupt_step_def run_cases)
    moreover have "calls e2 = calls e1" if "route_step g thread name cur res st e1 = (e2, evs2, x2)" for res st e2 evs2 x2
      using that counted(2,3) by (fastforce simp: route_step_def run_cases split: prod.splits)
    ultimately show ?thesis
      using assms(1) call by (auto simp: graph_step_def run_cases split: if_splits)
  qed
  have "y = Inl z \<Longrightarrow> evs = [] \<and> x = Inl (Graph_raised z)" for z
    using assms(1) call by (auto simp: graph_step_def run_cases)
  moreover have "length (node_events evs) = 1" if "x = Inr c" for c
    using graph_step_Inr [OF assms(1) [unfolded that]]
    unfolding node_events_def length_filter_kind by auto
  ultimately show ?thesis
    using counted(1) [OF call] rest graph_step_events [OF assms(1)]
    by (cases y) (auto simp: node_events_def)
qed

lemma graph_loop_calls:
  assumes "graph_loop g thread n cur e = (e', evs, out)" "counts_nodes g calls"
  shows "calls e + length (node_events evs) \<le> calls e' \<and> calls e' \<le> calls e + n
    \<and> (out = Graph_exceeded \<longrightarrow> calls e' = calls e + n \<and> length (node_events evs) = n)
    \<and> (out = Graph_completed \<longrightarrow> calls e' < calls e + n \<and> calls e' = calls e + length (node_events evs))"
  using assms(1)
proof (induction n arbitrary: cur e evs)
  case 0
  then show ?case by (auto simp: node_events_def)
next
  case (Suc n)
  show ?case
  proof (cases "gu_next cur")
    case Nil
    with Suc.prems show ?thesis
      by (auto simp: node_events_def split: sum.splits dest!: make_event_Inr)
  next
    case (Cons name names)
    obtain e1 evs1 x where st: "graph_step g thread name cur e = (e1, evs1, x)" by (metis prod_cases3)
    note step = graph_step_calls [OF st assms(2)]
    show ?thesis
    proof (cases x)
      case (Inl o1)
      with st Cons Suc.prems have "evs = evs1" "out = o1" "e' = e1" by auto
      with step graph_step_Inl [OF st [unfolded Inl]] show ?thesis by auto
    next
      case (Inr cur')
      then obtain evs2 where l: "graph_loop g thread n cur' e1 = (e', evs2, out)" "evs = evs1 @ evs2"
        using Suc.prems Cons st by (auto simp: emitting_cases)
      from Suc.IH [OF l(1)] step Inr l(2) show ?thesis by (auto simp: node_events_def)
    qed
  qed
qed

text \<open>A stream fails before its loop, calling no node, or is its loop.\<close>

lemma stream_starts:
  assumes "graph_stream g initial thread max_steps resume checkpoint_id e = (e', evs, out)" "counts_nodes g calls"
  shows "(\<exists>cur e0. calls e0 = calls e \<and> graph_loop g thread (nat max_steps) cur e0 = (e', evs, out))
    \<or> out \<noteq> Graph_completed \<and> out \<noteq> Graph_exceeded \<and> evs = [] \<and> calls e' = calls e"
proof (cases "blank thread \<or> max_steps \<le> 0")
  case True
  with assms(1) show ?thesis by (auto simp: graph_stream_def)
next
  case False
  obtain e1 l where load: "load_snapshot g thread checkpoint_id e = (e1, l)" by fastforce
  note e1 = counted_calls(4) [OF assms(2) load]
  show ?thesis
  proof (cases "\<exists>loaded. l = Inr loaded \<and> (initial = None \<or> checkpoint_id = None)")
    case False
    with assms(1) load e1 \<open>\<not> (blank thread \<or> max_steps \<le> 0)\<close> show ?thesis
      by (cases l) (auto simp: graph_stream_def)
  next
    case True
    then obtain loaded where l: "l = Inr loaded" "initial = None \<or> checkpoint_id = None" by blast
    let ?start = "case initial of None \<Rightarrow> resume_cursor resume loaded e1 | Some init \<Rightarrow> initial_cursor g thread init e1"
    obtain e2 evs2 x where start: "?start = (e2, evs2, x)" by (metis prod_cases3)
    have "calls e2 = calls e1 \<and> evs2 = [] \<and> x \<noteq> Inl Graph_completed \<and> x \<noteq> Inl Graph_exceeded"
    proof (cases initial)
      case None
      with start show ?thesis
        by (auto simp: resume_cursor_def run_cases split: option.splits if_splits)
    next
      case (Some init)
      with start counted_calls(3) [OF assms(2)] show ?thesis by (auto simp: initial_cursor_def run_cases)
    qed
    with assms(1) load l start e1 \<open>\<not> (blank thread \<or> max_steps \<le> 0)\<close> show ?thesis
      by (cases x) (auto simp: graph_stream_def)
  qed
qed

text \<open>The snapshot a cursor continues from, and the snapshot a step from \<open>cur\<close> to \<open>cur'\<close> takes.\<close>

definition cursor_of :: "graph_snapshot \<Rightarrow> graph_cursor" where
  "cursor_of s = \<lparr>gu_values = gs_values s, gu_next = gs_next s, gu_step = gs_step s, gu_parent = snapshot_id s\<rparr>"

definition step_snapshot :: "string \<Rightarrow> graph_cursor \<Rightarrow> graph_cursor \<Rightarrow> graph_snapshot" where
  "step_snapshot thread cur cur' = \<lparr>gs_thread = thread, gs_step = gu_step cur + 1, gs_values = gu_values cur',
     gs_next = gu_next cur', gs_parent = Some (gu_parent cur), gs_interrupts = []\<rparr>"

text \<open>The snapshots a run takes, in order, up to its end or its first interrupt.\<close>

fun loop_snapshots :: "'e compiled_graph \<Rightarrow> string \<Rightarrow> nat \<Rightarrow> graph_cursor \<Rightarrow> 'e \<Rightarrow> graph_snapshot list" where
  "loop_snapshots g thread 0 cur e = []"
| "loop_snapshots g thread (Suc n) cur e =
     (case gu_next cur of
        [] \<Rightarrow> []
      | name # _ \<Rightarrow>
          (case graph_step g thread name cur e of
             (e1, _, Inr cur') \<Rightarrow> step_snapshot thread cur cur' # loop_snapshots g thread n cur' e1
           | _ \<Rightarrow> []))"

definition run_snapshots :: "'e compiled_graph \<Rightarrow> fields \<Rightarrow> string \<Rightarrow> int \<Rightarrow> 'e \<Rightarrow> graph_snapshot list" where
  "run_snapshots g init thread max_steps e =
     (case load_snapshot g thread None e of
        (e1, Inr _) \<Rightarrow>
          (case initial_cursor g thread init e1 of
             (e2, _, Inr cur) \<Rightarrow>
               \<lparr>gs_thread = thread, gs_step = 0, gs_values = init, gs_next = [cg_entry g], gs_parent = None,
                gs_interrupts = []\<rparr> # loop_snapshots g thread (nat max_steps) cur e2
           | _ \<Rightarrow> [])
      | _ \<Rightarrow> [])"

text \<open>
  Two consecutive snapshots of the list, hence of different steps, have the same identity: the
  SHA-256 digests of their documents collide.
\<close>

fun identity_repeats :: "graph_snapshot list \<Rightarrow> bool" where
  "identity_repeats (a # b # ss) \<longleftrightarrow> snapshot_id b = snapshot_id a \<or> identity_repeats (b # ss)"
| "identity_repeats _ \<longleftrightarrow> False"

text \<open>Every node and router keeps what \<open>P\<close> says of the environment.\<close>

definition node_keeps :: "'e compiled_graph \<Rightarrow> ('e \<Rightarrow> bool) \<Rightarrow> bool" where
  "node_keeps g P \<longleftrightarrow>
     (\<forall>name f st e. map_of (cg_nodes g) name = Some f \<or> map_of (cg_routers g) name = Some f \<longrightarrow>
        P e \<longrightarrow> P (fst (f st e)))"

lemma node_keeps_calls:
  assumes "node_keeps g P" "P e"
  shows "call_graph_node g name st e = (e', x) \<Longrightarrow> P e'"
    and "choose_route g name res st e = (e', y) \<Longrightarrow> P e'"
proof -
  have keptN: "map_of (cg_nodes g) name = Some f \<Longrightarrow> P (fst (f st e))"
    and keptR: "map_of (cg_routers g) name = Some f \<Longrightarrow> P (fst (f st e))" for f
    using assms unfolding node_keeps_def by blast+
  show "P e'" if call: "call_graph_node g name st e = (e', x)"
  proof (cases "map_of (cg_nodes g) name")
    case (Some f)
    with call keptN [OF Some] show ?thesis by (simp add: call_graph_node_def)
  qed (use call assms in \<open>simp add: call_graph_node_def\<close>)
  show "P e'" if call: "choose_route g name res st e = (e', y)"
  proof (cases "map_of (cg_routers g) name")
    case (Some f)
    with call keptR [OF Some] show ?thesis
      by (cases "f st e") (simp add: choose_route_def)
  qed (use call assms in \<open>simp add: choose_route_def\<close>)
qed

lemma graph_step_keeps:
  assumes "graph_step g thread name cur e = (e', evs, Inr cur')" "node_keeps g P" "P e"
  obtains e2 where "P e2" "save_graph g (step_snapshot thread cur cur') e2 = (e', Inr ())"
    "valid_snapshot (step_snapshot thread cur cur')" "cur' = cursor_of (step_snapshot thread cur cur')"
proof -
  obtain res e1 evs1 state ev0 where step: "call_graph_node g name (gu_values cur) e = (e1, Inr res)"
    "route_step g thread name cur res state e1 = (e', evs1, Inr cur')" "evs = ev0 # evs1"
    using assms(1) by (auto simp: graph_step_def interrupt_step_def run_cases split: if_splits)
  have "P e1" by (rule node_keeps_calls(1) [OF assms(2,3) step(1)])
  obtain route e2 targets nxt state' s ev where st: "choose_route g name res state e1 = (e2, Inr route)"
    "make_snapshot thread (gu_step cur + 1) state' nxt (Some (gu_parent cur)) [] = Inr s"
    "save_graph g s e2 = (e', Inr ())"
    "make_event Ev_checkpoint thread (gu_step cur + 1) (Some name) (JObj state') = Inr ev" "evs1 = [ev]"
    "cur' = \<lparr>gu_values = state', gu_next = nxt, gu_step = gu_step cur + 1, gu_parent = snapshot_id s\<rparr>"
    using step(2) by (auto simp: route_step_def run_cases split: prod.splits)
  have "P e2" by (rule node_keeps_calls(2) [OF assms(2) \<open>P e1\<close> st(1)])
  moreover have "s = step_snapshot thread cur cur'" "valid_snapshot s"
    using st(2,6) by (auto simp: make_snapshot_Inr_iff step_snapshot_def)
  moreover from this(1) st(6) have "cur' = cursor_of s" by (simp add: cursor_of_def step_snapshot_def)
  ultimately show ?thesis using st(3) that [of e2] by simp
qed

text \<open>
  The contract of a checkpointer that resuming relies on. \<open>current thread s e\<close>: \<open>s\<close> is what loading
  the thread returns. A snapshot that was saved becomes current, unless its identity is that of
  the current one.
\<close>

locale durable_checkpointer =
  fixes ck :: "'e graph_checkpointer"
    and current :: "string \<Rightarrow> graph_snapshot \<Rightarrow> 'e \<Rightarrow> bool"
    and fresh :: "string \<Rightarrow> 'e \<Rightarrow> bool"
  assumes load_current: "\<not> blank thread \<Longrightarrow> current thread s e \<Longrightarrow> gc_load ck thread e = (e, Inr (Some s))"
    and load_fresh: "\<not> blank thread \<Longrightarrow> fresh thread e \<Longrightarrow> gc_load ck thread e = (e, Inr None)"
    and save_first: "fresh thread e \<Longrightarrow> valid_snapshot s \<Longrightarrow> gs_thread s = thread \<Longrightarrow>
      gc_save ck s e = (e', Inr ()) \<Longrightarrow> current thread s e'"
    and save_next: "current thread p e \<Longrightarrow> valid_snapshot s \<Longrightarrow> gs_thread s = thread \<Longrightarrow>
      gc_save ck s e = (e', Inr ()) \<Longrightarrow> current thread s e' \<or> snapshot_id s = snapshot_id p"
begin

lemma graph_step_current:
  assumes "graph_step g thread name (cursor_of p) e = (e', evs, Inr cur')" "cg_checkpointer g = Some ck"
    and keep: "\<And>s. node_keeps g (current thread s)"
    and "current thread p e"
  defines "s \<equiv> step_snapshot thread (cursor_of p) cur'"
  shows "cur' = cursor_of s \<and> gs_interrupts s = [] \<and> (current thread s e' \<or> snapshot_id s = snapshot_id p)"
proof -
  obtain e2 where s: "current thread p e2" "save_graph g s e2 = (e', Inr ())" "valid_snapshot s" "cur' = cursor_of s"
    using graph_step_keeps [OF assms(1) keep assms(4)] unfolding s_def .
  have fields: "gs_thread s = thread" "gs_interrupts s = []" by (simp_all add: s_def step_snapshot_def)
  have "gc_save ck s e2 = (e', Inr ())" using s(2) assms(2) by (simp add: save_graph_def)
  from save_next [OF s(1,3) fields(1) this] s(4) fields(2) show ?thesis by blast
qed

text \<open>A run that exceeds its steps, continued, is a longer run.\<close>

lemma graph_loop_exceeded:
  assumes "graph_loop g thread n (cursor_of p) e = (e1, evs1, Graph_exceeded)" "cg_checkpointer g = Some ck"
    and keep: "\<And>s. node_keeps g (current thread s)"
    and "current thread p e" "gs_interrupts p = []"
    and "\<not> identity_repeats (p # loop_snapshots g thread n (cursor_of p) e)"
  shows "\<exists>s. (\<forall>m. graph_loop g thread (n + m) (cursor_of p) e = emitting evs1 (graph_loop g thread m (cursor_of s) e1))
      \<and> current thread s e1 \<and> gs_interrupts s = []"
  using assms(1,4,5,6)
proof (induction n arbitrary: p e evs1)
  case (Suc n)
  obtain name names where nn: "gu_next (cursor_of p) = name # names"
    using Suc.prems(1) by (cases "gu_next (cursor_of p)") (auto split: sum.splits)
  obtain e2 evs2 x where st: "graph_step g thread name (cursor_of p) e = (e2, evs2, x)" by (metis prod_cases3)
  have "x \<noteq> Inl Graph_exceeded"
    using graph_step_Inl [of g thread name "cursor_of p" e e2 evs2 Graph_exceeded] st by auto
  then obtain cur2 where x: "x = Inr cur2" using Suc.prems(1) nn st by (cases x) auto
  obtain evs3 where l: "graph_loop g thread n cur2 e2 = (e1, evs3, Graph_exceeded)" "evs1 = evs2 @ evs3"
    using Suc.prems(1) nn st x by (auto simp: run_cases)
  let ?s = "step_snapshot thread (cursor_of p) cur2"
  have fresh: "snapshot_id ?s \<noteq> snapshot_id p" "\<not> identity_repeats (?s # loop_snapshots g thread n cur2 e2)"
    using Suc.prems(4) nn st x by simp_all
  with graph_step_current [OF st [unfolded x] assms(2) keep Suc.prems(2)]
  have s: "cur2 = cursor_of ?s" "gs_interrupts ?s = []" "current thread ?s e2" by simp_all
  from Suc.IH [of ?s e2 evs3] l(1) fresh(2) s show ?case
    using nn st x l(2) by fastforce
qed auto

lemma resume_exceeded:
  assumes "graph_stream g (Some init) thread n resume None e = (e1, evs1, Graph_exceeded)"
    "cg_checkpointer g = Some ck" "0 < m" "fresh thread e"
    and keep: "\<And>s. node_keeps g (current thread s)"
    and unique: "\<not> identity_repeats (run_snapshots g init thread n e)"
  shows "graph_stream g (Some init) thread (n + m) resume None e
      = emitting evs1 (graph_stream g None thread m JNull None e1)"
proof -
  have start: "\<not> blank thread" "0 < n" using assms(1) by (auto simp: graph_stream_def split: if_splits)
  have load: "load_snapshot g thread None e = (e, Inr None)"
    using assms(2) load_fresh [OF start(1) assms(4)] by (simp add: load_snapshot_def)
  obtain e3 evs3 x where ic: "initial_cursor g thread init e = (e3, evs3, x)" by (metis prod_cases3)
  have "x \<noteq> Inl Graph_exceeded" using ic by (auto simp: initial_cursor_def run_cases)
  then obtain cur where x: "x = Inr cur"
    using assms(1) start load ic by (cases x) (auto simp: graph_stream_def)
  define s where "s = \<lparr>gs_thread = thread, gs_step = 0, gs_values = init, gs_next = [cg_entry g],
      gs_parent = None, gs_interrupts = []\<rparr>"
  have s: "evs3 = []" "cur = cursor_of s" "valid_snapshot s" "gs_thread s = thread"
    "gc_save ck s e = (e3, Inr ())" "gs_interrupts s = []"
    using ic x assms(2)
    by (auto simp: initial_cursor_def run_cases make_snapshot_Inr_iff save_graph_def cursor_of_def s_def)
  have cur: "current thread s e3" by (rule save_first [OF assms(4) s(3-5)])
  have stream: "graph_stream g (Some init) thread k resume None e = graph_loop g thread (nat k) (cursor_of s) e3"
    if "0 < k" for k
    using that start load ic x s by (simp add: graph_stream_def)
  have "\<not> identity_repeats (s # loop_snapshots g thread (nat n) (cursor_of s) e3)"
    using unique load ic x s(2) by (simp add: run_snapshots_def s_def)
  from graph_loop_exceeded [OF assms(1) [unfolded stream [OF start(2)]] assms(2) keep cur s(6) this]
  obtain s' where s': "\<And>m. graph_loop g thread (nat n + m) (cursor_of s) e3
        = emitting evs1 (graph_loop g thread m (cursor_of s') e1)"
    "current thread s' e1" "gs_interrupts s' = []" by blast
  have "graph_stream g None thread m JNull None e1 = graph_loop g thread (nat m) (cursor_of s') e1"
    using assms(2,3) start s'(3) load_current [OF start(1) s'(2)]
    by (simp add: graph_stream_def load_snapshot_def resume_cursor_def ok_then_def cursor_of_def)
  moreover have "nat (n + m) = nat n + nat m" using start assms(3) by simp
  ultimately show ?thesis using s'(1) [of "nat m"] stream [of "n + m"] start assms(3) by simp
qed

end

subsection \<open>Building graphs\<close>

text \<open>The graphs the builder's methods can make.\<close>

inductive graph_built :: "'e state_graph \<Rightarrow> bool" where
  built_new: "graph_built (new_graph reducers)"
| built_node: "graph_built g \<Longrightarrow> add_node name node g = Inr g' \<Longrightarrow> graph_built g'"
| built_entry: "graph_built g \<Longrightarrow> graph_built (set_entry_point name g)"
| built_edge: "graph_built g \<Longrightarrow> graph_built (add_edge source target g)"
| built_router: "graph_built g \<Longrightarrow> add_conditional_edges source router g = Inr g' \<Longrightarrow> graph_built g'"

definition builder_ok :: "'e state_graph \<Rightarrow> bool" where
  "builder_ok g \<longleftrightarrow>
     distinct (map fst (sg_nodes g))
     \<and> (\<forall>n \<in> set (map fst (sg_nodes g)). map_of (sg_edges g) n \<noteq> None)
     \<and> set (map fst (sg_routers g)) \<subseteq> set (map fst (sg_nodes g))"

lemma graph_built_ok: "graph_built g \<Longrightarrow> builder_ok g"
proof (induction rule: graph_built.induct)
  case (built_new reducers)
  show ?case by (simp add: builder_ok_def new_graph_def)
next
  case (built_node g name node g')
  then have g': "g' = g\<lparr>sg_nodes := dict_set name node (sg_nodes g), sg_edges := set_default name [] (sg_edges g)\<rparr>"
    by (simp add: add_node_def split: if_splits)
  from built_node.IH show ?case
    unfolding g' builder_ok_def
    by (auto simp: distinct_dict_set keys_dict_set map_of_set_default simp del: set_map)
next
  case (built_entry g name)
  then show ?case by (simp add: builder_ok_def set_entry_point_def)
next
  case (built_edge g source target)
  then show ?case by (auto simp: builder_ok_def add_edge_def map_of_dict_set simp del: set_map)
next
  case (built_router g source router g')
  then have "source \<in> set (map fst (sg_nodes g))"
    "g' = g\<lparr>sg_routers := dict_set source router (sg_routers g)\<rparr>"
    using map_of_in_keys [of "sg_nodes g" source] by (auto simp: add_conditional_edges_def split: if_splits)
  with built_router.IH show ?case
    by (auto simp: builder_ok_def keys_dict_set simp del: set_map)
qed

subsection \<open>Properties\<close>

text \<open>
  A graph that compiles is closed. Whatever calls of the builder made it, its entry point and
  every router belong to a declared node, node names are distinct, and every declared node has an
  edge list all of whose targets are declared nodes, so looking up the edges of a node that runs
  never fails.
\<close>

theorem compiled_graph_closed:
  assumes "graph_built b" "compile_graph checkpointer b = Inr g"
  shows "cg_entry g \<in> set (map fst (cg_nodes g)) \<and> distinct (map fst (cg_nodes g))
    \<and> set (map fst (cg_routers g)) \<subseteq> set (map fst (cg_nodes g))
    \<and> (\<forall>n. n \<in> set (map fst (cg_nodes g)) \<longleftrightarrow>
          (\<exists>ts. node_edges g n = Inr (T_names ts) \<and> set ts \<subseteq> set (map fst (cg_nodes g))))"
proof -
  let ?N = "set (map fst (sg_nodes b))"
  from assms(2) obtain entry where
    c: "sg_entry b = Some entry" "map_of (sg_nodes b) entry \<noteq> None"
    and edges: "\<forall>(source, targets) \<in> set (sg_edges b). source \<in> ?N \<and> (\<forall>t \<in> set targets. t \<in> ?N)"
    and g: "g = \<lparr>cg_nodes = sg_nodes b, cg_edges = sg_edges b, cg_routers = sg_routers b,
                 cg_reducers = sg_reducers b, cg_entry = entry, cg_checkpointer = checkpointer\<rparr>"
    by (auto simp: compile_graph_def list_all_iff split: option.splits if_splits)
  have "n \<in> ?N \<longleftrightarrow> (\<exists>ts. node_edges g n = Inr (T_names ts) \<and> set ts \<subseteq> ?N)" for n
  proof
    assume "n \<in> ?N"
    then obtain ts where "map_of (sg_edges b) n = Some ts"
      using graph_built_ok [OF assms(1)] unfolding builder_ok_def by blast
    with edges map_of_SomeD [of "sg_edges b" n ts]
    show "\<exists>ts. node_edges g n = Inr (T_names ts) \<and> set ts \<subseteq> ?N"
      by (auto simp: node_edges_def g)
  next
    assume "\<exists>ts. node_edges g n = Inr (T_names ts) \<and> set ts \<subseteq> ?N"
    then obtain ts where "map_of (sg_edges b) n = Some ts"
      by (auto simp: node_edges_def g split: option.splits)
    with edges map_of_SomeD [of "sg_edges b" n ts] show "n \<in> ?N" by auto
  qed
  with c map_of_in_keys [of "sg_nodes b" entry] graph_built_ok [OF assms(1)] show ?thesis
    by (simp add: g builder_ok_def)
qed

definition demo_builder :: "nat state_graph" where
  "demo_builder = set_entry_point ''a'' (add_edge ''a'' ''a'' \<lparr>sg_nodes = [(''a'', \<lambda>st e. (e + 1, Inr (G_mapping [(''x'', JInt 1)])))],
     sg_edges = [(''a'', [])], sg_routers = [], sg_reducers = [], sg_entry = None\<rparr>)"

lemma demo_builder_built: "graph_built demo_builder"
proof -
  have "\<not> blank ''a''" by code_simp
  then have "add_node ''a'' (\<lambda>st e. (e + 1, Inr (G_mapping [(''x'', JInt 1)]))) (new_graph [])
      = Inr \<lparr>sg_nodes = [(''a'', \<lambda>st e. (e + 1 :: nat, Inr (G_mapping [(''x'', JInt 1)])))],
             sg_edges = [(''a'', [])], sg_routers = [], sg_reducers = [], sg_entry = None\<rparr>"
    by (simp add: add_node_def new_graph_def set_default_def)
  then show ?thesis
    unfolding demo_builder_def by (intro built_entry built_edge) (rule built_node [OF built_new])
qed

theorem compiled_graph_closed_witness:
  "\<exists>g. compile_graph None demo_builder = Inr g \<and> cg_entry g \<in> set (map fst (cg_nodes g))"
proof -
  obtain g where g: "compile_graph None demo_builder = Inr g"
    by (simp add: compile_graph_def demo_builder_def set_entry_point_def add_edge_def)
  from compiled_graph_closed [OF demo_builder_built g] g show ?thesis by blast
qed

text \<open>
  C19: A run calls at most \<open>max_steps\<close> nodes: any counter in the environment that every node raises by
  one, and the routers and the checkpointer leave alone, has grown by no more than that, and by no
  less than the number of node events. It has grown by exactly \<open>max_steps\<close> when the run ends as
  exceeded, and by fewer when it completes. A completed event is yielded exactly when the run completes, as
  its only and last one; \<open>invoke\<close> then returns that event's state and otherwise raises how the run
  ended. It never ends without one or the other.
\<close>

theorem graph_stream_bounded:
  assumes "counts_nodes g calls"
  shows "case graph_stream g initial thread max_steps resume checkpoint_id e of
     (e', evs, out) \<Rightarrow>
       calls e' \<le> calls e + nat max_steps \<and> calls e + length (node_events evs) \<le> calls e'
       \<and> (out = Graph_exceeded \<longrightarrow> calls e' = calls e + nat max_steps)
       \<and> (if out = Graph_completed
          then calls e' < calls e + nat max_steps
             \<and> (\<exists>v pre. evs = pre @ [v] \<and> completed_events pre = [] \<and> ge_kind v = Ev_completed
               \<and> graph_invoke g initial thread max_steps resume checkpoint_id e = (e', Inr (ge_payload v)))
          else completed_events evs = []
             \<and> graph_invoke g initial thread max_steps resume checkpoint_id e = (e', Inl out))"
proof -
  obtain e' evs out where r: "graph_stream g initial thread max_steps resume checkpoint_id e = (e', evs, out)"
    by (metis prod_cases3)
  have events: "calls e' \<le> calls e + nat max_steps \<and> calls e + length (node_events evs) \<le> calls e'
      \<and> (out = Graph_exceeded \<longrightarrow> calls e' = calls e + nat max_steps)
      \<and> (if out = Graph_completed
         then calls e' < calls e + nat max_steps
           \<and> (\<exists>v pre. evs = pre @ [v] \<and> completed_events pre = [] \<and> ge_kind v = Ev_completed)
         else completed_events evs = [])"
  proof (cases "\<exists>cur e0. calls e0 = calls e \<and> graph_loop g thread (nat max_steps) cur e0 = (e', evs, out)")
    case True
    then obtain cur e0 where "calls e0 = calls e" and loop: "graph_loop g thread (nat max_steps) cur e0 = (e', evs, out)"
      by blast
    with graph_loop_events [OF loop] graph_loop_calls [OF loop assms] show ?thesis by auto
  next
    case False
    with stream_starts [OF r assms] have "out \<noteq> Graph_completed \<and> out \<noteq> Graph_exceeded \<and> evs = [] \<and> calls e' = calls e"
      by blast
    then show ?thesis by (simp add: node_events_def completed_events_def)
  qed
  then show ?thesis
    by (auto simp: r graph_invoke_def completed_events_def split: graph_outcome.splits)
qed

theorem graph_stream_bounded_witness:
  "\<exists>g e' evs. compile_graph None demo_builder = Inr g
    \<and> graph_stream g (Some []) ''t'' 2 JNull None 5 = (e', evs, Graph_exceeded) \<and> e' = 7"
proof -
  obtain g where g: "compile_graph None demo_builder = Inr g"
    by (simp add: compile_graph_def demo_builder_def set_entry_point_def add_edge_def)
  then have parts: "cg_nodes g = [(''a'', \<lambda>st e. (e + 1, Inr (G_mapping [(''x'', JInt 1)])))]" "cg_edges g = [(''a'', [''a''])]"
      "cg_routers g = []" "cg_reducers g = []" "cg_entry g = ''a''" "cg_checkpointer g = None"
    by (auto simp: compile_graph_def demo_builder_def set_entry_point_def add_edge_def)
  have counts: "counts_nodes g (\<lambda>n. n)" by (auto simp: counts_nodes_def parts split: if_splits)
  have names: "\<not> blank ''a''" "\<not> blank ''t''" by code_simp+
  have fine: "frozen_of (JObj []) = Inr (JObj [])" "frozen_of (JInt i) = Inr (JInt i)" for i
    by (simp_all add: frozen_of_def freeze_json_def default_max_depth_def)
  have snap: "make_snapshot ''t'' step vs [''a''] p [] = Inr \<lparr>gs_thread = ''t'', gs_step = step, gs_values = vs,
      gs_next = [''a''], gs_parent = p, gs_interrupts = []\<rparr>"
    if "vs = [] \<or> vs = [(''x'', JInt 1)]" "0 \<le> step" "case p of None \<Rightarrow> True | Some q \<Rightarrow> is_sha256 q" for step vs p
    using that names unfolding make_snapshot_Inr_iff
    by (auto simp: valid_snapshot_def snapshot_document_def default_max_depth_def split: option.splits)
  have id: "is_sha256 (snapshot_id s)" for s by (simp add: snapshot_id_def)
  have event: "\<exists>v. make_event k ''t'' i (Some ''a'') (JObj [(''x'', JInt 1)]) = Inr v" if "0 \<le> i" for k i
    using names that
    by (simp add: make_event_def Let_def frozen_of_def freeze_json_def text_of_def canonical_text_def
        event_document_def default_max_depth_def)
  obtain v1 v2 v3 v4 where events: "make_event Ev_node ''t'' 1 (Some ''a'') (JObj [(''x'', JInt 1)]) = Inr v1"
    "make_event Ev_checkpoint ''t'' 1 (Some ''a'') (JObj [(''x'', JInt 1)]) = Inr v2"
    "make_event Ev_node ''t'' 2 (Some ''a'') (JObj [(''x'', JInt 1)]) = Inr v3"
    "make_event Ev_checkpoint ''t'' 2 (Some ''a'') (JObj [(''x'', JInt 1)]) = Inr v4"
    using event [of 1] event [of 2] by (metis zero_le_one zero_le_numeral)
  obtain e' evs where run: "graph_stream g (Some []) ''t'' 2 JNull None 5 = (e', evs, Graph_exceeded)"
    using names fine snap id events
    by (simp add: graph_stream_def load_snapshot_def parts initial_cursor_def ok_then_def call_then_def save_graph_def
        eval_nat_numeral graph_step_def call_graph_node_def route_step_def choose_route_def next_targets_def node_edges_def)
  from graph_stream_bounded [OF counts, where initial = "Some []" and thread = "''t''" and max_steps = 2
      and resume = JNull and checkpoint_id = None and e = 5] have "e' = 7" by (simp add: run)
  with g run show ?thesis by blast
qed

end
