(* ===== verification/Graph_Checkpointers.thy ===== *)
theory Graph_Checkpointers
  imports State_Graph
begin

text \<open>
  The two checkpointers of the state graph (\<open>src/components/reference/graph.py\<close>): the in-memory one,
  a history of snapshots by thread, and the SQLite one, whose tables are association lists in
  row-id order. \<open>fault\<close> is the exception of a refused statement, after which the transaction is
  rolled back.
\<close>

subsection \<open>In memory\<close>

type_synonym graph_memory = "(string \<times> graph_snapshot list) list"

definition thread_history :: "string \<Rightarrow> graph_memory \<Rightarrow> graph_snapshot list" where
  "thread_history thread mem = (case map_of mem thread of None \<Rightarrow> [] | Some h \<Rightarrow> h)"

definition memory_save :: "graph_snapshot \<Rightarrow> graph_memory \<Rightarrow> graph_memory" where
  "memory_save s mem =
     (let h = thread_history (gs_thread s) mem; mem' = set_default (gs_thread s) [] mem in
      if h \<noteq> [] \<and> snapshot_id (last h) = snapshot_id s then mem'
      else dict_set (gs_thread s) (h @ [s]) mem')"

definition memory_history :: "string \<Rightarrow> graph_memory \<Rightarrow> exc + graph_snapshot list" where
  "memory_history thread mem =
     (if blank thread then Inl (value_error ''graph checkpoint thread_id must be non-empty'')
      else Inr (thread_history thread mem))"

definition memory_load :: "string \<Rightarrow> graph_memory \<Rightarrow> exc + graph_snapshot option" where
  "memory_load thread mem =
     bind_result (memory_history thread mem) (\<lambda>h. Inr (if h = [] then None else Some (last h)))"

definition memory_load_checkpoint :: "string \<Rightarrow> graph_memory \<Rightarrow> exc + graph_snapshot option" where
  "memory_load_checkpoint cid mem =
     bind_result (digest_required ''graph checkpoint_id'' cid) (\<lambda>_.
       Inr (find (\<lambda>s. snapshot_id s = cid) (concat (map snd mem))))"

definition memory_checkpointer :: "(graph_memory \<times> 'w) graph_checkpointer" where
  "memory_checkpointer = \<lparr>
     gc_save = (\<lambda>s (mem, w). ((memory_save s mem, w), Inr ())),
     gc_load = (\<lambda>thread (mem, w). ((mem, w), memory_load thread mem)),
     gc_history = (\<lambda>thread (mem, w). ((mem, w), memory_history thread mem)),
     gc_load_checkpoint = (\<lambda>cid (mem, w). ((mem, w), memory_load_checkpoint cid mem))\<rparr>"

subsection \<open>SQLite\<close>

record graph_db =
  gd_checkpoints :: "(string \<times> (string \<times> string)) list"
  gd_threads :: "(string \<times> string) list"

definition empty_graph_db :: graph_db where
  "empty_graph_db = \<lparr>gd_checkpoints = [], gd_threads = []\<rparr>"

fun as_fields :: "json \<Rightarrow> exc + fields" where
  "as_fields (JObj kvs) = Inr kvs"
| "as_fields _ = Inl (value_error ''graph checkpoint document is malformed'')"

fun as_parent :: "json \<Rightarrow> exc + string option" where
  "as_parent JNull = Inr None"
| "as_parent (JStr p) = Inr (Some p)"
| "as_parent _ = Inl (''DigestValidationError'', ''graph snapshot parent_checkpoint_id must be canonical lowercase SHA-256'')"

definition snapshot_from :: "json \<Rightarrow> exc + graph_snapshot" where
  "snapshot_from doc =
     (case doc of
        JObj kvs \<Rightarrow>
          bind_result (as_fields (doc_get ''values'' JNull kvs)) (\<lambda>vals.
          bind_result (as_rows ''graph checkpoint document is malformed'' (doc_get ''next_nodes'' JNull kvs)) (\<lambda>nxt.
          bind_result (as_rows ''graph checkpoint document is malformed'' (doc_get ''interrupts'' (JArr []) kvs)) (\<lambda>interrupts.
          bind_result (as_str (doc_get ''thread_id'' JNull kvs)) (\<lambda>thread.
          bind_result (as_int (doc_get ''step'' JNull kvs)) (\<lambda>step.
          bind_result (map_result as_str nxt) (\<lambda>nxt'.
          bind_result (as_parent (doc_get ''parent_checkpoint_id'' JNull kvs)) (\<lambda>parent.
            make_snapshot thread step vals nxt' parent interrupts)))))))
      | _ \<Rightarrow> Inl (value_error ''graph checkpoint document must be a mapping''))"

definition decode_snapshot :: "string \<Rightarrow> string \<Rightarrow> string \<Rightarrow> exc + graph_snapshot" where
  "decode_snapshot thread cid raw =
     (case strict_json_loads raw of
        Inl k \<Rightarrow> Inl (''CanonicalDecodingError'', decode_message k)
      | Inr doc \<Rightarrow>
          bind_result (snapshot_from doc) (\<lambda>s.
            if gs_thread s \<noteq> thread \<or> snapshot_id s \<noteq> cid
            then Inl (value_error ''graph checkpoint digest mismatch'') else Inr s))"

definition sqlite_save :: "exc option \<Rightarrow> graph_snapshot \<Rightarrow> graph_db \<Rightarrow> graph_db \<times> (exc + unit)" where
  "sqlite_save fault s db =
     (case text_of (snapshot_document s) of
        Inl x \<Rightarrow> (db, Inl x)
      | Inr doc \<Rightarrow>
          (case fault of
             Some x \<Rightarrow> (db, Inl x)
           | None \<Rightarrow>
               if (case map_of (gd_checkpoints db) (snapshot_id s) of
                     Some row \<Rightarrow> snd row \<noteq> doc | None \<Rightarrow> False)
               then (db, Inl (value_error ''graph checkpoint identity collision''))
               else (db\<lparr>gd_checkpoints := insert_or_ignore (snapshot_id s) (gs_thread s, doc) (gd_checkpoints db),
                         gd_threads := dict_set (gs_thread s) (snapshot_id s) (gd_threads db)\<rparr>, Inr ())))"

definition sqlite_history :: "exc option \<Rightarrow> string \<Rightarrow> graph_db \<Rightarrow> exc + graph_snapshot list" where
  "sqlite_history fault thread db =
     (if blank thread then Inl (value_error ''graph checkpoint thread_id must be non-empty'')
      else (case fault of
         Some x \<Rightarrow> Inl x
       | None \<Rightarrow> map_result (\<lambda>(cid, row). decode_snapshot thread cid (snd row))
                   (filter (\<lambda>(cid, row). fst row = thread) (gd_checkpoints db))))"

definition sqlite_load :: "exc option \<Rightarrow> string \<Rightarrow> graph_db \<Rightarrow> exc + graph_snapshot option" where
  "sqlite_load fault thread db =
     bind_result (sqlite_history fault thread db) (\<lambda>h. Inr (if h = [] then None else Some (last h)))"

definition sqlite_load_checkpoint ::
    "exc option \<Rightarrow> string \<Rightarrow> graph_db \<Rightarrow> exc + graph_snapshot option" where
  "sqlite_load_checkpoint fault cid db =
     bind_result (digest_required ''graph checkpoint_id'' cid) (\<lambda>_.
       (case fault of
          Some x \<Rightarrow> Inl x
        | None \<Rightarrow>
            (case map_of (gd_checkpoints db) cid of
               None \<Rightarrow> Inr None
             | Some row \<Rightarrow> bind_result (decode_snapshot (fst row) cid (snd row)) (\<lambda>s. Inr (Some s)))))"

definition sqlite_checkpointer :: "('w \<Rightarrow> exc option) \<Rightarrow> (graph_db \<times> 'w) graph_checkpointer" where
  "sqlite_checkpointer fault = \<lparr>
     gc_save = (\<lambda>s (db, w). let (db', x) = sqlite_save (fault w) s db in ((db', w), x)),
     gc_load = (\<lambda>thread (db, w). ((db, w), sqlite_load (fault w) thread db)),
     gc_history = (\<lambda>thread (db, w). ((db, w), sqlite_history (fault w) thread db)),
     gc_load_checkpoint = (\<lambda>cid (db, w). ((db, w), sqlite_load_checkpoint (fault w) cid db))\<rparr>"

subsection \<open>Histories in memory\<close>

lemma thread_history_save:
  "thread_history t (memory_save s mem) =
     (let h = thread_history t mem in
      if t = gs_thread s \<and> \<not> (h \<noteq> [] \<and> snapshot_id (last h) = snapshot_id s) then h @ [s] else h)"
  by (auto simp: thread_history_def memory_save_def Let_def map_of_dict_set map_of_set_default split: option.splits)


text \<open>Each snapshot names its predecessor, and steps grow.\<close>

fun linked :: "graph_snapshot list \<Rightarrow> bool" where
  "linked (a # b # h) = (gs_parent b = Some (snapshot_id a) \<and> gs_step a < gs_step b \<and> linked (b # h))"
| "linked _ = True"

definition snapshot_chain :: "graph_snapshot list \<Rightarrow> bool" where
  "snapshot_chain h \<longleftrightarrow> h = [] \<or> gs_parent (hd h) = None \<and> gs_step (hd h) = 0 \<and> linked h"

lemma linked_snoc:
  "h \<noteq> [] \<Longrightarrow> linked (h @ [s]) \<longleftrightarrow> linked h \<and> gs_parent s = Some (snapshot_id (last h)) \<and> gs_step (last h) < gs_step s"
  by (induction h rule: linked.induct) auto

definition keeps_memory :: "(graph_memory \<times> 'w) compiled_graph \<Rightarrow> bool" where
  "keeps_memory g \<longleftrightarrow> (\<forall>mem. node_keeps g (\<lambda>e. fst e = mem))"

lemma keeps_memory_calls:
  assumes "keeps_memory g"
  shows "call_graph_node g name st e = (e', x) \<Longrightarrow> fst e' = fst e"
    and "choose_route g name res st e = (e', y) \<Longrightarrow> fst e' = fst e"
proof -
  have "node_keeps g (\<lambda>e'. fst e' = fst e)" using assms unfolding keeps_memory_def by blast
  note calls = node_keeps_calls [OF this refl]
  show "call_graph_node g name st e = (e', x) \<Longrightarrow> fst e' = fst e"
    "choose_route g name res st e = (e', y) \<Longrightarrow> fst e' = fst e"
    by (fact calls)+
qed

lemma save_graph_memory:
  "cg_checkpointer g = Some memory_checkpointer \<Longrightarrow>
     save_graph g s e = ((memory_save s (fst e), snd e), Inr ())"
  by (cases e) (simp add: save_graph_def memory_checkpointer_def)

text \<open>What one step may do to the histories.\<close>

definition memory_step ::
    "string \<Rightarrow> graph_cursor \<Rightarrow> graph_memory \<Rightarrow> graph_memory \<Rightarrow> graph_outcome + graph_cursor \<Rightarrow> bool" where
  "memory_step thread cur mem mem' x \<longleftrightarrow>
     (mem' = mem \<and> (\<forall>c. x \<noteq> Inr c))
     \<or> (\<exists>s. mem' = memory_save s mem \<and> gs_thread s = thread \<and> gs_parent s = Some (gu_parent cur)
          \<and> gs_step s = gu_step cur + 1
          \<and> (\<forall>c. x = Inr c \<longrightarrow> gu_parent c = snapshot_id s \<and> gu_step c = gu_step cur + 1))"

lemma memory_step_intros:
  "memory_step thread cur mem mem (Inl out)"
  "gs_thread s = thread \<Longrightarrow> gs_parent s = Some (gu_parent cur) \<Longrightarrow> gs_step s = gu_step cur + 1 \<Longrightarrow>
     memory_step thread cur mem (memory_save s mem) (Inl out)"
  "gs_thread s = thread \<Longrightarrow> gs_parent s = Some (gu_parent cur) \<Longrightarrow> gs_step s = gu_step cur + 1 \<Longrightarrow>
     gu_parent c = snapshot_id s \<Longrightarrow> gu_step c = gu_step cur + 1 \<Longrightarrow>
     memory_step thread cur mem (memory_save s mem) (Inr c)"
  by (auto simp: memory_step_def)

lemma interrupt_step_memory:
  assumes "interrupt_step g thread name cur st v e = (e', evs, x)"
    "cg_checkpointer g = Some memory_checkpointer"
  shows "memory_step thread cur (fst e) (fst e') x"
  using assms
  by (auto simp: interrupt_step_def run_cases make_snapshot_Inr_iff save_graph_memory intro!: memory_step_intros)

lemma route_step_memory:
  assumes "route_step g thread name cur res st e = (e', evs, x)" "keeps_memory g"
    "cg_checkpointer g = Some memory_checkpointer"
  shows "memory_step thread cur (fst e) (fst e') x"
proof -
  obtain e1 y where route: "choose_route g name res st e = (e1, y)" by fastforce
  have "fst e1 = fst e" by (rule keeps_memory_calls(2) [OF assms(2) route])
  with assms(1,3) route show ?thesis
    by (auto simp: route_step_def run_cases make_snapshot_Inr_iff save_graph_memory
        intro!: memory_step_intros split: prod.splits)
qed

lemma graph_step_memory:
  assumes "graph_step g thread name cur e = (e', evs, x)" "keeps_memory g"
    "cg_checkpointer g = Some memory_checkpointer"
  shows "memory_step thread cur (fst e) (fst e') x"
proof -
  obtain e1 y where call: "call_graph_node g name (gu_values cur) e = (e1, y)" by fastforce
  have "fst e1 = fst e" by (rule keeps_memory_calls(1) [OF assms(2) call])
  with assms call show ?thesis
    by (auto simp: graph_step_def run_cases split: if_splits
        intro!: memory_step_intros dest: interrupt_step_memory route_step_memory)
qed

text \<open>The history of the running thread, up to the cursor.\<close>

definition chain_inv :: "string \<Rightarrow> graph_memory \<Rightarrow> graph_cursor \<Rightarrow> graph_memory \<Rightarrow> bool" where
  "chain_inv thread mem0 cur mem \<longleftrightarrow>
     (let h = thread_history thread mem in
      h \<noteq> [] \<and> snapshot_chain h \<and> snapshot_id (last h) = gu_parent cur \<and> gs_step (last h) \<le> gu_step cur)
     \<and> (\<forall>t. t \<noteq> thread \<longrightarrow> thread_history t mem = thread_history t mem0)"

definition chain_end :: "string \<Rightarrow> graph_memory \<Rightarrow> graph_memory \<Rightarrow> bool" where
  "chain_end thread mem0 mem \<longleftrightarrow> snapshot_chain (thread_history thread mem)
     \<and> (\<forall>t. t \<noteq> thread \<longrightarrow> thread_history t mem = thread_history t mem0)"

lemma memory_step_chain:
  assumes "memory_step thread cur mem mem' x" "chain_inv thread mem0 cur mem"
  shows "case x of Inl out \<Rightarrow> chain_end thread mem0 mem' | Inr c \<Rightarrow> chain_inv thread mem0 c mem'"
  using assms
  by (auto simp: memory_step_def chain_inv_def chain_end_def thread_history_save Let_def snapshot_chain_def
      linked_snoc hd_append split: sum.splits if_splits)

lemma graph_loop_chain:
  assumes "graph_loop g thread n cur e = (e', evs, out)" "keeps_memory g"
    "cg_checkpointer g = Some memory_checkpointer" "chain_inv thread mem0 cur (fst e)"
  shows "chain_end thread mem0 (fst e')"
  using assms
proof (induction n arbitrary: cur e evs)
  case 0
  then show ?case by (auto simp: chain_inv_def chain_end_def Let_def)
next
  case (Suc n)
  show ?case
  proof (cases "gu_next cur")
    case Nil
    with Suc.prems show ?thesis by (auto simp: chain_inv_def chain_end_def Let_def split: sum.splits)
  next
    case (Cons name names)
    obtain e1 evs1 x where st: "graph_step g thread name cur e = (e1, evs1, x)" by (metis prod_cases3)
    note chain = memory_step_chain [OF graph_step_memory [OF st Suc.prems(2,3)] Suc.prems(4)]
    show ?thesis
    proof (cases x)
      case (Inl o1)
      with chain Suc.prems(1) Cons st show ?thesis by simp
    next
      case (Inr cur')
      then obtain evs2 where "graph_loop g thread n cur' e1 = (e', evs2, out)"
        using Suc.prems(1) Cons st by (auto simp: emitting_cases)
      from Suc.IH [OF this Suc.prems(2,3)] chain Inr show ?thesis by simp
    qed
  qed
qed

definition memory_current :: "string \<Rightarrow> graph_snapshot \<Rightarrow> graph_memory \<times> 'w \<Rightarrow> bool" where
  "memory_current thread s e \<longleftrightarrow>
     thread_history thread (fst e) \<noteq> [] \<and> last (thread_history thread (fst e)) = s"

definition memory_fresh :: "string \<Rightarrow> graph_memory \<times> 'w \<Rightarrow> bool" where
  "memory_fresh thread e \<longleftrightarrow> thread_history thread (fst e) = []"

interpretation memory: durable_checkpointer memory_checkpointer
    "memory_current :: string \<Rightarrow> graph_snapshot \<Rightarrow> graph_memory \<times> 'w \<Rightarrow> bool" memory_fresh
  by unfold_locales
    (auto simp: memory_checkpointer_def memory_current_def memory_fresh_def memory_load_def memory_history_def
      thread_history_save Let_def split: if_splits)

lemma keeps_memory_current: "keeps_memory g \<Longrightarrow> node_keeps g (memory_current thread s)"
  unfolding keeps_memory_def node_keeps_def memory_current_def by metis

subsection \<open>Texts read back\<close>

text \<open>A snapshot as it is read from its canonical text: the keys of its values sorted.\<close>

definition normal_snapshot :: "graph_snapshot \<Rightarrow> graph_snapshot" where
  "normal_snapshot s = s\<lparr>gs_values := sorted_fields (gs_values s), gs_interrupts := map sort_keys (gs_interrupts s)\<rparr>"

definition storable :: "graph_snapshot \<Rightarrow> bool" where
  "storable s \<longleftrightarrow> valid_snapshot s \<and> json_wf (snapshot_document s)
     \<and> values_within default_max_depth 0 (snapshot_document s)"

lemma sort_document_normal: "sort_keys (snapshot_document (normal_snapshot s)) = sort_keys (snapshot_document s)"
  unfolding snapshot_document_def normal_snapshot_def sort_keys_JObj [of "(''thread_id'', _) # _"]
    sorted_fields_def [of "(''thread_id'', _) # _"]
  by (simp add: sort_keys_JObj comp_def del: sort_keys.simps(2))

lemma snapshot_id_normal: "snapshot_id (normal_snapshot s) = snapshot_id s"
  by (simp add: snapshot_id_def digest_of_def dumps_def sort_document_normal)

lemma valid_snapshot_normal:
  assumes "storable s"
  shows "valid_snapshot (normal_snapshot s)"
proof -
  have "values_within default_max_depth 0 (snapshot_document (normal_snapshot s))"
    using assms values_within_sort_keys [of default_max_depth 0 "snapshot_document (normal_snapshot s)"]
      values_within_sort_keys [of default_max_depth 0 "snapshot_document s"]
    by (simp add: storable_def sort_document_normal)
  moreover have "values_within default_max_depth 0 (JObj (sorted_fields kvs))
      = values_within default_max_depth 0 (JObj kvs)" for kvs
    using values_within_sort_keys [of default_max_depth 0 "JObj kvs"] by (simp only: sort_keys_JObj)
  ultimately show ?thesis
    using assms values_containers_within
    by (auto simp: storable_def valid_snapshot_def normal_snapshot_def list_all_iff values_within_sort_keys
        simp del: values_within.simps containers_within.simps)
qed

lemma snapshot_from_document:
  assumes "storable s"
  shows "snapshot_from (sort_keys (snapshot_document s)) = Inr (normal_snapshot s)"
proof -
  have "make_snapshot (gs_thread s) (gs_step s) (sorted_fields (gs_values s)) (gs_next s) (gs_parent s)
      (map sort_keys (gs_interrupts s)) = Inr (normal_snapshot s)"
    unfolding make_snapshot_Inr_iff using valid_snapshot_normal [OF assms]
    by (simp add: normal_snapshot_def)
  then show ?thesis
    unfolding snapshot_document_def sort_keys_JObj snapshot_from_def
    by (cases "gs_parent s")
      (simp_all add: doc_get_sorted sort_keys_JObj map_result_JStr comp_def del: sort_keys.simps(2))
qed

lemma decode_saved:
  assumes "storable s"
  shows "text_of (snapshot_document s) = Inr (dumps False (snapshot_document s))"
    and "decode_snapshot (gs_thread s) (snapshot_id s) (dumps False (snapshot_document s)) = Inr (normal_snapshot s)"
  using assms strict_json_loads_text [of "snapshot_document s"] snapshot_from_document [OF assms]
  by (simp_all add: storable_def text_of_def decode_snapshot_def snapshot_id_normal)
    (simp add: normal_snapshot_def)

subsection \<open>The database\<close>

text \<open>Every row holds a storable snapshot under its identity and thread.\<close>

definition row_of :: "graph_snapshot \<Rightarrow> string \<times> (string \<times> string)" where
  "row_of s = (snapshot_id s, (gs_thread s, dumps False (snapshot_document s)))"

definition graph_db_ok :: "graph_db \<Rightarrow> bool" where
  "graph_db_ok db \<longleftrightarrow> (\<exists>ss. gd_checkpoints db = map row_of ss \<and> list_all storable ss
     \<and> distinct (map snapshot_id ss))"

lemma map_of_rows_None: "map_of (map row_of ss) cid = None \<longleftrightarrow> cid \<notin> set (map snapshot_id ss)"
  by (auto simp: map_of_eq_None_iff row_of_def image_iff)

lemma sqlite_save_rows:
  assumes "storable s" "gd_checkpoints db = map row_of ss" "sqlite_save fault s db = (db', x)"
  shows "gd_checkpoints db' = map row_of (if x = Inr () \<and> snapshot_id s \<notin> set (map snapshot_id ss) then ss @ [s] else ss)"
    and "x \<noteq> Inr () \<Longrightarrow> db' = db"
    and "fault = None \<Longrightarrow> snapshot_id s \<notin> set (map snapshot_id ss) \<Longrightarrow> x = Inr ()"
proof -
  note saved_text = decode_saved(1) [OF assms(1)]
  have "gd_checkpoints db' = map row_of (if x = Inr () \<and> snapshot_id s \<notin> set (map snapshot_id ss) then ss @ [s] else ss)
      \<and> (x \<noteq> Inr () \<longrightarrow> db' = db) \<and> (fault = None \<longrightarrow> snapshot_id s \<notin> set (map snapshot_id ss) \<longrightarrow> x = Inr ())"
  proof (cases "snapshot_id s \<in> set (map snapshot_id ss)")
    case True
    then obtain row where "map_of (map row_of ss) (snapshot_id s) = Some row"
      using map_of_rows_None [of ss "snapshot_id s"] by blast
    with True assms(2,3) saved_text show ?thesis
      by (auto simp: sqlite_save_def insert_or_ignore_def simp del: set_map split: option.splits if_splits)
  next
    case False
    then have "map_of (map row_of ss) (snapshot_id s) = None" by (simp add: map_of_rows_None)
    with False assms(2,3) saved_text show ?thesis
      by (auto simp: sqlite_save_def insert_or_ignore_def row_of_def simp del: set_map split: option.splits if_splits)
  qed
  then show "gd_checkpoints db' = map row_of (if x = Inr () \<and> snapshot_id s \<notin> set (map snapshot_id ss) then ss @ [s] else ss)"
    and "x \<noteq> Inr () \<Longrightarrow> db' = db"
    and "fault = None \<Longrightarrow> snapshot_id s \<notin> set (map snapshot_id ss) \<Longrightarrow> x = Inr ()" by blast+
qed

lemma sqlite_save_ok:
  assumes "storable s" "graph_db_ok db" "sqlite_save fault s db = (db', x)"
  shows "graph_db_ok db'"
proof -
  obtain ss where "gd_checkpoints db = map row_of ss" "list_all storable ss" "distinct (map snapshot_id ss)"
    using assms(2) by (auto simp: graph_db_ok_def)
  with sqlite_save_rows(1) [OF assms(1) _ assms(3), of ss] assms(1) show ?thesis
    unfolding graph_db_ok_def
    by (intro exI [of _ "if x = Inr () \<and> snapshot_id s \<notin> set (map snapshot_id ss) then ss @ [s] else ss"]) auto
qed

lemma sqlite_history_rows:
  assumes "gd_checkpoints db = map row_of ss" "list_all storable ss" "\<not> blank thread"
  shows "sqlite_history None thread db = Inr (map normal_snapshot (filter (\<lambda>s. gs_thread s = thread) ss))"
proof -
  have rows: "filter (\<lambda>(cid, row). fst row = thread) (map row_of ss) = map row_of (filter (\<lambda>s. gs_thread s = thread) ss)"
    by (simp add: filter_map comp_def row_of_def)
  have "map_result (\<lambda>(cid, row). decode_snapshot thread cid (snd row)) (map row_of ts) = Inr (map normal_snapshot ts)"
    if "ts = filter (\<lambda>s. gs_thread s = thread) ss" for ts
    by (rule map_result_map) (use that assms(2) decode_saved(2) in \<open>auto simp: row_of_def list_all_iff\<close>)
  then show ?thesis using assms(1,3) by (simp add: sqlite_history_def rows)
qed

type_synonym save_op = "exc option \<times> graph_snapshot"

fun sqlite_saves :: "save_op list \<Rightarrow> graph_db \<Rightarrow> graph_db" where
  "sqlite_saves [] db = db"
| "sqlite_saves ((fault, s) # ops) db = sqlite_saves ops (fst (sqlite_save fault s db))"

lemma sqlite_saves_keep:
  assumes "list_all (\<lambda>(f, s). storable s) ops" "graph_db_ok db" "map_of (gd_checkpoints db) cid = Some row"
  shows "graph_db_ok (sqlite_saves ops db) \<and> map_of (gd_checkpoints (sqlite_saves ops db)) cid = Some row"
  using assms
proof (induction ops db rule: sqlite_saves.induct)
  case (2 fault s ops db)
  obtain db' x where sv: "sqlite_save fault s db = (db', x)" by fastforce
  have "map_of (gd_checkpoints db') cid = Some row"
    using sv 2(4) by (auto simp: sqlite_save_def map_of_insert_or_ignore split: sum.splits option.splits if_splits)
  with 2 sv sqlite_save_ok [OF _ 2(3) sv] show ?case by simp
qed simp

lemma empty_graph_db_ok: "graph_db_ok empty_graph_db"
  by (simp add: graph_db_ok_def empty_graph_db_def)

lemma sqlite_saves_ok:
  "list_all (\<lambda>(f, s). storable s) ops \<Longrightarrow> graph_db_ok db \<Longrightarrow> graph_db_ok (sqlite_saves ops db)"
  by (induction ops db rule: sqlite_saves.induct) (auto intro: sqlite_save_ok prod.collapse [symmetric])

lemma fresh_saves:
  assumes "list_all storable ss" "distinct (map snapshot_id (ts @ ss))" "gd_checkpoints db = map row_of ts"
  shows "gd_checkpoints (sqlite_saves (map (Pair None) ss) db) = map row_of (ts @ ss)"
  using assms
proof (induction ss arbitrary: ts db)
  case (Cons s ss)
  obtain db' x where sv: "sqlite_save None s db = (db', x)" by fastforce
  have new: "snapshot_id s \<notin> set (map snapshot_id ts)" using Cons.prems(2) by auto
  have "storable s" using Cons.prems(1) by simp
  from sqlite_save_rows(1,3) [OF this Cons.prems(3) sv] new
  have "gd_checkpoints db' = map row_of (ts @ [s])" by simp
  from Cons.IH [OF _ _ this] Cons.prems sv show ?case by simp
qed simp

subsection \<open>A graph that counts\<close>

definition demo_graph :: "(graph_memory \<times> nat) compiled_graph" where
  "demo_graph = \<lparr>cg_nodes = [(''a'', \<lambda>st e. ((fst e, snd e + 1), Inr (G_mapping [(''x'', JInt (int (snd e)))])))],
     cg_edges = [(''a'', [''a''])], cg_routers = [], cg_reducers = [], cg_entry = ''a'',
     cg_checkpointer = Some memory_checkpointer\<rparr>"

lemma demo_graph_keeps: "keeps_memory demo_graph"
  by (auto simp: keeps_memory_def node_keeps_def demo_graph_def split: if_splits)

lemma demo_graph_exceeds:
  "\<exists>e evs. graph_stream demo_graph (Some []) ''t'' 1 JNull None ([], 0) = (e, evs, Graph_exceeded)"
proof -
  have names: "\<not> blank ''a''" "\<not> blank ''t''" by code_simp+
  have fine: "frozen_of (JObj []) = Inr (JObj [])" "frozen_of (JInt i) = Inr (JInt i)" for i
    by (simp_all add: frozen_of_def freeze_json_def default_max_depth_def)
  have snap: "\<exists>s. make_snapshot ''t'' step vs [''a''] p [] = Inr s"
    if "vs = [] \<or> vs = [(''x'', JInt 0)]" "0 \<le> step" "case p of None \<Rightarrow> True | Some q \<Rightarrow> is_sha256 q" for step vs p
    using that names unfolding make_snapshot_Inr_iff
    by (auto simp: valid_snapshot_def snapshot_document_def default_max_depth_def split: option.splits)
  obtain s0 where s0: "make_snapshot ''t'' 0 [] [''a''] None [] = Inr s0" using snap by fastforce
  obtain s1 where s1: "make_snapshot ''t'' 1 [(''x'', JInt 0)] [''a''] (Some (snapshot_id s0)) [] = Inr s1"
    using snap [of "[(''x'', JInt 0)]" 1 "Some (snapshot_id s0)"] by (auto simp: snapshot_id_def)
  have ev: "\<exists>v. make_event k ''t'' 1 (Some ''a'') (JObj [(''x'', JInt 0)]) = Inr v" for k
    using names
    by (simp add: make_event_def Let_def frozen_of_def freeze_json_def text_of_def canonical_text_def
        event_document_def default_max_depth_def)
  obtain v1 v2 where "make_event Ev_node ''t'' 1 (Some ''a'') (JObj [(''x'', JInt 0)]) = Inr v1"
    "make_event Ev_checkpoint ''t'' 1 (Some ''a'') (JObj [(''x'', JInt 0)]) = Inr v2"
    using ev by blast
  with names s0 s1 fine show ?thesis
    by (simp add: graph_stream_def load_snapshot_def demo_graph_def memory_checkpointer_def memory_load_def
        memory_history_def thread_history_def initial_cursor_def ok_then_def call_then_def save_graph_def
        eval_nat_numeral graph_step_def call_graph_node_def route_step_def choose_route_def
        next_targets_def node_edges_def)
qed

subsection \<open>Properties\<close>

text \<open>
  C17: Stopping and resuming has no influence. If a run of a new thread, with the in-memory
  checkpointer, stops for its number of steps, then loading the thread and running on yields the
  events, the state, the environment and the outcome of the run that was given all the steps at
  once. The nodes may do anything except change the checkpointer's histories. The only exception
  is that two consecutive ones of the snapshots this very run took, which differ in their step,
  have the same identity, a SHA-256 collision: the checkpointer takes the second for the first.
\<close>

theorem graph_resume_equals_run:
  assumes "graph_stream g (Some init) thread n resume None e = (e1, evs1, Graph_exceeded)"
    and "cg_checkpointer g = Some memory_checkpointer" "keeps_memory g"
    and "thread_history thread (fst e) = []" "0 < m"
  shows "graph_stream g (Some init) thread (n + m) resume None e
      = emitting evs1 (graph_stream g None thread m JNull None e1)
    \<or> identity_repeats (run_snapshots g init thread n e)"
proof (rule disjCI)
  assume "\<not> identity_repeats (run_snapshots g init thread n e)"
  from memory.resume_exceeded [OF assms(1,2,5) _ _ this] assms(3,4)
  show "graph_stream g (Some init) thread (n + m) resume None e
      = emitting evs1 (graph_stream g None thread m JNull None e1)"
    by (simp add: memory_fresh_def keeps_memory_current)
qed

theorem graph_resume_equals_run_witness:
  "\<exists>e1 evs1. graph_stream demo_graph (Some []) ''t'' 1 JNull None ([], 0) = (e1, evs1, Graph_exceeded)
    \<and> (graph_stream demo_graph (Some []) ''t'' 4 JNull None ([], 0)
         = emitting evs1 (graph_stream demo_graph None ''t'' 3 JNull None e1)
       \<or> identity_repeats (run_snapshots demo_graph [] ''t'' 1 ([], 0)))"
proof -
  obtain e1 evs1 where run: "graph_stream demo_graph (Some []) ''t'' 1 JNull None ([], 0) = (e1, evs1, Graph_exceeded)"
    using demo_graph_exceeds by blast
  have "cg_checkpointer demo_graph = Some memory_checkpointer" "thread_history ''t'' (fst ([], 0 :: nat)) = []"
    by (simp_all add: demo_graph_def thread_history_def)
  from graph_resume_equals_run [OF run this(1) demo_graph_keeps this(2), of 3] run show ?thesis by auto
qed

text \<open>
  C18: The snapshots of a run form a chain. Starting a new thread, the recorded history begins with
  the initial snapshot, without a parent and at step 0; every later snapshot names the one before
  it as its parent and has a larger step; and no other thread's history changes. This holds
  however the run ends: completed, interrupted, out of steps or with an exception.
\<close>

theorem snapshots_form_chain:
  assumes "graph_stream g (Some init) thread n resume None e = (e', evs, out)"
    and "cg_checkpointer g = Some memory_checkpointer" "keeps_memory g"
    and "thread_history thread (fst e) = []"
  shows "snapshot_chain (thread_history thread (fst e'))
    \<and> (\<forall>t. t \<noteq> thread \<longrightarrow> thread_history t (fst e') = thread_history t (fst e))"
proof -
  have "chain_end thread (fst e) (fst e')"
  proof (cases "blank thread \<or> n \<le> 0")
    case True
    with assms(1,4) show ?thesis by (auto simp: graph_stream_def chain_end_def snapshot_chain_def)
  next
    case False
    have load: "load_snapshot g thread None e = (e, Inr None)"
      using assms(2,4) False
      by (cases e) (simp add: load_snapshot_def memory_checkpointer_def memory_load_def memory_history_def)
    obtain e2 evs2 x where ic: "initial_cursor g thread init e = (e2, evs2, x)" by (metis prod_cases3)
    show ?thesis
    proof (cases x)
      case (Inl o1)
      with ic assms(2) have "e2 = e"
        by (auto simp: initial_cursor_def run_cases save_graph_memory)
      with Inl load ic False assms(1,4) show ?thesis
        by (auto simp: graph_stream_def chain_end_def snapshot_chain_def)
    next
      case (Inr cur)
      with ic assms(2,4) have "chain_inv thread (fst e) cur (fst e2)"
        by (auto simp: initial_cursor_def run_cases save_graph_memory make_snapshot_Inr_iff chain_inv_def
            thread_history_save snapshot_chain_def)
      moreover obtain evs3 where "graph_loop g thread (nat n) cur e2 = (e', evs3, out)"
        using Inr load ic False assms(1) by (auto simp: graph_stream_def emitting_cases)
      ultimately show ?thesis using graph_loop_chain [OF _ assms(3,2)] by blast
    qed
  qed
  then show ?thesis by (simp add: chain_end_def)
qed

theorem snapshots_form_chain_witness:
  "\<exists>e evs. graph_stream demo_graph (Some []) ''t'' 1 JNull None ([], 0) = (e, evs, Graph_exceeded)
    \<and> snapshot_chain (thread_history ''t'' (fst e))"
proof -
  obtain e evs where run: "graph_stream demo_graph (Some []) ''t'' 1 JNull None ([], 0) = (e, evs, Graph_exceeded)"
    using demo_graph_exceeds by blast
  have "cg_checkpointer demo_graph = Some memory_checkpointer" "thread_history ''t'' (fst ([], 0 :: nat)) = []"
    by (simp_all add: demo_graph_def thread_history_def)
  from snapshots_form_chain [OF run this(1) demo_graph_keeps this(2)] run show ?thesis by blast
qed

text \<open>
  A snapshot whose save the database accepted stays readable by its identity: after any later
  saves, refused ones included, loading its checkpoint returns it with the keys of its values
  sorted, which leaves its identity unchanged.
\<close>

theorem sqlite_checkpoint_durable:
  assumes "list_all (\<lambda>(f, s). storable s) before" "storable s"
    and "sqlite_save None s (sqlite_saves before empty_graph_db) = (db, Inr ())"
    and "list_all (\<lambda>(f, s). storable s) after"
  shows "sqlite_load_checkpoint None (snapshot_id s) (sqlite_saves after db) = Inr (Some (normal_snapshot s))
    \<and> snapshot_id (normal_snapshot s) = snapshot_id s"
proof -
  let ?db0 = "sqlite_saves before empty_graph_db"
  have ok0: "graph_db_ok ?db0" by (rule sqlite_saves_ok [OF assms(1) empty_graph_db_ok])
  then obtain ss where ss: "gd_checkpoints ?db0 = map row_of ss" "list_all storable ss"
    by (auto simp: graph_db_ok_def)
  obtain s' :: graph_snapshot where s': "map_of (gd_checkpoints db) (snapshot_id s) = Some (gs_thread s', dumps False (snapshot_document s))"
    "gs_thread s' = gs_thread s"
  proof (cases "snapshot_id s \<in> set (map snapshot_id ss)")
    case False
    then have "map_of (map row_of ss) (snapshot_id s) = None" by (simp add: map_of_rows_None)
    with sqlite_save_rows(1) [OF assms(2) ss(1) assms(3)] False that [of s] show ?thesis
      by (auto simp: row_of_def map_add_def simp del: set_map)
  next
    case True
    then obtain row where row: "map_of (map row_of ss) (snapshot_id s) = Some row"
      using map_of_rows_None [of ss "snapshot_id s"] by blast
    then obtain t where t: "t \<in> set ss" "row_of t = (snapshot_id s, row)" by (auto dest!: map_of_SomeD)
    have "snd row = dumps False (snapshot_document s)"
      using assms(3) row ss(1) decode_saved(1) [OF assms(2)] by (auto simp: sqlite_save_def split: if_splits)
    with t(2) have texts: "dumps False (snapshot_document t) = dumps False (snapshot_document s)"
      by (auto simp: row_of_def)
    have "storable t" using t(1) ss(2) by (auto simp: list_all_iff)
    have "normal_snapshot t = normal_snapshot s"
      using snapshot_from_document [OF \<open>storable t\<close>] snapshot_from_document [OF assms(2)] texts
        dumps_inject [of "snapshot_document t" "snapshot_document s" False] \<open>storable t\<close> assms(2)
      by (simp add: storable_def)
    from arg_cong [OF this, of gs_thread] have "gs_thread t = gs_thread s" by (simp add: normal_snapshot_def)
    with that [of t] row t(2) sqlite_save_rows(1) [OF assms(2) ss(1) assms(3)] True texts show ?thesis
      by (auto simp: row_of_def simp del: set_map)
  qed
  have "graph_db_ok db" by (rule sqlite_save_ok [OF assms(2) ok0 assms(3)])
  have "is_sha256 (snapshot_id s)" by (simp add: snapshot_id_def)
  with sqlite_saves_keep [OF assms(4) \<open>graph_db_ok db\<close> s'(1)] s'(2) decode_saved(2) [OF assms(2)]
  show ?thesis by (simp add: sqlite_load_checkpoint_def digest_required_def snapshot_id_normal)
qed

text \<open>
  The two checkpointers agree on snapshots with distinct identities: after saving them in the
  same order, the SQLite history of every thread is the in-memory one, read back from its text, and
  so is the snapshot that loading the thread returns.
\<close>

theorem checkpointers_agree:
  assumes "list_all storable ss" "distinct (map snapshot_id ss)" "\<not> blank thread"
  shows "sqlite_history None thread (sqlite_saves (map (Pair None) ss) empty_graph_db)
      = Inr (map normal_snapshot (thread_history thread (fold memory_save ss [])))
    \<and> sqlite_load None thread (sqlite_saves (map (Pair None) ss) empty_graph_db)
      = map_sum id (map_option normal_snapshot) (memory_load thread (fold memory_save ss []))"
proof -
  have memory: "thread_history thread (fold memory_save ss mem) = thread_history thread mem @ filter (\<lambda>s. gs_thread s = thread) ss"
    if "distinct (map snapshot_id (thread_history thread mem @ ss))" for mem
    using that
  proof (induction ss arbitrary: mem)
    case (Cons s ss)
    let ?h = "thread_history thread mem"
    have "\<not> (?h \<noteq> [] \<and> snapshot_id (last ?h) = snapshot_id s)"
    proof
      assume "?h \<noteq> [] \<and> snapshot_id (last ?h) = snapshot_id s"
      then have "snapshot_id s \<in> snapshot_id ` set ?h" using last_in_set [of ?h] by (metis image_eqI)
      with Cons.prems show False by auto
    qed
    then have "thread_history thread (memory_save s mem)
        = thread_history thread mem @ (if gs_thread s = thread then [s] else [])"
      by (auto simp: thread_history_save Let_def)
    with Cons.IH [of "memory_save s mem"] Cons.prems show ?case by auto
  qed simp
  have rows: "gd_checkpoints (sqlite_saves (map (Pair None) ss) empty_graph_db) = map row_of ([] @ ss)"
    by (rule fresh_saves) (use assms in \<open>simp_all add: empty_graph_db_def\<close>)
  from sqlite_history_rows [OF rows [simplified] assms(1,3)] memory [of "[]"] assms(2,3)
  show ?thesis
    by (simp add: thread_history_def sqlite_load_def memory_load_def memory_history_def last_map)
qed

definition demo_snapshot :: graph_snapshot where
  "demo_snapshot = \<lparr>gs_thread = ''t'', gs_step = 0, gs_values = [], gs_next = [''a''], gs_parent = None,
     gs_interrupts = []\<rparr>"

definition demo_snapshot_later :: graph_snapshot where
  "demo_snapshot_later = \<lparr>gs_thread = ''t'', gs_step = 1, gs_values = [(''x'', JInt 0)], gs_next = [''a''],
     gs_parent = None, gs_interrupts = []\<rparr>"

lemma demo_storable: "storable demo_snapshot" "storable demo_snapshot_later"
proof -
  have "\<not> blank ''a''" "\<not> blank ''t''" by code_simp+
  then show "storable demo_snapshot" "storable demo_snapshot_later"
    by (simp_all add: storable_def valid_snapshot_def snapshot_document_def demo_snapshot_def
        demo_snapshot_later_def default_max_depth_def)
qed

theorem sqlite_checkpoint_durable_witness:
  "\<exists>db. sqlite_save None demo_snapshot empty_graph_db = (db, Inr ())
    \<and> sqlite_load_checkpoint None (snapshot_id demo_snapshot)
        (sqlite_saves [(None, demo_snapshot_later), (Some (''OperationalError'', []), demo_snapshot)] db)
      = Inr (Some (normal_snapshot demo_snapshot))"
proof -
  obtain db where db: "sqlite_save None demo_snapshot (sqlite_saves [] empty_graph_db) = (db, Inr ())"
    using decode_saved(1) [OF demo_storable(1)] by (simp add: sqlite_save_def empty_graph_db_def)
  from sqlite_checkpoint_durable [OF _ demo_storable(1) db,
      of "[(None, demo_snapshot_later), (Some (''OperationalError'', []), demo_snapshot)]"]
    db demo_storable
  show ?thesis by auto
qed

theorem checkpointers_agree_witness:
  "sqlite_load None ''t'' (sqlite_saves [(None, demo_snapshot)] empty_graph_db)
    = Inr (Some (normal_snapshot demo_snapshot))"
proof -
  have "\<not> blank ''t''" by code_simp
  then show ?thesis
    using checkpointers_agree [of "[demo_snapshot]" "''t''"] demo_storable
    by (simp add: memory_load_def memory_history_def thread_history_save Let_def)
      (simp add: thread_history_def demo_snapshot_def)
qed

text \<open>
  The SQLite checkpointer does not resume from the snapshot saved last when that snapshot was
  saved before: unless their digests collide, after saving A, B and A again the in-memory
  checkpointer loads A and the SQLite one loads B, although its table of threads names A. Starting
  a finished thread again with the same input saves its first snapshot again in this way.
\<close>

theorem sqlite_forgets_resaved:
  "snd (sqlite_save None demo_snapshot_later (fst (sqlite_save None demo_snapshot empty_graph_db)))
     = Inl (value_error ''graph checkpoint identity collision'')
   \<or> (let db = sqlite_saves (map (Pair None) [demo_snapshot, demo_snapshot_later, demo_snapshot]) empty_graph_db;
          mem = fold memory_save [demo_snapshot, demo_snapshot_later, demo_snapshot] []
      in sqlite_load None ''t'' db = Inr (Some (normal_snapshot demo_snapshot_later))
         \<and> memory_load ''t'' mem = Inr (Some demo_snapshot)
         \<and> map_of (gd_threads db) ''t'' = Some (snapshot_id demo_snapshot))"
proof -
  let ?A = demo_snapshot and ?B = demo_snapshot_later
  have thread: "gs_thread ?A = ''t''" "gs_thread ?B = ''t''" "\<not> blank ''t''"
    by (simp_all add: demo_snapshot_def demo_snapshot_later_def) code_simp
  have "snapshot_from (sort_keys (snapshot_document ?A)) \<noteq> snapshot_from (sort_keys (snapshot_document ?B))"
    by (simp add: snapshot_from_document demo_storable)
      (simp add: normal_snapshot_def demo_snapshot_def demo_snapshot_later_def)
  then have texts: "dumps False (snapshot_document ?A) \<noteq> dumps False (snapshot_document ?B)"
    using dumps_inject [of "snapshot_document ?A" "snapshot_document ?B" False] demo_storable
    by (auto simp: storable_def)
  note saves = sqlite_save_def decode_saved(1) [OF demo_storable(1)] decode_saved(1) [OF demo_storable(2)]
    empty_graph_db_def insert_or_ignore_def thread
  show ?thesis
  proof (cases "snapshot_id ?A = snapshot_id ?B")
    case True
    with texts show ?thesis by (simp add: saves)
  next
    case False
    let ?db = "sqlite_saves (map (Pair None) [?A, ?B, ?A]) empty_graph_db"
    have "gd_checkpoints ?db = map row_of [?A, ?B]" "map_of (gd_threads ?db) ''t'' = Some (snapshot_id ?A)"
      using False by (simp_all add: saves row_of_def)
    moreover have "memory_load ''t'' (fold memory_save [?A, ?B, ?A] []) = Inr (Some ?A)"
      using False thread
      by (simp add: memory_load_def memory_history_def thread_history_save Let_def)
    ultimately show ?thesis
      using sqlite_history_rows [of ?db "[?A, ?B]" "''t''"] demo_storable thread
      by (simp add: sqlite_load_def Let_def)
  qed
qed

fun nested :: "nat \<Rightarrow> json" where
  "nested 0 = JInt 0"
| "nested (Suc k) = JArr [nested k]"

definition deep_snapshot :: graph_snapshot where
  "deep_snapshot = \<lparr>gs_thread = ''t'', gs_step = 0, gs_values = [(''x'', nested 127)], gs_next = [], gs_parent = None,
     gs_interrupts = []\<rparr>"

lemma nested_within:
  "values_within m d (nested k) \<longleftrightarrow> d + k \<le> m"
  "containers_within m d (nested k) \<longleftrightarrow> k = 0 \<or> d + k \<le> Suc m"
  "json_wf (nested k)"
  by (induction k arbitrary: d) auto

text \<open>
  A snapshot can be saved and then not be loaded. The state of a step may be nested 128 levels
  deep; such a snapshot is valid and its save is accepted, but within its document the state is one
  level deeper, which the strict reader refuses, so loading the thread raises.
\<close>

theorem sqlite_deep_state_unreadable:
  "valid_snapshot deep_snapshot
   \<and> (let (db, x) = sqlite_save None deep_snapshot empty_graph_db
      in x = Inr () \<and> sqlite_load None ''t'' db = Inl (''CanonicalDecodingError'', decode_message Domain))"
proof -
  let ?doc = "snapshot_document deep_snapshot"
  have t: "\<not> blank ''t''" by code_simp
  have valid: "valid_snapshot deep_snapshot"
    using t by (simp add: valid_snapshot_def deep_snapshot_def snapshot_document_def nested_within default_max_depth_def
        del: nested.simps)
  then have "text_of ?doc = Inr (dumps False ?doc)"
    by (simp add: valid_snapshot_def text_of_def canonical_text_def)
  then have saved: "sqlite_save None deep_snapshot empty_graph_db
      = (\<lparr>gd_checkpoints = [(snapshot_id deep_snapshot, (''t'', dumps False ?doc))],
          gd_threads = [(''t'', snapshot_id deep_snapshot)]\<rparr>, Inr ())"
    by (simp add: sqlite_save_def empty_graph_db_def insert_or_ignore_def deep_snapshot_def)
  have "json_wf ?doc" "\<not> values_within default_max_depth 0 ?doc"
    by (simp_all add: deep_snapshot_def snapshot_document_def nested_within default_max_depth_def del: nested.simps)
  then have "strict_json_loads (dumps False ?doc) = Inl Domain"
    by (simp add: strict_json_loads_def json_loads_dumps freeze_json_def values_within_sort_keys)
  with saved valid t show ?thesis
    by (simp add: sqlite_load_def sqlite_history_def decode_snapshot_def)
qed

end
