(* ===== verification/Effect_Transitions.thy ===== *)
theory Effect_Transitions
  imports Python_Effects
begin

text \<open>
  External effects (\<open>src/noetrium_platform/infrastructure/reliability/effect/api\<close>): receipts, recovery
  handles, write-ahead intents and their records (\<open>contracts.py\<close>, \<open>journal.py\<close>), and the transitions
  that alone may change a record (\<open>transitions.py\<close>).

  A byte string is a \<open>string\<close>. A transition returns its exception or the record; a record that did
  not change is returned as it is.
\<close>

subsection \<open>Receipts and handles\<close>

datatype effect_class = Effect_pure | Effect_idempotent | Effect_reconcilable | Effect_non_idempotent

fun class_value :: "effect_class \<Rightarrow> string" where
  "class_value Effect_pure = ''pure''"
| "class_value Effect_idempotent = ''idempotent''"
| "class_value Effect_reconcilable = ''reconcilable''"
| "class_value Effect_non_idempotent = ''non_idempotent''"

datatype effect_certainty =
  No_effect | Effect_confirmed | Effect_rejected | Effect_possible | Effect_unknown

fun certainty_value :: "effect_certainty \<Rightarrow> string" where
  "certainty_value No_effect = ''no_effect''"
| "certainty_value Effect_confirmed = ''effect_confirmed''"
| "certainty_value Effect_rejected = ''effect_rejected''"
| "certainty_value Effect_possible = ''effect_possible''"
| "certainty_value Effect_unknown = ''effect_unknown''"

record effect_receipt =
  ef_id :: string
  ef_request_digest :: string
  ef_class :: effect_class
  ef_certainty :: effect_certainty
  ef_provider :: "string option"
  ef_verification_required :: bool
  ef_before :: "string option"
  ef_after :: "string option"
  ef_provider_receipt :: "string option"

definition valid_effect :: "effect_receipt \<Rightarrow> bool" where
  "valid_effect e \<longleftrightarrow> \<not> blank (ef_id e) \<and> \<not> blank (ef_request_digest e)"

record effect_handle =
  eh_request_id :: string
  eh_request_digest :: string
  eh_provider_schema :: string
  eh_payload :: string
  eh_payload_sha256 :: string
  eh_provider_instance :: "string option"

definition bytes_sha256 :: "string \<Rightarrow> string" where
  "bytes_sha256 b = sha256_bytes (map code_point b)"

definition valid_handle :: "effect_handle \<Rightarrow> bool" where
  "valid_handle h \<longleftrightarrow>
     \<not> blank (eh_request_id h) \<and> \<not> blank (eh_request_digest h) \<and> \<not> blank (eh_provider_schema h)
     \<and> bytes_sha256 (eh_payload h) = eh_payload_sha256 h"

definition build_handle ::
    "string \<Rightarrow> string \<Rightarrow> string \<Rightarrow> string \<Rightarrow> string option \<Rightarrow> exc + effect_handle" where
  "build_handle request_id request_digest schema payload provider =
     checked valid_handle ''prepared effect handle identity fields must be non-empty''
       \<lparr>eh_request_id = request_id, eh_request_digest = request_digest, eh_provider_schema = schema,
        eh_payload = payload, eh_payload_sha256 = bytes_sha256 payload, eh_provider_instance = provider\<rparr>"

datatype reconciliation_disposition =
  Disposition_applied | Disposition_rejected | Disposition_not_applied | Disposition_unknown

text \<open>\<open>require_effect_receipt_request_digest\<close>\<close>

definition receipt_bound :: "effect_receipt \<Rightarrow> string \<Rightarrow> bool" where
  "receipt_bound e digest \<longleftrightarrow> ef_request_digest e = digest"

subsection \<open>Intents and records\<close>

datatype intent_phase = Ip_prepared | Ip_result_recorded | Ip_reconciled | Ip_consumed | Ip_not_applied

fun intent_phase_value :: "intent_phase \<Rightarrow> string" where
  "intent_phase_value Ip_prepared = ''prepared''"
| "intent_phase_value Ip_result_recorded = ''result_recorded''"
| "intent_phase_value Ip_reconciled = ''reconciled''"
| "intent_phase_value Ip_consumed = ''consumed''"
| "intent_phase_value Ip_not_applied = ''not_applied''"

definition terminal_phase :: "intent_phase \<Rightarrow> bool" where
  "terminal_phase p \<longleftrightarrow> p \<in> {Ip_consumed, Ip_not_applied}"

record effect_intent =
  ei_intent_id :: string
  ei_request_id :: string
  ei_operation_id :: string
  ei_request_digest :: string
  ei_provider_digest :: string
  ei_run_id :: string
  ei_trace_id :: string
  ei_study_id :: "string option"
  ei_lifetime_id :: "string option"
  ei_task_id :: "string option"
  ei_decision_cycle_id :: "string option"
  ei_checkpoint_id :: "string option"
  ei_source_generation :: "string option"
  ei_recovery_handle :: "effect_handle option"

record effect_component =
  ec_component_id :: string
  ec_implementation_id :: string
  ec_implementation_version :: string
  ec_schema_version :: string
  ec_generation_id :: string

text \<open>What \<open>EffectIntent.build\<close> reads of the execution context.\<close>

record effect_context =
  ex_run_id :: string
  ex_trace_id :: string
  ex_study_id :: "string option"
  ex_lifetime_id :: "string option"
  ex_task_id :: "string option"
  ex_decision_cycle_id :: "string option"
  ex_checkpoint_id :: "string option"

definition opt_text :: "string option \<Rightarrow> json" where
  "opt_text s = (case s of None \<Rightarrow> JNull | Some t \<Rightarrow> JStr t)"

definition component_digest :: "effect_component \<Rightarrow> string" where
  "component_digest c = digest_of (JObj [
     (''component_id'', JStr (ec_component_id c)),
     (''implementation_id'', JStr (ec_implementation_id c)),
     (''implementation_version'', JStr (ec_implementation_version c)),
     (''schema_version'', JStr (ec_schema_version c)),
     (''generation_id'', JStr (ec_generation_id c))])"

definition identity_material :: "string \<Rightarrow> string \<Rightarrow> effect_component \<Rightarrow> effect_context \<Rightarrow> json" where
  "identity_material request_id operation_id c x = JObj [
     (''request_id'', JStr request_id),
     (''operation_id'', JStr operation_id),
     (''provider_component_digest'', JStr (component_digest c)),
     (''run_id'', JStr (ex_run_id x)),
     (''study_id'', opt_text (ex_study_id x)),
     (''lifetime_id'', opt_text (ex_lifetime_id x)),
     (''task_id'', opt_text (ex_task_id x)),
     (''decision_cycle_id'', opt_text (ex_decision_cycle_id x)),
     (''checkpoint_id'', opt_text (ex_checkpoint_id x))]"

definition build_intent ::
    "string \<Rightarrow> string \<Rightarrow> string \<Rightarrow> effect_component \<Rightarrow> effect_context \<Rightarrow> string option
       \<Rightarrow> effect_handle option \<Rightarrow> string \<Rightarrow> exc + effect_intent" where
  "build_intent request_id request_digest operation_id c x generation handle namespace =
     (if (case handle of None \<Rightarrow> False
          | Some h \<Rightarrow> eh_request_id h \<noteq> request_id \<or> eh_request_digest h \<noteq> request_digest)
      then Inl (value_error ''prepared effect handle does not match effect request identity'')
      else Inr \<lparr>ei_intent_id = namespace @ '':'' @ digest_of (identity_material request_id operation_id c x),
        ei_request_id = request_id, ei_operation_id = operation_id, ei_request_digest = request_digest,
        ei_provider_digest = component_digest c, ei_run_id = ex_run_id x, ei_trace_id = ex_trace_id x,
        ei_study_id = ex_study_id x, ei_lifetime_id = ex_lifetime_id x, ei_task_id = ex_task_id x,
        ei_decision_cycle_id = ex_decision_cycle_id x, ei_checkpoint_id = ex_checkpoint_id x,
        ei_source_generation = generation, ei_recovery_handle = handle\<rparr>)"

record completion_evidence =
  cv_key :: string
  cv_operation_id :: string
  cv_consumer_digest :: string
  cv_consumer_generation :: "string option"

definition valid_completion :: "completion_evidence \<Rightarrow> bool" where
  "valid_completion c \<longleftrightarrow>
     \<not> blank (cv_key c) \<and> \<not> blank (cv_operation_id c) \<and> \<not> blank (cv_consumer_digest c)"

record intent_record =
  ir_intent :: effect_intent
  ir_phase :: intent_phase
  ir_effect :: "effect_receipt option"
  ir_effect_digest :: "string option"
  ir_consumption :: "completion_evidence option"
  ir_consumption_digest :: "string option"

definition effect_document :: "effect_receipt \<Rightarrow> json" where
  "effect_document e = JObj [
     (''effect_id'', JStr (ef_id e)),
     (''request_digest'', JStr (ef_request_digest e)),
     (''effect_class'', JStr (class_value (ef_class e))),
     (''certainty'', JStr (certainty_value (ef_certainty e))),
     (''provider_instance_id'', opt_text (ef_provider e)),
     (''verification_required'', JBool (ef_verification_required e)),
     (''before_artifact'', opt_text (ef_before e)),
     (''after_artifact'', opt_text (ef_after e)),
     (''provider_receipt'', opt_text (ef_provider_receipt e))]"

definition completion_document :: "completion_evidence \<Rightarrow> json" where
  "completion_document c = JObj [
     (''completion_key'', JStr (cv_key c)),
     (''completion_operation_id'', JStr (cv_operation_id c)),
     (''consumer_component_digest'', JStr (cv_consumer_digest c)),
     (''consumer_generation'', opt_text (cv_consumer_generation c))]"

definition effect_digest :: "effect_receipt option \<Rightarrow> string option" where
  "effect_digest e = map_option (\<lambda>e. digest_of (effect_document e)) e"

definition consumption_digest :: "completion_evidence option \<Rightarrow> string option" where
  "consumption_digest c = map_option (\<lambda>c. digest_of (completion_document c)) c"

subsection \<open>Transitions\<close>

definition intent_conflict :: "string \<Rightarrow> exc" where
  "intent_conflict m = (''EffectIntentConflict'', m)"

text \<open>The Boolean tells whether the record was created.\<close>

definition prepare_transition :: "intent_record option \<Rightarrow> effect_intent \<Rightarrow> exc + intent_record \<times> bool" where
  "prepare_transition current intent =
     (case current of
        None \<Rightarrow> Inr (\<lparr>ir_intent = intent, ir_phase = Ip_prepared, ir_effect = None, ir_effect_digest = None,
                      ir_consumption = None, ir_consumption_digest = None\<rparr>, True)
      | Some r \<Rightarrow>
          if ir_intent r \<noteq> intent
          then Inl (intent_conflict (''effect intent identity conflict: '' @ ei_intent_id intent))
          else Inr (r, False))"

definition require_request :: "intent_record \<Rightarrow> string \<Rightarrow> exc + unit" where
  "require_request r digest =
     (if ei_request_digest (ir_intent r) \<noteq> digest
      then Inl (intent_conflict (''effect request digest conflict: '' @ ei_intent_id (ir_intent r)))
      else Inr ())"

definition require_bound_effect :: "intent_record \<Rightarrow> string \<Rightarrow> effect_receipt option \<Rightarrow> exc + unit" where
  "require_bound_effect r digest effect =
     (case effect of
        None \<Rightarrow> Inr ()
      | Some e \<Rightarrow>
          if \<not> receipt_bound e digest
          then Inl (intent_conflict (''effect receipt request digest conflict: '' @ ei_intent_id (ir_intent r)))
          else Inr ())"

definition effect_transition ::
    "intent_record \<Rightarrow> string \<Rightarrow> intent_phase \<Rightarrow> effect_receipt option \<Rightarrow> exc + intent_record" where
  "effect_transition r digest phase effect =
     (if phase \<notin> {Ip_result_recorded, Ip_reconciled}
      then Inl (value_error (''unsupported effect transition target: '' @ intent_phase_value phase))
      else
        bind_result (require_request r digest) (\<lambda>_.
        bind_result (require_bound_effect r digest effect) (\<lambda>_.
          if ir_phase r = phase
          then (if ir_effect_digest r \<noteq> effect_digest effect
                then Inl (intent_conflict (''effect digest conflict: '' @ ei_intent_id (ir_intent r)))
                else Inr r)
          else if ir_phase r = Ip_reconciled
          then (if ir_effect_digest r \<noteq> effect_digest effect
                then Inl (intent_conflict (''reconciled effect conflict: '' @ ei_intent_id (ir_intent r)))
                else Inr r)
          else if phase = Ip_result_recorded \<and> ir_phase r \<noteq> Ip_prepared
                  \<or> phase = Ip_reconciled \<and> ir_phase r \<notin> {Ip_prepared, Ip_result_recorded}
          then Inl (intent_conflict (''invalid effect intent transition: ''
                 @ intent_phase_value (ir_phase r) @ ''->'' @ intent_phase_value phase))
          else Inr \<lparr>ir_intent = ir_intent r, ir_phase = phase, ir_effect = effect,
                    ir_effect_digest = effect_digest effect, ir_consumption = ir_consumption r,
                    ir_consumption_digest = ir_consumption_digest r\<rparr>)))"

definition authoritatively_resolved :: "effect_receipt option \<Rightarrow> bool" where
  "authoritatively_resolved effect \<longleftrightarrow>
     (case effect of
        None \<Rightarrow> False
      | Some e \<Rightarrow> \<not> ef_verification_required e
          \<and> ef_certainty e \<in> {No_effect, Effect_confirmed, Effect_rejected})"

definition consumable_effect :: "effect_receipt option \<Rightarrow> bool" where
  "consumable_effect effect \<longleftrightarrow>
     (case effect of
        None \<Rightarrow> False
      | Some e \<Rightarrow> \<not> ef_verification_required e \<and> ef_certainty e \<in> {Effect_confirmed, Effect_rejected})"

definition consumed_transition ::
    "intent_record \<Rightarrow> string \<Rightarrow> completion_evidence \<Rightarrow> exc + intent_record" where
  "consumed_transition r digest consumption =
     bind_result (require_request r digest) (\<lambda>_.
       if ir_phase r = Ip_consumed
       then (if ir_consumption_digest r \<noteq> consumption_digest (Some consumption)
             then Inl (intent_conflict (''effect completion evidence conflict: '' @ ei_intent_id (ir_intent r)))
             else Inr r)
       else if ir_phase r \<notin> {Ip_result_recorded, Ip_reconciled}
       then Inl (intent_conflict (''cannot consume effect intent from phase: '' @ intent_phase_value (ir_phase r)))
       else if \<not> consumable_effect (ir_effect r)
       then Inl (intent_conflict ''CONSUMED terminal requires resolved EFFECT_CONFIRMED/EFFECT_REJECTED proof'')
       else Inr \<lparr>ir_intent = ir_intent r, ir_phase = Ip_consumed, ir_effect = ir_effect r,
                 ir_effect_digest = ir_effect_digest r, ir_consumption = Some consumption,
                 ir_consumption_digest = consumption_digest (Some consumption)\<rparr>)"

definition require_not_applied_compatible :: "intent_record \<Rightarrow> effect_receipt \<Rightarrow> exc + unit" where
  "require_not_applied_compatible r evidence =
     (if \<not> authoritatively_resolved (ir_effect r) then Inr ()
      else if map_option ef_certainty (ir_effect r) \<noteq> Some No_effect
      then Inl (intent_conflict ''resolved external effect cannot become NOT_APPLIED'')
      else if ir_effect_digest r \<noteq> effect_digest (Some evidence)
      then Inl (intent_conflict ''resolved NO_EFFECT proof conflict'')
      else Inr ())"

definition not_applied_transition ::
    "intent_record \<Rightarrow> string \<Rightarrow> effect_receipt \<Rightarrow> exc + intent_record" where
  "not_applied_transition r digest effect =
     (if ef_certainty effect \<noteq> No_effect \<or> ef_request_digest effect \<noteq> digest \<or> ef_verification_required effect
      then Inl (intent_conflict ''NOT_APPLIED terminal requires authoritative bound NO_EFFECT proof'')
      else
        bind_result (require_request r digest) (\<lambda>_.
        bind_result (require_bound_effect r digest (Some effect)) (\<lambda>_.
          if ir_phase r = Ip_not_applied
          then (if ir_effect_digest r \<noteq> effect_digest (Some effect)
                then Inl (intent_conflict (''NOT_APPLIED proof conflict: '' @ ei_intent_id (ir_intent r)))
                else Inr r)
          else if ir_phase r = Ip_consumed
          then Inl (intent_conflict (''consumed effect cannot become NOT_APPLIED: '' @ ei_intent_id (ir_intent r)))
          else
            bind_result (require_not_applied_compatible r effect) (\<lambda>_.
              if ir_phase r \<notin> {Ip_prepared, Ip_result_recorded, Ip_reconciled}
              then Inl (intent_conflict (''cannot mark NOT_APPLIED from phase: '' @ intent_phase_value (ir_phase r)))
              else Inr \<lparr>ir_intent = ir_intent r, ir_phase = Ip_not_applied, ir_effect = Some effect,
                        ir_effect_digest = effect_digest (Some effect), ir_consumption = ir_consumption r,
                        ir_consumption_digest = ir_consumption_digest r\<rparr>))))"

text \<open>A step of the journal on one record: which transition, with its arguments.\<close>

datatype intent_step =
    Step_result string "effect_receipt option"
  | Step_reconciled string effect_receipt
  | Step_consumed string completion_evidence
  | Step_not_applied string effect_receipt

fun apply_step :: "intent_step \<Rightarrow> intent_record \<Rightarrow> exc + intent_record" where
  "apply_step (Step_result d e) r = effect_transition r d Ip_result_recorded e"
| "apply_step (Step_reconciled d e) r = effect_transition r d Ip_reconciled (Some e)"
| "apply_step (Step_consumed d c) r = consumed_transition r d c"
| "apply_step (Step_not_applied d e) r = not_applied_transition r d e"

fun valid_step :: "intent_step \<Rightarrow> bool" where
  "valid_step (Step_result d e) = (case e of None \<Rightarrow> True | Some e \<Rightarrow> valid_effect e)"
| "valid_step (Step_reconciled d e) = valid_effect e"
| "valid_step (Step_consumed d c) = valid_completion c"
| "valid_step (Step_not_applied d e) = valid_effect e"

subsection \<open>Records that transitions produce\<close>

text \<open>The evidence a phase requires; digests belong to their documents and receipts to the request.\<close>

definition phase_evidence :: "intent_record \<Rightarrow> bool" where
  "phase_evidence r \<longleftrightarrow>
     (case ir_phase r of
        Ip_prepared \<Rightarrow> ir_effect r = None \<and> ir_consumption r = None
      | Ip_result_recorded \<Rightarrow> ir_consumption r = None
      | Ip_reconciled \<Rightarrow> ir_consumption r = None \<and> ir_effect r \<noteq> None
      | Ip_consumed \<Rightarrow> consumable_effect (ir_effect r) \<and> ir_consumption r \<noteq> None
      | Ip_not_applied \<Rightarrow> ir_consumption r = None
          \<and> (case ir_effect r of None \<Rightarrow> False
             | Some e \<Rightarrow> \<not> ef_verification_required e \<and> ef_certainty e = No_effect))"

definition record_ok :: "intent_record \<Rightarrow> bool" where
  "record_ok r \<longleftrightarrow>
     phase_evidence r
     \<and> ir_effect_digest r = effect_digest (ir_effect r)
     \<and> ir_consumption_digest r = consumption_digest (ir_consumption r)
     \<and> (case ir_effect r of None \<Rightarrow> True
        | Some e \<Rightarrow> valid_effect e \<and> ef_request_digest e = ei_request_digest (ir_intent r))
     \<and> (case ir_consumption r of None \<Rightarrow> True | Some c \<Rightarrow> valid_completion c)"

fun phase_rank :: "intent_phase \<Rightarrow> nat" where
  "phase_rank Ip_prepared = 0"
| "phase_rank Ip_result_recorded = 1"
| "phase_rank Ip_reconciled = 2"
| "phase_rank Ip_consumed = 3"
| "phase_rank Ip_not_applied = 3"

lemma prepare_transition_ok:
  "prepare_transition None i = Inr (r, created) \<Longrightarrow> record_ok r \<and> created \<and> ir_intent r = i \<and> ir_phase r = Ip_prepared"
  by (auto simp: prepare_transition_def record_ok_def phase_evidence_def effect_digest_def consumption_digest_def)

lemma effect_transition_ok:
  assumes "effect_transition r d phase effect = Inr r'" "record_ok r"
    "case effect of None \<Rightarrow> phase = Ip_result_recorded | Some e \<Rightarrow> valid_effect e"
  shows "record_ok r' \<and> ir_intent r' = ir_intent r
    \<and> (r' = r \<or> phase_rank (ir_phase r) < phase_rank (ir_phase r'))"
  using assms
  by (cases phase; cases "ir_phase r")
    (auto simp: effect_transition_def bind_result_Inr_iff require_request_def require_bound_effect_def
      receipt_bound_def record_ok_def phase_evidence_def split: if_splits option.splits)

lemma consumed_transition_ok:
  assumes "consumed_transition r d c = Inr r'" "record_ok r" "valid_completion c"
  shows "record_ok r' \<and> ir_intent r' = ir_intent r
    \<and> (r' = r \<or> phase_rank (ir_phase r) < phase_rank (ir_phase r'))"
  using assms
  by (cases "ir_phase r")
    (auto simp: consumed_transition_def bind_result_Inr_iff require_request_def
      record_ok_def phase_evidence_def split: if_splits option.splits)

lemma not_applied_transition_ok:
  assumes "not_applied_transition r d e = Inr r'" "record_ok r" "valid_effect e"
  shows "record_ok r' \<and> ir_intent r' = ir_intent r
    \<and> (r' = r \<or> phase_rank (ir_phase r) < phase_rank (ir_phase r'))"
  using assms
  by (cases "ir_phase r")
    (auto simp: not_applied_transition_def bind_result_Inr_iff require_request_def require_bound_effect_def
      receipt_bound_def record_ok_def phase_evidence_def split: if_splits)

lemma apply_step_ok:
  assumes "apply_step s r = Inr r'" "record_ok r" "valid_step s"
  shows "record_ok r' \<and> ir_intent r' = ir_intent r
    \<and> (r' = r \<or> phase_rank (ir_phase r) < phase_rank (ir_phase r'))"
  using assms
  by (cases s) (auto dest!: effect_transition_ok consumed_transition_ok not_applied_transition_ok
      split: option.splits)

inductive reachable_record :: "intent_record \<Rightarrow> bool" where
  reach_prepared: "prepare_transition None i = Inr (r, created) \<Longrightarrow> reachable_record r"
| reach_step: "reachable_record r \<Longrightarrow> valid_step s \<Longrightarrow> apply_step s r = Inr r' \<Longrightarrow> reachable_record r'"

lemma reachable_ok: "reachable_record r \<Longrightarrow> record_ok r"
  by (induction rule: reachable_record.induct) (auto dest: prepare_transition_ok apply_step_ok)

subsection \<open>Properties\<close>

text \<open>
  C20: Every record the transitions can produce carries the evidence of its phase: an intent is
  consumed only with a confirmed or rejected receipt that needs no verification and with
  completion evidence, it is not applied only with an authoritative no-effect receipt, a prepared
  one has no evidence yet, digests are those of the documents stored, and the receipt answers the
  intent's request.
\<close>

theorem reachable_records_evidence:
  assumes "reachable_record r"
  shows "phase_evidence r
    \<and> ir_effect_digest r = effect_digest (ir_effect r)
    \<and> ir_consumption_digest r = consumption_digest (ir_consumption r)
    \<and> (case ir_effect r of None \<Rightarrow> True | Some e \<Rightarrow> ef_request_digest e = ei_request_digest (ir_intent r))"
  using reachable_ok [OF assms] by (auto simp: record_ok_def split: option.splits)

text \<open>
  C21: Transitions are idempotent and final. Repeating an accepted transition succeeds and changes
  nothing; the intent of a record never changes; a change moves the phase forward, so a record
  changes at most three times; and a consumed or not-applied record never changes again.
\<close>

theorem transitions_idempotent_final:
  assumes "apply_step s r = Inr r'" "record_ok r" "valid_step s"
  shows "apply_step s r' = Inr r' \<and> ir_intent r' = ir_intent r
    \<and> (r' = r \<or> phase_rank (ir_phase r) < phase_rank (ir_phase r')) \<and> phase_rank (ir_phase r') \<le> 3
    \<and> (terminal_phase (ir_phase r) \<longrightarrow> r' = r)"
proof -
  have "apply_step s r' = Inr r'"
    using assms(1)
    by (cases s; cases "ir_phase r")
      (auto simp: effect_transition_def consumed_transition_def not_applied_transition_def bind_result_Inr_iff
        require_request_def require_bound_effect_def receipt_bound_def split: if_splits option.splits)
  moreover have "phase_rank p \<le> 3" "terminal_phase p \<Longrightarrow> phase_rank p = 3" for p
    by (cases p; simp add: terminal_phase_def)+
  ultimately show ?thesis using apply_step_ok [OF assms] by (metis not_less)
qed

definition demo_effect :: "effect_certainty \<Rightarrow> effect_receipt" where
  "demo_effect c = \<lparr>ef_id = ''e'', ef_request_digest = ''d'', ef_class = Effect_reconcilable, ef_certainty = c,
     ef_provider = None, ef_verification_required = False, ef_before = None, ef_after = None,
     ef_provider_receipt = None\<rparr>"

definition demo_intent :: effect_intent where
  "demo_intent = \<lparr>ei_intent_id = ''i'', ei_request_id = ''q'', ei_operation_id = ''o'', ei_request_digest = ''d'',
     ei_provider_digest = ''p'', ei_run_id = ''r'', ei_trace_id = ''t'', ei_study_id = None, ei_lifetime_id = None,
     ei_task_id = None, ei_decision_cycle_id = None, ei_checkpoint_id = None, ei_source_generation = None,
     ei_recovery_handle = None\<rparr>"

definition demo_prepared :: intent_record where
  "demo_prepared = \<lparr>ir_intent = demo_intent, ir_phase = Ip_prepared, ir_effect = None, ir_effect_digest = None,
     ir_consumption = None, ir_consumption_digest = None\<rparr>"

definition demo_resolved :: intent_record where
  "demo_resolved = demo_prepared\<lparr>ir_phase := Ip_result_recorded, ir_effect := Some (demo_effect Effect_confirmed),
     ir_effect_digest := effect_digest (Some (demo_effect Effect_confirmed))\<rparr>"

lemma demo_effect_valid: "valid_effect (demo_effect c)"
proof -
  have "\<not> blank ''e'' \<and> \<not> blank ''d''" by code_simp
  then show ?thesis by (simp add: valid_effect_def demo_effect_def)
qed

lemma demo_resolved_step: "apply_step (Step_result ''d'' (Some (demo_effect Effect_confirmed))) demo_prepared = Inr demo_resolved"
  by (simp add: effect_transition_def require_request_def require_bound_effect_def receipt_bound_def
      demo_resolved_def demo_prepared_def demo_intent_def demo_effect_def)

lemma demo_prepared_reachable: "reachable_record demo_prepared"
  by (rule reach_prepared [where i = demo_intent and created = True])
    (simp add: prepare_transition_def demo_prepared_def)

theorem reachable_records_evidence_witness:
  "phase_evidence demo_resolved \<and> ir_effect_digest demo_resolved = effect_digest (ir_effect demo_resolved)"
proof -
  have "reachable_record demo_resolved"
    by (rule reach_step [OF demo_prepared_reachable _ demo_resolved_step]) (simp add: demo_effect_valid)
  from reachable_records_evidence [OF this] show ?thesis by simp
qed

theorem transitions_idempotent_final_witness:
  "apply_step (Step_result ''d'' (Some (demo_effect Effect_confirmed))) demo_resolved = Inr demo_resolved"
  using transitions_idempotent_final [OF demo_resolved_step reachable_ok [OF demo_prepared_reachable]]
  by (simp add: demo_effect_valid)

text \<open>
  A confirmed effect can still end as not applied. A recorded result that is authoritatively
  confirmed refuses the not-applied transition, but reconciliation may replace its receipt by a
  no-effect one, after which the same transition is accepted.
\<close>

theorem confirmed_result_overridden:
  "apply_step (Step_not_applied ''d'' (demo_effect No_effect)) demo_resolved
     = Inl (intent_conflict ''resolved external effect cannot become NOT_APPLIED'')
   \<and> (\<exists>reconciled terminal.
        apply_step (Step_reconciled ''d'' (demo_effect No_effect)) demo_resolved = Inr reconciled
        \<and> apply_step (Step_not_applied ''d'' (demo_effect No_effect)) reconciled = Inr terminal
        \<and> ir_phase terminal = Ip_not_applied)"
  by (simp add: effect_transition_def not_applied_transition_def require_request_def require_bound_effect_def
      receipt_bound_def require_not_applied_compatible_def authoritatively_resolved_def
      demo_resolved_def demo_prepared_def demo_intent_def demo_effect_def)

end
