(* ===== verification/Effect_Codec.thy ===== *)
theory Effect_Codec
  imports Effect_Transitions
begin

text \<open>
  The document codec of the effect journal (\<open>reliability/effect/runtime/generic_codec.py\<close>), with
  base64 as the standard library has it. A row is the encoded record. A document whose text fields
  hold another JSON type, which the encoder never writes, yields the exception \<open>Unmodelled\<close>, as
  does a number that is not an integer; every other malformed row is an integrity error.
\<close>

subsection \<open>Base64\<close>

definition b64_alphabet :: string where
  "b64_alphabet = ''ABCDEFGHIJKLMNOPQRSTUVWXYZabcdefghijklmnopqrstuvwxyz0123456789+/''"

definition b64_char :: "nat \<Rightarrow> char" where
  "b64_char n = b64_alphabet ! n"

definition b64_value :: "char \<Rightarrow> nat option" where
  "b64_value c = (let n = code_point c in
     if 65 \<le> n \<and> n \<le> 90 then Some (n - 65)
     else if 97 \<le> n \<and> n \<le> 122 then Some (n - 71)
     else if 48 \<le> n \<and> n \<le> 57 then Some (n + 4)
     else if n = 43 then Some 62 else if n = 47 then Some 63 else None)"

fun b64_encode :: "nat list \<Rightarrow> string" where
  "b64_encode [] = []"
| "b64_encode [a] = [b64_char (a div 4), b64_char (a mod 4 * 16), CHR ''='', CHR ''='']"
| "b64_encode [a, b] =
     [b64_char (a div 4), b64_char (a mod 4 * 16 + b div 16), b64_char (b mod 16 * 4), CHR ''='']"
| "b64_encode (a # b # c # r) =
     [b64_char (a div 4), b64_char (a mod 4 * 16 + b div 16), b64_char (b mod 16 * 4 + c div 64),
      b64_char (c mod 64)] @ b64_encode r"

text \<open>\<open>binascii.a2b_base64\<close> without strict mode: position in the quad, the bits left over, the pads seen.\<close>

fun b64_decode :: "nat \<Rightarrow> nat \<Rightarrow> nat \<Rightarrow> string \<Rightarrow> nat list option" where
  "b64_decode q l p [] = (if q = 0 then Some [] else None)"
| "b64_decode q l p (c # cs) =
     (if c = CHR ''='' then
        (if 2 \<le> q \<and> 4 \<le> q + p + 1 then Some []
         else b64_decode q l (if 2 \<le> q then p + 1 else p) cs)
      else (case b64_value c of
              None \<Rightarrow> b64_decode q l p cs
            | Some v \<Rightarrow>
                if q = 0 then b64_decode 1 v 0 cs
                else if q = 1 then map_option (Cons (l mod 64 * 4 + v div 16)) (b64_decode 2 (v mod 16) 0 cs)
                else if q = 2 then map_option (Cons (l * 16 + v div 4)) (b64_decode 3 (v mod 4) 0 cs)
                else map_option (Cons (l * 64 + v)) (b64_decode 0 0 0 cs)))"

subsection \<open>Rows and documents\<close>

record effect_row =
  er_intent_id :: string
  er_intent_json :: string
  er_intent_digest :: string
  er_request_digest :: string
  er_run_id :: string
  er_lifetime_id :: "string option"
  er_phase :: string
  er_effect_json :: "string option"
  er_effect_digest :: "string option"
  er_consumption_json :: "string option"
  er_consumption_digest :: "string option"

definition integrity_error :: "string \<Rightarrow> exc" where
  "integrity_error m = (''EffectJournalIntegrityError'', m)"

definition handle_payload :: "effect_handle option \<Rightarrow> json" where
  "handle_payload h = (case h of None \<Rightarrow> JNull | Some h \<Rightarrow> JObj [
     (''request_id'', JStr (eh_request_id h)),
     (''request_digest'', JStr (eh_request_digest h)),
     (''provider_schema'', JStr (eh_provider_schema h)),
     (''opaque_payload_b64'', JStr (b64_encode (map code_point (eh_payload h)))),
     (''payload_sha256'', JStr (eh_payload_sha256 h)),
     (''provider_instance_id'', opt_text (eh_provider_instance h))])"

definition intent_document_schema :: string where
  "intent_document_schema = ''effect-intent.v1''"

definition intent_payload :: "effect_intent \<Rightarrow> json" where
  "intent_payload i = JObj [
     (''document_schema'', JStr intent_document_schema),
     (''intent_id'', JStr (ei_intent_id i)),
     (''request_id'', JStr (ei_request_id i)),
     (''operation_id'', JStr (ei_operation_id i)),
     (''request_digest'', JStr (ei_request_digest i)),
     (''provider_component_digest'', JStr (ei_provider_digest i)),
     (''run_id'', JStr (ei_run_id i)),
     (''trace_id'', JStr (ei_trace_id i)),
     (''study_id'', opt_text (ei_study_id i)),
     (''lifetime_id'', opt_text (ei_lifetime_id i)),
     (''task_id'', opt_text (ei_task_id i)),
     (''decision_cycle_id'', opt_text (ei_decision_cycle_id i)),
     (''checkpoint_id'', opt_text (ei_checkpoint_id i)),
     (''source_generation'', opt_text (ei_source_generation i)),
     (''recovery_handle'', handle_payload (ei_recovery_handle i))]"

text \<open>\<open>json.dumps(payload, sort_keys=True)\<close> escapes what is not ASCII.\<close>

definition encode_intent :: "effect_intent \<Rightarrow> string \<times> string" where
  "encode_intent i = (dumps True (intent_payload i), digest_of (intent_payload i))"

definition encode_effect :: "effect_receipt option \<Rightarrow> string option" where
  "encode_effect e = map_option (\<lambda>e. dumps True (effect_document e)) e"

definition encode_consumption :: "completion_evidence option \<Rightarrow> string option \<times> string option" where
  "encode_consumption c = (map_option (\<lambda>c. dumps True (completion_document c)) c, consumption_digest c)"

definition encode_intent_record :: "intent_record \<Rightarrow> exc + effect_row" where
  "encode_intent_record r =
     (let (intent_json, intent_digest) = encode_intent (ir_intent r);
          (consumption_json, completion_digest) = encode_consumption (ir_consumption r)
      in if ir_consumption_digest r \<noteq> None \<and> ir_consumption_digest r \<noteq> completion_digest
         then Inl (value_error (''effect completion digest mismatch: '' @ ei_intent_id (ir_intent r)))
         else Inr \<lparr>er_intent_id = ei_intent_id (ir_intent r), er_intent_json = intent_json,
                   er_intent_digest = intent_digest, er_request_digest = ei_request_digest (ir_intent r),
                   er_run_id = ei_run_id (ir_intent r), er_lifetime_id = ei_lifetime_id (ir_intent r),
                   er_phase = intent_phase_value (ir_phase r), er_effect_json = encode_effect (ir_effect r),
                   er_effect_digest = ir_effect_digest r, er_consumption_json = consumption_json,
                   er_consumption_digest = completion_digest\<rparr>)"

subsection \<open>Decoding\<close>

text \<open>\<open>json.loads\<close>\<close>

definition loads_text :: "string \<Rightarrow> exc + json" where
  "loads_text s = (case json_loads False s of
     Inl k \<Rightarrow> Inl (if k \<in> {Unmodelled_value, Out_of_fuel} then unmodelled else (''JSONDecodeError'', []))
   | Inr j \<Rightarrow> Inr j)"

text \<open>\<open>row[k]\<close> on a decoded document, and text fields.\<close>

fun item :: "string \<Rightarrow> json \<Rightarrow> exc + json" where
  "item k (JObj kvs) = (case map_of kvs k of None \<Rightarrow> Inl (''KeyError'', k) | Some v \<Rightarrow> Inr v)"
| "item k _ = Inl (''TypeError'', k)"

fun get_item :: "string \<Rightarrow> json \<Rightarrow> json" where
  "get_item k (JObj kvs) = doc_get k JNull kvs"
| "get_item k _ = JNull"

fun text_value :: "json \<Rightarrow> exc + string" where
  "text_value (JStr s) = Inr s"
| "text_value _ = Inl unmodelled"

fun opt_text_value :: "json \<Rightarrow> exc + string option" where
  "opt_text_value JNull = Inr None"
| "opt_text_value (JStr s) = Inr (Some s)"
| "opt_text_value _ = Inl unmodelled"

definition text_item :: "string \<Rightarrow> json \<Rightarrow> exc + string" where
  "text_item k j = bind_result (item k j) text_value"

text \<open>\<open>str(value)\<close> of a scalar.\<close>

fun str_value :: "json \<Rightarrow> exc + string" where
  "str_value (JStr s) = Inr s"
| "str_value (JInt i) = Inr (int_text i)"
| "str_value (JBool b) = Inr (if b then ''True'' else ''False'')"
| "str_value JNull = Inr ''None''"
| "str_value _ = Inl unmodelled"

definition str_item :: "string \<Rightarrow> json \<Rightarrow> exc + string" where
  "str_item k j = bind_result (item k j) str_value"

definition decode_payload :: "string \<Rightarrow> exc + string" where
  "decode_payload s =
     (if \<not> list_all (\<lambda>c. code_point c < 128) s then Inl (''UnicodeEncodeError'', [])
      else (case b64_decode 0 0 0 s of None \<Rightarrow> Inl (''Error'', ''Incorrect padding'')
            | Some bs \<Rightarrow> Inr (map char_of bs)))"

fun decode_handle :: "json \<Rightarrow> exc + effect_handle option" where
  "decode_handle JNull = Inr None"
| "decode_handle (JObj kvs) =
     bind_result (str_item ''request_id'' (JObj kvs)) (\<lambda>request_id.
     bind_result (str_item ''request_digest'' (JObj kvs)) (\<lambda>request_digest.
     bind_result (str_item ''provider_schema'' (JObj kvs)) (\<lambda>schema.
     bind_result (str_item ''opaque_payload_b64'' (JObj kvs)) (\<lambda>b64.
     bind_result (decode_payload b64) (\<lambda>payload.
     bind_result (str_item ''payload_sha256'' (JObj kvs)) (\<lambda>sha.
     bind_result (if get_item ''provider_instance_id'' (JObj kvs) = JNull then Inr None
                  else bind_result (str_value (get_item ''provider_instance_id'' (JObj kvs))) (\<lambda>s. Inr (Some s))) (\<lambda>provider.
     bind_result (checked valid_handle ''prepared effect handle''
       \<lparr>eh_request_id = request_id, eh_request_digest = request_digest, eh_provider_schema = schema,
        eh_payload = payload, eh_payload_sha256 = sha, eh_provider_instance = provider\<rparr>) (\<lambda>h. Inr (Some h)))))))))"
| "decode_handle _ = Inl (value_error ''invalid prepared effect handle document'')"

definition decode_intent :: "string \<Rightarrow> exc + effect_intent" where
  "decode_intent s =
     bind_result (loads_text s) (\<lambda>row.
     if get_item ''document_schema'' row \<noteq> JStr intent_document_schema
     then Inl (value_error ''unsupported effect intent document schema'')
     else
       bind_result (text_item ''intent_id'' row) (\<lambda>intent_id.
       bind_result (text_item ''request_id'' row) (\<lambda>request_id.
       bind_result (text_item ''operation_id'' row) (\<lambda>operation_id.
       bind_result (text_item ''request_digest'' row) (\<lambda>request_digest.
       bind_result (text_item ''provider_component_digest'' row) (\<lambda>provider.
       bind_result (text_item ''run_id'' row) (\<lambda>run_id.
       bind_result (text_item ''trace_id'' row) (\<lambda>trace_id.
       bind_result (opt_text_value (get_item ''study_id'' row)) (\<lambda>study_id.
       bind_result (opt_text_value (get_item ''lifetime_id'' row)) (\<lambda>lifetime_id.
       bind_result (opt_text_value (get_item ''task_id'' row)) (\<lambda>task_id.
       bind_result (opt_text_value (get_item ''decision_cycle_id'' row)) (\<lambda>cycle_id.
       bind_result (opt_text_value (get_item ''checkpoint_id'' row)) (\<lambda>checkpoint_id.
       bind_result (opt_text_value (get_item ''source_generation'' row)) (\<lambda>generation.
       bind_result (decode_handle (get_item ''recovery_handle'' row)) (\<lambda>handle.
         Inr \<lparr>ei_intent_id = intent_id, ei_request_id = request_id, ei_operation_id = operation_id,
              ei_request_digest = request_digest, ei_provider_digest = provider, ei_run_id = run_id,
              ei_trace_id = trace_id, ei_study_id = study_id, ei_lifetime_id = lifetime_id,
              ei_task_id = task_id, ei_decision_cycle_id = cycle_id, ei_checkpoint_id = checkpoint_id,
              ei_source_generation = generation, ei_recovery_handle = handle\<rparr>)))))))))))))))"

fun truthy :: "json \<Rightarrow> bool" where
  "truthy JNull = False"
| "truthy (JBool b) = b"
| "truthy (JInt i) = (i \<noteq> 0)"
| "truthy (JStr s) = (s \<noteq> [])"
| "truthy (JArr xs) = (xs \<noteq> [])"
| "truthy (JObj kvs) = (kvs \<noteq> [])"

text \<open>An enumeration called with a value: the member that has it.\<close>

definition member_of :: "('a \<Rightarrow> string) \<Rightarrow> 'a list \<Rightarrow> json \<Rightarrow> exc + 'a" where
  "member_of f ms j = (case find (\<lambda>m. JStr (f m) = j) ms of
     None \<Rightarrow> Inl (value_error ''not a valid member'') | Some m \<Rightarrow> Inr m)"

definition all_classes :: "effect_class list" where
  "all_classes = [Effect_pure, Effect_idempotent, Effect_reconcilable, Effect_non_idempotent]"

definition all_certainties :: "effect_certainty list" where
  "all_certainties = [No_effect, Effect_confirmed, Effect_rejected, Effect_possible, Effect_unknown]"

definition all_phases :: "intent_phase list" where
  "all_phases = [Ip_prepared, Ip_result_recorded, Ip_reconciled, Ip_consumed, Ip_not_applied]"

definition decode_effect :: "string option \<Rightarrow> exc + effect_receipt option" where
  "decode_effect s = (case s of None \<Rightarrow> Inr None | Some s \<Rightarrow>
     bind_result (loads_text s) (\<lambda>row.
     bind_result (text_item ''effect_id'' row) (\<lambda>effect_id.
     bind_result (text_item ''request_digest'' row) (\<lambda>request_digest.
     bind_result (bind_result (item ''effect_class'' row) (member_of class_value all_classes)) (\<lambda>cls.
     bind_result (bind_result (item ''certainty'' row) (member_of certainty_value all_certainties)) (\<lambda>certainty.
     bind_result (opt_text_value (get_item ''provider_instance_id'' row)) (\<lambda>provider.
     bind_result (opt_text_value (get_item ''before_artifact'' row)) (\<lambda>before.
     bind_result (opt_text_value (get_item ''after_artifact'' row)) (\<lambda>after.
     bind_result (opt_text_value (get_item ''provider_receipt'' row)) (\<lambda>receipt.
     bind_result (checked valid_effect ''effect receipt identity fields must be non-empty''
       \<lparr>ef_id = effect_id, ef_request_digest = request_digest, ef_class = cls, ef_certainty = certainty,
        ef_provider = provider, ef_verification_required = truthy (get_item ''verification_required'' row),
        ef_before = before, ef_after = after, ef_provider_receipt = receipt\<rparr>) (\<lambda>e. Inr (Some e))))))))))))"

definition decode_consumption :: "string option \<Rightarrow> string option \<Rightarrow> exc + completion_evidence option" where
  "decode_consumption s expected = (case s of
     None \<Rightarrow>
       if expected \<noteq> None then Inl (value_error ''effect completion digest exists without payload'') else Inr None
   | Some s \<Rightarrow>
     bind_result (loads_text s) (\<lambda>row.
     bind_result (text_item ''completion_key'' row) (\<lambda>key.
     bind_result (text_item ''completion_operation_id'' row) (\<lambda>operation_id.
     bind_result (text_item ''consumer_component_digest'' row) (\<lambda>consumer.
     bind_result (opt_text_value (get_item ''consumer_generation'' row)) (\<lambda>generation.
       (let c = \<lparr>cv_key = key, cv_operation_id = operation_id, cv_consumer_digest = consumer,
                 cv_consumer_generation = generation\<rparr> in
        if consumption_digest (Some c) \<noteq> expected
        then Inl (value_error ''effect completion document checksum mismatch'')
        else bind_result (checked valid_completion ''completion evidence must be non-empty'' c)
               (\<lambda>c. Inr (Some c)))))))))"

definition validate_phase :: "intent_record \<Rightarrow> exc + unit" where
  "validate_phase r =
     (case ir_phase r of
        Ip_prepared \<Rightarrow>
          if ir_effect r \<noteq> None \<or> ir_consumption r \<noteq> None
          then Inl (integrity_error ''PREPARED effect journal record cannot carry result/completion evidence'')
          else Inr ()
      | Ip_result_recorded \<Rightarrow>
          if ir_consumption r \<noteq> None
          then Inl (integrity_error ''non-terminal effect journal record cannot carry completion evidence'')
          else Inr ()
      | Ip_reconciled \<Rightarrow>
          if ir_consumption r \<noteq> None
          then Inl (integrity_error ''non-terminal effect journal record cannot carry completion evidence'')
          else if ir_effect r = None
          then Inl (integrity_error ''RECONCILED effect journal record requires reconciliation evidence'')
          else Inr ()
      | Ip_consumed \<Rightarrow>
          if \<not> consumable_effect (ir_effect r) \<or> ir_consumption r = None
          then Inl (integrity_error ''CONSUMED effect journal record lacks authoritative effect/completion evidence'')
          else Inr ()
      | Ip_not_applied \<Rightarrow>
          (case ir_effect r of
             None \<Rightarrow> Inl (integrity_error ''NOT_APPLIED effect journal record lacks authoritative NO_EFFECT evidence'')
           | Some e \<Rightarrow>
               if ef_verification_required e \<or> ef_certainty e \<noteq> No_effect \<or> ir_consumption r \<noteq> None
               then Inl (integrity_error ''NOT_APPLIED effect journal record lacks authoritative NO_EFFECT evidence'')
               else Inr ()))"

definition require_index :: "string \<Rightarrow> string \<Rightarrow> bool \<Rightarrow> exc + unit" where
  "require_index intent_id fld same =
     (if same then Inr ()
      else Inl (integrity_error (''effect journal '' @ fld @ '' index mismatch: '' @ intent_id)))"

text \<open>The body of the \<open>try\<close>, and its handlers.\<close>

definition decode_row :: "effect_row \<Rightarrow> exc + intent_record" where
  "decode_row row =
     bind_result (loads_text (er_intent_json row)) (\<lambda>raw.
     bind_result (case raw of JObj _ \<Rightarrow> Inr ()
                  | _ \<Rightarrow> Inl (integrity_error (''effect intent document must be an object: '' @ er_intent_id row))) (\<lambda>_.
     bind_result (case canonical_digest raw of Inl _ \<Rightarrow> Inl (''CanonicalEncodingError'', []) | Inr d \<Rightarrow> Inr d) (\<lambda>digest.
     if digest \<noteq> er_intent_digest row
     then Inl (integrity_error (''effect intent document checksum mismatch: '' @ er_intent_id row))
     else
     bind_result (decode_intent (er_intent_json row)) (\<lambda>intent.
     bind_result (require_index (er_intent_id row) ''intent_id'' (er_intent_id row = ei_intent_id intent)) (\<lambda>_.
     bind_result (require_index (er_intent_id row) ''request_digest'' (er_request_digest row = ei_request_digest intent)) (\<lambda>_.
     bind_result (require_index (er_intent_id row) ''run_id'' (er_run_id row = ei_run_id intent)) (\<lambda>_.
     bind_result (require_index (er_intent_id row) ''lifetime_id'' (er_lifetime_id row = ei_lifetime_id intent)) (\<lambda>_.
     bind_result (member_of intent_phase_value all_phases (JStr (er_phase row))) (\<lambda>phase.
     bind_result (decode_effect (er_effect_json row)) (\<lambda>effect.
     if er_effect_digest row \<noteq> effect_digest effect
     then Inl (integrity_error (''effect journal effect checksum mismatch: '' @ er_intent_id row))
     else if (case effect of None \<Rightarrow> False | Some e \<Rightarrow> ef_request_digest e \<noteq> ei_request_digest intent)
     then Inl (integrity_error (''effect journal receipt/request mismatch: '' @ er_intent_id row))
     else
     bind_result (decode_consumption (er_consumption_json row) (er_consumption_digest row)) (\<lambda>consumption.
     (let r = \<lparr>ir_intent = intent, ir_phase = phase, ir_effect = effect, ir_effect_digest = er_effect_digest row,
               ir_consumption = consumption, ir_consumption_digest = er_consumption_digest row\<rparr>
      in bind_result (validate_phase r) (\<lambda>_. Inr r)))))))))))))"

definition decode_intent_record :: "effect_row \<Rightarrow> exc + intent_record" where
  "decode_intent_record row =
     (case decode_row row of
        Inr r \<Rightarrow> Inr r
      | Inl x \<Rightarrow>
          Inl (if fst x \<in> {''EffectJournalIntegrityError'', ''Unmodelled''} then x
               else integrity_error (''effect journal record is invalid: '' @ er_intent_id row)))"

subsection \<open>Base64 is read back\<close>

lemma b64_alphabet_length: "length b64_alphabet = 64"
  by (simp add: b64_alphabet_def)

lemma b64_alphabet_values: "map b64_value b64_alphabet = map Some [0..<64]"
  by (simp add: b64_alphabet_def b64_value_def code_point_def upt_rec)

lemma b64_alphabet_chars: "list_all (\<lambda>c. c \<noteq> CHR ''='' \<and> code_point c < 128) b64_alphabet"
  by (simp add: b64_alphabet_def code_point_def)

lemma b64_char [simp]:
  assumes "n < 64"
  shows "b64_value (b64_char n) = Some n" "b64_char n \<noteq> CHR ''=''" "code_point (b64_char n) < 128"
proof -
  have n: "n < length b64_alphabet" using assms by (simp add: b64_alphabet_length)
  have "map b64_value b64_alphabet ! n = map Some [0..<64] ! n" by (simp only: b64_alphabet_values)
  with assms n show "b64_value (b64_char n) = Some n" by (simp add: b64_char_def)
  show "b64_char n \<noteq> CHR ''=''" "code_point (b64_char n) < 128"
    using n b64_alphabet_chars by (auto simp: b64_char_def list_all_length)
qed

lemma pad_ascii [simp]: "code_point CHR ''='' < 128"
  by (simp add: code_point_def)

lemma b64_roundtrip: "list_all (\<lambda>b. b < 256) bs \<Longrightarrow> b64_decode 0 0 0 (b64_encode bs) = Some bs"
proof (induction bs rule: b64_encode.induct)
  case (2 a)
  then have "a div 4 < 64" "a mod 4 * 16 < 64" by auto
  moreover have "a div 4 * 4 + a mod 4 * 16 div 16 = a" by simp
  ultimately show ?case by (simp add: b64_char)
next
  case (3 a b)
  then have "a div 4 < 64" "a mod 4 * 16 + b div 16 < 64" "b mod 16 * 4 < 64" by auto
  moreover have "a div 4 * 4 + (a mod 4 * 16 + b div 16) div 16 = a" using 3 by auto
  moreover have "(a mod 4 * 16 + b div 16) mod 16 * 16 + b mod 16 * 4 div 4 = b" using 3 by auto
  ultimately show ?case by simp
next
  case (4 a b c r)
  then have "a div 4 < 64" "a mod 4 * 16 + b div 16 < 64" "b mod 16 * 4 + c div 64 < 64" "c mod 64 < 64" by auto
  moreover have "a div 4 * 4 + (a mod 4 * 16 + b div 16) div 16 = a" using 4 by auto
  moreover have "(a mod 4 * 16 + b div 16) mod 16 * 16 + (b mod 16 * 4 + c div 64) div 4 = b" using 4 by auto
  moreover have "(b mod 16 * 4 + c div 64) mod 4 * 64 + c mod 64 = c" using 4 by auto
  ultimately show ?case using 4 by simp
qed simp

lemma b64_encode_ascii: "list_all (\<lambda>b. b < 256) bs \<Longrightarrow> list_all (\<lambda>c. code_point c < 128) (b64_encode bs)"
proof (induction bs rule: b64_encode.induct)
  case (4 a b c r)
  then have "a div 4 < 64" "a mod 4 * 16 + b div 16 < 64" "b mod 16 * 4 + c div 64 < 64" "c mod 64 < 64" by auto
  with 4 show ?case by simp
qed auto

lemma decode_payload_encoded [simp]: "decode_payload (b64_encode (map code_point s)) = Inr s"
proof -
  have "list_all (\<lambda>b. b < 256) (map code_point s)" by (simp add: list_all_iff)
  from b64_roundtrip [OF this] b64_encode_ascii [OF this] show ?thesis
    by (simp add: decode_payload_def comp_def)
qed

subsection \<open>Documents are read back\<close>

lemma item_sorted:
  assumes "distinct (map fst kvs)" "map_of kvs k = Some v"
  shows "item k (JObj (sorted_fields kvs)) = Inr (sort_keys v)"
    and "get_item k (JObj (sorted_fields kvs)) = sort_keys v"
proof -
  have "doc_get k JNull (sorted_fields kvs) = sort_keys v" "doc_get k (JBool True) (sorted_fields kvs) = sort_keys v"
    "doc_get k (JBool False) (sorted_fields kvs) = sort_keys v"
    using doc_get_sorted [OF assms] by auto
  then show "item k (JObj (sorted_fields kvs)) = Inr (sort_keys v)"
    "get_item k (JObj (sorted_fields kvs)) = sort_keys v"
    by (auto simp: doc_get_def split: option.splits)
qed

lemma sort_keys_opt_text [simp]: "sort_keys (opt_text t) = opt_text t"
  by (cases t) (simp_all add: opt_text_def)

lemma opt_text_value_opt_text [simp]: "opt_text_value (opt_text t) = Inr t"
  by (cases t) (simp_all add: opt_text_def)

lemma opt_text_JNull [simp]: "opt_text t = JNull \<longleftrightarrow> t = None"
  by (cases t) (simp_all add: opt_text_def)

lemma json_wf_opt_text [simp]: "json_wf (opt_text t)" "containers_within m d (opt_text t)"
  by (cases t; simp add: opt_text_def)+

lemma loads_text_dumps: "json_wf j \<Longrightarrow> loads_text (dumps ea j) = Inr (sort_keys j)"
  by (simp add: loads_text_def json_loads_dumps)

lemma digest_of_sort_keys [simp]: "digest_of (sort_keys j) = digest_of j"
  by (simp add: digest_of_def dumps_def)

lemma decode_handle_payload:
  "(case h of None \<Rightarrow> True | Some h \<Rightarrow> valid_handle h) \<Longrightarrow> decode_handle (sort_keys (handle_payload h)) = Inr h"
proof (cases h)
  case (Some g)
  assume "case h of None \<Rightarrow> True | Some h \<Rightarrow> valid_handle h"
  then have "valid_handle g" using Some by simp
  with Some show ?thesis
    by (cases g; cases "eh_provider_instance g")
      (simp_all add: handle_payload_def sort_keys_JObj item_sorted str_item_def opt_text_def checked_def
        del: sort_keys.simps(2) item.simps get_item.simps)
qed (simp add: handle_payload_def)

lemma member_of_class [simp]: "member_of class_value all_classes (JStr (class_value c)) = Inr c"
  by (cases c) (simp_all add: member_of_def all_classes_def)

lemma member_of_certainty [simp]:
  "member_of certainty_value all_certainties (JStr (certainty_value y)) = Inr y"
  by (cases y) (simp_all add: member_of_def all_certainties_def)

lemma member_of_phase [simp]: "member_of intent_phase_value all_phases (JStr (intent_phase_value p)) = Inr p"
  by (cases p) (simp_all add: member_of_def all_phases_def)
lemmas reading = sort_keys_JObj item_sorted text_item_def checked_def

lemma decode_intent_encoded:
  assumes "case ei_recovery_handle i of None \<Rightarrow> True | Some h \<Rightarrow> valid_handle h"
  shows "decode_intent (fst (encode_intent i)) = Inr i"
proof -
  have wf: "json_wf (intent_payload i)"
    by (cases "ei_recovery_handle i") (simp_all add: intent_payload_def handle_payload_def)
  show ?thesis using decode_handle_payload [OF assms]
    by (simp add: decode_intent_def encode_intent_def loads_text_dumps [OF wf])
      (simp add: intent_payload_def reading del: sort_keys.simps(2) item.simps get_item.simps)
qed

lemma decode_effect_encoded:
  assumes "case e of None \<Rightarrow> True | Some e \<Rightarrow> valid_effect e"
  shows "decode_effect (encode_effect e) = Inr e"
proof (cases e)
  case (Some f)
  have wf: "json_wf (effect_document f)" by (simp add: effect_document_def)
  have "valid_effect f" using assms Some by simp
  then show ?thesis unfolding Some
    by (cases f, simp add: decode_effect_def encode_effect_def loads_text_dumps [OF wf, unfolded Some])
      (simp add: effect_document_def reading loads_text_dumps del: sort_keys.simps(2) item.simps get_item.simps)
qed (simp add: decode_effect_def encode_effect_def)

lemma decode_consumption_encoded:
  assumes "case c of None \<Rightarrow> True | Some c \<Rightarrow> valid_completion c"
  shows "decode_consumption (fst (encode_consumption c)) (snd (encode_consumption c)) = Inr c"
proof (cases c)
  case (Some d)
  have wf: "json_wf (completion_document d)" by (simp add: completion_document_def)
  have "valid_completion d" using assms Some by simp
  then show ?thesis unfolding Some
    by (cases d) (simp add: decode_consumption_def encode_consumption_def completion_document_def
        reading loads_text_dumps del: sort_keys.simps(2) item.simps get_item.simps)
qed (simp add: decode_consumption_def encode_consumption_def consumption_digest_def)

lemma validate_phase_evidence: "validate_phase r = Inr () \<longleftrightarrow> phase_evidence r"
  by (cases "ir_phase r") (auto simp: validate_phase_def phase_evidence_def split: option.splits if_splits)
definition handle_ok :: "effect_intent \<Rightarrow> bool" where
  "handle_ok i \<longleftrightarrow> (case ei_recovery_handle i of None \<Rightarrow> True | Some h \<Rightarrow> valid_handle h)"

lemma intent_digest_encoded:
  "canonical_digest (sort_keys (intent_payload i)) = Inr (snd (encode_intent i))"
proof -
  have "values_within default_max_depth 0 (intent_payload i)"
    by (cases "ei_recovery_handle i") (simp_all add: intent_payload_def handle_payload_def opt_text_def
        default_max_depth_def split: option.splits)
  then have "containers_within default_max_depth 0 (sort_keys (intent_payload i))"
    by (intro values_containers_within) (simp add: values_within_sort_keys)
  then show ?thesis by (simp add: canonical_digest_within encode_intent_def)
qed

lemma intent_document_read:
  "loads_text (fst (encode_intent i)) = Inr (sort_keys (intent_payload i))"
proof -
  have "json_wf (intent_payload i)"
    by (cases "ei_recovery_handle i") (simp_all add: intent_payload_def handle_payload_def)
  then show ?thesis by (simp add: encode_intent_def loads_text_dumps)
qed

definition row_of :: "intent_record \<Rightarrow> effect_row" where
  "row_of r = \<lparr>er_intent_id = ei_intent_id (ir_intent r), er_intent_json = fst (encode_intent (ir_intent r)),
     er_intent_digest = snd (encode_intent (ir_intent r)), er_request_digest = ei_request_digest (ir_intent r),
     er_run_id = ei_run_id (ir_intent r), er_lifetime_id = ei_lifetime_id (ir_intent r),
     er_phase = intent_phase_value (ir_phase r), er_effect_json = encode_effect (ir_effect r),
     er_effect_digest = ir_effect_digest r, er_consumption_json = fst (encode_consumption (ir_consumption r)),
     er_consumption_digest = consumption_digest (ir_consumption r)\<rparr>"

lemma encode_record_ok: "record_ok r \<Longrightarrow> encode_intent_record r = Inr (row_of r)"
  by (simp add: encode_intent_record_def row_of_def record_ok_def encode_consumption_def split_def Let_def)

lemma decode_row_of:
  assumes "record_ok r" "handle_ok (ir_intent r)"
  shows "decode_intent_record (row_of r) = Inr r"
proof -
  from assms(2) have intent: "decode_intent (fst (encode_intent (ir_intent r))) = Inr (ir_intent r)"
    by (simp add: handle_ok_def decode_intent_encoded)
  from assms(1) have effect: "decode_effect (encode_effect (ir_effect r)) = Inr (ir_effect r)"
    by (intro decode_effect_encoded) (auto simp: record_ok_def split: option.splits)
  have snd: "snd (encode_consumption c) = consumption_digest c" for c by (simp add: encode_consumption_def)
  from assms(1) have done_: "decode_consumption (fst (encode_consumption (ir_consumption r)))
      (consumption_digest (ir_consumption r)) = Inr (ir_consumption r)"
    unfolding snd [symmetric]
    by (intro decode_consumption_encoded) (auto simp: record_ok_def split: option.splits)
  have object: "sort_keys (intent_payload i) = JObj (sorted_fields (case intent_payload i of JObj kvs \<Rightarrow> kvs))" for i
    by (simp add: intent_payload_def sort_keys_JObj del: sort_keys.simps)
  have digest: "canonical_digest (JObj (sorted_fields (case intent_payload i of JObj kvs \<Rightarrow> kvs))) = Inr (snd (encode_intent i))" for i
    using intent_digest_encoded [of i] by (simp only: object)
  have "phase_evidence r" using assms(1) by (simp add: record_ok_def)
  then have "validate_phase r = Inr ()" by (simp add: validate_phase_evidence)
  moreover have "(case ir_effect r of None \<Rightarrow> False
      | Some e \<Rightarrow> ef_request_digest e \<noteq> ei_request_digest (ir_intent r)) = False"
    "ir_effect_digest r = effect_digest (ir_effect r)" "ir_consumption_digest r = consumption_digest (ir_consumption r)"
    using assms(1) by (auto simp: record_ok_def split: option.splits)
  moreover from this have same: "\<lparr>ir_intent = ir_intent r, ir_phase = ir_phase r, ir_effect = ir_effect r,
      ir_effect_digest = effect_digest (ir_effect r), ir_consumption = ir_consumption r,
      ir_consumption_digest = consumption_digest (ir_consumption r)\<rparr> = r"
    by (cases r) simp
  ultimately have "decode_row (row_of r) = Inr r"
    by (simp add: decode_row_def row_of_def intent_document_read digest intent effect done_
        require_index_def object Let_def same)
  then show ?thesis by (simp add: decode_intent_record_def)
qed
text \<open>What a row that is read has passed.\<close>

lemma bind_unit_iff: "bind_result (if c then Inl e else Inr ()) f = Inr y \<longleftrightarrow> \<not> c \<and> f () = Inr y"
  by simp

lemma decode_handle_ok: "decode_handle j = Inr (Some h) \<Longrightarrow> valid_handle h"
  by (cases j rule: decode_handle.cases) (auto simp: bind_result_Inr_iff checked_Inr_iff)

lemma decode_intent_handle_ok: "decode_intent s = Inr i \<Longrightarrow> handle_ok i"
  by (auto simp: decode_intent_def bind_result_Inr_iff handle_ok_def dest: decode_handle_ok
      split: if_splits option.splits)

lemma decode_effect_ok: "decode_effect s = Inr (Some e) \<Longrightarrow> valid_effect e"
  by (auto simp: decode_effect_def bind_result_Inr_iff checked_Inr_iff split: option.splits)

lemma decode_consumption_ok:
  "decode_consumption s d = Inr c \<Longrightarrow>
     d = consumption_digest c \<and> (case c of None \<Rightarrow> True | Some c \<Rightarrow> valid_completion c)"
  by (auto simp: decode_consumption_def consumption_digest_def bind_result_Inr_iff checked_Inr_iff Let_def
      split: option.splits if_splits)

lemma member_of_Inr: "member_of f ms (JStr s) = Inr m \<Longrightarrow> s = f m"
  by (auto simp: member_of_def find_Some_iff split: option.splits)

lemma decode_intent_record_iff: "decode_intent_record row = Inr r \<longleftrightarrow> decode_row row = Inr r"
  by (auto simp: decode_intent_record_def split: sum.splits)

lemma decode_row_ok:
  assumes "decode_row row = Inr r"
  shows "record_ok r" "handle_ok (ir_intent r)"
    and "er_intent_id row = ei_intent_id (ir_intent r)" "er_request_digest row = ei_request_digest (ir_intent r)"
    and "er_run_id row = ei_run_id (ir_intent r)" "er_lifetime_id row = ei_lifetime_id (ir_intent r)"
    and "er_phase row = intent_phase_value (ir_phase r)" "er_effect_digest row = ir_effect_digest r"
    and "\<exists>doc. loads_text (er_intent_json row) = Inr doc \<and> canonical_digest doc = Inr (er_intent_digest row)"
  using assms
  by (auto simp: decode_row_def bind_result_Inr_iff require_index_def record_ok_def Let_def
      validate_phase_evidence decode_intent_handle_ok
      dest!: member_of_Inr decode_consumption_ok dest: decode_effect_ok split: if_splits option.splits sum.splits)
subsection \<open>Properties\<close>

text \<open>
  C25: Every record that transitions produce survives storage: it is encoded, and its row decodes
  to the same record, the recovery handle with its opaque bytes included.
\<close>

theorem effect_record_roundtrip:
  assumes "reachable_record r" "handle_ok (ir_intent r)"
  shows "bind_result (encode_intent_record r) decode_intent_record = Inr r"
  using reachable_ok [OF assms(1)] by (simp add: encode_record_ok decode_row_of assms(2))

text \<open>
  C26: A row that decodes can be trusted: the record has the evidence its phase requires, its
  digests are those of its documents, the receipt answers the request, and every index column of
  the row, by which the journal searches, agrees with the document whose digest the row stores.
\<close>

theorem decoded_record_trusted:
  assumes "decode_intent_record row = Inr r"
  shows "phase_evidence r
    \<and> ir_effect_digest r = effect_digest (ir_effect r)
    \<and> ir_consumption_digest r = consumption_digest (ir_consumption r)
    \<and> (case ir_effect r of None \<Rightarrow> True | Some e \<Rightarrow> ef_request_digest e = ei_request_digest (ir_intent r))
    \<and> er_intent_id row = ei_intent_id (ir_intent r) \<and> er_request_digest row = ei_request_digest (ir_intent r)
    \<and> er_run_id row = ei_run_id (ir_intent r) \<and> er_lifetime_id row = ei_lifetime_id (ir_intent r)
    \<and> er_phase row = intent_phase_value (ir_phase r)
    \<and> (\<exists>doc. loads_text (er_intent_json row) = Inr doc \<and> canonical_digest doc = Inr (er_intent_digest row))"
proof -
  note ok = decode_row_ok [OF assms [unfolded decode_intent_record_iff]]
  have "case ir_effect r of None \<Rightarrow> True | Some e \<Rightarrow> ef_request_digest e = ei_request_digest (ir_intent r)"
    using ok(1) by (cases "ir_effect r") (simp_all add: record_ok_def)
  with ok show ?thesis by (simp add: record_ok_def)
qed

lemma demo_handle_ok: "handle_ok (ir_intent demo_prepared)"
  by (simp add: handle_ok_def demo_prepared_def demo_intent_def)

theorem effect_record_roundtrip_witness:
  "bind_result (encode_intent_record demo_prepared) decode_intent_record = Inr demo_prepared"
  by (rule effect_record_roundtrip [OF demo_prepared_reachable demo_handle_ok])

theorem decoded_record_trusted_witness:
  "\<exists>row. decode_intent_record row = Inr demo_prepared \<and> er_run_id row = ''r'' \<and> er_phase row = ''prepared''"
proof -
  have row: "decode_intent_record (row_of demo_prepared) = Inr demo_prepared"
    by (rule decode_row_of [OF reachable_ok [OF demo_prepared_reachable] demo_handle_ok])
  with decoded_record_trusted [OF row] show ?thesis
    by (intro exI [of _ "row_of demo_prepared"]) (simp add: demo_prepared_def demo_intent_def)
qed
end
