(* ===== verification/Effect_Journals.thy ===== *)
theory Effect_Journals
  imports Effect_Codec
begin

text \<open>
  The two journals of \<open>reliability/effect/runtime\<close>: the process-local one (\<open>memory.py\<close>) with its index
  of unresolved intents, and the persistent one (\<open>persistent.py\<close>) over a codec and the SQLite backend
  (\<open>sqlite_backend.py\<close>). Both implement the port \<open>EffectIntentJournal\<close>, whose contract is stated over a
  map from intent identities to records.

  The lock of the one and \<open>BEGIN IMMEDIATE\<close> of the other make an operation atomic. A transition
  that changes nothing returns the object it was given, and one that builds a new record changes its
  phase, so the code's identity test is equality here.
\<close>

subsection \<open>The port\<close>

record 's effect_journal =
  ej_prepare :: "effect_intent \<Rightarrow> 's \<Rightarrow> 's \<times> (exc + intent_record \<times> bool)"
  ej_load :: "string \<Rightarrow> 's \<Rightarrow> exc + intent_record option"
  ej_record_result :: "string \<Rightarrow> string \<Rightarrow> effect_receipt option \<Rightarrow> 's \<Rightarrow> 's \<times> (exc + intent_record)"
  ej_record_reconciled :: "string \<Rightarrow> string \<Rightarrow> effect_receipt \<Rightarrow> 's \<Rightarrow> 's \<times> (exc + intent_record)"
  ej_record_consumed :: "string \<Rightarrow> string \<Rightarrow> completion_evidence \<Rightarrow> 's \<Rightarrow> 's \<times> (exc + intent_record)"
  ej_record_not_applied :: "string \<Rightarrow> string \<Rightarrow> effect_receipt \<Rightarrow> 's \<Rightarrow> 's \<times> (exc + intent_record)"
  ej_unresolved :: "string \<Rightarrow> string option \<Rightarrow> string option \<Rightarrow> 's \<Rightarrow> exc + intent_record list"

definition unknown_intent :: "string \<Rightarrow> exc" where
  "unknown_intent intent_id = intent_conflict (''unknown effect intent: '' @ intent_id)"

subsection \<open>The process-local journal\<close>

type_synonym scope = "string \<times> string option"

definition intent_scope :: "effect_intent \<Rightarrow> scope" where
  "intent_scope i = (ei_run_id i, ei_lifetime_id i)"

text \<open>A set of identities is a list without duplicates; its order is not observed.\<close>

record memory_journal =
  mj_records :: "(string \<times> intent_record) list"
  mj_unresolved :: "(scope \<times> string list) list"

definition new_memory_journal :: memory_journal where
  "new_memory_journal = \<lparr>mj_records = [], mj_unresolved = []\<rparr>"

definition index_ids :: "(scope \<times> string list) list \<Rightarrow> scope \<Rightarrow> string list" where
  "index_ids idx sc = (case map_of idx sc of None \<Rightarrow> [] | Some ids \<Rightarrow> ids)"

definition index_add :: "scope \<Rightarrow> string \<Rightarrow> (scope \<times> string list) list \<Rightarrow> (scope \<times> string list) list" where
  "index_add sc k idx = dict_set sc (List.insert k (index_ids idx sc)) idx"

definition index_discard :: "scope \<Rightarrow> string \<Rightarrow> (scope \<times> string list) list \<Rightarrow> (scope \<times> string list) list" where
  "index_discard sc k idx =
     (case map_of idx sc of
        None \<Rightarrow> idx
      | Some ids \<Rightarrow>
          if removeAll k ids = [] then filter (\<lambda>e. fst e \<noteq> sc) idx
          else dict_set sc (removeAll k ids) idx)"

definition memory_prepare :: "effect_intent \<Rightarrow> memory_journal \<Rightarrow> memory_journal \<times> (exc + intent_record \<times> bool)" where
  "memory_prepare i j =
     (case prepare_transition (map_of (mj_records j) (ei_intent_id i)) i of
        Inl x \<Rightarrow> (j, Inl x)
      | Inr (r, created) \<Rightarrow>
          (if created
           then j\<lparr>mj_records := dict_set (ei_intent_id i) r (mj_records j),
                  mj_unresolved := index_add (intent_scope i) (ei_intent_id i) (mj_unresolved j)\<rparr>
           else j, Inr (r, created)))"

definition memory_journal_load :: "string \<Rightarrow> memory_journal \<Rightarrow> exc + intent_record option" where
  "memory_journal_load k j = Inr (map_of (mj_records j) k)"

definition memory_current_record :: "string \<Rightarrow> memory_journal \<Rightarrow> exc + intent_record" where
  "memory_current_record k j =
     (case map_of (mj_records j) k of None \<Rightarrow> Inl (unknown_intent k) | Some r \<Rightarrow> Inr r)"

definition memory_store :: "intent_record \<Rightarrow> intent_record \<Rightarrow> memory_journal \<Rightarrow> memory_journal" where
  "memory_store current desired j =
     (if desired = current then j
      else (let k = ei_intent_id (ir_intent current);
                j = j\<lparr>mj_records := dict_set k desired (mj_records j)\<rparr>
            in if terminal_phase (ir_phase desired)
               then j\<lparr>mj_unresolved := index_discard (intent_scope (ir_intent current)) k (mj_unresolved j)\<rparr>
               else j))"

definition memory_record ::
    "string \<Rightarrow> (intent_record \<Rightarrow> exc + intent_record) \<Rightarrow> memory_journal \<Rightarrow> memory_journal \<times> (exc + intent_record)" where
  "memory_record k transition j =
     (case memory_current_record k j of
        Inl x \<Rightarrow> (j, Inl x)
      | Inr current \<Rightarrow>
          (case transition current of
             Inl x \<Rightarrow> (j, Inl x)
           | Inr desired \<Rightarrow> (memory_store current desired j, Inr desired)))"

definition memory_unresolved ::
    "string \<Rightarrow> string option \<Rightarrow> string option \<Rightarrow> memory_journal \<Rightarrow> exc + intent_record list" where
  "memory_unresolved run_id lifetime_id exclude j =
     (let ids = filter (\<lambda>k. Some k \<noteq> exclude) (index_ids (mj_unresolved j) (run_id, lifetime_id))
      in bind_result (map_result (\<lambda>k. case map_of (mj_records j) k of
                                        None \<Rightarrow> Inl (''KeyError'', k) | Some r \<Rightarrow> Inr r) ids)
           (\<lambda>rs. Inr (sort_key (\<lambda>r. ei_intent_id (ir_intent r)) rs)))"

definition memory_effect_journal :: "memory_journal effect_journal" where
  "memory_effect_journal = \<lparr>
     ej_prepare = memory_prepare,
     ej_load = memory_journal_load,
     ej_record_result = (\<lambda>k d e. memory_record k (\<lambda>r. effect_transition r d Ip_result_recorded e)),
     ej_record_reconciled = (\<lambda>k d e. memory_record k (\<lambda>r. effect_transition r d Ip_reconciled (Some e))),
     ej_record_consumed = (\<lambda>k d c. memory_record k (\<lambda>r. consumed_transition r d c)),
     ej_record_not_applied = (\<lambda>k d e. memory_record k (\<lambda>r. not_applied_transition r d e)),
     ej_unresolved = memory_unresolved\<rparr>"

subsection \<open>The SQLite backend\<close>

text \<open>
  The table, and what the database does to the next write sessions: \<open>BEGIN\<close> or \<open>COMMIT\<close> may
  raise, after which the session rolls back.
\<close>

datatype session_fault = No_fault | Begin_fails exc | Commit_fails exc

record effect_db =
  jd_rows :: "(string \<times> effect_row) list"
  jd_faults :: "session_fault list"

definition empty_effect_db :: effect_db where
  "empty_effect_db = \<lparr>jd_rows = [], jd_faults = []\<rparr>"

definition backend_read :: "string \<Rightarrow> (string \<times> effect_row) list \<Rightarrow> effect_row option" where
  "backend_read k rows = map_of rows k"

text \<open>The Boolean is \<open>cursor.rowcount == 1\<close>.\<close>

definition session_insert :: "effect_row \<Rightarrow> (string \<times> effect_row) list \<Rightarrow> (string \<times> effect_row) list \<times> bool" where
  "session_insert row rows =
     (insert_or_ignore (er_intent_id row) row rows, map_of rows (er_intent_id row) = None)"

definition update_matches :: "effect_row \<Rightarrow> string \<Rightarrow> string option \<Rightarrow> effect_row \<Rightarrow> bool" where
  "update_matches row phase digest old \<longleftrightarrow>
     er_intent_id old = er_intent_id row \<and> er_phase old = phase \<and> er_effect_digest old = digest"

definition session_update ::
    "effect_row \<Rightarrow> string \<Rightarrow> string option \<Rightarrow> (string \<times> effect_row) list \<Rightarrow> (string \<times> effect_row) list \<times> bool" where
  "session_update row phase digest rows =
     (map (\<lambda>(k, old). (k, if update_matches row phase digest old then row else old)) rows,
      length (filter (\<lambda>(k, old). update_matches row phase digest old) rows) = 1)"

text \<open>
  A session: the rows its connection sees, those that are committed, and the exception that
  \<open>COMMIT\<close> will raise. Leaving the session rolls back what was not committed.
\<close>

record write_tx =
  tx_rows :: "(string \<times> effect_row) list"
  tx_durable :: "(string \<times> effect_row) list"
  tx_fault :: "exc option"

definition tx_commit :: "write_tx \<Rightarrow> write_tx \<times> (exc + unit)" where
  "tx_commit tx = (case tx_fault tx of
     Some x \<Rightarrow> (tx, Inl x) | None \<Rightarrow> (tx\<lparr>tx_durable := tx_rows tx\<rparr>, Inr ()))"

definition write_session :: "(write_tx \<Rightarrow> write_tx \<times> (exc + 'a)) \<Rightarrow> effect_db \<Rightarrow> effect_db \<times> (exc + 'a)" where
  "write_session body db =
     (let (fault, faults) = (case jd_faults db of [] \<Rightarrow> (No_fault, []) | f # fs \<Rightarrow> (f, fs));
          closed = db\<lparr>jd_faults := faults\<rparr>;
          opened = \<lparr>tx_rows = jd_rows db, tx_durable = jd_rows db, tx_fault = None\<rparr>;
          leave = (\<lambda>(tx, y). (closed\<lparr>jd_rows := tx_durable tx\<rparr>, y))
      in case fault of
           Begin_fails x \<Rightarrow> (closed, Inl x)
         | Commit_fails x \<Rightarrow> leave (body (opened\<lparr>tx_fault := Some x\<rparr>))
         | No_fault \<Rightarrow> leave (body opened))"

definition scan_scope_phases ::
    "string \<Rightarrow> string option \<Rightarrow> string list \<Rightarrow> string option \<Rightarrow> (string \<times> effect_row) list \<Rightarrow> effect_row list" where
  "scan_scope_phases run_id lifetime_id phases exclude rows =
     sort_key er_intent_id (filter (\<lambda>row. er_run_id row = run_id \<and> er_lifetime_id row = lifetime_id
       \<and> er_phase row \<in> set phases \<and> (case exclude of None \<Rightarrow> True | Some k \<Rightarrow> er_intent_id row \<noteq> k)) (map snd rows))"

subsection \<open>The persistent journal\<close>

record journal_codec =
  jc_encode :: "intent_record \<Rightarrow> exc + effect_row"
  jc_decode :: "effect_row \<Rightarrow> exc + intent_record"

definition document_codec :: journal_codec where
  "document_codec = \<lparr>jc_encode = encode_intent_record, jc_decode = decode_intent_record\<rparr>"

definition decode_current :: "journal_codec \<Rightarrow> effect_row option \<Rightarrow> exc + intent_record option" where
  "decode_current c row =
     (case row of None \<Rightarrow> Inr None | Some row \<Rightarrow> bind_result (jc_decode c row) (\<lambda>r. Inr (Some r)))"

definition persistent_load :: "journal_codec \<Rightarrow> string \<Rightarrow> effect_db \<Rightarrow> exc + intent_record option" where
  "persistent_load c k db = decode_current c (backend_read k (jd_rows db))"

text \<open>The statements of \<open>prepare\<close> and \<open>_transition\<close> before their commit: the rows they leave, and the result.\<close>

definition prepare_rows ::
    "journal_codec \<Rightarrow> effect_intent \<Rightarrow> (string \<times> effect_row) list
       \<Rightarrow> exc + (string \<times> effect_row) list \<times> (intent_record \<times> bool)" where
  "prepare_rows c i rows =
     bind_result (decode_current c (backend_read (ei_intent_id i) rows)) (\<lambda>current.
     bind_result (prepare_transition current i) (\<lambda>(r, created).
     if created
     then bind_result (jc_encode c r) (\<lambda>row.
            (let (rows', inserted) = session_insert row rows
             in if inserted then Inr (rows', (r, created))
                else Inl (intent_conflict (''effect intent concurrent insert conflict: '' @ ei_intent_id i))))
     else Inr (rows, (r, created))))"

definition transition_rows ::
    "journal_codec \<Rightarrow> string \<Rightarrow> (intent_record \<Rightarrow> exc + intent_record) \<Rightarrow> (string \<times> effect_row) list
       \<Rightarrow> exc + (string \<times> effect_row) list \<times> intent_record" where
  "transition_rows c k transition rows =
     (case backend_read k rows of
        None \<Rightarrow> Inl (unknown_intent k)
      | Some encoded \<Rightarrow>
          bind_result (jc_decode c encoded) (\<lambda>current.
          bind_result (transition current) (\<lambda>desired.
          if desired \<noteq> current
          then bind_result (jc_encode c desired) (\<lambda>row.
                 (let (rows', updated) =
                        session_update row (intent_phase_value (ir_phase current)) (ir_effect_digest current) rows
                  in if updated then Inr (rows', desired)
                     else Inl (intent_conflict (''effect intent concurrent transition conflict: '' @ k))))
          else Inr (rows, desired))))"

text \<open>\<open>tx.commit(); return ...\<close>\<close>

definition commit_and_return ::
    "write_tx \<Rightarrow> exc + (string \<times> effect_row) list \<times> 'a \<Rightarrow> write_tx \<times> (exc + 'a)" where
  "commit_and_return tx r =
     (case r of
        Inl x \<Rightarrow> (tx, Inl x)
      | Inr (rows, y) \<Rightarrow>
          (case tx_commit (tx\<lparr>tx_rows := rows\<rparr>) of
             (tx', Inl x) \<Rightarrow> (tx', Inl x)
           | (tx', Inr _) \<Rightarrow> (tx', Inr y)))"

definition persistent_prepare ::
    "journal_codec \<Rightarrow> effect_intent \<Rightarrow> effect_db \<Rightarrow> effect_db \<times> (exc + intent_record \<times> bool)" where
  "persistent_prepare c i = write_session (\<lambda>tx. commit_and_return tx (prepare_rows c i (tx_rows tx)))"

definition persistent_transition ::
    "journal_codec \<Rightarrow> string \<Rightarrow> (intent_record \<Rightarrow> exc + intent_record) \<Rightarrow> effect_db
       \<Rightarrow> effect_db \<times> (exc + intent_record)" where
  "persistent_transition c k transition =
     write_session (\<lambda>tx. commit_and_return tx (transition_rows c k transition (tx_rows tx)))"

definition open_phases :: "string list" where
  "open_phases = map intent_phase_value (filter (\<lambda>p. \<not> terminal_phase p) all_phases)"

definition persistent_unresolved ::
    "journal_codec \<Rightarrow> string \<Rightarrow> string option \<Rightarrow> string option \<Rightarrow> effect_db \<Rightarrow> exc + intent_record list" where
  "persistent_unresolved c run_id lifetime_id exclude db =
     map_result (jc_decode c) (scan_scope_phases run_id lifetime_id open_phases exclude (jd_rows db))"

definition persistent_effect_journal :: "journal_codec \<Rightarrow> effect_db effect_journal" where
  "persistent_effect_journal c = \<lparr>
     ej_prepare = persistent_prepare c,
     ej_load = persistent_load c,
     ej_record_result = (\<lambda>k d e. persistent_transition c k (\<lambda>r. effect_transition r d Ip_result_recorded e)),
     ej_record_reconciled = (\<lambda>k d e. persistent_transition c k (\<lambda>r. effect_transition r d Ip_reconciled (Some e))),
     ej_record_consumed = (\<lambda>k d v. persistent_transition c k (\<lambda>r. consumed_transition r d v)),
     ej_record_not_applied = (\<lambda>k d e. persistent_transition c k (\<lambda>r. not_applied_transition r d e)),
     ej_unresolved = persistent_unresolved c\<rparr>"

definition sqlite_effect_journal :: "effect_db effect_journal" where
  "sqlite_effect_journal = persistent_effect_journal document_codec"

subsection \<open>The contract\<close>

fun record_operation :: "'s effect_journal \<Rightarrow> string \<Rightarrow> intent_step \<Rightarrow> 's \<Rightarrow> 's \<times> (exc + intent_record)" where
  "record_operation J k (Step_result d e) = ej_record_result J k d e"
| "record_operation J k (Step_reconciled d e) = ej_record_reconciled J k d e"
| "record_operation J k (Step_consumed d c) = ej_record_consumed J k d c"
| "record_operation J k (Step_not_applied d e) = ej_record_not_applied J k d e"

type_synonym intent_map = "string \<Rightarrow> intent_record option"

definition spec_prepare :: "effect_intent \<Rightarrow> intent_map \<Rightarrow> intent_map \<times> (exc + intent_record \<times> bool)" where
  "spec_prepare i m =
     (case prepare_transition (m (ei_intent_id i)) i of
        Inl x \<Rightarrow> (m, Inl x)
      | Inr (r, created) \<Rightarrow> (m(ei_intent_id i \<mapsto> r), Inr (r, created)))"

definition spec_record :: "string \<Rightarrow> intent_step \<Rightarrow> intent_map \<Rightarrow> intent_map \<times> (exc + intent_record)" where
  "spec_record k st m =
     (case m k of
        None \<Rightarrow> (m, Inl (unknown_intent k))
      | Some r \<Rightarrow> (case apply_step st r of Inl x \<Rightarrow> (m, Inl x) | Inr r' \<Rightarrow> (m(k \<mapsto> r'), Inr r')))"

definition open_in :: "scope \<Rightarrow> intent_record \<Rightarrow> bool" where
  "open_in sc r \<longleftrightarrow> intent_scope (ir_intent r) = sc \<and> \<not> terminal_phase (ir_phase r)"

definition open_keys :: "scope \<Rightarrow> intent_map \<Rightarrow> string set" where
  "open_keys sc m = {k. \<exists>r. m k = Some r \<and> open_in sc r}"

definition spec_unresolved :: "string \<Rightarrow> string option \<Rightarrow> string option \<Rightarrow> intent_map \<Rightarrow> intent_record list" where
  "spec_unresolved run_id lifetime_id exclude m =
     map (\<lambda>k. the (m k)) (sorted_list_of_set (open_keys (run_id, lifetime_id) m - set_option exclude))"

datatype journal_op =
    Op_prepare effect_intent
  | Op_record string intent_step
  | Op_load string
  | Op_unresolved string "string option" "string option"

datatype journal_reply =
    Reply_prepared "exc + intent_record \<times> bool"
  | Reply_record "exc + intent_record"
  | Reply_loaded "exc + intent_record option"
  | Reply_unresolved "exc + intent_record list"

fun valid_op :: "journal_op \<Rightarrow> bool" where
  "valid_op (Op_prepare i) = handle_ok i"
| "valid_op (Op_record k st) = valid_step st"
| "valid_op _ = True"

fun journal_call :: "'s effect_journal \<Rightarrow> journal_op \<Rightarrow> 's \<Rightarrow> 's \<times> journal_reply" where
  "journal_call J (Op_prepare i) s = apsnd Reply_prepared (ej_prepare J i s)"
| "journal_call J (Op_record k st) s = apsnd Reply_record (record_operation J k st s)"
| "journal_call J (Op_load k) s = (s, Reply_loaded (ej_load J k s))"
| "journal_call J (Op_unresolved run_id lifetime_id exclude) s =
     (s, Reply_unresolved (ej_unresolved J run_id lifetime_id exclude s))"

fun journal_calls :: "'s effect_journal \<Rightarrow> journal_op list \<Rightarrow> 's \<Rightarrow> 's \<times> journal_reply list" where
  "journal_calls J [] s = (s, [])"
| "journal_calls J (op # ops) s =
     (let (s, y) = journal_call J op s; (s, ys) = journal_calls J ops s in (s, y # ys))"

text \<open>The contract as a journal over the map itself.\<close>

definition map_journal :: "intent_map effect_journal" where
  "map_journal = \<lparr>
     ej_prepare = spec_prepare,
     ej_load = (\<lambda>k m. Inr (m k)),
     ej_record_result = (\<lambda>k d e. spec_record k (Step_result d e)),
     ej_record_reconciled = (\<lambda>k d e. spec_record k (Step_reconciled d e)),
     ej_record_consumed = (\<lambda>k d c. spec_record k (Step_consumed d c)),
     ej_record_not_applied = (\<lambda>k d e. spec_record k (Step_not_applied d e)),
     ej_unresolved = (\<lambda>run_id lifetime_id exclude m. Inr (spec_unresolved run_id lifetime_id exclude m))\<rparr>"

lemma record_map_journal: "record_operation map_journal k st m = spec_record k st m"
  by (cases st) (simp_all add: map_journal_def)

text \<open>The records of a journal are keyed by their intent and have the evidence of their phase.\<close>

definition intent_map_ok :: "intent_map \<Rightarrow> bool" where
  "intent_map_ok m \<longleftrightarrow> finite (dom m)
     \<and> (\<forall>k r. m k = Some r \<longrightarrow> ei_intent_id (ir_intent r) = k \<and> record_ok r \<and> handle_ok (ir_intent r))"

lemma intent_map_ok_upd:
  "intent_map_ok m \<Longrightarrow> ei_intent_id (ir_intent r) = k \<Longrightarrow> record_ok r \<Longrightarrow> handle_ok (ir_intent r) \<Longrightarrow>
     intent_map_ok (m(k \<mapsto> r))"
  by (auto simp: intent_map_ok_def)

lemma intent_map_okD:
  "intent_map_ok m \<Longrightarrow> m k = Some r \<Longrightarrow> ei_intent_id (ir_intent r) = k \<and> record_ok r \<and> handle_ok (ir_intent r)"
  by (auto simp: intent_map_ok_def)

lemma spec_prepare_ok:
  assumes "intent_map_ok m" "handle_ok i" "spec_prepare i m = (m', y)"
  shows "intent_map_ok m'"
proof (cases "m (ei_intent_id i)")
  case None
  with assms show ?thesis
    by (auto simp: spec_prepare_def prepare_transition_def intro!: intent_map_ok_upd
        dest: prepare_transition_ok [unfolded prepare_transition_def, simplified])
      (auto simp: record_ok_def phase_evidence_def effect_digest_def consumption_digest_def)
next
  case (Some r)
  with assms show ?thesis
    by (auto simp: spec_prepare_def prepare_transition_def fun_upd_idem split: if_splits)
qed

lemma spec_record_ok:
  assumes "intent_map_ok m" "valid_step st" "spec_record k st m = (m', y)"
  shows "intent_map_ok m'"
proof (cases "m k")
  case None
  with assms show ?thesis by (simp add: spec_record_def)
next
  case (Some r)
  note ok = intent_map_okD [OF assms(1) Some]
  show ?thesis
  proof (cases "apply_step st r")
    case (Inr r')
    with apply_step_ok [OF Inr _ assms(2)] ok have "record_ok r'" "ir_intent r' = ir_intent r" by simp_all
    with ok intent_map_ok_upd [OF assms(1), of r' k] show ?thesis using assms(3) Some Inr
      by (simp add: spec_record_def)
  qed (use assms Some in \<open>simp add: spec_record_def\<close>)
qed

lemma finite_open_keys: "intent_map_ok m \<Longrightarrow> finite (open_keys sc m)"
  by (rule finite_subset [of _ "dom m"]) (auto simp: open_keys_def intent_map_ok_def)

lemma spec_unresolved_props:
  assumes "intent_map_ok m" "rs = spec_unresolved run_id lifetime_id exclude m"
  shows "sorted_wrt (<) (map (\<lambda>r. ei_intent_id (ir_intent r)) rs)"
    and "r \<in> set rs \<longleftrightarrow> m (ei_intent_id (ir_intent r)) = Some r \<and> open_in (run_id, lifetime_id) r
      \<and> Some (ei_intent_id (ir_intent r)) \<noteq> exclude"
proof -
  let ?K = "open_keys (run_id, lifetime_id) m - set_option exclude"
  have fin: "finite ?K" using finite_open_keys [OF assms(1)] by simp
  have id: "ei_intent_id (ir_intent (the (m k))) = k" if "k \<in> ?K" for k
    using that assms(1) by (auto simp: open_keys_def intent_map_ok_def)
  have "map (\<lambda>r. ei_intent_id (ir_intent r)) rs = sorted_list_of_set ?K"
    using id set_sorted_list_of_set [OF fin] unfolding assms(2) spec_unresolved_def map_map
    by (intro map_idI) (metis comp_apply)
  then show "sorted_wrt (<) (map (\<lambda>r. ei_intent_id (ir_intent r)) rs)"
    by (simp add: strict_sorted_list_of_set)
  show "r \<in> set rs \<longleftrightarrow> m (ei_intent_id (ir_intent r)) = Some r \<and> open_in (run_id, lifetime_id) r
      \<and> Some (ei_intent_id (ir_intent r)) \<noteq> exclude"
    using fin assms(1) unfolding assms(2) spec_unresolved_def
    by (cases exclude) (auto simp: open_keys_def image_iff dest: intent_map_okD intro!: bexI [of _ "ei_intent_id (ir_intent r)"])
qed

locale effect_journal_contract =
  fixes J :: "'s effect_journal"
    and records :: "'s \<Rightarrow> intent_map"
    and inv :: "'s \<Rightarrow> bool"
    and start :: 's
  assumes start: "inv start" "records start = Map.empty"
    and sound: "inv s \<Longrightarrow> intent_map_ok (records s)"
    and prepare: "inv s \<Longrightarrow> handle_ok i \<Longrightarrow> ej_prepare J i s = (s', y) \<Longrightarrow>
      inv s' \<and> spec_prepare i (records s) = (records s', y)"
    and record_step: "inv s \<Longrightarrow> valid_step st \<Longrightarrow> record_operation J k st s = (s', z) \<Longrightarrow>
      inv s' \<and> spec_record k st (records s) = (records s', z)"
    and load: "inv s \<Longrightarrow> ej_load J k s = Inr (records s k)"
    and unresolved: "inv s \<Longrightarrow> ej_unresolved J run_id lifetime_id exclude s =
      Inr (spec_unresolved run_id lifetime_id exclude (records s))"
begin

lemma call_refines:
  assumes "inv s" "valid_op op" "journal_call J op s = (s', y)"
  shows "inv s' \<and> journal_call map_journal op (records s) = (records s', y)"
proof (cases op)
  case (Op_prepare i)
  obtain s2 y2 where "ej_prepare J i s = (s2, y2)" by fastforce
  with assms Op_prepare prepare [of s i s2 y2] show ?thesis by (simp add: map_journal_def)
next
  case (Op_record k st)
  obtain s2 y2 where "record_operation J k st s = (s2, y2)" by fastforce
  with assms Op_record record_step [of s st k s2 y2] show ?thesis by (simp add: record_map_journal)
qed (use assms in \<open>auto simp: map_journal_def load unresolved\<close>)

lemma calls_refine:
  assumes "inv s" "list_all valid_op ops" "journal_calls J ops s = (s', ys)"
  shows "inv s' \<and> journal_calls map_journal ops (records s) = (records s', ys)"
  using assms
proof (induction ops arbitrary: s ys)
  case (Cons op ops)
  obtain s1 y where 1: "journal_call J op s = (s1, y)" by fastforce
  obtain s2 zs where 2: "journal_calls J ops s1 = (s2, zs)" by fastforce
  have "inv s1 \<and> journal_call map_journal op (records s) = (records s1, y)"
    using call_refines [OF Cons.prems(1) _ 1] Cons.prems(2) by simp
  moreover have "s2 = s'" "ys = y # zs" using Cons.prems(3) 1 2 by simp_all
  ultimately show ?case using Cons.IH [of s1 zs] Cons.prems(2) 2 by simp
qed simp

lemma from_start:
  assumes "list_all valid_op ops" "journal_calls J ops start = (s, ys)"
  shows "inv s" "journal_calls map_journal ops Map.empty = (records s, ys)"
  using calls_refine [OF start(1) assms] by (simp_all add: start(2))

end

subsection \<open>The process-local journal keeps the contract\<close>

lemma index_ids_add:
  "index_ids (index_add sc k idx) sc' = (if sc' = sc then List.insert k (index_ids idx sc) else index_ids idx sc')"
  by (simp add: index_ids_def index_add_def map_of_dict_set)

lemma index_ids_discard:
  "index_ids (index_discard sc k idx) sc' = (if sc' = sc then removeAll k (index_ids idx sc) else index_ids idx sc')"
  by (auto simp: index_ids_def index_discard_def map_of_dict_set map_of_drop_key split: option.splits)

lemma map_of_index_add: "map_of (index_add sc k idx) sc' = Some [] \<longleftrightarrow> sc' \<noteq> sc \<and> map_of idx sc' = Some []"
  by (auto simp: index_add_def map_of_dict_set List.insert_def)

lemma map_of_index_discard: "map_of idx sc' \<noteq> Some [] \<Longrightarrow> map_of (index_discard sc k idx) sc' \<noteq> Some []"
  by (auto simp: index_discard_def map_of_dict_set map_of_drop_key split: option.splits)

text \<open>The index holds the open intents of each scope, and no empty scope.\<close>

definition index_exact :: "memory_journal \<Rightarrow> bool" where
  "index_exact j \<longleftrightarrow> (\<forall>sc. distinct (index_ids (mj_unresolved j) sc) \<and> map_of (mj_unresolved j) sc \<noteq> Some []
     \<and> set (index_ids (mj_unresolved j) sc) = open_keys sc (map_of (mj_records j)))"

definition memory_inv :: "memory_journal \<Rightarrow> bool" where
  "memory_inv j \<longleftrightarrow> intent_map_ok (map_of (mj_records j)) \<and> index_exact j"

lemma memory_inv_start: "memory_inv new_memory_journal"
  by (simp add: memory_inv_def new_memory_journal_def intent_map_ok_def index_exact_def index_ids_def open_keys_def)

lemma open_keys_upd:
  "intent_map_ok m \<Longrightarrow> open_keys sc (m(k \<mapsto> r)) = (if open_in sc r then insert k (open_keys sc m) else open_keys sc m - {k})"
  by (auto simp: open_keys_def)

lemma memory_prepare_step:
  assumes inv: "memory_inv j" and "handle_ok i" and run: "memory_prepare i j = (j', y)"
  shows "memory_inv j' \<and> spec_prepare i (map_of (mj_records j)) = (map_of (mj_records j'), y)"
proof (cases "map_of (mj_records j) (ei_intent_id i)")
  case None
  let ?r = "\<lparr>ir_intent = i, ir_phase = Ip_prepared, ir_effect = None, ir_effect_digest = None,
    ir_consumption = None, ir_consumption_digest = None\<rparr>"
  have prep: "prepare_transition None i = Inr (?r, True)" by (simp add: prepare_transition_def)
  have open_r: "open_in sc ?r \<longleftrightarrow> sc = intent_scope i" for sc
    by (auto simp: open_in_def terminal_phase_def)
  have j': "j' = j\<lparr>mj_records := dict_set (ei_intent_id i) ?r (mj_records j),
      mj_unresolved := index_add (intent_scope i) (ei_intent_id i) (mj_unresolved j)\<rparr>"
    and y: "y = Inr (?r, True)" using run by (simp_all add: memory_prepare_def None prep)
  have spec: "spec_prepare i (map_of (mj_records j)) = (map_of (mj_records j'), y)"
    by (simp add: spec_prepare_def None prep j' y map_of_dict_set)
  have "ei_intent_id i \<notin> open_keys sc (map_of (mj_records j))" for sc
    using None by (simp add: open_keys_def)
  moreover have "intent_map_ok (map_of (mj_records j))" "index_exact j" using inv by (simp_all add: memory_inv_def)
  ultimately have "index_exact j'"
    by (simp add: index_exact_def j' map_of_dict_set index_ids_add map_of_index_add open_keys_upd open_r
        del: split_paired_All)
  then show ?thesis using spec spec_prepare_ok [OF _ assms(2) spec] inv by (simp add: memory_inv_def)
next
  case (Some r)
  with assms show ?thesis
    by (auto simp: memory_prepare_def spec_prepare_def prepare_transition_def fun_upd_idem split: if_splits)
qed

lemma terminal_fixed:
  assumes "apply_step st r = Inr r'" "record_ok r" "valid_step st" "terminal_phase (ir_phase r)"
  shows "r' = r"
proof -
  have "phase_rank (ir_phase r) = 3" "phase_rank (ir_phase r') \<le> 3"
    using assms(4) by (cases "ir_phase r"; simp add: terminal_phase_def) (cases "ir_phase r'"; simp)
  then show ?thesis using apply_step_ok [OF assms(1-3)] by auto
qed

lemma memory_store_step:
  assumes inv: "memory_inv j" and cur: "map_of (mj_records j) k = Some r"
    and step: "apply_step st r = Inr r'" and valid: "valid_step st"
  shows "memory_inv (memory_store r r' j) \<and> map_of (mj_records (memory_store r r' j)) = (map_of (mj_records j))(k \<mapsto> r')"
proof (cases "r' = r")
  case True
  then show ?thesis using inv cur by (simp add: memory_store_def fun_upd_idem)
next
  case False
  have m: "intent_map_ok (map_of (mj_records j))" using inv by (simp add: memory_inv_def)
  note ok = intent_map_okD [OF m cur]
  have r': "record_ok r'" "ir_intent r' = ir_intent r" using apply_step_ok [OF step _ valid] ok by simp_all
  have k: "ei_intent_id (ir_intent r) = k" using ok by simp
  have open_r: "\<not> terminal_phase (ir_phase r)"
    using terminal_fixed [OF step _ valid] ok False by blast
  have recs: "map_of (mj_records (memory_store r r' j)) = (map_of (mj_records j))(k \<mapsto> r')"
    by (simp add: memory_store_def False map_of_dict_set k Let_def)
  have own: "k \<in> open_keys sc (map_of (mj_records j)) \<longleftrightarrow> sc = intent_scope (ir_intent r)" for sc
    using cur open_r by (auto simp: open_keys_def open_in_def)
  have exact: "distinct (index_ids (mj_unresolved j) sc)" "map_of (mj_unresolved j) sc \<noteq> Some []"
    "set (index_ids (mj_unresolved j) sc) = open_keys sc (map_of (mj_records j))" for sc
    using inv by (simp_all add: memory_inv_def index_exact_def del: split_paired_All)
  have idx: "mj_unresolved (memory_store r r' j)
      = (if terminal_phase (ir_phase r') then index_discard (intent_scope (ir_intent r)) k (mj_unresolved j)
         else mj_unresolved j)"
    by (simp add: memory_store_def False k Let_def)
  have "index_exact (memory_store r r' j)"
    unfolding index_exact_def recs idx
    by (auto simp: own exact r' open_keys_upd [OF m] open_in_def index_ids_discard map_of_index_discard
        distinct_removeAll simp del: split_paired_All)
  moreover have "intent_map_ok (map_of (mj_records (memory_store r r' j)))"
    unfolding recs using ok r' by (intro intent_map_ok_upd [OF m]) simp_all
  ultimately show ?thesis by (simp add: memory_inv_def recs)
qed

lemma memory_record_step:
  assumes "memory_inv j" "valid_step st" "memory_record k (apply_step st) j = (j', y)"
  shows "memory_inv j' \<and> spec_record k st (map_of (mj_records j)) = (map_of (mj_records j'), y)"
  using assms memory_store_step [OF assms(1) _ _ assms(2)]
  by (auto simp: memory_record_def memory_current_record_def spec_record_def split: option.splits sum.splits)

lemma apply_step_functions:
  "apply_step (Step_result d e) = (\<lambda>r. effect_transition r d Ip_result_recorded e)"
  "apply_step (Step_reconciled d f) = (\<lambda>r. effect_transition r d Ip_reconciled (Some f))"
  "apply_step (Step_consumed d c) = (\<lambda>r. consumed_transition r d c)"
  "apply_step (Step_not_applied d f) = (\<lambda>r. not_applied_transition r d f)"
  by (simp_all add: fun_eq_iff)

lemma record_operation_memory: "record_operation memory_effect_journal k st = memory_record k (apply_step st)"
  by (cases st) (simp_all add: memory_effect_journal_def apply_step_functions)

lemma memory_unresolved_spec:
  assumes "memory_inv j"
  shows "memory_unresolved run_id lifetime_id exclude j
    = Inr (spec_unresolved run_id lifetime_id exclude (map_of (mj_records j)))"
proof -
  let ?m = "map_of (mj_records j)"
  let ?ks = "filter (\<lambda>k. Some k \<noteq> exclude) (index_ids (mj_unresolved j) (run_id, lifetime_id))"
  have ks: "distinct ?ks" "set ?ks = open_keys (run_id, lifetime_id) ?m - set_option exclude"
    using assms by (cases exclude; auto simp: memory_inv_def index_exact_def)+
  have some: "\<exists>r. ?m k = Some r \<and> ei_intent_id (ir_intent r) = k" if "k \<in> set ?ks" for k
    using that assms unfolding ks(2) by (auto simp: open_keys_def memory_inv_def dest: intent_map_okD)
  have "map_result (\<lambda>k. case ?m k of None \<Rightarrow> Inl (''KeyError'', k) | Some r \<Rightarrow> Inr r) (map id ?ks)
      = Inr (map (\<lambda>k. the (?m k)) ?ks)"
    by (rule map_result_map) (use some in force)
  moreover have "sort_key (\<lambda>r. ei_intent_id (ir_intent r)) (map (\<lambda>k. the (?m k)) ?ks)
      = map (\<lambda>k. the (?m k)) (sorted_list_of_set (set ?ks))"
    by (rule sorted_by_key [OF ks(1)]) (use some in force)
  ultimately show ?thesis unfolding memory_unresolved_def spec_unresolved_def Let_def ks(2) by simp
qed

interpretation memory_journal: effect_journal_contract memory_effect_journal "\<lambda>j. map_of (mj_records j)"
    memory_inv new_memory_journal
proof
  fix s :: memory_journal and i k st run_id lifetime_id exclude s' y z
  show "memory_inv new_memory_journal" by (rule memory_inv_start)
  show "map_of (mj_records new_memory_journal) = Map.empty" by (simp add: new_memory_journal_def)
  assume inv: "memory_inv s"
  show "intent_map_ok (map_of (mj_records s))" using inv by (simp add: memory_inv_def)
  show "ej_load memory_effect_journal k s = Inr (map_of (mj_records s) k)"
    by (simp add: memory_effect_journal_def memory_journal_load_def)
  show "ej_unresolved memory_effect_journal run_id lifetime_id exclude s =
      Inr (spec_unresolved run_id lifetime_id exclude (map_of (mj_records s)))"
    by (simp add: memory_effect_journal_def memory_unresolved_spec [OF inv])
  show "memory_inv s' \<and> spec_prepare i (map_of (mj_records s)) = (map_of (mj_records s'), y)"
    if "handle_ok i" "ej_prepare memory_effect_journal i s = (s', y)"
    using memory_prepare_step [OF inv that(1)] that(2) by (simp add: memory_effect_journal_def)
  show "memory_inv s' \<and> spec_record k st (map_of (mj_records s)) = (map_of (mj_records s'), z)"
    if "valid_step st" "record_operation memory_effect_journal k st s = (s', z)"
    using memory_record_step [OF inv that(1)] that(2) by (simp add: record_operation_memory)
qed
subsection \<open>The persistent journal keeps the contract\<close>

text \<open>The index columns a journal searches by.\<close>

definition row_of_record :: "effect_row \<Rightarrow> intent_record \<Rightarrow> bool" where
  "row_of_record row r \<longleftrightarrow> er_intent_id row = ei_intent_id (ir_intent r)
     \<and> (er_run_id row, er_lifetime_id row) = intent_scope (ir_intent r)
     \<and> er_phase row = intent_phase_value (ir_phase r) \<and> er_effect_digest row = ir_effect_digest r"

locale effect_codec =
  fixes c :: journal_codec
  assumes reads_back: "record_ok r \<Longrightarrow> handle_ok (ir_intent r) \<Longrightarrow>
    \<exists>row. jc_encode c r = Inr row \<and> jc_decode c row = Inr r \<and> row_of_record row r"

interpretation document: effect_codec document_codec
proof
  fix r assume "record_ok r" "handle_ok (ir_intent r)"
  then show "\<exists>row. jc_encode document_codec r = Inr row \<and> jc_decode document_codec row = Inr r \<and> row_of_record row r"
    by (intro exI [of _ "row_of r"])
      (simp add: document_codec_def encode_record_ok decode_row_of, simp add: row_of_record_def row_of_def intent_scope_def)
qed

definition stored_row :: "journal_codec \<Rightarrow> string \<Rightarrow> effect_row \<Rightarrow> bool" where
  "stored_row c k row \<longleftrightarrow> (\<exists>r. jc_decode c row = Inr r \<and> row_of_record row r
     \<and> ei_intent_id (ir_intent r) = k \<and> record_ok r \<and> handle_ok (ir_intent r))"

definition rows_inv :: "journal_codec \<Rightarrow> (string \<times> effect_row) list \<Rightarrow> bool" where
  "rows_inv c rows \<longleftrightarrow> distinct (map fst rows) \<and> (\<forall>(k, row) \<in> set rows. stored_row c k row)"

definition persistent_inv :: "journal_codec \<Rightarrow> effect_db \<Rightarrow> bool" where
  "persistent_inv c db \<longleftrightarrow> rows_inv c (jd_rows db) \<and> jd_faults db = []"

definition row_records :: "journal_codec \<Rightarrow> (string \<times> effect_row) list \<Rightarrow> intent_map" where
  "row_records c rows k =
     (case map_of rows k of None \<Rightarrow> None | Some row \<Rightarrow> (case jc_decode c row of Inl _ \<Rightarrow> None | Inr r \<Rightarrow> Some r))"

lemma prepare_new:
  obtains r where "prepare_transition None i = Inr (r, True)" "record_ok r" "ir_intent r = i" "ir_phase r = Ip_prepared"
proof -
  obtain r where r: "prepare_transition None i = Inr (r, True)" by (simp add: prepare_transition_def)
  from prepare_transition_ok [OF r] that [OF r] show ?thesis by simp
qed

lemma rows_invD:
  assumes "rows_inv c rows" "map_of rows k = Some row"
  obtains r where "jc_decode c row = Inr r" "row_of_record row r" "ei_intent_id (ir_intent r) = k"
    "record_ok r" "handle_ok (ir_intent r)" "row_records c rows k = Some r"
  using assms map_of_SomeD [OF assms(2)] by (fastforce simp: rows_inv_def stored_row_def row_records_def)

lemma row_records_None: "rows_inv c rows \<Longrightarrow> row_records c rows k = None \<longleftrightarrow> map_of rows k = None"
  by (cases "map_of rows k") (auto elim: rows_invD simp: row_records_def)

lemma row_records_Some:
  assumes "rows_inv c rows" "row_records c rows k = Some r"
  obtains row where "map_of rows k = Some row" "jc_decode c row = Inr r" "row_of_record row r"
    "ei_intent_id (ir_intent r) = k" "record_ok r" "handle_ok (ir_intent r)"
proof -
  from assms(2) obtain row where row: "map_of rows k = Some row" by (auto simp: row_records_def split: option.splits)
  from rows_invD [OF assms(1) row] that row assms(2) show ?thesis by (metis option.inject)
qed

lemma row_records_ok: "rows_inv c rows \<Longrightarrow> intent_map_ok (row_records c rows)"
proof -
  assume inv: "rows_inv c rows"
  have "dom (row_records c rows) \<subseteq> dom (map_of rows)" by (auto simp: row_records_def split: option.splits)
  then have "finite (dom (row_records c rows))" by (rule finite_subset) (simp add: finite_dom_map_of)
  then show ?thesis using inv by (auto simp: intent_map_ok_def elim: row_records_Some)
qed

lemma write_session_quiet:
  "jd_faults db = [] \<Longrightarrow> write_session (\<lambda>tx. commit_and_return tx (f (tx_rows tx))) db =
     (case f (jd_rows db) of Inl x \<Rightarrow> (db, Inl x) | Inr (rows, y) \<Rightarrow> (db\<lparr>jd_rows := rows\<rparr>, Inr y))"
  by (cases db; cases "f (jd_rows db)")
    (auto simp: write_session_def commit_and_return_def tx_commit_def Let_def split: prod.splits)

lemma prepare_quiet:
  "jd_faults db = [] \<Longrightarrow> persistent_prepare c i db =
     (case prepare_rows c i (jd_rows db) of Inl x \<Rightarrow> (db, Inl x) | Inr (rows, y) \<Rightarrow> (db\<lparr>jd_rows := rows\<rparr>, Inr y))"
  unfolding persistent_prepare_def by (rule write_session_quiet)

lemma transition_quiet:
  "jd_faults db = [] \<Longrightarrow> persistent_transition c k transition db =
     (case transition_rows c k transition (jd_rows db) of
        Inl x \<Rightarrow> (db, Inl x) | Inr (rows, y) \<Rightarrow> (db\<lparr>jd_rows := rows\<rparr>, Inr y))"
  unfolding persistent_transition_def by (rule write_session_quiet)

lemma open_phases_iff: "intent_phase_value p \<in> set open_phases \<longleftrightarrow> \<not> terminal_phase p"
  by (cases p) (simp_all add: open_phases_def all_phases_def terminal_phase_def)

lemma intent_phase_value_inject: "intent_phase_value p = intent_phase_value q \<longleftrightarrow> p = q"
  by (cases p; cases q) simp_all

context effect_codec
begin

lemma prepare_refines:
  assumes inv: "persistent_inv c db" and "handle_ok i" and run: "persistent_prepare c i db = (db', y)"
  shows "persistent_inv c db' \<and> spec_prepare i (row_records c (jd_rows db)) = (row_records c (jd_rows db'), y)"
proof -
  have rows: "rows_inv c (jd_rows db)" and quiet: "jd_faults db = []" using inv by (simp_all add: persistent_inv_def)
  show ?thesis
  proof (cases "map_of (jd_rows db) (ei_intent_id i)")
    case None
    obtain r where prep: "prepare_transition None i = Inr (r, True)" and r: "record_ok r" "ir_intent r = i"
      by (rule prepare_new)
    obtain row where row: "jc_encode c r = Inr row" "jc_decode c row = Inr r" "row_of_record row r"
      using reads_back [OF r(1)] r(2) assms(2) by auto
    have id: "er_intent_id row = ei_intent_id i" using row(3) r(2) by (simp add: row_of_record_def)
    have res: "db' = db\<lparr>jd_rows := jd_rows db @ [(ei_intent_id i, row)]\<rparr>" "y = Inr (r, True)"
      using run by (simp_all add: None prepare_quiet [OF quiet] prepare_rows_def backend_read_def decode_current_def
          prep row(1) session_insert_def insert_or_ignore_def id)
    have "stored_row c (ei_intent_id i) row" using row r assms(2) by (auto simp: stored_row_def)
    then have "rows_inv c (jd_rows db')"
      using rows None by (auto simp: rows_inv_def res map_of_eq_None_iff)
    moreover have "row_records c (jd_rows db') = (row_records c (jd_rows db))(ei_intent_id i \<mapsto> r)"
      by (simp add: fun_eq_iff row_records_def res row(2) map_add_def None split: option.splits)
    moreover have "row_records c (jd_rows db) (ei_intent_id i) = None" by (simp add: row_records_None [OF rows] None)
    ultimately show ?thesis by (simp add: persistent_inv_def spec_prepare_def prep res quiet)
  next
    case (Some row)
    from rows_invD [OF rows Some] obtain r where "jc_decode c row = Inr r" "row_records c (jd_rows db) (ei_intent_id i) = Some r"
      by metis
    moreover from this have "db' = db \<and> y = (if ir_intent r = i then Inr (r, False)
        else Inl (intent_conflict (''effect intent identity conflict: '' @ ei_intent_id i)))"
      using run by (simp add: prepare_quiet [OF quiet] prepare_rows_def backend_read_def decode_current_def
          Some prepare_transition_def split: if_splits)
    ultimately show ?thesis using inv by (simp add: spec_prepare_def prepare_transition_def fun_upd_idem)
  qed
qed

lemma update_one_row:
  assumes rows: "rows_inv c rows" and k: "map_of rows k = Some old" "jc_decode c old = Inr r"
    and new: "row_of_record row r'" "ir_intent r' = ir_intent r"
  shows "session_update row (intent_phase_value (ir_phase r)) (ir_effect_digest r) rows
    = (map (\<lambda>(k', w). (k', if k' = k then row else w)) rows, True)"
proof -
  have d: "distinct (map fst rows)" using rows by (simp add: rows_inv_def)
  have old: "row_of_record old r" "ei_intent_id (ir_intent r) = k"
    using rows_invD [OF rows k(1)] k(2) by (metis sum.inject(2))+
  have "update_matches row (intent_phase_value (ir_phase r)) (ir_effect_digest r) w \<longleftrightarrow> k' = k"
    if "(k', w) \<in> set rows" for k' w
  proof -
    have w: "map_of rows k' = Some w" using that d by simp
    have "er_intent_id w = k'" using rows_invD [OF rows w] by (metis row_of_record_def)
    with old new k w show ?thesis by (auto simp: update_matches_def row_of_record_def)
  qed
  then have "map (\<lambda>(k', w). (k', if update_matches row (intent_phase_value (ir_phase r)) (ir_effect_digest r) w then row else w)) rows
      = map (\<lambda>(k', w). (k', if k' = k then row else w)) rows"
    and "filter (\<lambda>(k', w). update_matches row (intent_phase_value (ir_phase r)) (ir_effect_digest r) w) rows
      = filter (\<lambda>(k', w). k' = k) rows"
    by (auto intro!: filter_cong)
  then show ?thesis using map_of_replace(2) [OF d k(1)] by (simp add: session_update_def)
qed

lemma transition_refines:
  assumes inv: "persistent_inv c db" and valid: "valid_step st"
    and run: "persistent_transition c k (apply_step st) db = (db', y)"
  shows "persistent_inv c db' \<and> spec_record k st (row_records c (jd_rows db)) = (row_records c (jd_rows db'), y)"
proof -
  have rows: "rows_inv c (jd_rows db)" and quiet: "jd_faults db = []" using inv by (simp_all add: persistent_inv_def)
  note unfold = transition_quiet [OF quiet] transition_rows_def backend_read_def spec_record_def
  show ?thesis
  proof (cases "map_of (jd_rows db) k")
    case None
    then show ?thesis using run inv by (auto simp: unfold row_records_def)
  next
    case (Some old)
    from rows_invD [OF rows Some] obtain r where r: "jc_decode c old = Inr r" "ei_intent_id (ir_intent r) = k"
      "record_ok r" "handle_ok (ir_intent r)" "row_records c (jd_rows db) k = Some r" by metis
    show ?thesis
    proof (cases "apply_step st r")
      case (Inl x)
      have "db' = db \<and> y = Inl x" using run by (simp add: unfold Some r(1) Inl)
      then show ?thesis using inv by (simp add: spec_record_def r(5) Inl)
    next
      case (Inr r')
      have ok: "record_ok r'" "ir_intent r' = ir_intent r" using apply_step_ok [OF Inr r(3) valid] by simp_all
      show ?thesis
      proof (cases "r' = r")
        case True
        have "db' = db \<and> y = Inr r" using run by (simp add: unfold Some r(1) Inr True)
        then show ?thesis using inv by (simp add: spec_record_def r(5) Inr True fun_upd_idem)
      next
        case False
        obtain row where row: "jc_encode c r' = Inr row" "jc_decode c row = Inr r'" "row_of_record row r'"
          using reads_back [OF ok(1)] r(4) ok(2) by auto
        let ?rows = "map (\<lambda>(k', w). (k', if k' = k then row else w)) (jd_rows db)"
        have res: "db' = db\<lparr>jd_rows := ?rows\<rparr>" "y = Inr r'"
          using run by (simp_all add: unfold Some r Inr False row(1) update_one_row [OF rows Some r(1) row(3) ok(2)])
        have d: "distinct (map fst (jd_rows db))" using rows by (simp add: rows_inv_def)
        have upd: "map_of ?rows = (map_of (jd_rows db))(k \<mapsto> row)" by (rule map_of_replace(1) [OF d Some])
        have "stored_row c k row" using row ok r by (auto simp: stored_row_def)
        then have "rows_inv c ?rows" using rows by (auto simp: rows_inv_def comp_def split_def)
        moreover have "row_records c ?rows = (row_records c (jd_rows db))(k \<mapsto> r')"
          by (auto simp: row_records_def upd row(2) fun_eq_iff)
        ultimately show ?thesis by (simp add: persistent_inv_def spec_record_def res quiet r(5) Inr)
      qed
    qed
  qed
qed

end

context effect_codec
begin

lemma unresolved_refines:
  assumes rows: "rows_inv c (jd_rows db)"
  shows "persistent_unresolved c run_id lifetime_id exclude db
    = Inr (spec_unresolved run_id lifetime_id exclude (row_records c (jd_rows db)))"
proof -
  let ?rows = "jd_rows db" and ?m = "row_records c (jd_rows db)"
  let ?P = "\<lambda>row. er_run_id row = run_id \<and> er_lifetime_id row = lifetime_id \<and> er_phase row \<in> set open_phases
    \<and> (case exclude of None \<Rightarrow> True | Some k \<Rightarrow> er_intent_id row \<noteq> k)"
  let ?ks = "map fst (filter (\<lambda>e. ?P (snd e)) ?rows)"
  let ?g = "\<lambda>k. the (map_of ?rows k)"
  have d: "distinct (map fst ?rows)" using rows by (simp add: rows_inv_def)
  then have look: "map_of ?rows k = Some row" if "(k, row) \<in> set ?rows" for k row using that by simp
  have "filter ?P (map snd ?rows) = map snd (filter (\<lambda>e. ?P (snd e)) ?rows)" by (simp add: filter_map comp_def)
  also have "\<dots> = map ?g ?ks" by (auto simp: look)
  finally have scanned: "filter ?P (map snd ?rows) = map ?g ?ks" .
  have ks: "distinct ?ks" using d by (simp add: distinct_map_filter)
  have at: "k \<in> set ?ks \<longleftrightarrow> (\<exists>row. map_of ?rows k = Some row \<and> ?P row)" for k
    unfolding map_of_eq_Some_iff [OF d] by (rule keys_filter)
  have id: "er_intent_id (?g k) = k" if "k \<in> set ?ks" for k
    using that rows unfolding at by (auto elim!: rows_invD simp: row_of_record_def)
  have set_ks: "set ?ks = open_keys (run_id, lifetime_id) ?m - set_option exclude"
  proof (rule set_eqI)
    fix k
    show "k \<in> set ?ks \<longleftrightarrow> k \<in> open_keys (run_id, lifetime_id) ?m - set_option exclude"
    proof (cases "map_of ?rows k")
      case None
      then have "?m k = None" by (simp add: row_records_def)
      with None show ?thesis unfolding at by (simp add: open_keys_def)
    next
      case (Some row)
      from rows_invD [OF rows Some] obtain r where r: "row_of_record row r" "ei_intent_id (ir_intent r) = k" "?m k = Some r"
        by metis
      then show ?thesis unfolding at using Some
        by (cases exclude)
          (auto simp: open_keys_def open_in_def row_of_record_def intent_scope_def open_phases_iff)
    qed
  qed
  have "sort_key er_intent_id (map ?g ?ks) = map ?g (sorted_list_of_set (set ?ks))"
    by (rule sorted_by_key [OF ks, where f = er_intent_id and g = ?g]) (rule id)
  moreover have "map_result (jc_decode c) (map ?g (sorted_list_of_set (set ?ks)))
      = Inr (map (\<lambda>k. the (?m k)) (sorted_list_of_set (set ?ks)))"
  proof (rule map_result_map)
    fix k assume "k \<in> set (sorted_list_of_set (set ?ks))"
    then have "k \<in> set ?ks" by simp
    then obtain row where row: "map_of ?rows k = Some row" unfolding at by auto
    from rows_invD [OF rows row] show "jc_decode c (?g k) = Inr (the (?m k))" by (metis option.sel row)
  qed
  ultimately show ?thesis
    unfolding persistent_unresolved_def scan_scope_phases_def scanned spec_unresolved_def set_ks by simp
qed

lemma record_operation_persistent:
  "record_operation (persistent_effect_journal c) k st = persistent_transition c k (apply_step st)"
  by (cases st) (simp_all add: persistent_effect_journal_def apply_step_functions)

lemma persistent_contract:
  "effect_journal_contract (persistent_effect_journal c) (\<lambda>db. row_records c (jd_rows db)) (persistent_inv c) empty_effect_db"
proof
  fix s :: effect_db and i and k :: string and st run_id lifetime_id exclude s' y z
  show "persistent_inv c empty_effect_db" by (simp add: persistent_inv_def empty_effect_db_def rows_inv_def)
  show "row_records c (jd_rows empty_effect_db) = Map.empty"
    by (simp add: empty_effect_db_def row_records_def fun_eq_iff)
  assume inv: "persistent_inv c s"
  then have rows: "rows_inv c (jd_rows s)" by (simp add: persistent_inv_def)
  show "intent_map_ok (row_records c (jd_rows s))" by (rule row_records_ok [OF rows])
  show "ej_load (persistent_effect_journal c) k s = Inr (row_records c (jd_rows s) k)"
  proof (cases "map_of (jd_rows s) k")
    case (Some row)
    from rows_invD [OF rows Some] obtain r where "jc_decode c row = Inr r" by metis
    with Some show ?thesis
      by (simp add: persistent_effect_journal_def persistent_load_def decode_current_def backend_read_def row_records_def)
  qed (simp add: persistent_effect_journal_def persistent_load_def decode_current_def backend_read_def row_records_def)
  show "ej_unresolved (persistent_effect_journal c) run_id lifetime_id exclude s =
      Inr (spec_unresolved run_id lifetime_id exclude (row_records c (jd_rows s)))"
    by (simp add: persistent_effect_journal_def unresolved_refines [OF rows])
  show "persistent_inv c s' \<and> spec_prepare i (row_records c (jd_rows s)) = (row_records c (jd_rows s'), y)"
    if "handle_ok i" "ej_prepare (persistent_effect_journal c) i s = (s', y)"
    using prepare_refines [OF inv that(1)] that(2) by (simp add: persistent_effect_journal_def)
  show "persistent_inv c s' \<and> spec_record k st (row_records c (jd_rows s)) = (row_records c (jd_rows s'), z)"
    if "valid_step st" "record_operation (persistent_effect_journal c) k st s = (s', z)"
    using transition_refines [OF inv that(1)] that(2) by (simp add: record_operation_persistent)
qed

end

interpretation sqlite_journal: effect_journal_contract sqlite_effect_journal
    "\<lambda>db. row_records document_codec (jd_rows db)" "persistent_inv document_codec" empty_effect_db
  unfolding sqlite_effect_journal_def by (rule document.persistent_contract)

subsection \<open>Properties\<close>

lemma contract_reply:
  "list_all valid_op ops \<Longrightarrow> snd (journal_calls sqlite_effect_journal ops empty_effect_db)
     = snd (journal_calls map_journal ops Map.empty)"
  "list_all valid_op ops \<Longrightarrow> snd (journal_calls memory_effect_journal ops new_memory_journal)
     = snd (journal_calls map_journal ops Map.empty)"
  by (metis prod.collapse snd_conv sqlite_journal.from_start(2))
    (metis prod.collapse snd_conv memory_journal.from_start(2))

text \<open>
  C22: The SQLite journal and the process-local journal answer every sequence of operations alike,
  as the contract over a map does: the same records, the same exceptions, the same unresolved
  intents in the same order.
\<close>

theorem effect_journals_agree:
  assumes "list_all valid_op ops"
  shows "snd (journal_calls sqlite_effect_journal ops empty_effect_db)
      = snd (journal_calls memory_effect_journal ops new_memory_journal)
    \<and> snd (journal_calls sqlite_effect_journal ops empty_effect_db) = snd (journal_calls map_journal ops Map.empty)"
  using contract_reply [OF assms] by simp

text \<open>
  After any operations, what the SQLite journal lists as unresolved for a scope is exactly what
  recovery has to look at: the stored records of the scope whose phase is not terminal, each once,
  in the order of their identities, without the excluded one.
\<close>

theorem unresolved_intents_exact:
  assumes "list_all valid_op ops" "journal_calls sqlite_effect_journal ops empty_effect_db = (db, ys)"
  shows "\<exists>rs. ej_unresolved sqlite_effect_journal run_id lifetime_id exclude db = Inr rs
    \<and> sorted_wrt (<) (map (\<lambda>r. ei_intent_id (ir_intent r)) rs)
    \<and> (\<forall>r. r \<in> set rs \<longleftrightarrow>
          ej_load sqlite_effect_journal (ei_intent_id (ir_intent r)) db = Inr (Some r)
          \<and> ei_run_id (ir_intent r) = run_id \<and> ei_lifetime_id (ir_intent r) = lifetime_id
          \<and> \<not> terminal_phase (ir_phase r) \<and> Some (ei_intent_id (ir_intent r)) \<noteq> exclude)"
proof -
  note inv = sqlite_journal.from_start(1) [OF assms]
  note props = spec_unresolved_props [OF sqlite_journal.sound [OF inv] refl]
  show ?thesis
    unfolding sqlite_journal.unresolved [OF inv] sqlite_journal.load [OF inv]
    by (intro exI conjI, rule refl, rule props(1))
      (auto simp: props(2) open_in_def intent_scope_def)
qed

text \<open>
  The index of the process-local journal is exact after any operations: under every scope it
  holds the identities of the records of that scope that are not terminal, without duplicates, and
  a scope with none has no entry, so terminal intents leave nothing behind.
\<close>

theorem memory_index_exact:
  assumes "list_all valid_op ops" "journal_calls memory_effect_journal ops new_memory_journal = (j, ys)"
  shows "distinct (index_ids (mj_unresolved j) sc)
    \<and> set (index_ids (mj_unresolved j) sc) = {k. \<exists>r. map_of (mj_records j) k = Some r
        \<and> intent_scope (ir_intent r) = sc \<and> \<not> terminal_phase (ir_phase r)}
    \<and> map_of (mj_unresolved j) sc \<noteq> Some []"
proof -
  have "index_exact j" using memory_journal.from_start(1) [OF assms] by (simp add: memory_inv_def)
  then show ?thesis by (simp add: index_exact_def open_keys_def open_in_def del: split_paired_All)
qed

lemma write_session_cases:
  assumes "write_session (\<lambda>tx. commit_and_return tx (f (tx_rows tx))) db = (db', y)"
  obtains (failed) x where "y = Inl x" "jd_rows db' = jd_rows db"
    | (committed) rows z where "f (jd_rows db) = Inr (rows, z)" "y = Inr z" "jd_rows db' = rows"
  using assms by (cases "f (jd_rows db)")
    (auto simp: write_session_def commit_and_return_def tx_commit_def Let_def
      split: list.splits session_fault.splits)

text \<open>The table has a primary key: a row stands under its own identity, and no identity twice.\<close>

definition primary_keyed :: "(string \<times> effect_row) list \<Rightarrow> bool" where
  "primary_keyed rows \<longleftrightarrow> distinct (map fst rows) \<and> list_all (\<lambda>(k, row). er_intent_id row = k) rows"

lemma rows_inv_keyed: "rows_inv c rows \<Longrightarrow> primary_keyed rows"
  by (auto simp: rows_inv_def stored_row_def row_of_record_def primary_keyed_def list_all_iff)

lemma session_update_row:
  assumes "primary_keyed rows" "session_update row phase digest rows = (rows', True)"
  obtains replaced where "map_of rows (er_intent_id row) = Some replaced" "er_phase replaced = phase"
    "er_effect_digest replaced = digest" "map_of rows' = (map_of rows)(er_intent_id row \<mapsto> row)"
proof -
  let ?P = "\<lambda>(k, old). update_matches row phase digest old"
  have keys: "distinct (map fst rows)" and own: "(k, old) \<in> set rows \<Longrightarrow> er_intent_id old = k" for k old
    using assms(1) by (auto simp: primary_keyed_def list_all_iff)
  have "length (filter ?P rows) = 1" using assms(2) by (simp add: session_update_def)
  then have "filter ?P rows \<noteq> []" by auto
  then obtain k old where old: "(k, old) \<in> set rows" "update_matches row phase digest old"
    by (auto simp: filter_empty_conv)
  with own have k: "k = er_intent_id row" "er_phase old = phase" "er_effect_digest old = digest"
    by (auto simp: update_matches_def)
  have at: "map_of rows k = Some old" using old(1) keys by simp
  have "update_matches row phase digest w \<longleftrightarrow> k' = k" if w: "(k', w) \<in> set rows" for k' w
  proof (cases "k' = k")
    case True
    with w at keys have "w = old" by simp
    with True old(2) show ?thesis by simp
  next
    case False
    with own [OF w] k(1) show ?thesis by (simp add: update_matches_def)
  qed
  then have "rows' = map (\<lambda>(k', w). (k', if k' = k then row else w)) rows"
    using assms(2) by (auto simp: session_update_def)
  with map_of_replace(1) [OF keys at] k at that show ?thesis by blast
qed

text \<open>
  C24: A write of the persistent journal is atomic and counts only when it was committed. On any
  table whose rows stand under their identities, each once (the table's primary key), whatever the
  codec, and whatever faults the database has, a record operation or a preparation that raises
  leaves the table as it was. A record operation that returns a changed record has replaced exactly
  one row, the one of the encoded record, which still held the phase and the receipt digest the
  transition started from; one that returns the record unchanged wrote nothing. A preparation that
  reports a new intent has added exactly its encoded row, and otherwise returns what was stored.
\<close>

theorem persistent_write_atomic:
  assumes "primary_keyed (jd_rows db)"
  shows "(case record_operation (persistent_effect_journal c) k st db of
       (db', Inl x) \<Rightarrow> jd_rows db' = jd_rows db
     | (db', Inr r') \<Rightarrow> \<exists>old r. map_of (jd_rows db) k = Some old \<and> jc_decode c old = Inr r \<and> apply_step st r = Inr r'
         \<and> (if r' = r then jd_rows db' = jd_rows db
            else \<exists>row replaced. jc_encode c r' = Inr row \<and> map_of (jd_rows db) (er_intent_id row) = Some replaced
              \<and> er_phase replaced = intent_phase_value (ir_phase r) \<and> er_effect_digest replaced = ir_effect_digest r
              \<and> map_of (jd_rows db') = (map_of (jd_rows db))(er_intent_id row \<mapsto> row)))
   \<and> (case ej_prepare (persistent_effect_journal c) i db of
       (db', Inl x) \<Rightarrow> jd_rows db' = jd_rows db
     | (db', Inr (r, created)) \<Rightarrow>
         if created
         then \<exists>row. jc_encode c r = Inr row \<and> map_of (jd_rows db) (er_intent_id row) = None
           \<and> map_of (jd_rows db') = (map_of (jd_rows db))(er_intent_id row \<mapsto> row)
         else jd_rows db' = jd_rows db
           \<and> (\<exists>old. map_of (jd_rows db) (ei_intent_id i) = Some old \<and> jc_decode c old = Inr r))"
    (is "?recording \<and> ?preparing")
proof
  have "record_operation (persistent_effect_journal c) k st = persistent_transition c k (apply_step st)"
    by (cases st) (simp_all add: persistent_effect_journal_def apply_step_functions)
  moreover obtain db' y where run: "persistent_transition c k (apply_step st) db = (db', y)" by fastforce
  from run [unfolded persistent_transition_def] have "case (db', y) of
       (db', Inl x) \<Rightarrow> jd_rows db' = jd_rows db
     | (db', Inr r') \<Rightarrow> \<exists>old r. map_of (jd_rows db) k = Some old \<and> jc_decode c old = Inr r \<and> apply_step st r = Inr r'
         \<and> (if r' = r then jd_rows db' = jd_rows db
            else \<exists>row replaced. jc_encode c r' = Inr row \<and> map_of (jd_rows db) (er_intent_id row) = Some replaced
              \<and> er_phase replaced = intent_phase_value (ir_phase r) \<and> er_effect_digest replaced = ir_effect_digest r
              \<and> map_of (jd_rows db') = (map_of (jd_rows db))(er_intent_id row \<mapsto> row))"
  proof (cases rule: write_session_cases)
    case (committed rows z)
    from committed(1) obtain old r where st: "map_of (jd_rows db) k = Some old" "jc_decode c old = Inr r"
      "apply_step st r = Inr z" "z = r \<Longrightarrow> rows = jd_rows db"
      "z \<noteq> r \<Longrightarrow> \<exists>row. jc_encode c z = Inr row \<and> session_update row (intent_phase_value (ir_phase r))
         (ir_effect_digest r) (jd_rows db) = (rows, True)"
      by (auto simp: transition_rows_def backend_read_def bind_result_Inr_iff Let_def split_def prod_eq_iff
          split: option.splits if_splits)
    then show ?thesis using committed(2,3) session_update_row [OF assms]
      by (cases "z = r") (simp, simp, metis)
  qed simp
  ultimately show ?recording by (simp only: run)
next
  obtain db' y where run: "persistent_prepare c i db = (db', y)" by fastforce
  from run [unfolded persistent_prepare_def] have "case (db', y) of
       (db', Inl x) \<Rightarrow> jd_rows db' = jd_rows db
     | (db', Inr (r, created)) \<Rightarrow>
         if created
         then \<exists>row. jc_encode c r = Inr row \<and> map_of (jd_rows db) (er_intent_id row) = None
           \<and> map_of (jd_rows db') = (map_of (jd_rows db))(er_intent_id row \<mapsto> row)
         else jd_rows db' = jd_rows db
           \<and> (\<exists>old. map_of (jd_rows db) (ei_intent_id i) = Some old \<and> jc_decode c old = Inr r)"
  proof (cases rule: write_session_cases)
    case (committed rows z)
    obtain r created where z: "z = (r, created)" by force
    show ?thesis
    proof (cases "map_of (jd_rows db) (ei_intent_id i)")
      case None
      obtain r0 where "prepare_transition None i = Inr (r0, True)" by (rule prepare_new)
      with committed(1) None obtain row where row: "jc_encode c r0 = Inr row"
        "(let (rows', inserted) = session_insert row (jd_rows db) in
            if inserted then Inr (rows', (r0, True))
            else Inl (intent_conflict (''effect intent concurrent insert conflict: '' @ ei_intent_id i))) = Inr (rows, z)"
        by (auto simp: prepare_rows_def backend_read_def decode_current_def bind_result_Inr_iff)
      then have "z = (r0, True)" "session_insert row (jd_rows db) = (rows, True)"
        by (cases "session_insert row (jd_rows db)"; simp split: if_splits)+
      with row(1) have "created" "jc_encode c r = Inr row" "session_insert row (jd_rows db) = (rows, True)"
        by (simp_all add: z)
      then have "jd_rows db' = insert_or_ignore (er_intent_id row) row (jd_rows db)"
        "map_of (jd_rows db) (er_intent_id row) = None" using committed(3) by (simp_all add: session_insert_def)
      with \<open>created\<close> \<open>jc_encode c r = Inr row\<close> show ?thesis
        by (simp add: committed(2) z map_of_insert_or_ignore fun_eq_iff)
    next
      case (Some row)
      with committed(1) have "\<not> created \<and> rows = jd_rows db \<and> jc_decode c row = Inr r"
        by (auto simp: prepare_rows_def backend_read_def decode_current_def bind_result_Inr_iff z
            prepare_transition_def split: if_splits)
      with Some committed(2,3) show ?thesis by (simp add: z)
    qed
  qed simp
  then show ?preparing by (simp add: persistent_effect_journal_def run)
qed

text \<open>
  C23: An open effect can always be closed. Whatever the SQLite journal went through, an intent it
  holds as prepared or with a recorded result accepts the reconciliation with any authoritative
  receipt bound to its request, and then the terminal that receipt calls for: not applied after
  no effect, consumed otherwise. The record is then terminal.
\<close>

theorem open_intent_closes:
  assumes "list_all valid_op ops" "journal_calls sqlite_effect_journal ops empty_effect_db = (db, ys)"
    and "ej_load sqlite_effect_journal k db = Inr (Some r)" "ir_phase r \<in> {Ip_prepared, Ip_result_recorded}"
    and "valid_effect e" "authoritatively_resolved (Some e)" "ef_request_digest e = ei_request_digest (ir_intent r)"
    and "valid_completion v"
  defines "d \<equiv> ei_request_digest (ir_intent r)"
  defines "close \<equiv> (if ef_certainty e = No_effect then Step_not_applied d e else Step_consumed d v)"
  shows "\<exists>r1 r2. snd (journal_calls sqlite_effect_journal
        [Op_record k (Step_reconciled d e), Op_record k close, Op_load k] db)
      = [Reply_record (Inr r1), Reply_record (Inr r2), Reply_loaded (Inr (Some r2))]
    \<and> ir_effect r2 = Some e \<and> terminal_phase (ir_phase r2)"
proof -
  note inv = sqlite_journal.from_start(1) [OF assms(1,2)]
  let ?m = "row_records document_codec (jd_rows db)"
  have m: "?m k = Some r" using assms(3) unfolding sqlite_journal.load [OF inv] by simp
  obtain r1 where r1: "apply_step (Step_reconciled d e) r = Inr r1" "ir_phase r1 = Ip_reconciled"
      "ir_effect r1 = Some e" "ir_effect_digest r1 = effect_digest (Some e)" "ir_intent r1 = ir_intent r"
    using assms(4,7)
    by (auto simp: effect_transition_def require_request_def require_bound_effect_def receipt_bound_def d_def)
  obtain r2 where r2: "apply_step close r1 = Inr r2" "ir_effect r2 = Some e" "terminal_phase (ir_phase r2)"
    using r1 assms(6,7)
    by (auto simp: close_def d_def not_applied_transition_def consumed_transition_def require_request_def
        require_bound_effect_def receipt_bound_def require_not_applied_compatible_def terminal_phase_def
        consumable_effect_def authoritatively_resolved_def)
  let ?ops = "[Op_record k (Step_reconciled d e), Op_record k close, Op_load k]"
  have valid: "list_all valid_op ?ops" using assms(5,8) by (simp add: close_def)
  have s1: "spec_record k (Step_reconciled d e) ?m = (?m(k \<mapsto> r1), Inr r1)"
    by (simp only: spec_record_def m r1(1) option.case sum.case)
  have s2: "spec_record k close (?m(k \<mapsto> r1)) = (?m(k \<mapsto> r2), Inr r2)"
    by (simp add: spec_record_def r2(1))
  have spec: "journal_calls map_journal ?ops ?m = (?m(k \<mapsto> r2),
      [Reply_record (Inr r1), Reply_record (Inr r2), Reply_loaded (Inr (Some r2))])"
    using s1 s2 by (simp add: record_map_journal) (simp add: map_journal_def)
  obtain db' zs where run: "journal_calls sqlite_effect_journal ?ops db = (db', zs)" by fastforce
  from sqlite_journal.calls_refine [OF inv valid run] spec have "zs = [Reply_record (Inr r1), Reply_record (Inr r2),
      Reply_loaded (Inr (Some r2))]" by simp
  with run r2 show ?thesis by simp
qed

definition demo_ops :: "journal_op list" where
  "demo_ops = [Op_prepare demo_intent]"

lemma demo_ops_valid: "list_all valid_op demo_ops"
  using demo_handle_ok by (simp add: demo_ops_def demo_prepared_def)

lemma demo_ops_spec:
  "journal_calls map_journal demo_ops Map.empty = ([''i'' \<mapsto> demo_prepared], [Reply_prepared (Inr (demo_prepared, True))])"
  by (simp add: demo_ops_def map_journal_def spec_prepare_def prepare_transition_def demo_prepared_def demo_intent_def)

lemma demo_sqlite_run:
  obtains db ys where "journal_calls sqlite_effect_journal demo_ops empty_effect_db = (db, ys)"
    "ej_load sqlite_effect_journal ''i'' db = Inr (Some demo_prepared)"
proof -
  obtain db ys where run: "journal_calls sqlite_effect_journal demo_ops empty_effect_db = (db, ys)" by fastforce
  note inv = sqlite_journal.from_start [OF demo_ops_valid run]
  have "row_records document_codec (jd_rows db) = [''i'' \<mapsto> demo_prepared]"
    using inv(2) unfolding demo_ops_spec by simp
  with run that show ?thesis by (simp add: sqlite_journal.load [OF inv(1)])
qed

theorem effect_journals_agree_witness:
  "snd (journal_calls sqlite_effect_journal demo_ops empty_effect_db)
    = [Reply_prepared (Inr (demo_prepared, True))]"
  by (rule trans [OF effect_journals_agree [OF demo_ops_valid, THEN conjunct2]]) (simp add: demo_ops_spec)

theorem unresolved_intents_exact_witness:
  "\<exists>db ys rs. journal_calls sqlite_effect_journal demo_ops empty_effect_db = (db, ys)
    \<and> ej_unresolved sqlite_effect_journal ''r'' None None db = Inr rs \<and> demo_prepared \<in> set rs"
proof -
  obtain db ys where run: "journal_calls sqlite_effect_journal demo_ops empty_effect_db = (db, ys)"
    "ej_load sqlite_effect_journal ''i'' db = Inr (Some demo_prepared)" by (rule demo_sqlite_run)
  from unresolved_intents_exact [OF demo_ops_valid run(1), of "''r''" None None] obtain rs
    where rs: "ej_unresolved sqlite_effect_journal ''r'' None None db = Inr rs"
      "demo_prepared \<in> set rs" using run(2)
    by (auto simp: demo_prepared_def demo_intent_def terminal_phase_def)
  with run(1) show ?thesis by blast
qed

theorem memory_index_exact_witness:
  "set (index_ids (mj_unresolved (fst (journal_calls memory_effect_journal demo_ops new_memory_journal))) (''r'', None))
    = {''i''}"
proof -
  obtain j ys where run: "journal_calls memory_effect_journal demo_ops new_memory_journal = (j, ys)" by fastforce
  then have j: "mj_records j = [(''i'', demo_prepared)]"
    by (auto simp: demo_ops_def memory_effect_journal_def memory_prepare_def new_memory_journal_def
        prepare_transition_def demo_prepared_def demo_intent_def)
  have scope: "intent_scope (ir_intent demo_prepared) = (''r'', None) \<and> \<not> terminal_phase (ir_phase demo_prepared)"
    by (simp add: intent_scope_def demo_prepared_def demo_intent_def terminal_phase_def)
  from memory_index_exact [OF demo_ops_valid run, of "(''r'', None)"] scope show ?thesis
    unfolding run fst_conv j by auto
qed

theorem persistent_write_atomic_witness:
  "\<exists>db ys db' r' row. journal_calls sqlite_effect_journal demo_ops empty_effect_db = (db, ys)
     \<and> record_operation sqlite_effect_journal ''i'' (Step_result ''d'' None) db = (db', Inr r')
     \<and> ir_phase r' = Ip_result_recorded \<and> encode_intent_record r' = Inr row
     \<and> map_of (jd_rows db') (er_intent_id row) = Some row"
proof -
  obtain db ys where run: "journal_calls sqlite_effect_journal demo_ops empty_effect_db = (db, ys)"
    "ej_load sqlite_effect_journal ''i'' db = Inr (Some demo_prepared)" by (rule demo_sqlite_run)
  note inv = sqlite_journal.from_start(1) [OF demo_ops_valid run(1)]
  obtain r' where step: "apply_step (Step_result ''d'' None) demo_prepared = Inr r'" "ir_phase r' = Ip_result_recorded"
    by (auto simp: demo_prepared_def demo_intent_def effect_transition_def require_request_def require_bound_effect_def
        receipt_bound_def)
  obtain db' y where op: "record_operation sqlite_effect_journal ''i'' (Step_result ''d'' None) db = (db', y)" by fastforce
  have "r' \<noteq> demo_prepared" using step(2) by (auto simp: demo_prepared_def)
  have m: "row_records document_codec (jd_rows db) ''i'' = Some demo_prepared"
    using run(2) unfolding sqlite_journal.load [OF inv] by simp
  have "y = Inr r'"
    using sqlite_journal.record_step [OF inv _ op] m step(1) by (simp add: spec_record_def)
  have "primary_keyed (jd_rows db)" using inv rows_inv_keyed by (auto simp: persistent_inv_def)
  note written = persistent_write_atomic [OF this, where c = document_codec and k = "''i''"
      and st = "Step_result ''d'' None", THEN conjunct1]
  obtain old where old: "map_of (jd_rows db) ''i'' = Some old" "jc_decode document_codec old = Inr demo_prepared"
    using m by (auto simp: row_records_def split: option.splits sum.splits)
  have op': "record_operation (persistent_effect_journal document_codec) ''i'' (Step_result ''d'' None) db = (db', Inr r')"
    using op \<open>y = Inr r'\<close> by (simp add: sqlite_effect_journal_def)
  obtain row where "jc_encode document_codec r' = Inr row" "map_of (jd_rows db') (er_intent_id row) = Some row"
    using written \<open>r' \<noteq> demo_prepared\<close> by (auto simp: op' old simp del: record_operation.simps)
  then have "encode_intent_record r' = Inr row \<and> map_of (jd_rows db') (er_intent_id row) = Some row"
    by (simp add: document_codec_def)
  with run(1) op \<open>y = Inr r'\<close> step(2) show ?thesis by blast
qed

lemma demo_completion_valid:
  "valid_completion \<lparr>cv_key = ''k'', cv_operation_id = ''o'', cv_consumer_digest = ''c'', cv_consumer_generation = None\<rparr>"
proof -
  have "\<not> blank ''k'' \<and> \<not> blank ''o'' \<and> \<not> blank ''c''" by code_simp
  then show ?thesis by (simp add: valid_completion_def)
qed

theorem open_intent_closes_witness:
  "\<exists>db ys r1 r2. journal_calls sqlite_effect_journal demo_ops empty_effect_db = (db, ys)
    \<and> snd (journal_calls sqlite_effect_journal
        [Op_record ''i'' (Step_reconciled ''d'' (demo_effect Effect_confirmed)),
         Op_record ''i'' (Step_consumed ''d'' \<lparr>cv_key = ''k'', cv_operation_id = ''o'', cv_consumer_digest = ''c'',
           cv_consumer_generation = None\<rparr>), Op_load ''i''] db)
      = [Reply_record (Inr r1), Reply_record (Inr r2), Reply_loaded (Inr (Some r2))]
    \<and> terminal_phase (ir_phase r2)"
proof -
  obtain db ys where run: "journal_calls sqlite_effect_journal demo_ops empty_effect_db = (db, ys)"
    "ej_load sqlite_effect_journal ''i'' db = Inr (Some demo_prepared)" by (rule demo_sqlite_run)
  have e: "ir_phase demo_prepared \<in> {Ip_prepared, Ip_result_recorded}"
    "authoritatively_resolved (Some (demo_effect Effect_confirmed))"
    "ef_request_digest (demo_effect Effect_confirmed) = ei_request_digest (ir_intent demo_prepared)"
    "ei_request_digest (ir_intent demo_prepared) = ''d''" "ef_certainty (demo_effect Effect_confirmed) \<noteq> No_effect"
    by (simp_all add: demo_prepared_def demo_intent_def demo_effect_def authoritatively_resolved_def)
  from open_intent_closes [OF demo_ops_valid run e(1) demo_effect_valid e(2,3) demo_completion_valid] run(1) e(4,5)
  show ?thesis unfolding e(4) by auto
qed

end
