(* ===== verification/Scheduling.thy ===== *)
theory Scheduling
  imports Complex_Main Python_Effects "HOL-Library.Product_Lexorder"
begin

text \<open>
  The scheduling policy of execution admission (\<open>research/execution/scheduling\<close>): priority aging and
  group fairness over the waiting tickets (\<open>fair_priority.py\<close>), and what a policy promises.

  Times are exact rational numbers: the rounding of floating-point subtraction and division is not
  modelled, and every time is finite.
\<close>

subsection \<open>Candidates\<close>

datatype execution_priority = Priority_critical | Priority_high | Priority_normal | Priority_low

fun priority_rank :: "execution_priority \<Rightarrow> int" where
  "priority_rank Priority_critical = 0"
| "priority_rank Priority_high = 1"
| "priority_rank Priority_normal = 2"
| "priority_rank Priority_low = 3"

text \<open>A smaller rank goes first.\<close>

instantiation execution_priority :: linorder
begin

definition less_eq_execution_priority :: "execution_priority \<Rightarrow> execution_priority \<Rightarrow> bool" where
  "p \<le> q \<longleftrightarrow> priority_rank p \<le> priority_rank q"

definition less_execution_priority :: "execution_priority \<Rightarrow> execution_priority \<Rightarrow> bool" where
  "p < q \<longleftrightarrow> priority_rank p < priority_rank q"

instance
proof
  fix p q :: execution_priority
  show "p = q" if "p \<le> q" "q \<le> p"
    using that by (cases p; cases q) (simp_all add: less_eq_execution_priority_def)
qed (auto simp: less_eq_execution_priority_def less_execution_priority_def)

end

record candidate =
  sc_ticket :: int
  sc_group :: string
  sc_priority :: execution_priority
  sc_enqueued :: rat

definition make_candidate :: "int \<Rightarrow> string \<Rightarrow> execution_priority \<Rightarrow> rat \<Rightarrow> exc + candidate" where
  "make_candidate ticket group_id priority enqueued =
     (if ticket < 0 then Inl (''TypeError'', ''scheduling ticket must be a non-negative integer'')
      else if py_strip group_id = [] then Inl (value_error ''scheduling group_id required'')
      else if enqueued < 0
      then Inl (value_error ''scheduling enqueue time must be finite and non-negative'')
      else Inr \<lparr>sc_ticket = ticket, sc_group = py_strip group_id, sc_priority = priority, sc_enqueued = enqueued\<rparr>)"

type_synonym scheduling_policy = "candidate list \<Rightarrow> (string \<times> int) list \<Rightarrow> rat \<Rightarrow> exc + int"

subsection \<open>The fair priority policy\<close>

text \<open>\<open>min(xs, key=key)\<close>: the first element with the least key.\<close>

fun min_by :: "('a \<Rightarrow> 'k::linorder) \<Rightarrow> 'a list \<Rightarrow> 'a" where
  "min_by key [] = undefined"
| "min_by key (x # xs) = foldl (\<lambda>m y. if key y < key m then y else m) x xs"

definition effective_rank :: "rat \<Rightarrow> rat \<Rightarrow> candidate \<Rightarrow> int" where
  "effective_rank aging now c =
     (let waited = max 0 (now - sc_enqueued c) in max 0 (priority_rank (sc_priority c) - \<lfloor>waited / aging\<rfloor>))"

text \<open>\<open>group_last_grant.get(group, -1)\<close> with the ticket.\<close>

definition grant_key :: "(string \<times> int) list \<Rightarrow> candidate \<Rightarrow> int \<times> int" where
  "grant_key last_grant c =
     ((case map_of last_grant (sc_group c) of None \<Rightarrow> -1 | Some n \<Rightarrow> n), sc_ticket c)"

definition fair_select :: "rat \<Rightarrow> scheduling_policy" where
  "fair_select aging cs last_grant now =
     (if cs = [] then Inl (value_error ''scheduling candidates required'')
      else if now < 0 then Inl (value_error ''scheduling now_monotonic must be finite and non-negative'')
      else
        (let best = Min (set (map (effective_rank aging now) cs))
         in Inr (sc_ticket (min_by (grant_key last_grant) (filter (\<lambda>c. effective_rank aging now c = best) cs)))))"

definition new_fair_policy :: "rat \<Rightarrow> exc + scheduling_policy" where
  "new_fair_policy aging =
     (if aging \<le> 0 then Inl (value_error ''priority aging must be finite and positive'')
      else Inr (fair_select aging))"

subsection \<open>What a policy promises\<close>

text \<open>A policy picks one of the candidates it is given.\<close>

locale lawful_policy =
  fixes select :: scheduling_policy
  assumes picks: "cs \<noteq> [] \<Longrightarrow> 0 \<le> now \<Longrightarrow> \<exists>c \<in> set cs. select cs last_grant now = Inr (sc_ticket c)"

lemma min_by_least:
  assumes "xs \<noteq> []"
  shows "min_by key xs \<in> set xs \<and> (\<forall>y \<in> set xs. key (min_by key xs) \<le> key y)"
proof -
  have "foldl (\<lambda>m y. if key y < key m then y else m) x ys \<in> set (x # ys)
      \<and> (\<forall>y \<in> set (x # ys). key (foldl (\<lambda>m y. if key y < key m then y else m) x ys) \<le> key y)" for x ys
  proof (induction ys rule: rev_induct)
    case (snoc y ys)
    let ?m = "foldl (\<lambda>m y. if key y < key m then y else m) x ys"
    show ?case
    proof (cases "key y < key ?m")
      case True
      with snoc show ?thesis by (auto intro: less_imp_le order.trans)
    next
      case False
      with snoc show ?thesis by auto
    qed
  qed simp
  with assms show ?thesis by (cases xs) simp_all
qed

lemma fair_select_least:
  assumes "cs \<noteq> []" "0 \<le> now"
  obtains c where "c \<in> set cs" "fair_select aging cs last_grant now = Inr (sc_ticket c)"
    "\<forall>d \<in> set cs. effective_rank aging now c \<le> effective_rank aging now d"
    "\<forall>d \<in> set cs. effective_rank aging now d = effective_rank aging now c \<longrightarrow> grant_key last_grant c \<le> grant_key last_grant d"
proof -
  let ?best = "Min (set (map (effective_rank aging now) cs))"
  let ?xs = "filter (\<lambda>c. effective_rank aging now c = ?best) cs"
  have least: "?best \<le> effective_rank aging now d" if "d \<in> set cs" for d using that by simp
  have "?best \<in> set (map (effective_rank aging now) cs)" by (rule Min_in) (use assms(1) in auto)
  then have "?xs \<noteq> []" by (auto simp: filter_empty_conv)
  from min_by_least [OF this, of "grant_key last_grant"] least assms show ?thesis
    by (intro that [of "min_by (grant_key last_grant) ?xs"]) (auto simp: fair_select_def Let_def)
qed

interpretation fair: lawful_policy "fair_select aging"
proof
  fix cs :: "candidate list" and now :: rat and last_grant
  assume "cs \<noteq> []" "0 \<le> now"
  then show "\<exists>c \<in> set cs. fair_select aging cs last_grant now = Inr (sc_ticket c)"
    by (rule fair_select_least) blast
qed

text \<open>
  Grant numbers as an authority hands them out: no two groups share one, and none is negative, so
  that \<open>-1\<close> stands for a group that was never granted.
\<close>

definition grants_numbered :: "(string \<times> int) list \<Rightarrow> bool" where
  "grants_numbered last_grant \<longleftrightarrow>
     distinct (map fst last_grant) \<and> distinct (map snd last_grant) \<and> list_all (\<lambda>(g, n). 0 \<le> n) last_grant"

lemma grant_number_inject:
  assumes "grants_numbered lg" "fst (grant_key lg c) = fst (grant_key lg d)"
  shows "sc_group c = sc_group d \<or> map_of lg (sc_group c) = None \<and> map_of lg (sc_group d) = None"
proof -
  have pos: "0 \<le> n" if "map_of lg g = Some n" for g n
    using assms(1) map_of_SomeD [OF that] by (auto simp: grants_numbered_def list_all_iff)
  have inj: "g = h" if "map_of lg g = Some n" "map_of lg h = Some n" for g h n
  proof -
    have "inj_on snd (set lg)" using assms(1) by (simp add: grants_numbered_def distinct_map)
    from inj_onD [OF this, of "(g, n)" "(h, n)"] that [THEN map_of_SomeD] show ?thesis by simp
  qed
  show ?thesis
    using assms(2) pos inj
    by (cases "map_of lg (sc_group c)"; cases "map_of lg (sc_group d)") (fastforce simp: grant_key_def)+
qed

subsection \<open>Properties\<close>

text \<open>
  C29: The fair policy never starves a ticket. It picks a candidate of least aged rank, and a
  candidate that has waited three aging periods has the best rank whatever its priority. Such a
  candidate is passed over only by a group whose last grant is older, one never granted being the
  oldest; by an earlier ticket of its own group; or, when neither its group nor the other was ever
  granted, by an earlier ticket. The grant numbers are those of an authority: distinct and not
  negative.
\<close>

theorem fair_select_no_starvation:
  assumes "0 < aging" "0 \<le> now" "w \<in> set cs" "sc_enqueued w + 3 * aging \<le> now" "grants_numbered last_grant"
  shows "\<exists>c \<in> set cs. fair_select aging cs last_grant now = Inr (sc_ticket c)
    \<and> (\<forall>d \<in> set cs. effective_rank aging now c \<le> effective_rank aging now d)
    \<and> effective_rank aging now w = 0
    \<and> (sc_ticket c = sc_ticket w
       \<or> fst (grant_key last_grant c) < fst (grant_key last_grant w)
       \<or> sc_ticket c < sc_ticket w \<and> sc_group c = sc_group w
       \<or> sc_ticket c < sc_ticket w \<and> map_of last_grant (sc_group c) = None \<and> map_of last_grant (sc_group w) = None)"
proof -
  obtain c where c: "c \<in> set cs" "fair_select aging cs last_grant now = Inr (sc_ticket c)"
    "\<forall>d \<in> set cs. effective_rank aging now c \<le> effective_rank aging now d"
    "\<forall>d \<in> set cs. effective_rank aging now d = effective_rank aging now c \<longrightarrow> grant_key last_grant c \<le> grant_key last_grant d"
    using fair_select_least [of cs now aging last_grant] assms(2,3) by (metis empty_iff empty_set)
  have "3 \<le> (now - sc_enqueued w) / aging" using assms(1,4) by (simp add: le_divide_eq)
  then have "3 \<le> \<lfloor>(now - sc_enqueued w) / aging\<rfloor>" by (simp add: le_floor_iff)
  moreover have "priority_rank (sc_priority w) \<le> 3" by (cases "sc_priority w") simp_all
  ultimately have "priority_rank (sc_priority w) - \<lfloor>(now - sc_enqueued w) / aging\<rfloor> \<le> 0" by linarith
  moreover have "max 0 (now - sc_enqueued w) = now - sc_enqueued w" using assms(1,4) by simp
  ultimately have w: "effective_rank aging now w = 0" by (simp add: effective_rank_def)
  have "0 \<le> effective_rank aging now c" by (simp add: effective_rank_def Let_def)
  with c(3) w assms(3) have "effective_rank aging now c = 0" by fastforce
  moreover from this w c(4) assms(3) have "grant_key last_grant c \<le> grant_key last_grant w" by simp
  then have "sc_ticket c = sc_ticket w \<or> fst (grant_key last_grant c) < fst (grant_key last_grant w)
      \<or> fst (grant_key last_grant c) = fst (grant_key last_grant w) \<and> sc_ticket c < sc_ticket w"
    by (auto simp: grant_key_def less_eq_prod_def)
  ultimately show ?thesis using c w grant_number_inject [OF assms(5), of c w]
    by (intro bexI [of _ c]) blast+
qed

theorem fair_select_no_starvation_witness:
  "fair_select 1 [\<lparr>sc_ticket = 4, sc_group = ''g'', sc_priority = Priority_critical, sc_enqueued = 5\<rparr>,
      \<lparr>sc_ticket = 1, sc_group = ''h'', sc_priority = Priority_low, sc_enqueued = 1\<rparr>] [(''g'', 3)] 5 = Inr 1"
proof -
  let ?g = "\<lparr>sc_ticket = 4, sc_group = ''g'', sc_priority = Priority_critical, sc_enqueued = 5\<rparr>"
  let ?h = "\<lparr>sc_ticket = 1, sc_group = ''h'', sc_priority = Priority_low, sc_enqueued = 1\<rparr>"
  have "sc_enqueued ?h + 3 * 1 \<le> (5 :: rat)" by simp
  moreover have "grants_numbered [(''g'', 3)]" by (simp add: grants_numbered_def)
  ultimately show ?thesis
    using fair_select_no_starvation [of 1 5 ?h "[?g, ?h]" "[(''g'', 3)]"] by (auto simp: grant_key_def)
qed

end
