(* ===== verification/Admission.thy ===== *)
theory Admission
  imports Scheduling "HOL-Library.Multiset"
begin

text \<open>
  Execution admission (\<open>research/execution/admission\<close>): budgets, identities and intents
  (\<open>api/contracts.py\<close>) and the monitor that grants leases under them (\<open>runtime/authority.py\<close>), over an
  arbitrary scheduling policy.

  A method runs under the authority's lock; only \<open>Condition.wait\<close> gives it up, so the steps of a
  waiting thread are its entry, with the first turn of its loop, and each later turn. What the code
  reads of the outside in a step is an argument: the clock at each reading, whether the deadline
  has expired, and the cancellation token.
\<close>

subsection \<open>Contracts\<close>

datatype lane = Lane_serial | Lane_blocking_io | Lane_async_io | Lane_cpu | Lane_timer

fun lane_value :: "lane \<Rightarrow> string" where
  "lane_value Lane_serial = ''serial''"
| "lane_value Lane_blocking_io = ''blocking-io''"
| "lane_value Lane_async_io = ''async-io''"
| "lane_value Lane_cpu = ''cpu''"
| "lane_value Lane_timer = ''timer''"

datatype admission_mode = Mode_block | Mode_reject

record admission_budget =
  bu_total :: int
  bu_group :: int
  bu_tenant :: int
  bu_resource :: int
  bu_blocking_io :: int
  bu_async_io :: int
  bu_cpu :: int
  bu_serial :: int

text \<open>A limit that is not given is the total.\<close>

definition make_budget ::
    "int \<Rightarrow> int option \<Rightarrow> int option \<Rightarrow> int option \<Rightarrow> int option \<Rightarrow> int option \<Rightarrow> int option \<Rightarrow> int option
       \<Rightarrow> exc + admission_budget" where
  "make_budget in_total per_group per_tenant per_resource blocking async_io cpu serial =
     (let limit = (\<lambda>v. case v of None \<Rightarrow> in_total | Some n \<Rightarrow> n);
          limits = [(''max_in_flight_per_group'', limit per_group), (''max_in_flight_per_tenant'', limit per_tenant),
            (''max_in_flight_per_resource'', limit per_resource), (''max_blocking_io_in_flight'', limit blocking),
            (''max_async_io_in_flight'', limit async_io), (''max_cpu_in_flight'', limit cpu),
            (''max_serial_in_flight'', limit serial)]
      in case find (\<lambda>(name, n). n \<le> 0) ((''max_total_in_flight'', in_total) # limits) of
           Some (name, n) \<Rightarrow> Inl (value_error (name @ '' must be positive''))
         | None \<Rightarrow>
             (case find (\<lambda>(name, n). in_total < n) limits of
                Some (name, n) \<Rightarrow> Inl (value_error (name @ '' cannot exceed max_total_in_flight''))
              | None \<Rightarrow>
                  Inr \<lparr>bu_total = in_total, bu_group = limit per_group, bu_tenant = limit per_tenant,
                       bu_resource = limit per_resource, bu_blocking_io = limit blocking,
                       bu_async_io = limit async_io, bu_cpu = limit cpu, bu_serial = limit serial\<rparr>))"

fun lane_limit :: "admission_budget \<Rightarrow> lane \<Rightarrow> exc + int" where
  "lane_limit b Lane_blocking_io = Inr (bu_blocking_io b)"
| "lane_limit b Lane_async_io = Inr (bu_async_io b)"
| "lane_limit b Lane_cpu = Inr (bu_cpu b)"
| "lane_limit b Lane_serial = Inr (bu_serial b)"
| "lane_limit b Lane_timer = Inl (value_error ''timer is not an admission lane: timer'')"

record admission_identity =
  ad_tenant :: "string option"
  ad_resource :: "string option"

definition identity_field :: "string \<Rightarrow> string option \<Rightarrow> exc + string option" where
  "identity_field name v =
     (case v of
        None \<Rightarrow> Inr None
      | Some s \<Rightarrow> if py_strip s = [] then Inl (value_error (name @ '' cannot be blank'')) else Inr (Some (py_strip s)))"

definition make_identity :: "string option \<Rightarrow> string option \<Rightarrow> exc + admission_identity" where
  "make_identity tenant resource =
     bind_result (identity_field ''tenant_id'' tenant) (\<lambda>t.
     bind_result (identity_field ''resource_id'' resource) (\<lambda>r.
       Inr \<lparr>ad_tenant = t, ad_resource = r\<rparr>))"

type_synonym resource_key = "string option \<times> string"

definition resource_key_of :: "admission_identity \<Rightarrow> resource_key option" where
  "resource_key_of i = map_option (\<lambda>r. (ad_tenant i, r)) (ad_resource i)"

record admission_intent =
  ai_priority :: execution_priority
  ai_mode :: admission_mode

record waiter =
  wt_ticket :: int
  wt_group :: string
  wt_lane :: lane
  wt_intent :: admission_intent
  wt_enqueued :: rat

subsection \<open>State of the authority\<close>

text \<open>A counter is a dictionary of numbers; a missing key counts zero.\<close>

type_synonym 'k counter = "('k \<times> int) list"

definition count_of :: "'k counter \<Rightarrow> 'k \<Rightarrow> int" where
  "count_of c k = (case map_of c k of None \<Rightarrow> 0 | Some n \<Rightarrow> n)"

record usage =
  us_total :: int
  us_groups :: "string counter"
  us_tenants :: "string counter"
  us_resources :: "resource_key counter"
  us_lanes :: "lane counter"

record selection_cache =
  ca_version :: int
  ca_bucket :: int
  ca_ticket :: "int option"

record totals =
  to_admitted :: int
  to_rejected :: int
  to_cancelled :: int
  to_timed_out :: int
  to_queued :: int
  to_queue_wait :: rat
  to_max_wait :: rat

record authority =
  au_budget :: admission_budget
  au_policy :: scheduling_policy
  au_usage :: usage
  au_identities :: "(string \<times> admission_identity) list"
  au_intents :: "(string \<times> admission_intent) list"
  au_waiters :: "(int \<times> waiter) list"
  au_queue_version :: int
  au_cache :: selection_cache
  au_next_ticket :: int
  au_grant_sequence :: int
  au_last_grant :: "(string \<times> int) list"
  au_closed :: bool
  au_totals :: totals

definition new_authority :: "admission_budget \<Rightarrow> scheduling_policy \<Rightarrow> authority" where
  "new_authority b policy =
     \<lparr>au_budget = b, au_policy = policy,
      au_usage = \<lparr>us_total = 0, us_groups = [], us_tenants = [], us_resources = [], us_lanes = []\<rparr>,
      au_identities = [], au_intents = [], au_waiters = [], au_queue_version = 0,
      au_cache = \<lparr>ca_version = -1, ca_bucket = -1, ca_ticket = None\<rparr>,
      au_next_ticket = 0, au_grant_sequence = 0, au_last_grant = [], au_closed = False,
      au_totals = \<lparr>to_admitted = 0, to_rejected = 0, to_cancelled = 0, to_timed_out = 0, to_queued = 0,
                   to_queue_wait = 0, to_max_wait = 0\<rparr>\<rparr>"

definition runtime_error :: "string \<Rightarrow> exc" where
  "runtime_error m = (''RuntimeError'', m)"

definition closed_error :: exc where
  "closed_error = runtime_error ''execution admission authority is closed''"

definition group_key :: "string \<Rightarrow> exc + string" where
  "group_key s = (if py_strip s = [] then Inl (value_error ''admission group id required'') else Inr (py_strip s))"

definition register_group ::
    "string \<Rightarrow> admission_identity \<Rightarrow> admission_intent \<Rightarrow> authority \<Rightarrow> authority \<times> (exc + unit)" where
  "register_group g ident intent a =
     (case group_key g of
        Inl x \<Rightarrow> (a, Inl x)
      | Inr g \<Rightarrow>
          if au_closed a then (a, Inl closed_error)
          else if map_of (au_identities a) g \<noteq> None
          then (a, Inl (value_error (''admission group id already registered: '' @ g)))
          else (a\<lparr>au_identities := dict_set g ident (au_identities a),
                  au_intents := dict_set g intent (au_intents a)\<rparr>, Inr ()))"

definition identity_of :: "authority \<Rightarrow> string \<Rightarrow> exc + admission_identity" where
  "identity_of a g =
     (case map_of (au_identities a) g of
        None \<Rightarrow> Inl (''KeyError'', ''execution group is not registered with admission authority: '' @ g)
      | Some i \<Rightarrow> Inr i)"

subsection \<open>Capacity\<close>

definition can_admit :: "authority \<Rightarrow> string \<Rightarrow> lane \<Rightarrow> exc + bool" where
  "can_admit a g l =
     bind_result (identity_of a g) (\<lambda>i.
       (let b = au_budget a; u = au_usage a in
        if bu_total b \<le> us_total u then Inr False
        else if bu_group b \<le> count_of (us_groups u) g then Inr False
        else
          bind_result (lane_limit b l) (\<lambda>limit.
          if limit \<le> count_of (us_lanes u) l then Inr False
          else if (case ad_tenant i of None \<Rightarrow> False | Some t \<Rightarrow> bu_tenant b \<le> count_of (us_tenants u) t) then Inr False
          else if (case resource_key_of i of None \<Rightarrow> False | Some r \<Rightarrow> bu_resource b \<le> count_of (us_resources u) r)
          then Inr False
          else Inr True)))"

definition invalidate_selection :: "authority \<Rightarrow> authority" where
  "invalidate_selection a =
     a\<lparr>au_queue_version := au_queue_version a + 1, au_cache := (au_cache a)\<lparr>ca_ticket := None\<rparr>\<rparr>"

definition drop_waiter :: "int \<Rightarrow> authority \<Rightarrow> authority" where
  "drop_waiter t a = invalidate_selection (a\<lparr>au_waiters := filter (\<lambda>e. fst e \<noteq> t) (au_waiters a)\<rparr>)"

subsection \<open>Selection\<close>

text \<open>\<open>int(now / 0.05)\<close>\<close>

definition poll_bucket :: "rat \<Rightarrow> int" where
  "poll_bucket now = (if now < 0 then - \<lfloor>- now * 20\<rfloor> else \<lfloor>now * 20\<rfloor>)"

fun admissible_waiters :: "authority \<Rightarrow> (int \<times> waiter) list \<Rightarrow> exc + waiter list" where
  "admissible_waiters a [] = Inr []"
| "admissible_waiters a ((t, w) # ws) =
     bind_result (can_admit a (wt_group w) (wt_lane w)) (\<lambda>ok.
     bind_result (admissible_waiters a ws) (\<lambda>rest. Inr (if ok then w # rest else rest)))"

definition candidate_row :: "waiter \<Rightarrow> exc + candidate" where
  "candidate_row w = make_candidate (wt_ticket w) (wt_group w) (ai_priority (wt_intent w)) (wt_enqueued w)"

definition fresh_selection :: "rat \<Rightarrow> authority \<Rightarrow> exc + waiter option" where
  "fresh_selection now a =
     (if bu_total (au_budget a) \<le> us_total (au_usage a) then Inr None
      else
        bind_result (admissible_waiters a (au_waiters a)) (\<lambda>cs.
        if cs = [] then Inr None
        else
          bind_result (map_result candidate_row cs) (\<lambda>rows.
          bind_result (au_policy a rows (au_last_grant a) now) (\<lambda>t.
            case map_of (au_waiters a) t of
              None \<Rightarrow> Inl (runtime_error ''scheduling policy selected an unknown admission ticket'')
            | Some w \<Rightarrow> Inr (Some w)))))"

definition selected_waiter :: "rat \<Rightarrow> authority \<Rightarrow> authority \<times> (exc + waiter option)" where
  "selected_waiter now a =
     (if ca_version (au_cache a) = au_queue_version a \<and> ca_bucket (au_cache a) = poll_bucket now
      then (a, Inr (Option.bind (ca_ticket (au_cache a)) (map_of (au_waiters a))))
      else
        (case fresh_selection now a of
           Inl x \<Rightarrow> (a, Inl x)
         | Inr w \<Rightarrow> (a\<lparr>au_cache := \<lparr>ca_version = au_queue_version a, ca_bucket = poll_bucket now,
                                   ca_ticket = map_option wt_ticket w\<rparr>\<rparr>, Inr w)))"

subsection \<open>Grants\<close>

definition increment :: "'k \<Rightarrow> 'k counter \<Rightarrow> 'k counter" where
  "increment k c = dict_set k (count_of c k + 1) c"

definition increment_opt :: "'k option \<Rightarrow> 'k counter \<Rightarrow> 'k counter" where
  "increment_opt k c = (case k of None \<Rightarrow> c | Some k \<Rightarrow> increment k c)"

definition usage_grant :: "string \<Rightarrow> lane \<Rightarrow> admission_identity \<Rightarrow> usage \<Rightarrow> usage" where
  "usage_grant g l i u =
     \<lparr>us_total = us_total u + 1, us_groups = increment g (us_groups u),
      us_tenants = increment_opt (ad_tenant i) (us_tenants u),
      us_resources = increment_opt (resource_key_of i) (us_resources u), us_lanes = increment l (us_lanes u)\<rparr>"

definition grant_lease :: "string \<Rightarrow> lane \<Rightarrow> rat \<Rightarrow> authority \<Rightarrow> authority \<times> (exc + unit)" where
  "grant_lease g l waited a =
     (case can_admit a g l of
        Inl x \<Rightarrow> (a, Inl x)
      | Inr False \<Rightarrow> (a, Inl (runtime_error ''admission grant violated configured budget''))
      | Inr True \<Rightarrow>
          (case identity_of a g of
             Inl x \<Rightarrow> (a, Inl x)
           | Inr i \<Rightarrow>
               (let a = a\<lparr>au_usage := usage_grant g l i (au_usage a), au_grant_sequence := au_grant_sequence a + 1,
                          au_last_grant := dict_set g (au_grant_sequence a + 1) (au_last_grant a)\<rparr>;
                    a = invalidate_selection a; t = au_totals a
                in (a\<lparr>au_totals := t\<lparr>to_admitted := to_admitted t + 1, to_queue_wait := to_queue_wait t + waited,
                                     to_max_wait := max (to_max_wait t) waited\<rparr>\<rparr>, Inr ()))))"

subsection \<open>Acquiring\<close>

text \<open>What a turn reads of the outside: the token's reason if it is cancelled, the deadline, the clock.\<close>

record turn_inputs =
  ti_cancelled :: "string option option"
  ti_expired :: bool
  ti_select_now :: rat
  ti_grant_now :: rat

datatype acquire_outcome = Acquire_failed exc | Acquire_granted string lane | Acquire_waiting int

definition cancelled_error :: "string option \<Rightarrow> exc" where
  "cancelled_error reason = (''TaskCancelled'',
     case reason of None \<Rightarrow> ''execution admission cancelled''
     | Some r \<Rightarrow> if r = [] then ''execution admission cancelled'' else r)"

text \<open>One turn of the loop in \<open>acquire\<close>, with its \<open>finally\<close>.\<close>

definition acquire_turn :: "waiter \<Rightarrow> turn_inputs \<Rightarrow> authority \<Rightarrow> authority \<times> acquire_outcome" where
  "acquire_turn w x a =
     (let leave = (\<lambda>a. if map_of (au_waiters a) (wt_ticket w) = None then a else drop_waiter (wt_ticket w) a) in
      if au_closed a then (leave a, Acquire_failed closed_error)
      else if ti_cancelled x \<noteq> None
      then (leave (a\<lparr>au_totals := (au_totals a)\<lparr>to_cancelled := to_cancelled (au_totals a) + 1\<rparr>\<rparr>),
            Acquire_failed (cancelled_error (the (ti_cancelled x))))
      else if ti_expired x
      then (leave (a\<lparr>au_totals := (au_totals a)\<lparr>to_timed_out := to_timed_out (au_totals a) + 1\<rparr>\<rparr>),
            Acquire_failed (''TimeoutError'', ''execution admission deadline expired''))
      else
        (case selected_waiter (ti_select_now x) a of
           (a, Inl e) \<Rightarrow> (leave a, Acquire_failed e)
         | (a, Inr s) \<Rightarrow>
             if s = Some w
             then (case grant_lease (wt_group w) (wt_lane w) (max 0 (ti_grant_now x - wt_enqueued w))
                          (drop_waiter (wt_ticket w) a) of
                     (a, Inl e) \<Rightarrow> (a, Acquire_failed e)
                   | (a, Inr _) \<Rightarrow> (a, Acquire_granted (wt_group w) (wt_lane w)))
             else (a, Acquire_waiting (wt_ticket w))))"

text \<open>\<open>acquire\<close> up to its first wait; \<open>enqueued\<close> is the clock when the waiter is made.\<close>

definition acquire_begin ::
    "string \<Rightarrow> lane \<Rightarrow> turn_inputs \<Rightarrow> rat \<Rightarrow> turn_inputs \<Rightarrow> authority \<Rightarrow> authority \<times> acquire_outcome" where
  "acquire_begin g l x enqueued y a =
     (case group_key g of
        Inl e \<Rightarrow> (a, Acquire_failed e)
      | Inr g \<Rightarrow>
          if l = Lane_timer
          then (a, Acquire_failed (value_error ''timer scheduler does not consume execution admission''))
          else (case identity_of a g of
             Inl e \<Rightarrow> (a, Acquire_failed e)
           | Inr _ \<Rightarrow>
               if au_closed a then (a, Acquire_failed closed_error)
               else if ti_cancelled x \<noteq> None
               then (a\<lparr>au_totals := (au_totals a)\<lparr>to_cancelled := to_cancelled (au_totals a) + 1\<rparr>\<rparr>,
                     Acquire_failed (cancelled_error (the (ti_cancelled x))))
               else if ti_expired x
               then (a\<lparr>au_totals := (au_totals a)\<lparr>to_timed_out := to_timed_out (au_totals a) + 1\<rparr>\<rparr>,
                     Acquire_failed (''TimeoutError'', ''execution admission deadline expired''))
               else (case map_of (au_intents a) g of
                  None \<Rightarrow> (a, Acquire_failed (''KeyError'', g))
                | Some intent \<Rightarrow>
                    if ai_mode intent = Mode_reject
                    then
                      (let reject = (\<lambda>a. (a\<lparr>au_totals := (au_totals a)\<lparr>to_rejected := to_rejected (au_totals a) + 1\<rparr>\<rparr>,
                             Acquire_failed (''AdmissionRejected'', ''execution admission rejected group='' @ g
                               @ '' lane='' @ lane_value l)))
                       in case can_admit a g l of
                            Inl e \<Rightarrow> (a, Acquire_failed e)
                          | Inr False \<Rightarrow> reject a
                          | Inr True \<Rightarrow>
                              (case selected_waiter (ti_select_now x) a of
                                 (a, Inl e) \<Rightarrow> (a, Acquire_failed e)
                               | (a, Inr (Some _)) \<Rightarrow> reject a
                               | (a, Inr None) \<Rightarrow>
                                   (case grant_lease g l 0 a of
                                      (a, Inl e) \<Rightarrow> (a, Acquire_failed e)
                                    | (a, Inr _) \<Rightarrow> (a, Acquire_granted g l))))
                    else
                      (let w = \<lparr>wt_ticket = au_next_ticket a, wt_group = g, wt_lane = l, wt_intent = intent,
                                wt_enqueued = enqueued\<rparr>;
                           a = a\<lparr>au_next_ticket := au_next_ticket a + 1,
                                 au_waiters := dict_set (wt_ticket w) w (au_waiters a)\<rparr>;
                           a = invalidate_selection a;
                           a = a\<lparr>au_totals := (au_totals a)\<lparr>to_queued := to_queued (au_totals a) + 1\<rparr>\<rparr>
                       in acquire_turn w y a))))"

subsection \<open>Releasing and closing\<close>

definition decrement :: "string \<Rightarrow> 'k \<Rightarrow> 'k counter \<Rightarrow> exc + 'k counter" where
  "decrement label k c =
     (if count_of c k \<le> 0 then Inl (runtime_error (''admission '' @ label @ '' accounting underflow''))
      else if count_of c k = 1 then Inr (filter (\<lambda>e. fst e \<noteq> k) c)
      else Inr (dict_set k (count_of c k - 1) c))"

definition decrement_opt :: "string \<Rightarrow> 'k option \<Rightarrow> 'k counter \<Rightarrow> exc + 'k counter" where
  "decrement_opt label k c = (case k of None \<Rightarrow> Inr c | Some k \<Rightarrow> decrement label k c)"

text \<open>The counters are updated one after the other; a failure leaves the earlier updates.\<close>

definition usage_release ::
    "string \<Rightarrow> lane \<Rightarrow> admission_identity \<Rightarrow> usage \<Rightarrow> usage \<times> (exc + unit)" where
  "usage_release g l i u =
     (case decrement ''group'' g (us_groups u) of
        Inl x \<Rightarrow> (u, Inl x)
      | Inr c \<Rightarrow> (let u = u\<lparr>us_groups := c\<rparr> in
     case decrement ''lane'' l (us_lanes u) of
        Inl x \<Rightarrow> (u, Inl x)
      | Inr c \<Rightarrow> (let u = u\<lparr>us_lanes := c\<rparr> in
     case decrement_opt ''tenant'' (ad_tenant i) (us_tenants u) of
        Inl x \<Rightarrow> (u, Inl x)
      | Inr c \<Rightarrow> (let u = u\<lparr>us_tenants := c\<rparr> in
     case decrement_opt ''resource'' (resource_key_of i) (us_resources u) of
        Inl x \<Rightarrow> (u, Inl x)
      | Inr c \<Rightarrow> (u\<lparr>us_resources := c, us_total := us_total u - 1\<rparr>, Inr ())))))"

definition authority_release :: "string \<Rightarrow> lane \<Rightarrow> authority \<Rightarrow> authority \<times> (exc + unit)" where
  "authority_release g l a =
     (if us_total (au_usage a) \<le> 0 then (a, Inl (runtime_error ''admission in-flight accounting underflow''))
      else (case identity_of a g of
         Inl x \<Rightarrow> (a, Inl x)
       | Inr i \<Rightarrow>
           (case usage_release g l i (au_usage a) of
              (u, Inl x) \<Rightarrow> (a\<lparr>au_usage := u\<rparr>, Inl x)
            | (u, Inr _) \<Rightarrow> (invalidate_selection (a\<lparr>au_usage := u\<rparr>), Inr ()))))"

definition close_authority :: "authority \<Rightarrow> authority" where
  "close_authority a = a\<lparr>au_closed := True\<rparr>"

record lease =
  le_group :: string
  le_lane :: lane
  le_released :: bool

definition release_lease :: "lease \<Rightarrow> authority \<Rightarrow> lease \<times> authority \<times> (exc + unit)" where
  "release_lease le a =
     (if le_released le then (le, a, Inr ())
      else (let (a', x) = authority_release (le_group le) (le_lane le) a in (le\<lparr>le_released := True\<rparr>, a', x)))"

subsection \<open>Snapshots\<close>

record group_row =
  gr_group :: string
  gr_tenant :: "string option"
  gr_resource :: "string option"
  gr_in_flight :: int
  gr_waiting :: int

record tenant_row =
  tr_tenant :: string
  tr_max_in_flight :: int
  tr_in_flight :: int
  tr_waiting :: int

record resource_row =
  rr_tenant :: "string option"
  rr_resource :: string
  rr_max_in_flight :: int
  rr_in_flight :: int
  rr_waiting :: int

record lane_row =
  lr_lane :: lane
  lr_max_in_flight :: int
  lr_in_flight :: int
  lr_waiting :: int

record admission_snapshot =
  sn_max_total :: int
  sn_max_group :: int
  sn_max_tenant :: int
  sn_max_resource :: int
  sn_in_flight :: int
  sn_waiting :: int
  sn_closed :: bool
  sn_totals :: totals
  sn_oldest_wait :: rat
  sn_groups :: "group_row list"
  sn_tenants :: "tenant_row list"
  sn_resources :: "resource_row list"
  sn_lanes :: "lane_row list"

text \<open>\<open>Counter(xs)\<close>\<close>

definition tally :: "'k list \<Rightarrow> 'k counter" where
  "tally xs = foldl (\<lambda>c k. increment k c) [] xs"

definition waiting_counters ::
    "authority \<Rightarrow> exc + string counter \<times> lane counter \<times> string counter \<times> resource_key counter" where
  "waiting_counters a =
     bind_result (map_result (\<lambda>(t, w). bind_result (identity_of a (wt_group w)) (\<lambda>i. Inr (w, i))) (au_waiters a))
       (\<lambda>rows. Inr (tally (map (\<lambda>(w, i). wt_group w) rows), tally (map (\<lambda>(w, i). wt_lane w) rows),
          tally (List.map_filter (\<lambda>(w, i). ad_tenant i) rows),
          tally (List.map_filter (\<lambda>(w, i). resource_key_of i) rows)))"

definition oldest_wait :: "rat \<Rightarrow> authority \<Rightarrow> rat" where
  "oldest_wait now a =
     (case map (\<lambda>(t, w). now - wt_enqueued w) (au_waiters a) of [] \<Rightarrow> 0 | x # xs \<Rightarrow> foldl max x xs)"

definition admission_lanes :: "lane list" where
  "admission_lanes = [Lane_blocking_io, Lane_async_io, Lane_cpu, Lane_serial]"

text \<open>A set of keys, sorted.\<close>

definition sorted_keys :: "'k::linorder list \<Rightarrow> 'k list" where
  "sorted_keys ks = sort (remdups ks)"

definition authority_snapshot :: "rat \<Rightarrow> authority \<Rightarrow> exc + admission_snapshot" where
  "authority_snapshot now a =
     bind_result (waiting_counters a) (\<lambda>(by_group, by_lane, by_tenant, by_resource).
       (let b = au_budget a; u = au_usage a;
            group_ids = sorted_keys (map fst (au_identities a) @ map fst (us_groups u) @ map fst by_group);
            tenant_ids = sorted_keys (map fst (us_tenants u) @ map fst by_tenant);
            resource_keys = sort_key (\<lambda>(t, r). (case t of None \<Rightarrow> [] | Some t \<Rightarrow> t, r))
              (remdups (map fst (us_resources u) @ map fst by_resource))
        in
        bind_result (map_result (\<lambda>g. case map_of (au_identities a) g of
              None \<Rightarrow> Inl (''KeyError'', g)
            | Some i \<Rightarrow> Inr \<lparr>gr_group = g, gr_tenant = ad_tenant i, gr_resource = ad_resource i,
                gr_in_flight = count_of (us_groups u) g, gr_waiting = count_of by_group g\<rparr>) group_ids) (\<lambda>groups.
        bind_result (map_result (\<lambda>l. bind_result (lane_limit b l) (\<lambda>n. Inr \<lparr>lr_lane = l, lr_max_in_flight = n,
                lr_in_flight = count_of (us_lanes u) l, lr_waiting = count_of by_lane l\<rparr>)) admission_lanes) (\<lambda>lanes.
          Inr \<lparr>sn_max_total = bu_total b, sn_max_group = bu_group b, sn_max_tenant = bu_tenant b,
            sn_max_resource = bu_resource b, sn_in_flight = us_total u, sn_waiting = int (length (au_waiters a)),
            sn_closed = au_closed a, sn_totals = au_totals a, sn_oldest_wait = max 0 (oldest_wait now a),
            sn_groups = groups,
            sn_tenants = map (\<lambda>t. \<lparr>tr_tenant = t, tr_max_in_flight = bu_tenant b,
              tr_in_flight = count_of (us_tenants u) t, tr_waiting = count_of by_tenant t\<rparr>) tenant_ids,
            sn_resources = map (\<lambda>(t, r). \<lparr>rr_tenant = t, rr_resource = r, rr_max_in_flight = bu_resource b,
              rr_in_flight = count_of (us_resources u) (t, r), rr_waiting = count_of by_resource (t, r)\<rparr>) resource_keys,
            sn_lanes = lanes\<rparr>))))"

subsection \<open>The world\<close>

text \<open>
  The authority, the leases it has handed out and the events that act on it. A waiting thread takes
  its next turn with \<open>Ev_turn\<close>; the clock is never negative.
\<close>

record admission_world =
  aw_authority :: authority
  aw_leases :: "lease list"

datatype admission_event =
    Ev_register string admission_identity admission_intent
  | Ev_acquire string lane turn_inputs rat turn_inputs
  | Ev_turn int turn_inputs
  | Ev_release nat
  | Ev_close

definition valid_inputs :: "turn_inputs \<Rightarrow> bool" where
  "valid_inputs x \<longleftrightarrow> 0 \<le> ti_select_now x \<and> 0 \<le> ti_grant_now x"

fun valid_event :: "admission_event \<Rightarrow> bool" where
  "valid_event (Ev_acquire g l x enqueued y) = (valid_inputs x \<and> 0 \<le> enqueued \<and> valid_inputs y)"
| "valid_event (Ev_turn t x) = valid_inputs x"
| "valid_event _ = True"

definition with_outcome :: "admission_world \<Rightarrow> authority \<times> acquire_outcome \<Rightarrow> admission_world" where
  "with_outcome w r =
     (case r of
        (a, Acquire_granted g l) \<Rightarrow>
          \<lparr>aw_authority = a, aw_leases = aw_leases w @ [\<lparr>le_group = g, le_lane = l, le_released = False\<rparr>]\<rparr>
      | (a, _) \<Rightarrow> w\<lparr>aw_authority := a\<rparr>)"

fun admission_step :: "admission_event \<Rightarrow> admission_world \<Rightarrow> admission_world" where
  "admission_step (Ev_register g ident intent) w =
     w\<lparr>aw_authority := fst (register_group g ident intent (aw_authority w))\<rparr>"
| "admission_step (Ev_acquire g l x enqueued y) w =
     with_outcome w (acquire_begin g l x enqueued y (aw_authority w))"
| "admission_step (Ev_turn t x) w =
     (case map_of (au_waiters (aw_authority w)) t of
        None \<Rightarrow> w
      | Some wt \<Rightarrow> with_outcome w (acquire_turn wt x (aw_authority w)))"
| "admission_step (Ev_release n) w =
     (if n < length (aw_leases w)
      then (let (le, a, _) = release_lease (aw_leases w ! n) (aw_authority w)
            in \<lparr>aw_authority = a, aw_leases = (aw_leases w)[n := le]\<rparr>)
      else w)"
| "admission_step Ev_close w = w\<lparr>aw_authority := close_authority (aw_authority w)\<rparr>"

inductive reachable_world :: "admission_budget \<Rightarrow> scheduling_policy \<Rightarrow> admission_world \<Rightarrow> bool"
  for b :: admission_budget and policy :: scheduling_policy where
  world_start: "reachable_world b policy \<lparr>aw_authority = new_authority b policy, aw_leases = []\<rparr>"
| world_step: "reachable_world b policy w \<Longrightarrow> valid_event e \<Longrightarrow> reachable_world b policy (admission_step e w)"

subsection \<open>Counters\<close>

text \<open>A counter that holds exactly the keys of a multiset, and no zero.\<close>

definition counts :: "'k counter \<Rightarrow> 'k multiset \<Rightarrow> bool" where
  "counts c M \<longleftrightarrow> distinct (map fst c) \<and> (\<forall>(k, n) \<in> set c. 0 < n) \<and> (\<forall>k. count_of c k = int (count M k))"

lemma counts_empty: "counts [] {#}"
  by (simp add: counts_def count_of_def)

lemma count_of_dict_set: "count_of (dict_set k n c) k' = (if k' = k then n else count_of c k')"
  by (simp add: count_of_def map_of_dict_set)

lemma set_dict_set: "distinct (map fst c) \<Longrightarrow> set (dict_set k n c) = insert (k, n) {e \<in> set c. fst e \<noteq> k}"
  by (induction k n c rule: dict_set.induct) force+

lemma counts_increment:
  assumes "counts c M"
  shows "counts (increment k c) (add_mset k M)"
proof -
  have "0 \<le> count_of c k" using assms by (simp add: counts_def)
  with assms show ?thesis
    by (auto simp: counts_def increment_def count_of_dict_set distinct_dict_set set_dict_set)
qed

lemma counts_decrement:
  assumes "counts c (add_mset k M)"
  obtains c' where "decrement label k c = Inr c'" "counts c' M"
proof (cases "count M k = 0")
  case True
  let ?c = "filter (\<lambda>e. fst e \<noteq> k) c"
  have "distinct (map fst ?c)" using assms by (simp add: counts_def distinct_map_filter)
  moreover have "count_of ?c k' = (if k' = k then 0 else count_of c k')" for k'
    by (simp add: count_of_def map_of_drop_key)
  ultimately have "counts ?c M" using assms True by (auto simp: counts_def)
  moreover have "decrement label k c = Inr ?c" using assms True by (simp add: decrement_def counts_def)
  ultimately show ?thesis using that by blast
next
  case False
  have "counts (dict_set k (count_of c k - 1) c) M" using assms False
    by (auto simp: counts_def count_of_dict_set distinct_dict_set set_dict_set)
  moreover have "decrement label k c = Inr (dict_set k (count_of c k - 1) c)"
  proof -
    have "count_of c k = int (count M k) + 1" using assms by (simp add: counts_def)
    then have "0 < count_of c k" "count_of c k \<noteq> 1" using False by simp_all
    then show ?thesis by (simp add: decrement_def)
  qed
  ultimately show ?thesis using that by blast
qed

text \<open>The keys an optional attribute has in a multiset.\<close>

definition somes :: "('a \<Rightarrow> 'k option) \<Rightarrow> 'a multiset \<Rightarrow> 'k multiset" where
  "somes f M = image_mset (\<lambda>x. the (f x)) (filter_mset (\<lambda>x. f x \<noteq> None) M)"

lemma somes_simps [simp]:
  "somes f {#} = {#}"
  "f x = None \<Longrightarrow> somes f (add_mset x M) = somes f M"
  "f x = Some k \<Longrightarrow> somes f (add_mset x M) = add_mset k (somes f M)"
  by (simp_all add: somes_def)

lemma somes_cong: "(\<And>x. x \<in># M \<Longrightarrow> f x = g x) \<Longrightarrow> somes f M = somes g M"
  unfolding somes_def by (metis (no_types, lifting) filter_mset_cong image_mset_cong mem_Collect_eq set_mset_filter)

lemma counts_increment_opt:
  "counts c (somes f M) \<Longrightarrow> counts (increment_opt (f x) c) (somes f (add_mset x M))"
  by (cases "f x") (simp_all add: increment_opt_def counts_increment)

lemma counts_decrement_opt:
  assumes "counts c (somes f (add_mset x M))"
  obtains c' where "decrement_opt label (f x) c = Inr c'" "counts c' (somes f M)"
proof (cases "f x")
  case None
  with assms that show ?thesis by (simp add: decrement_opt_def)
next
  case (Some k)
  with assms have "counts c (add_mset k (somes f M))" by simp
  then obtain c' where "decrement label k c = Inr c'" "counts c' (somes f M)" by (rule counts_decrement)
  with Some that show ?thesis by (simp add: decrement_opt_def)
qed

subsection \<open>Invariant\<close>

text \<open>The leases that are out, as pairs of group and lane.\<close>

definition active_leases :: "admission_world \<Rightarrow> (string \<times> lane) multiset" where
  "active_leases w = image_mset (\<lambda>le. (le_group le, le_lane le)) (filter_mset (\<lambda>le. \<not> le_released le) (mset (aw_leases w)))"

definition tenant_in :: "(string \<times> admission_identity) list \<Rightarrow> string \<times> lane \<Rightarrow> string option" where
  "tenant_in ids p = Option.bind (map_of ids (fst p)) ad_tenant"

definition resource_in :: "(string \<times> admission_identity) list \<Rightarrow> string \<times> lane \<Rightarrow> resource_key option" where
  "resource_in ids p = Option.bind (map_of ids (fst p)) resource_key_of"

definition usage_exact :: "(string \<times> admission_identity) list \<Rightarrow> usage \<Rightarrow> (string \<times> lane) multiset \<Rightarrow> bool" where
  "usage_exact ids u L \<longleftrightarrow> us_total u = int (size L)
     \<and> counts (us_groups u) (image_mset fst L) \<and> counts (us_lanes u) (image_mset snd L)
     \<and> counts (us_tenants u) (somes (tenant_in ids) L) \<and> counts (us_resources u) (somes (resource_in ids) L)"

definition within_budget :: "admission_budget \<Rightarrow> usage \<Rightarrow> bool" where
  "within_budget b u \<longleftrightarrow> us_total u \<le> bu_total b
     \<and> (\<forall>g. count_of (us_groups u) g \<le> bu_group b) \<and> (\<forall>t. count_of (us_tenants u) t \<le> bu_tenant b)
     \<and> (\<forall>r. count_of (us_resources u) r \<le> bu_resource b)
     \<and> (\<forall>l n. lane_limit b l = Inr n \<longrightarrow> count_of (us_lanes u) l \<le> n)"

definition registered :: "(string \<times> admission_identity) list \<Rightarrow> string \<Rightarrow> lane \<Rightarrow> bool" where
  "registered ids g l \<longleftrightarrow> map_of ids g \<noteq> None \<and> l \<noteq> Lane_timer"

definition waiter_ok :: "(string \<times> admission_identity) list \<Rightarrow> int \<Rightarrow> int \<Rightarrow> waiter \<Rightarrow> bool" where
  "waiter_ok ids n t w \<longleftrightarrow> wt_ticket w = t \<and> 0 \<le> t \<and> t < n \<and> registered ids (wt_group w) (wt_lane w)
     \<and> 0 \<le> wt_enqueued w"

definition groups_ok :: "(string \<times> admission_identity) list \<Rightarrow> (string \<times> admission_intent) list \<Rightarrow> bool" where
  "groups_ok ids intents \<longleftrightarrow> dom (map_of ids) = dom (map_of intents)
     \<and> (\<forall>g. map_of ids g \<noteq> None \<longrightarrow> py_strip g = g \<and> g \<noteq> [])"

text \<open>A valid cache holds what the policy selects at some instant of its bucket.\<close>

definition cache_ok :: "authority \<Rightarrow> bool" where
  "cache_ok a \<longleftrightarrow> ca_version (au_cache a) \<le> au_queue_version a
     \<and> (ca_version (au_cache a) = au_queue_version a \<longrightarrow>
          (\<exists>now w. 0 \<le> now \<and> poll_bucket now = ca_bucket (au_cache a) \<and> fresh_selection now a = Inr w
             \<and> ca_ticket (au_cache a) = map_option wt_ticket w))"

definition authority_inv :: "admission_budget \<Rightarrow> scheduling_policy \<Rightarrow> authority \<Rightarrow> (string \<times> lane) multiset \<Rightarrow> bool" where
  "authority_inv b policy a L \<longleftrightarrow>
     au_budget a = b \<and> au_policy a = policy
     \<and> usage_exact (au_identities a) (au_usage a) L \<and> within_budget b (au_usage a)
     \<and> (\<forall>(g, l) \<in># L. registered (au_identities a) g l)
     \<and> 0 \<le> au_next_ticket a \<and> distinct (map fst (au_waiters a))
     \<and> (\<forall>(t, w) \<in> set (au_waiters a). waiter_ok (au_identities a) (au_next_ticket a) t w)
     \<and> groups_ok (au_identities a) (au_intents a) \<and> cache_ok a"

definition valid_budget :: "admission_budget \<Rightarrow> bool" where
  "valid_budget b \<longleftrightarrow> 0 \<le> bu_total b \<and> 0 \<le> bu_group b \<and> 0 \<le> bu_tenant b \<and> 0 \<le> bu_resource b
     \<and> (\<forall>l n. lane_limit b l = Inr n \<longrightarrow> 0 \<le> n)"

lemma two_guards:
  "(case F of None \<Rightarrow> (case G of None \<Rightarrow> Inr r | Some (x, y) \<Rightarrow> Inl (e' x)) | Some (x, y) \<Rightarrow> Inl (e x)) = Inr b
     \<longleftrightarrow> F = None \<and> G = None \<and> b = r"
  by (auto split: option.splits)

lemma make_budget_valid:
  assumes "make_budget n g t r bl asy cp se = Inr b"
  shows "valid_budget b"
proof -
  let ?d = "\<lambda>v. case v of None \<Rightarrow> n | Some m \<Rightarrow> m"
  let ?limits = "[(''max_in_flight_per_group'', ?d g), (''max_in_flight_per_tenant'', ?d t),
            (''max_in_flight_per_resource'', ?d r), (''max_blocking_io_in_flight'', ?d bl),
            (''max_async_io_in_flight'', ?d asy), (''max_cpu_in_flight'', ?d cp), (''max_serial_in_flight'', ?d se)]"
  let ?b = "\<lparr>bu_total = n, bu_group = ?d g, bu_tenant = ?d t, bu_resource = ?d r, bu_blocking_io = ?d bl,
     bu_async_io = ?d asy, bu_cpu = ?d cp, bu_serial = ?d se\<rparr>"
  have none: "find (\<lambda>(name, m). m \<le> 0) ((''max_total_in_flight'', n) # ?limits) = None" and b: "b = ?b"
    using assms unfolding make_budget_def Let_def two_guards by blast+
  from none have "\<not> (\<exists>x \<in> set ((''max_total_in_flight'', n) # ?limits). (\<lambda>(name, m). m \<le> 0) x)"
    unfolding find_None_iff by blast
  then have pos: "0 < n" "0 < ?d g" "0 < ?d t" "0 < ?d r" "0 < ?d bl" "0 < ?d asy" "0 < ?d cp" "0 < ?d se"
    by simp_all
  have "0 \<le> m" if "lane_limit ?b l = Inr m" for l m
    using that pos by (cases l) simp_all
  then show ?thesis unfolding b valid_budget_def using pos by simp
qed

lemma inv_start: "valid_budget b \<Longrightarrow> authority_inv b policy (new_authority b policy) {#}"
  by (simp add: authority_inv_def new_authority_def usage_exact_def counts_empty within_budget_def valid_budget_def
      count_of_def groups_ok_def cache_ok_def)

lemma cache_ok_invalid: "cache_ok a \<Longrightarrow> cache_ok (invalidate_selection a)"
  by (auto simp: cache_ok_def invalidate_selection_def)

lemma invalidate_fields [simp]:
  "au_budget (invalidate_selection a) = au_budget a" "au_policy (invalidate_selection a) = au_policy a"
  "au_usage (invalidate_selection a) = au_usage a" "au_identities (invalidate_selection a) = au_identities a"
  "au_intents (invalidate_selection a) = au_intents a" "au_waiters (invalidate_selection a) = au_waiters a"
  "au_next_ticket (invalidate_selection a) = au_next_ticket a" "au_closed (invalidate_selection a) = au_closed a"
  "au_last_grant (invalidate_selection a) = au_last_grant a" "au_totals (invalidate_selection a) = au_totals a"
  by (simp_all add: invalidate_selection_def)

text \<open>The version of the queue makes whatever a stale cache says harmless.\<close>

lemma cache_ok_stale:
  "ca_version (au_cache a) < au_queue_version a \<Longrightarrow> cache_ok a"
  by (simp add: cache_ok_def)

lemma stale_invalidated: "ca_version (au_cache a) \<le> au_queue_version a \<Longrightarrow>
    ca_version (au_cache (invalidate_selection a)) < au_queue_version (invalidate_selection a)"
  by (simp add: invalidate_selection_def)

lemma cache_version: "cache_ok a \<Longrightarrow> ca_version (au_cache a) \<le> au_queue_version a"
  by (simp add: cache_ok_def)

text \<open>Fields that selection does not read.\<close>

lemma can_admit_frame:
  "au_budget a' = au_budget a \<Longrightarrow> au_usage a' = au_usage a \<Longrightarrow> au_identities a' = au_identities a \<Longrightarrow>
     can_admit a' g l = can_admit a g l"
  by (simp add: can_admit_def identity_of_def)

lemma admissible_frame:
  assumes "\<And>w. w \<in> snd ` set ws \<Longrightarrow> can_admit a' (wt_group w) (wt_lane w) = can_admit a (wt_group w) (wt_lane w)"
  shows "admissible_waiters a' ws = admissible_waiters a ws"
  using assms by (induction ws rule: list.induct) (auto simp: image_iff)

lemma fresh_frame:
  assumes "au_budget a' = au_budget a" "au_usage a' = au_usage a" "au_policy a' = au_policy a"
    "au_waiters a' = au_waiters a" "au_last_grant a' = au_last_grant a"
    "\<And>w. w \<in> snd ` set (au_waiters a) \<Longrightarrow> map_of (au_identities a') (wt_group w) = map_of (au_identities a) (wt_group w)"
  shows "fresh_selection now a' = fresh_selection now a"
proof -
  have "admissible_waiters a' (au_waiters a) = admissible_waiters a (au_waiters a)"
    by (rule admissible_frame) (simp add: can_admit_def identity_of_def assms)
  then show ?thesis unfolding fresh_selection_def assms(1-5) by simp
qed

lemma can_admit_True:
  assumes "can_admit a g l = Inr True"
  obtains i n where "map_of (au_identities a) g = Some i" "us_total (au_usage a) < bu_total (au_budget a)"
    "count_of (us_groups (au_usage a)) g < bu_group (au_budget a)" "lane_limit (au_budget a) l = Inr n"
    "count_of (us_lanes (au_usage a)) l < n"
    "\<And>t. ad_tenant i = Some t \<Longrightarrow> count_of (us_tenants (au_usage a)) t < bu_tenant (au_budget a)"
    "\<And>r. resource_key_of i = Some r \<Longrightarrow> count_of (us_resources (au_usage a)) r < bu_resource (au_budget a)"
proof -
  from assms obtain i where i: "map_of (au_identities a) g = Some i"
    by (auto simp: can_admit_def identity_of_def bind_result_Inr_iff split: option.splits)
  from assms have 1: "us_total (au_usage a) < bu_total (au_budget a)"
    "count_of (us_groups (au_usage a)) g < bu_group (au_budget a)"
    by (auto simp: can_admit_def identity_of_def i Let_def split: if_splits)
  with assms obtain n where 2: "lane_limit (au_budget a) l = Inr n" "count_of (us_lanes (au_usage a)) l < n"
    "\<not> (case ad_tenant i of None \<Rightarrow> False | Some t \<Rightarrow> bu_tenant (au_budget a) \<le> count_of (us_tenants (au_usage a)) t)"
    "\<not> (case resource_key_of i of None \<Rightarrow> False | Some r \<Rightarrow> bu_resource (au_budget a) \<le> count_of (us_resources (au_usage a)) r)"
    by (auto simp: can_admit_def identity_of_def i Let_def bind_result_Inr_iff split: if_splits)
  show ?thesis by (rule that [OF i 1 2(1,2)]) (use 2(3,4) in \<open>simp_all add: not_le\<close>)
qed

lemma lane_limit_Inr: "l \<noteq> Lane_timer \<Longrightarrow> \<exists>n. lane_limit b l = Inr n"
  by (cases l) simp_all

lemma can_admit_registered:
  assumes "registered (au_identities a) g l"
  obtains ok where "can_admit a g l = Inr ok"
proof -
  from assms obtain i n where "map_of (au_identities a) g = Some i" "lane_limit (au_budget a) l = Inr n"
    using lane_limit_Inr [of l "au_budget a"] by (auto simp: registered_def)
  then have "can_admit a g l \<noteq> Inl e" for e
    by (auto simp: can_admit_def identity_of_def Let_def)
  with that show ?thesis by (cases "can_admit a g l") auto
qed

lemma usage_exact_grant:
  assumes "usage_exact ids u L" "map_of ids g = Some i"
  shows "usage_exact ids (usage_grant g l i u) (add_mset (g, l) L)"
proof -
  have "tenant_in ids (g, l) = ad_tenant i" "resource_in ids (g, l) = resource_key_of i"
    using assms(2) by (simp_all add: tenant_in_def resource_in_def)
  with counts_increment_opt [of "us_tenants u" "tenant_in ids" L "(g, l)"]
    counts_increment_opt [of "us_resources u" "resource_in ids" L "(g, l)"] assms(1)
  show ?thesis by (simp add: usage_exact_def usage_grant_def counts_increment)
qed

lemma usage_exact_release:
  assumes "usage_exact ids u (add_mset (g, l) L)" "map_of ids g = Some i"
  obtains u' where "usage_release g l i u = (u', Inr ())" "usage_exact ids u' L"
proof -
  have in_ids: "tenant_in ids (g, l) = ad_tenant i" "resource_in ids (g, l) = resource_key_of i"
    using assms(2) by (simp_all add: tenant_in_def resource_in_def)
  obtain cg where cg: "decrement ''group'' g (us_groups u) = Inr cg" "counts cg (image_mset fst L)"
    using assms(1) by (auto simp: usage_exact_def intro: counts_decrement)
  obtain cl where cl: "decrement ''lane'' l (us_lanes u) = Inr cl" "counts cl (image_mset snd L)"
    using assms(1) by (auto simp: usage_exact_def intro: counts_decrement)
  obtain ct where ct: "decrement_opt ''tenant'' (ad_tenant i) (us_tenants u) = Inr ct" "counts ct (somes (tenant_in ids) L)"
    using counts_decrement_opt [of "us_tenants u" "tenant_in ids" "(g, l)" L "''tenant''"] assms(1)
    unfolding in_ids usage_exact_def by blast
  obtain cr where cr: "decrement_opt ''resource'' (resource_key_of i) (us_resources u) = Inr cr"
    "counts cr (somes (resource_in ids) L)"
    using counts_decrement_opt [of "us_resources u" "resource_in ids" "(g, l)" L "''resource''"] assms(1)
    unfolding in_ids usage_exact_def by blast
  have "usage_release g l i u = (\<lparr>us_total = us_total u - 1, us_groups = cg, us_tenants = ct, us_resources = cr,
      us_lanes = cl\<rparr>, Inr ())"
    by (cases u) (use cg(1) cl(1) ct(1) cr(1) in \<open>simp add: usage_release_def Let_def\<close>)
  then show ?thesis using that assms(1) cg(2) cl(2) ct(2) cr(2) by (simp add: usage_exact_def)
qed

lemma increment_opt_le:
  "(\<And>x. k = Some x \<Longrightarrow> count_of c x < m) \<Longrightarrow> (\<And>x. count_of c x \<le> m) \<Longrightarrow> count_of (increment_opt k c) k' \<le> m"
  by (cases k) (auto simp: increment_opt_def increment_def count_of_dict_set add1_zle_eq)

lemma within_budget_grant:
  assumes "can_admit a g l = Inr True" "within_budget (au_budget a) (au_usage a)" "map_of (au_identities a) g = Some i"
  shows "within_budget (au_budget a) (usage_grant g l i (au_usage a))"
proof -
  from can_admit_True [OF assms(1)] obtain j n where j: "map_of (au_identities a) g = Some j"
    and room: "us_total (au_usage a) < bu_total (au_budget a)"
    "count_of (us_groups (au_usage a)) g < bu_group (au_budget a)" "lane_limit (au_budget a) l = Inr n"
    "count_of (us_lanes (au_usage a)) l < n"
    "\<And>t. ad_tenant j = Some t \<Longrightarrow> count_of (us_tenants (au_usage a)) t < bu_tenant (au_budget a)"
    "\<And>r. resource_key_of j = Some r \<Longrightarrow> count_of (us_resources (au_usage a)) r < bu_resource (au_budget a)"
    by metis
  have i: "i = j" using j assms(3) by simp
  have b: "\<forall>g. count_of (us_groups (au_usage a)) g \<le> bu_group (au_budget a)"
    "\<forall>t. count_of (us_tenants (au_usage a)) t \<le> bu_tenant (au_budget a)"
    "\<forall>r. count_of (us_resources (au_usage a)) r \<le> bu_resource (au_budget a)"
    "\<forall>l n. lane_limit (au_budget a) l = Inr n \<longrightarrow> count_of (us_lanes (au_usage a)) l \<le> n"
    using assms(2) by (simp_all add: within_budget_def)
  have "count_of (increment_opt (ad_tenant i) (us_tenants (au_usage a))) t \<le> bu_tenant (au_budget a)" for t
    by (rule increment_opt_le) (use b room i in auto)
  moreover have "count_of (increment_opt (resource_key_of i) (us_resources (au_usage a))) r \<le> bu_resource (au_budget a)" for r
    by (rule increment_opt_le) (use b room i in blast)+
  ultimately show ?thesis using room b
    by (auto simp: within_budget_def usage_grant_def increment_def count_of_dict_set)
qed

lemma count_of_decremented:
  "decrement label k c = Inr c' \<Longrightarrow> count_of c' k' \<le> count_of c k'"
  by (auto simp: decrement_def count_of_dict_set count_of_def map_of_drop_key map_of_dict_set split: if_splits)

lemma count_of_decremented_opt:
  "decrement_opt label k c = Inr c' \<Longrightarrow> count_of c' k' \<le> count_of c k'"
  by (auto simp: decrement_opt_def count_of_decremented split: option.splits)

lemma within_budget_release:
  assumes "usage_release g l i u = (u', Inr ())" "within_budget b u"
  shows "within_budget b u'"
proof -
  have "us_total u' = us_total u - 1" "\<And>k. count_of (us_groups u') k \<le> count_of (us_groups u) k"
    "\<And>k. count_of (us_lanes u') k \<le> count_of (us_lanes u) k" "\<And>k. count_of (us_tenants u') k \<le> count_of (us_tenants u) k"
    "\<And>k. count_of (us_resources u') k \<le> count_of (us_resources u) k"
    using assms(1) by (auto simp: usage_release_def Let_def count_of_decremented count_of_decremented_opt split: sum.splits)
  with assms(2) show ?thesis unfolding within_budget_def by (smt (verit) order_trans)
qed

subsection \<open>Every operation keeps the invariant\<close>

lemma waiters_registered:
  assumes "authority_inv b policy a L" "map_of (au_waiters a) t = Some w"
  shows "registered (au_identities a) (wt_group w) (wt_lane w)" "wt_ticket w = t" "0 \<le> t" "0 \<le> wt_enqueued w"
  using assms map_of_SomeD [OF assms(2)] by (auto simp: authority_inv_def waiter_ok_def)

lemma inv_invalidate: "authority_inv b policy a L \<Longrightarrow> authority_inv b policy (invalidate_selection a) L"
  by (simp add: authority_inv_def cache_ok_invalid)

lemma inv_totals: "authority_inv b policy a L \<Longrightarrow> authority_inv b policy (a\<lparr>au_totals := t\<rparr>) L"
proof -
  assume inv: "authority_inv b policy a L"
  have "fresh_selection now (a\<lparr>au_totals := t\<rparr>) = fresh_selection now a" for now by (rule fresh_frame) simp_all
  with inv show ?thesis by (simp add: authority_inv_def cache_ok_def)
qed

lemma inv_close: "authority_inv b policy a L \<Longrightarrow> authority_inv b policy (close_authority a) L"
proof -
  assume inv: "authority_inv b policy a L"
  have "fresh_selection now (close_authority a) = fresh_selection now a" for now
    by (rule fresh_frame) (simp_all add: close_authority_def)
  with inv show ?thesis by (simp add: authority_inv_def cache_ok_def) (simp add: close_authority_def)
qed

lemma inv_drop_waiter: "authority_inv b policy a L \<Longrightarrow> authority_inv b policy (drop_waiter t a) L"
  by (auto simp: authority_inv_def drop_waiter_def distinct_map_filter
      intro: cache_ok_stale) (auto simp: cache_ok_def invalidate_selection_def)

lemma inv_selected:
  assumes "authority_inv b policy a L" "0 \<le> now" "selected_waiter now a = (a', s)"
  shows "authority_inv b policy a' L"
proof -
  have frame: "fresh_selection n (a\<lparr>au_cache := c\<rparr>) = fresh_selection n a" for n c by (rule fresh_frame) simp_all
  show ?thesis
  proof (cases "ca_version (au_cache a) = au_queue_version a \<and> ca_bucket (au_cache a) = poll_bucket now")
    case True
    then show ?thesis using assms by (simp add: selected_waiter_def)
  next
    case False
    show ?thesis
    proof (cases "fresh_selection now a")
      case (Inl e)
      then show ?thesis using assms False by (auto simp: selected_waiter_def)
    next
      case (Inr w)
      then have a': "a' = a\<lparr>au_cache := \<lparr>ca_version = au_queue_version a, ca_bucket = poll_bucket now,
          ca_ticket = map_option wt_ticket w\<rparr>\<rparr>" using assms(3) False by (auto simp: selected_waiter_def)
      have "cache_ok a'" unfolding cache_ok_def a' frame using Inr assms(2)
        by (intro conjI impI exI [of _ now] exI [of _ w]) simp_all
      then show ?thesis using assms(1) unfolding a' by (simp add: authority_inv_def)
    qed
  qed
qed

lemma inv_grant:
  assumes inv: "authority_inv b policy a L" and reg: "registered (au_identities a) g l"
    and run: "grant_lease g l waited a = (a', x)"
  shows "case x of Inl e \<Rightarrow> authority_inv b policy a' L \<and> can_admit a g l \<noteq> Inr True
    | Inr _ \<Rightarrow> authority_inv b policy a' (add_mset (g, l) L) \<and> can_admit a g l = Inr True"
proof (cases "can_admit a g l = Inr True")
  case True
  then obtain i where i: "map_of (au_identities a) g = Some i" by (metis can_admit_True)
  have b: "au_budget a = b" using inv by (simp add: authority_inv_def)
  have "usage_exact (au_identities a) (usage_grant g l i (au_usage a)) (add_mset (g, l) L)"
    "within_budget b (usage_grant g l i (au_usage a))"
    using usage_exact_grant [OF _ i] within_budget_grant [OF True _ i] inv b by (auto simp: authority_inv_def)
  moreover have "ca_version (au_cache a) \<le> au_queue_version a" using inv by (simp add: authority_inv_def cache_version)
  moreover from run have x: "x = Inr ()"
    and a': "au_budget a' = au_budget a \<and> au_policy a' = au_policy a \<and> au_usage a' = usage_grant g l i (au_usage a)
      \<and> au_identities a' = au_identities a \<and> au_intents a' = au_intents a \<and> au_waiters a' = au_waiters a
      \<and> au_next_ticket a' = au_next_ticket a \<and> au_queue_version a' = au_queue_version a + 1
      \<and> ca_version (au_cache a') = ca_version (au_cache a)"
    by (auto simp: grant_lease_def True identity_of_def i Let_def invalidate_selection_def)
  ultimately show ?thesis using inv reg True
    by (simp add: authority_inv_def cache_ok_stale)
next
  case False
  with can_admit_registered [OF reg] have "can_admit a g l = Inr False" by (metis (full_types))
  with run inv show ?thesis by (auto simp: grant_lease_def)
qed

lemma inv_release:
  assumes inv: "authority_inv b policy a (add_mset (g, l) L)"
  obtains a' where "authority_release g l a = (a', Inr ())" "authority_inv b policy a' L"
proof -
  obtain i where i: "map_of (au_identities a) g = Some i" using inv by (auto simp: authority_inv_def registered_def)
  obtain u' where u': "usage_release g l i (au_usage a) = (u', Inr ())" "usage_exact (au_identities a) u' L"
    using usage_exact_release [OF _ i] inv unfolding authority_inv_def by blast
  let ?a = "invalidate_selection (a\<lparr>au_usage := u'\<rparr>)"
  have "0 < us_total (au_usage a)" using inv by (simp add: authority_inv_def usage_exact_def)
  then have "authority_release g l a = (?a, Inr ())"
    by (simp add: authority_release_def identity_of_def i u'(1))
  moreover have "authority_inv b policy ?a L"
  proof -
    have "within_budget b u'" using within_budget_release [OF u'(1)] inv by (simp add: authority_inv_def)
    moreover have "cache_ok ?a"
      using inv by (intro cache_ok_stale stale_invalidated) (simp add: authority_inv_def cache_version)
    ultimately show ?thesis using inv u'(2) by (simp add: authority_inv_def)
  qed
  ultimately show ?thesis using that by blast
qed

lemma py_strip_idem: "py_strip (py_strip s) = py_strip s"
proof -
  let ?t = "dropWhile py_isspace (rev (dropWhile py_isspace s))"
  have "dropWhile py_isspace (rev ?t) = rev ?t"
  proof (cases "rev ?t")
    case (Cons c cs)
    have "\<not> py_isspace c"
    proof
      assume c: "py_isspace c"
      have "dropWhile py_isspace s = rev ?t @ rev (takeWhile py_isspace (rev (dropWhile py_isspace s)))"
        by (metis rev_append rev_rev_ident takeWhile_dropWhile_id)
      then have "dropWhile py_isspace s = c # cs @ rev (takeWhile py_isspace (rev (dropWhile py_isspace s)))"
        using Cons by simp
      then show False using c hd_dropWhile [of py_isspace s] by (metis list.distinct(1) list.sel(1))
    qed
    with Cons show ?thesis by simp
  next
    case Nil
    then show ?thesis by (simp only: dropWhile.simps)
  qed
  then show ?thesis unfolding py_strip_def
    by (simp only: rev_rev_ident dropWhile_idem)
qed

fun add_outcome :: "acquire_outcome \<Rightarrow> (string \<times> lane) multiset \<Rightarrow> (string \<times> lane) multiset" where
  "add_outcome (Acquire_granted g l) L = add_mset (g, l) L"
| "add_outcome _ L = L"

lemma drop_waiter_identities [simp]: "au_identities (drop_waiter t a) = au_identities a"
  by (simp add: drop_waiter_def)

lemma selected_fields:
  "selected_waiter now a = (a', s) \<Longrightarrow> au_identities a' = au_identities a \<and> au_waiters a' = au_waiters a
     \<and> au_usage a' = au_usage a \<and> au_budget a' = au_budget a"
  by (auto simp: selected_waiter_def split: if_splits sum.splits)

lemma inv_turn:
  assumes inv: "authority_inv b policy a L" and w: "registered (au_identities a) (wt_group w) (wt_lane w)"
    and x: "valid_inputs x" and run: "acquire_turn w x a = (a', out)"
  shows "authority_inv b policy a' (add_outcome out L)"
proof -
  let ?leave = "\<lambda>a. if map_of (au_waiters a) (wt_ticket w) = None then a else drop_waiter (wt_ticket w) a"
  have leave: "authority_inv b policy (?leave a) L" if "authority_inv b policy a L" for a
    using that by (simp add: inv_drop_waiter)
  show ?thesis
  proof (cases "au_closed a \<or> ti_cancelled x \<noteq> None \<or> ti_expired x")
    case True
    with run inv show ?thesis
      by (auto simp: acquire_turn_def Let_def inv_totals inv_drop_waiter split: if_splits)
  next
    case False
    obtain a1 s where s: "selected_waiter (ti_select_now x) a = (a1, s)" by fastforce
    have 1: "authority_inv b policy a1 L" using inv_selected [OF inv _ s] x by (simp add: valid_inputs_def)
    show ?thesis
    proof (cases "s = Inr (Some w)")
      case True
      obtain a2 y where y: "grant_lease (wt_group w) (wt_lane w) (max 0 (ti_grant_now x - wt_enqueued w))
          (drop_waiter (wt_ticket w) a1) = (a2, y)" by fastforce
      have "registered (au_identities (drop_waiter (wt_ticket w) a1)) (wt_group w) (wt_lane w)"
        using w selected_fields [OF s] by simp
      from inv_grant [OF inv_drop_waiter [OF 1] this y] show ?thesis
        using run False s True y by (cases y) (auto simp: acquire_turn_def)
    next
      case other: False
      show ?thesis
      proof (cases s)
        case (Inl e)
        have "a' = ?leave a1 \<and> out = Acquire_failed e" using run False s Inl by (simp add: acquire_turn_def Let_def)
        with leave [OF 1] show ?thesis by simp
      next
        case (Inr v)
        then have "a' = a1 \<and> out = Acquire_waiting (wt_ticket w)"
          using run False s other by (simp add: acquire_turn_def Let_def)
        with 1 show ?thesis by simp
      qed
    qed
  qed
qed

lemma inv_enqueue:
  assumes inv: "authority_inv b policy a L" and reg: "registered (au_identities a) g l" and "0 \<le> enqueued"
  shows "authority_inv b policy (invalidate_selection (a\<lparr>au_next_ticket := au_next_ticket a + 1,
    au_waiters := dict_set (au_next_ticket a) \<lparr>wt_ticket = au_next_ticket a, wt_group = g, wt_lane = l,
      wt_intent = intent, wt_enqueued = enqueued\<rparr> (au_waiters a)\<rparr>)) L"
proof -
  let ?w = "\<lparr>wt_ticket = au_next_ticket a, wt_group = g, wt_lane = l, wt_intent = intent, wt_enqueued = enqueued\<rparr>"
  have d: "distinct (map fst (au_waiters a))" and n: "0 \<le> au_next_ticket a"
    using inv by (simp_all add: authority_inv_def)
  have "waiter_ok (au_identities a) (au_next_ticket a + 1) t w"
    if "(t, w) \<in> set (dict_set (au_next_ticket a) ?w (au_waiters a))" for t w
    using that inv reg n assms(3) by (auto simp: set_dict_set [OF d] waiter_ok_def authority_inv_def)
  then have "\<forall>(t, w) \<in> set (dict_set (au_next_ticket a) ?w (au_waiters a)).
      waiter_ok (au_identities a) (au_next_ticket a + 1) t w" by auto
  moreover have "cache_ok (invalidate_selection (a\<lparr>au_next_ticket := au_next_ticket a + 1,
      au_waiters := dict_set (au_next_ticket a) ?w (au_waiters a)\<rparr>))"
    using inv by (intro cache_ok_stale stale_invalidated) (simp add: authority_inv_def cache_version)
  ultimately show ?thesis using inv by (simp add: authority_inv_def distinct_dict_set)
qed

lemma acquire_begin_ready:
  assumes key: "group_key g = Inr k" and i: "identity_of a k = Inr i" and intent: "map_of (au_intents a) k = Some intent"
    and ready: "l \<noteq> Lane_timer" "\<not> au_closed a" "ti_cancelled x = None" "\<not> ti_expired x"
    and ok: "can_admit a k l = Inr ok" and s: "selected_waiter (ti_select_now x) a = (a1, s)"
    and z: "grant_lease k l 0 a1 = (a2, z)"
  shows "acquire_begin g l x enqueued y a =
    (let reject = (\<lambda>a. (a\<lparr>au_totals := (au_totals a)\<lparr>to_rejected := to_rejected (au_totals a) + 1\<rparr>\<rparr>,
        Acquire_failed (''AdmissionRejected'', ''execution admission rejected group='' @ k @ '' lane='' @ lane_value l)));
       w = \<lparr>wt_ticket = au_next_ticket a, wt_group = k, wt_lane = l, wt_intent = intent, wt_enqueued = enqueued\<rparr>;
       q = invalidate_selection (a\<lparr>au_next_ticket := au_next_ticket a + 1,
             au_waiters := dict_set (au_next_ticket a) w (au_waiters a)\<rparr>)
     in if ai_mode intent = Mode_reject
        then if ok then case s of
             Inl e \<Rightarrow> (a1, Acquire_failed e)
           | Inr (Some _) \<Rightarrow> reject a1
           | Inr None \<Rightarrow> (case z of Inl e \<Rightarrow> (a2, Acquire_failed e) | Inr _ \<Rightarrow> (a2, Acquire_granted k l))
         else reject a
        else acquire_turn w y (q\<lparr>au_totals := (au_totals q)\<lparr>to_queued := to_queued (au_totals q) + 1\<rparr>\<rparr>))"
  unfolding acquire_begin_def key i intent sum.case option.case ok s z prod.case Let_def if_not_P [OF ready(1)]
    if_not_P [OF ready(2)] ready(3) if_not_P [OF ready(4)]
  by (cases ok) (simp_all split: sum.split option.split)

lemma acquire_begin_refused:
  assumes "group_key g = Inl e \<or> l = Lane_timer \<or> (\<exists>k. group_key g = Inr k \<and> (map_of (au_identities a) k = None
      \<or> map_of (au_intents a) k = None)) \<or> au_closed a \<or> ti_cancelled x \<noteq> None \<or> ti_expired x"
  shows "\<exists>t e. acquire_begin g l x enqueued y a = (a\<lparr>au_totals := t\<rparr>, Acquire_failed e)"
proof -
  have same: "\<exists>t. a = a\<lparr>au_totals := t\<rparr>" by (rule exI [of _ "au_totals a"]) simp
  have changed: "\<exists>t. a\<lparr>au_totals := u\<rparr> = a\<lparr>au_totals := t\<rparr>" for u by blast
  show ?thesis
  proof (cases "group_key g")
    case (Inr k)
    show ?thesis
    proof (cases "identity_of a k")
      case i: (Inr i)
      then have "map_of (au_identities a) k \<noteq> None" by (auto simp: identity_of_def split: option.splits)
      with assms Inr have "l = Lane_timer \<or> map_of (au_intents a) k = None \<or> au_closed a
          \<or> ti_cancelled x \<noteq> None \<or> ti_expired x" by simp
      then consider (timer) "l = Lane_timer" | (closed) "l \<noteq> Lane_timer" "au_closed a"
        | (cancelled) "l \<noteq> Lane_timer" "\<not> au_closed a" "ti_cancelled x \<noteq> None"
        | (expired) "l \<noteq> Lane_timer" "\<not> au_closed a" "ti_cancelled x = None" "ti_expired x"
        | (unknown) "l \<noteq> Lane_timer" "\<not> au_closed a" "ti_cancelled x = None" "\<not> ti_expired x"
            "map_of (au_intents a) k = None"
        by (cases "l = Lane_timer"; cases "au_closed a"; cases "ti_cancelled x = None"; cases "ti_expired x") simp_all
      then show ?thesis
        by cases (simp_all add: acquire_begin_def Inr i same, (rule changed)+)
    qed (simp add: acquire_begin_def Inr same)
  qed (simp add: acquire_begin_def same)
qed

lemma inv_begin:
  assumes inv: "authority_inv b policy a L" and x: "valid_inputs x" "0 \<le> enqueued" "valid_inputs y"
    and run: "acquire_begin g l x enqueued y a = (a', out)"
  shows "authority_inv b policy a' (add_outcome out L)"
proof (cases "group_key g")
  case (Inl e)
  then have "acquire_begin g l x enqueued y a = (a, Acquire_failed e)" by (simp add: acquire_begin_def)
  with run have "a' = a" "out = Acquire_failed e" by simp_all
  with inv show ?thesis by simp
next
  case key: (Inr k)
  show ?thesis
  proof (cases "l = Lane_timer \<or> map_of (au_identities a) k = None \<or> map_of (au_intents a) k = None
      \<or> au_closed a \<or> ti_cancelled x \<noteq> None \<or> ti_expired x")
    case True
    with key have "\<exists>t e. acquire_begin g l x enqueued y a = (a\<lparr>au_totals := t\<rparr>, Acquire_failed e)"
      by (intro acquire_begin_refused) blast
    with run inv_totals [OF inv] show ?thesis by auto
  next
    case False
    then obtain intent where intent: "map_of (au_intents a) k = Some intent" by auto
    have reg: "registered (au_identities a) k l" using False by (simp add: registered_def)
    obtain i where i: "identity_of a k = Inr i" using False by (auto simp: identity_of_def)
    obtain ok where ok: "can_admit a k l = Inr ok" using can_admit_registered [OF reg] .
    obtain a1 s where s: "selected_waiter (ti_select_now x) a = (a1, s)" by fastforce
    obtain a2 z where z: "grant_lease k l 0 a1 = (a2, z)" by fastforce
    have ready: "l \<noteq> Lane_timer" "\<not> au_closed a" "ti_cancelled x = None" "\<not> ti_expired x"
      using False by simp_all
    note run' = run [unfolded acquire_begin_ready [OF key i intent ready ok s z] Let_def]
    show ?thesis
    proof (cases "ai_mode intent = Mode_reject")
      case True
      have 1: "authority_inv b policy a1 L" using inv_selected [OF inv _ s] x by (simp add: valid_inputs_def)
      have "registered (au_identities a1) k l" using reg selected_fields [OF s] by simp
      note granted = inv_grant [OF 1 this z]
      consider (full) "\<not> ok" | (failed) e where "ok" "s = Inl e" | (other) w where "ok" "s = Inr (Some w)"
        | (free) "ok" "s = Inr None"
        by (cases ok; cases s) auto
      then show ?thesis
      proof cases
        case full then show ?thesis using run' True inv_totals [OF inv] by auto
      next
        case failed then show ?thesis using run' True 1 by auto
      next
        case other then show ?thesis using run' True inv_totals [OF 1] by auto
      next
        case free then show ?thesis using run' True granted by (cases z) auto
      qed
    next
      case queued: False
      let ?w = "\<lparr>wt_ticket = au_next_ticket a, wt_group = k, wt_lane = l, wt_intent = intent, wt_enqueued = enqueued\<rparr>"
      let ?a = "invalidate_selection (a\<lparr>au_next_ticket := au_next_ticket a + 1,
        au_waiters := dict_set (au_next_ticket a) ?w (au_waiters a)\<rparr>)"
      let ?b = "?a\<lparr>au_totals := (au_totals ?a)\<lparr>to_queued := to_queued (au_totals ?a) + 1\<rparr>\<rparr>"
      have "authority_inv b policy ?b L" by (rule inv_totals) (rule inv_enqueue [OF inv reg x(2)])
      moreover have "registered (au_identities ?b) (wt_group ?w) (wt_lane ?w)" using reg by simp
      moreover have "acquire_turn ?w y ?b = (a', out)" using run' queued by simp
      ultimately show ?thesis using inv_turn x(3) by blast
    qed
  qed
qed

lemma inv_register:
  assumes inv: "authority_inv b policy a L" and run: "register_group g ident intent a = (a', x)"
  shows "authority_inv b policy a' L"
proof (cases "py_strip g = [] \<or> au_closed a \<or> map_of (au_identities a) (py_strip g) \<noteq> None")
  case True
  with run have "a' = a" by (auto simp: register_group_def group_key_def split: if_splits)
  with inv show ?thesis by simp
next
  case False
  let ?ids = "dict_set (py_strip g) ident (au_identities a)"
  have a': "a' = a\<lparr>au_identities := ?ids, au_intents := dict_set (py_strip g) intent (au_intents a)\<rparr>"
    using run False by (auto simp: register_group_def group_key_def)
  have old: "map_of ?ids h = map_of (au_identities a) h" if "map_of (au_identities a) h \<noteq> None" for h
    using that False by (auto simp: map_of_dict_set)
  have reg: "registered ?ids h l" if "registered (au_identities a) h l" for h l
    using that old by (simp add: registered_def)
  have L: "\<forall>(h, l) \<in># L. registered (au_identities a) h l" using inv by (simp add: authority_inv_def)
  have "map_of ?ids (fst p) = map_of (au_identities a) (fst p)" if "p \<in># L" for p
    using that L old by (auto simp: registered_def)
  then have "somes (tenant_in ?ids) L = somes (tenant_in (au_identities a)) L"
    "somes (resource_in ?ids) L = somes (resource_in (au_identities a)) L"
    by (auto intro!: somes_cong simp: tenant_in_def resource_in_def)
  then have "usage_exact ?ids (au_usage a) L" using inv by (simp add: authority_inv_def usage_exact_def)
  moreover have "fresh_selection now a' = fresh_selection now a" for now
    by (rule fresh_frame) (use inv old in \<open>auto simp: a' authority_inv_def waiter_ok_def registered_def\<close>)
  then have "cache_ok a'" using inv by (simp add: authority_inv_def cache_ok_def a')
  moreover have "groups_ok ?ids (dict_set (py_strip g) intent (au_intents a))"
    using inv False by (auto simp: authority_inv_def groups_ok_def map_of_dict_set py_strip_idem)
  ultimately show ?thesis using inv reg unfolding a'
    by (auto simp: authority_inv_def waiter_ok_def)
qed

lemma active_with_outcome:
  "active_leases (with_outcome w (a, out)) = add_outcome out (active_leases w)"
  "aw_authority (with_outcome w (a, out)) = a"
  by (cases out; simp add: active_leases_def with_outcome_def)+

definition lease_pairs :: "lease list \<Rightarrow> (string \<times> lane) multiset" where
  "lease_pairs ls = image_mset (\<lambda>le. (le_group le, le_lane le)) (filter_mset (\<lambda>le. \<not> le_released le) (mset ls))"

lemma active_lease_pairs: "active_leases w = lease_pairs (aw_leases w)"
  by (simp add: active_leases_def lease_pairs_def)

lemma lease_pairs_released:
  assumes "n < length ls" "\<not> le_released (ls ! n)"
  shows "lease_pairs ls
    = add_mset (le_group (ls ! n), le_lane (ls ! n)) (lease_pairs (ls[n := (ls ! n)\<lparr>le_released := True\<rparr>]))"
proof -
  have "lease_pairs ls = lease_pairs (take n ls @ ls ! n # drop (Suc n) ls)"
    using id_take_nth_drop [OF assms(1)] by simp
  with assms show ?thesis by (simp add: upd_conv_take_nth_drop lease_pairs_def)
qed

lemma reachable_inv:
  assumes "reachable_world b policy w" "valid_budget b"
  shows "authority_inv b policy (aw_authority w) (active_leases w)"
  using assms(1)
proof (induction rule: reachable_world.induct)
  case world_start
  show ?case using inv_start [OF assms(2)] by (simp add: active_leases_def)
next
  case (world_step w e)
  note inv = world_step.IH
  show ?case
  proof (cases e)
    case (Ev_register g ident intent)
    obtain a' x where "register_group g ident intent (aw_authority w) = (a', x)" by fastforce
    with inv_register [OF inv this] Ev_register show ?thesis by (simp add: active_leases_def)
  next
    case (Ev_acquire g l x enqueued y)
    obtain a' out where run: "acquire_begin g l x enqueued y (aw_authority w) = (a', out)" by fastforce
    with inv_begin [OF inv _ _ _ run] Ev_acquire world_step.hyps(2) show ?thesis by (simp add: active_with_outcome)
  next
    case (Ev_turn t x)
    show ?thesis
    proof (cases "map_of (au_waiters (aw_authority w)) t")
      case (Some wt)
      obtain a' out where run: "acquire_turn wt x (aw_authority w) = (a', out)" by fastforce
      with inv_turn [OF inv waiters_registered(1) [OF inv Some] _ run] Ev_turn world_step.hyps(2) Some
      show ?thesis by (simp add: active_with_outcome)
    qed (use inv Ev_turn in simp)
  next
    case (Ev_release n)
    show ?thesis
    proof (cases "n < length (aw_leases w) \<and> \<not> le_released (aw_leases w ! n)")
      case True
      let ?le = "aw_leases w ! n"
      have "authority_inv b policy (aw_authority w) (add_mset (le_group ?le, le_lane ?le)
          (lease_pairs ((aw_leases w)[n := ?le\<lparr>le_released := True\<rparr>])))"
        using inv lease_pairs_released [of n "aw_leases w"] True by (simp add: active_lease_pairs)
      then obtain a' where "authority_release (le_group ?le) (le_lane ?le) (aw_authority w) = (a', Inr ())"
        "authority_inv b policy a' (lease_pairs ((aw_leases w)[n := ?le\<lparr>le_released := True\<rparr>]))"
        by (rule inv_release)
      with Ev_release True show ?thesis by (simp add: release_lease_def active_lease_pairs)
    next
      case False
      with inv Ev_release show ?thesis
        by (cases "n < length (aw_leases w)") (simp_all add: release_lease_def active_leases_def)
    qed
  next
    case Ev_close
    with inv_close [OF inv] show ?thesis by (simp add: active_leases_def)
  qed
qed

subsection \<open>Grant numbers\<close>

text \<open>What the fair policy asks of the numbers it is given.\<close>

definition grants_ok :: "authority \<Rightarrow> bool" where
  "grants_ok a \<longleftrightarrow> grants_numbered (au_last_grant a) \<and> 0 \<le> au_grant_sequence a
     \<and> list_all (\<lambda>(g, n). n \<le> au_grant_sequence a) (au_last_grant a)"

lemma snd_dict_set: "set (map snd (dict_set k v d)) \<subseteq> insert v (set (map snd d))"
  by (induction k v d rule: dict_set.induct) auto

lemma distinct_snd_dict_set:
  "distinct (map snd d) \<Longrightarrow> v \<notin> set (map snd d) \<Longrightarrow> distinct (map snd (dict_set k v d))"
proof (induction k v d rule: dict_set.induct)
  case (2 k v k' v' kvs)
  then show ?case using snd_dict_set [of k v kvs] by (auto simp del: set_map)
qed simp

lemma grants_next:
  assumes "grants_ok a" "au_last_grant a' = dict_set g (au_grant_sequence a + 1) (au_last_grant a)"
    "au_grant_sequence a' = au_grant_sequence a + 1"
  shows "grants_ok a'"
proof -
  let ?n = "au_grant_sequence a + 1" and ?lg = "au_last_grant a"
  have old: "\<forall>n \<in> set (map snd ?lg). 0 \<le> n \<and> n < ?n" and seq: "0 \<le> au_grant_sequence a"
    using assms(1) by (auto simp: grants_ok_def grants_numbered_def list_all_iff)
  then have "?n \<notin> set (map snd ?lg)" by blast
  then have "distinct (map fst (dict_set g ?n ?lg))" "distinct (map snd (dict_set g ?n ?lg))"
    using assms(1) by (simp_all add: grants_ok_def grants_numbered_def distinct_dict_set distinct_snd_dict_set)
  moreover have "\<forall>n \<in> set (map snd (dict_set g ?n ?lg)). 0 \<le> n \<and> n \<le> ?n"
    using old seq snd_dict_set [of g ?n ?lg] by fastforce
  ultimately show ?thesis
    using seq by (auto simp: grants_ok_def grants_numbered_def list_all_iff assms(2,3))
qed

lemma grants_frame:
  "au_last_grant a' = au_last_grant a \<Longrightarrow> au_grant_sequence a' = au_grant_sequence a \<Longrightarrow> grants_ok a' = grants_ok a"
  by (simp add: grants_ok_def)

lemma grants_invalidate [simp]: "grants_ok (invalidate_selection a) = grants_ok a"
  "grants_ok (drop_waiter t a) = grants_ok a" "grants_ok (a\<lparr>au_totals := u\<rparr>) = grants_ok a"
  by (rule grants_frame; simp add: drop_waiter_def invalidate_selection_def)+

lemma grants_selected: "selected_waiter now a = (a', s) \<Longrightarrow> grants_ok a \<Longrightarrow> grants_ok a'"
  by (auto simp: selected_waiter_def grants_ok_def split: if_splits sum.splits)

lemma grants_granted: "grant_lease g l waited a = (a', x) \<Longrightarrow> grants_ok a \<Longrightarrow> grants_ok a'"
  and grants_granted_left: "grant_lease g l waited (drop_waiter t a) = (a', x) \<Longrightarrow> grants_ok a \<Longrightarrow> grants_ok a'"
proof -
  show granted: "grants_ok a'" if "grant_lease g l waited a = (a', x)" "grants_ok a" for a
    using that by (auto simp: grant_lease_def Let_def invalidate_selection_def intro: grants_next
        split: sum.splits bool.splits)
  show "grants_ok a'" if "grant_lease g l waited (drop_waiter t a) = (a', x)" "grants_ok a"
    using granted [OF that(1)] that(2) by simp
qed

lemma grants_turn: "acquire_turn w x a = (a', out) \<Longrightarrow> grants_ok a \<Longrightarrow> grants_ok a'"
  by (auto simp: acquire_turn_def Let_def split: if_splits sum.splits prod.splits
      dest: grants_selected grants_granted_left)

lemma grants_begin:
  assumes "acquire_begin g l x enqueued y a = (a', out)" "grants_ok a"
  shows "grants_ok a'"
proof -
  have queued: "grants_ok b" if "acquire_turn w y (invalidate_selection (a\<lparr>au_next_ticket := n, au_waiters := ws\<rparr>)
      \<lparr>au_totals := u\<rparr>) = (b, out)" for w n ws u b out
    by (rule grants_turn [OF that]) (use assms(2) in \<open>simp add: grants_ok_def invalidate_selection_def\<close>)
  show ?thesis
    using assms unfolding acquire_begin_def
    by (auto simp: Let_def split: if_splits sum.splits prod.splits option.splits bool.splits
        dest: grants_selected grants_granted queued)
qed

lemma reachable_grants: "reachable_world b policy w \<Longrightarrow> grants_ok (aw_authority w)"
proof (induction rule: reachable_world.induct)
  case world_start
  show ?case by (simp add: grants_ok_def grants_numbered_def new_authority_def)
next
  case (world_step w e)
  show ?case
  proof (cases e)
    case (Ev_register g ident intent)
    have "grants_ok (fst (register_group g ident intent (aw_authority w))) = grants_ok (aw_authority w)"
      by (rule grants_frame) (auto simp: register_group_def split: sum.splits if_splits)
    with world_step.IH Ev_register show ?thesis by simp
  next
    case (Ev_acquire g l x enqueued y)
    obtain a' out where "acquire_begin g l x enqueued y (aw_authority w) = (a', out)" by fastforce
    with grants_begin [OF this world_step.IH] Ev_acquire show ?thesis by (simp add: active_with_outcome)
  next
    case (Ev_turn t x)
    show ?thesis
    proof (cases "map_of (au_waiters (aw_authority w)) t")
      case (Some wt)
      obtain a' out where "acquire_turn wt x (aw_authority w) = (a', out)" by fastforce
      with grants_turn [OF this world_step.IH] Ev_turn Some show ?thesis by (simp add: active_with_outcome)
    qed (use world_step.IH Ev_turn in simp)
  next
    case (Ev_release n)
    have "grants_ok (fst (authority_release g l a)) = grants_ok a" for g l a
      by (rule grants_frame)
        (auto simp: authority_release_def invalidate_selection_def split: sum.splits prod.splits)
    with world_step.IH Ev_release show ?thesis
      by (auto simp: release_lease_def Let_def split: prod.splits) (metis fst_conv)
  next
    case Ev_close
    with world_step.IH show ?thesis by (simp add: close_authority_def grants_ok_def)
  qed
qed

subsection \<open>Selection\<close>

lemma fresh_selection_ticket:
  assumes "authority_inv b policy a L" "fresh_selection now a = Inr (Some w)"
  shows "map_of (au_waiters a) (wt_ticket w) = Some w"
  using assms waiters_registered(2) [OF assms(1)]
  by (auto simp: fresh_selection_def bind_result_Inr_iff split: if_splits option.splits)

lemma selected_is_fresh:
  assumes inv: "authority_inv b policy a L" and now: "0 \<le> now" and run: "selected_waiter now a = (a', Inr s)"
  shows "\<exists>now'. 0 \<le> now' \<and> poll_bucket now' = poll_bucket now \<and> fresh_selection now' a = Inr s"
proof (cases "ca_version (au_cache a) = au_queue_version a \<and> ca_bucket (au_cache a) = poll_bucket now")
  case True
  with inv obtain t w where w: "0 \<le> t" "poll_bucket t = poll_bucket now" "fresh_selection t a = Inr w"
    "ca_ticket (au_cache a) = map_option wt_ticket w" by (auto simp: authority_inv_def cache_ok_def)
  have "s = w" using run True w(3,4) fresh_selection_ticket [OF inv]
    by (cases w) (auto simp: selected_waiter_def)
  with w show ?thesis by blast
next
  case False
  with run now show ?thesis by (intro exI [of _ now]) (auto simp: selected_waiter_def split: sum.splits)
qed

lemma admissible_waiters_filter:
  assumes "\<And>t w. (t, w) \<in> set ws \<Longrightarrow> registered (au_identities a) (wt_group w) (wt_lane w)"
  shows "admissible_waiters a ws = Inr (map snd (filter (\<lambda>(t, w). can_admit a (wt_group w) (wt_lane w) = Inr True) ws))"
  using assms
proof (induction ws)
  case (Cons tw ws)
  obtain t w where tw: "tw = (t, w)" by fastforce
  have "registered (au_identities a) (wt_group w) (wt_lane w)" by (rule Cons.prems [of t w]) (simp add: tw)
  then obtain ok where "can_admit a (wt_group w) (wt_lane w) = Inr ok" by (rule can_admit_registered)
  moreover have "admissible_waiters a ws = Inr (map snd (filter (\<lambda>(t, w). can_admit a (wt_group w) (wt_lane w) = Inr True) ws))"
    by (rule Cons.IH) (metis Cons.prems list.set_intros(2))
  ultimately show ?case by (simp add: tw)
qed simp

lemma selected_Inr:
  assumes "fresh_selection now a = Inr v" "selected_waiter now a = (a1, s)"
  shows "\<exists>u. s = Inr u"
  using assms(2)
  by (cases "ca_version (au_cache a) = au_queue_version a \<and> ca_bucket (au_cache a) = poll_bucket now")
    (auto simp add: selected_waiter_def assms(1))

context lawful_policy
begin

lemma fresh_selection_total:
  assumes inv: "authority_inv b select a L" and now: "0 \<le> now"
  obtains s where "fresh_selection now a = Inr s"
    "s = None \<longrightarrow> (\<forall>(t, w) \<in> set (au_waiters a). can_admit a (wt_group w) (wt_lane w) = Inr False)"
    "\<forall>w. s = Some w \<longrightarrow> can_admit a (wt_group w) (wt_lane w) = Inr True"
proof -
  let ?can = "\<lambda>w. can_admit a (wt_group w) (wt_lane w)"
  have ok: "waiter_ok (au_identities a) (au_next_ticket a) t w" if "(t, w) \<in> set (au_waiters a)" for t w
    using inv that by (auto simp: authority_inv_def)
  have reg: "registered (au_identities a) (wt_group w) (wt_lane w)" if "(t, w) \<in> set (au_waiters a)" for t w
    using ok [OF that] by (simp add: waiter_ok_def)
  have decided: "?can w = Inr True \<or> ?can w = Inr False" if "(t, w) \<in> set (au_waiters a)" for t w
    using can_admit_registered [OF reg [OF that]] by (metis (full_types))
  let ?cs = "map snd (filter (\<lambda>(t, w). ?can w = Inr True) (au_waiters a))"
  have cs: "admissible_waiters a (au_waiters a) = Inr ?cs" by (rule admissible_waiters_filter) (rule reg)
  show ?thesis
  proof (cases "bu_total (au_budget a) \<le> us_total (au_usage a)")
    case True
    then have "?can w \<noteq> Inr True" for w by (metis can_admit_True not_le)
    with True decided show ?thesis by (intro that [of None]) (auto simp: fresh_selection_def)
  next
    case room: False
    show ?thesis
    proof (cases "?cs = []")
      case True
      then have "fresh_selection now a = Inr None" using room unfolding fresh_selection_def cs by (simp only: bind_result_simps if_False simp_thms if_True)
      moreover have "\<forall>(t, w) \<in> set (au_waiters a). ?can w = Inr False"
        using True decided by (auto simp: filter_empty_conv)
      ultimately show ?thesis by (intro that [of None]) auto
    next
      case False
      define row where "row w = \<lparr>sc_ticket = wt_ticket w, sc_group = wt_group w, sc_priority = ai_priority (wt_intent w),
        sc_enqueued = wt_enqueued w\<rparr>" for w :: waiter
      have "candidate_row w = Inr (row w)" if in_cs: "w \<in> set ?cs" for w
      proof -
        obtain t where t: "(t, w) \<in> set (au_waiters a)" using in_cs by force
        have "py_strip (wt_group w) = wt_group w \<and> wt_group w \<noteq> []"
          using inv reg [OF t] by (simp add: authority_inv_def groups_ok_def registered_def)
        with ok [OF t] show ?thesis by (simp add: candidate_row_def make_candidate_def waiter_ok_def row_def)
      qed
      then have rows: "map_result candidate_row ?cs = Inr (map row ?cs)"
        using map_result_map [of ?cs candidate_row id row] by simp
      obtain c where c: "c \<in> set (map row ?cs)" "select (map row ?cs) (au_last_grant a) now = Inr (sc_ticket c)"
      proof -
        have "map row ?cs \<noteq> []" using False by (simp only: map_is_Nil_conv not_False_eq_True)
        from picks [OF this now, where last_grant = "au_last_grant a"] show ?thesis by (rule bexE) (rule that)
      qed
      then obtain w t where w: "(t, w) \<in> set (au_waiters a)" "?can w = Inr True" "sc_ticket c = wt_ticket w"
        by (auto simp: row_def)
      have "wt_ticket w = t" using ok [OF w(1)] by (simp add: waiter_ok_def)
      then have "map_of (au_waiters a) (sc_ticket c) = Some w" using w inv by (simp add: authority_inv_def)
      moreover have "au_policy a = select" using inv by (simp add: authority_inv_def)
      ultimately have "fresh_selection now a = Inr (Some w)"
        using room False c(2) rows by (simp add: fresh_selection_def cs del: map_map)
      with w show ?thesis by (intro that [of "Some w"]) auto
    qed
  qed
qed

end

context lawful_policy
begin

text \<open>A turn fails only for a reason of the caller, and capacity that a waiter can use is granted.\<close>

lemma turn_fails_only_outside:
  assumes inv: "authority_inv b select a L" and w: "registered (au_identities a) (wt_group w) (wt_lane w)"
    and x: "valid_inputs x" and run: "acquire_turn w x a = (a', Acquire_failed e)"
  shows "au_closed a \<or> ti_cancelled x \<noteq> None \<or> ti_expired x"
proof (rule ccontr)
  assume no: "\<not> (au_closed a \<or> ti_cancelled x \<noteq> None \<or> ti_expired x)"
  obtain a1 s where s: "selected_waiter (ti_select_now x) a = (a1, s)" by fastforce
  have now: "0 \<le> ti_select_now x" using x by (simp add: valid_inputs_def)
  obtain v where "fresh_selection (ti_select_now x) a = Inr v" by (rule fresh_selection_total [OF inv now])
  from selected_Inr [OF this s] have "\<exists>v. s = Inr v" .
  then obtain v where v: "s = Inr v" ..
  have vw: "v = Some w"
  proof (rule ccontr)
    assume "v \<noteq> Some w"
    then have "acquire_turn w x a = (a1, Acquire_waiting (wt_ticket w))"
      using no by (simp add: acquire_turn_def s v)
    with run show False by simp
  qed
  note inv1 = inv_selected [OF inv now s]
  have "can_admit a (wt_group w) (wt_lane w) = Inr True"
  proof -
    obtain n where "0 \<le> n" "fresh_selection n a = Inr (Some w)"
      using selected_is_fresh [OF inv now, of a1 v] s v vw by blast
    moreover obtain s' where "fresh_selection n a = Inr s'"
      "\<forall>w. s' = Some w \<longrightarrow> can_admit a (wt_group w) (wt_lane w) = Inr True"
      by (rule fresh_selection_total [OF inv \<open>0 \<le> n\<close>])
    ultimately show ?thesis by simp
  qed
  then have can: "can_admit (drop_waiter (wt_ticket w) a1) (wt_group w) (wt_lane w) = Inr True"
    using selected_fields [OF s] can_admit_frame [of "drop_waiter (wt_ticket w) a1" a] by (simp add: drop_waiter_def)
  obtain a2 y where y: "grant_lease (wt_group w) (wt_lane w) (max 0 (ti_grant_now x - wt_enqueued w))
      (drop_waiter (wt_ticket w) a1) = (a2, y)" by fastforce
  have "registered (au_identities (drop_waiter (wt_ticket w) a1)) (wt_group w) (wt_lane w)"
    using w selected_fields [OF s] by simp
  from inv_grant [OF inv_drop_waiter [OF inv1] this y] can have "\<exists>u. y = Inr u" by (cases y) auto
  then obtain u where u: "y = Inr u" ..
  have "acquire_turn w x a = (a2, Acquire_granted (wt_group w) (wt_lane w))"
    using no y by (simp add: acquire_turn_def s v vw u)
  with run show False by simp
qed

lemma admissible_is_granted:
  assumes inv: "authority_inv b select a L" and now: "0 \<le> now"
    and some: "(t, v) \<in> set (au_waiters a)" "can_admit a (wt_group v) (wt_lane v) = Inr True"
  obtains w a1 where "map_of (au_waiters a) (wt_ticket w) = Some w" "selected_waiter now a = (a1, Inr (Some w))"
proof -
  obtain s where s: "fresh_selection now a = Inr s" by (rule fresh_selection_total [OF inv now])
  obtain a1 z where z: "selected_waiter now a = (a1, z)" by fastforce
  from selected_Inr [OF s z] have "\<exists>v. z = Inr v" .
  then obtain r where r: "z = Inr r" ..
  obtain n where n: "0 \<le> n" "fresh_selection n a = Inr r"
    using selected_is_fresh [OF inv now, of a1 r] z r by blast
  have "r \<noteq> None"
  proof
    assume none: "r = None"
    obtain s' where "fresh_selection n a = Inr s'"
      "s' = None \<longrightarrow> (\<forall>(t, w) \<in> set (au_waiters a). can_admit a (wt_group w) (wt_lane w) = Inr False)"
      by (rule fresh_selection_total [OF inv n(1)])
    with n(2) none have "\<forall>(t, w) \<in> set (au_waiters a). can_admit a (wt_group w) (wt_lane w) = Inr False" by simp
    from bspec [OF this some(1)] some(2) show False by simp
  qed
  then obtain w where w: "r = Some w" by auto
  show ?thesis by (rule that [of w a1]) (use fresh_selection_ticket [OF inv] n(2) w z r in auto)
qed

end

subsection \<open>Properties\<close>

lemma counts_nil: "counts c {#} \<Longrightarrow> c = []"
  by (cases c) (auto simp: counts_def count_of_def split: if_splits prod.splits)

lemma lease_pairs_none: "list_all le_released ls \<Longrightarrow> lease_pairs ls = {#}"
  by (induction ls) (simp_all add: lease_pairs_def)

lemma size_filter_image: "count (image_mset f M) k = size {#x \<in># M. f x = k#}"
  by (induction M) auto

lemma size_filter_somes: "count (somes f M) k = size {#x \<in># M. f x = Some k#}"
proof (induction M)
  case (add x M)
  then show ?case by (cases "f x") auto
qed simp

text \<open>
  C27: Admission never exceeds its budget, whatever the scheduling policy answers. In every reachable
  state the leases that are out are within the total limit and, for every group, lane, tenant and
  tenant's resource, within the limit of that kind.
\<close>

theorem admission_within_budget:
  assumes "make_budget total_limit g t r bl asy cp se = Inr b" "reachable_world b policy w"
  defines "L \<equiv> active_leases w" and "ids \<equiv> au_identities (aw_authority w)"
  shows "int (size L) \<le> bu_total b
    \<and> (\<forall>g. int (size {#p \<in># L. fst p = g#}) \<le> bu_group b)
    \<and> (\<forall>l n. lane_limit b l = Inr n \<longrightarrow> int (size {#p \<in># L. snd p = l#}) \<le> n)
    \<and> (\<forall>t. int (size {#p \<in># L. tenant_in ids p = Some t#}) \<le> bu_tenant b)
    \<and> (\<forall>r. int (size {#p \<in># L. resource_in ids p = Some r#}) \<le> bu_resource b)"
proof -
  have "authority_inv b policy (aw_authority w) L"
    using reachable_inv [OF assms(2) make_budget_valid [OF assms(1)]] by (simp add: L_def)
  then have "usage_exact ids (au_usage (aw_authority w)) L" "within_budget b (au_usage (aw_authority w))"
    by (simp_all add: authority_inv_def ids_def)
  then show ?thesis
    by (simp add: usage_exact_def within_budget_def counts_def size_filter_image size_filter_somes)
qed

text \<open>
  C30: Leases are accounted exactly. A lease that was handed out is released without an accounting
  error, releasing it again does nothing, and once every lease is released the authority counts
  nothing any more: no group, tenant, resource or lane keeps an entry.
\<close>

theorem lease_release_exact:
  assumes "make_budget total_limit g t r bl asy cp se = Inr b" "reachable_world b policy w"
  shows "(\<forall>le \<in> set (aw_leases w). \<exists>le' a'. release_lease le (aw_authority w) = (le', a', Inr ())
        \<and> release_lease le' a' = (le', a', Inr ()))
    \<and> (list_all le_released (aw_leases w) \<longrightarrow> au_usage (aw_authority w) =
        \<lparr>us_total = 0, us_groups = [], us_tenants = [], us_resources = [], us_lanes = []\<rparr>)"
proof (intro conjI ballI impI)
  note inv = reachable_inv [OF assms(2) make_budget_valid [OF assms(1)]]
  show "\<exists>le' a'. release_lease le (aw_authority w) = (le', a', Inr ()) \<and> release_lease le' a' = (le', a', Inr ())"
    if "le \<in> set (aw_leases w)" for le
  proof (cases "le_released le")
    case False
    obtain n where n: "n < length (aw_leases w)" "aw_leases w ! n = le" using \<open>le \<in> _\<close> by (auto simp: in_set_conv_nth)
    with inv False lease_pairs_released [of n "aw_leases w"] obtain M
      where "authority_inv b policy (aw_authority w) (add_mset (le_group le, le_lane le) M)"
      by (auto simp: active_lease_pairs)
    then obtain a' where "authority_release (le_group le) (le_lane le) (aw_authority w) = (a', Inr ())"
      by (rule inv_release)
    with False show ?thesis by (simp add: release_lease_def)
  qed (simp add: release_lease_def)
  assume "list_all le_released (aw_leases w)"
  then have "active_leases w = {#}" by (simp add: active_lease_pairs lease_pairs_none)
  with inv have "usage_exact (au_identities (aw_authority w)) (au_usage (aw_authority w)) {#}"
    by (simp add: authority_inv_def)
  then show "au_usage (aw_authority w) =
      \<lparr>us_total = 0, us_groups = [], us_tenants = [], us_resources = [], us_lanes = []\<rparr>"
    by (cases "au_usage (aw_authority w)") (auto simp: usage_exact_def counts_nil)
qed

text \<open>
  C31: The selection cache is transparent. What the authority selects, from its cache or not, is what
  the policy selects from the waiters that are admissible now, at some instant of the same poll
  interval.
\<close>

theorem cached_selection_current:
  assumes "make_budget total_limit g t r bl asy cp se = Inr b" "reachable_world b policy w"
    and "0 \<le> now" "selected_waiter now (aw_authority w) = (a', Inr s)"
  shows "\<exists>now'. 0 \<le> now' \<and> poll_bucket now' = poll_bucket now \<and> fresh_selection now' (aw_authority w) = Inr s"
  by (rule selected_is_fresh [OF reachable_inv [OF assms(2) make_budget_valid [OF assms(1)]] assms(3,4)])

text \<open>
  C28: No capacity is lost and nobody fails for an inner reason, with the fair policy. While the
  authority is open and some waiter is admissible, one waiter is selected, and its next turn, unless
  cancelled or expired, grants its lease. And a turn of any waiter fails only because the authority
  is closed, its token is cancelled or its deadline has expired.
\<close>

theorem admission_progress:
  assumes "make_budget total_limit g t r bl asy cp se = Inr b" "reachable_world b (fair_select aging) w"
  defines "a \<equiv> aw_authority w"
  shows "(0 \<le> now \<and> \<not> au_closed a
        \<and> (\<exists>(t, v) \<in> set (au_waiters a). can_admit a (wt_group v) (wt_lane v) = Inr True) \<longrightarrow>
      (\<exists>v a1. map_of (au_waiters a) (wt_ticket v) = Some v \<and> selected_waiter now a = (a1, Inr (Some v))
        \<and> (\<forall>x. valid_inputs x \<and> ti_select_now x = now \<and> ti_cancelled x = None \<and> \<not> ti_expired x \<longrightarrow>
              snd (acquire_turn v x a) = Acquire_granted (wt_group v) (wt_lane v))))
    \<and> (\<forall>t v x a' e. map_of (au_waiters a) t = Some v \<and> valid_inputs x \<and> acquire_turn v x a = (a', Acquire_failed e) \<longrightarrow>
          au_closed a \<or> ti_cancelled x \<noteq> None \<or> ti_expired x)"
proof (intro conjI impI allI)
  have inv: "authority_inv b (fair_select aging) a (active_leases w)"
    using reachable_inv [OF assms(2) make_budget_valid [OF assms(1)]] by (simp add: a_def)
  note fails = fair.turn_fails_only_outside [OF inv]
  show "au_closed a \<or> ti_cancelled x \<noteq> None \<or> ti_expired x"
    if "map_of (au_waiters a) t = Some v \<and> valid_inputs x \<and> acquire_turn v x a = (a', Acquire_failed e)" for t v x a' e
    using fails [of v x a' e] waiters_registered(1) [OF inv, of t v] that by blast
  assume some: "0 \<le> now \<and> \<not> au_closed a
    \<and> (\<exists>(t, v) \<in> set (au_waiters a). can_admit a (wt_group v) (wt_lane v) = Inr True)"
  then obtain t u where u: "(t, u) \<in> set (au_waiters a)" "can_admit a (wt_group u) (wt_lane u) = Inr True" and "0 \<le> now"
    by auto
  obtain v a1 where v: "map_of (au_waiters a) (wt_ticket v) = Some v" "selected_waiter now a = (a1, Inr (Some v))"
    by (rule fair.admissible_is_granted [OF inv \<open>0 \<le> now\<close> u])
  show "\<exists>v a1. map_of (au_waiters a) (wt_ticket v) = Some v \<and> selected_waiter now a = (a1, Inr (Some v))
      \<and> (\<forall>x. valid_inputs x \<and> ti_select_now x = now \<and> ti_cancelled x = None \<and> \<not> ti_expired x \<longrightarrow>
            snd (acquire_turn v x a) = Acquire_granted (wt_group v) (wt_lane v))"
  proof (intro exI conjI allI impI, rule v(1), rule v(2))
    fix x assume x: "valid_inputs x \<and> ti_select_now x = now \<and> ti_cancelled x = None \<and> \<not> ti_expired x"
    obtain a2 out where run: "acquire_turn v x a = (a2, out)" by fastforce
    have "out \<noteq> Acquire_failed e" for e
      using fails [of v x a2 e] waiters_registered(1) [OF inv v(1)] run some x by auto
    moreover have "out = Acquire_failed e \<or> out = Acquire_granted (wt_group v) (wt_lane v)" if "\<forall>e. out \<noteq> Acquire_failed e" for e
      using run some x v(2) that
      by (auto simp: acquire_turn_def Let_def split: prod.splits sum.splits)
    ultimately show "snd (acquire_turn v x a) = Acquire_granted (wt_group v) (wt_lane v)" using run by simp
  qed
qed

subsection \<open>A run\<close>

definition demo_inputs :: turn_inputs where
  "demo_inputs = \<lparr>ti_cancelled = None, ti_expired = False, ti_select_now = 0, ti_grant_now = 0\<rparr>"

definition demo_budget :: admission_budget where
  "demo_budget = \<lparr>bu_total = 1, bu_group = 1, bu_tenant = 1, bu_resource = 1, bu_blocking_io = 1, bu_async_io = 1,
     bu_cpu = 1, bu_serial = 1\<rparr>"

text \<open>Two groups share one place: the second waits, and the first releases.\<close>

definition demo_events :: "admission_event list" where
  "demo_events = [Ev_register ''g'' \<lparr>ad_tenant = Some ''t'', ad_resource = None\<rparr> \<lparr>ai_priority = Priority_low, ai_mode = Mode_block\<rparr>,
     Ev_register ''h'' \<lparr>ad_tenant = None, ad_resource = Some ''r''\<rparr> \<lparr>ai_priority = Priority_high, ai_mode = Mode_block\<rparr>,
     Ev_acquire ''g'' Lane_cpu demo_inputs 0 demo_inputs, Ev_acquire ''h'' Lane_serial demo_inputs 0 demo_inputs]"

definition demo_world :: "admission_event list \<Rightarrow> admission_world" where
  "demo_world es = fold admission_step es \<lparr>aw_authority = new_authority demo_budget (fair_select 1), aw_leases = []\<rparr>"

lemma reachable_fold:
  assumes "list_all valid_event es" "reachable_world b policy w"
  shows "reachable_world b policy (fold admission_step es w)"
  using assms by (induction es arbitrary: w) (auto intro: world_step)

lemma demo_budget_made: "make_budget 1 None None None None None None None = Inr demo_budget"
  by (simp add: make_budget_def demo_budget_def)

lemma demo_reachable: "list_all valid_event es \<Longrightarrow> reachable_world demo_budget (fair_select 1) (demo_world es)"
  unfolding demo_world_def by (rule reachable_fold) (auto intro: world_start)

lemma demo_events_valid: "list_all valid_event demo_events" "list_all valid_event (demo_events @ [Ev_release 0])"
  by (simp_all add: demo_events_def valid_inputs_def demo_inputs_def)

lemma demo_leases: "aw_leases (demo_world demo_events) = [\<lparr>le_group = ''g'', le_lane = Lane_cpu, le_released = False\<rparr>]"
  by code_simp

lemma demo_waiting:
  "map fst (au_waiters (aw_authority (demo_world (demo_events @ [Ev_release 0])))) = [1]
   \<and> \<not> au_closed (aw_authority (demo_world (demo_events @ [Ev_release 0])))
   \<and> list_all (\<lambda>(t, v). can_admit (aw_authority (demo_world (demo_events @ [Ev_release 0]))) (wt_group v) (wt_lane v) = Inr True)
       (au_waiters (aw_authority (demo_world (demo_events @ [Ev_release 0]))))"
  by code_simp

theorem admission_within_budget_witness:
  "size (active_leases (demo_world demo_events)) = 1
   \<and> int (size {#p \<in># active_leases (demo_world demo_events). snd p = Lane_cpu#}) \<le> 1"
proof -
  have "lane_limit demo_budget Lane_cpu = Inr 1" by (simp add: demo_budget_def)
  with admission_within_budget [OF demo_budget_made demo_reachable [OF demo_events_valid(1)]]
  have "int (size {#p \<in># active_leases (demo_world demo_events). snd p = Lane_cpu#}) \<le> 1" by blast
  then show ?thesis by (simp add: active_leases_def demo_leases)
qed

theorem lease_release_exact_witness:
  "\<exists>le' a'. release_lease \<lparr>le_group = ''g'', le_lane = Lane_cpu, le_released = False\<rparr>
     (aw_authority (demo_world demo_events)) = (le', a', Inr ())"
  using lease_release_exact [OF demo_budget_made demo_reachable [OF demo_events_valid(1)]]
  by (auto simp: demo_leases)

theorem cached_selection_current_witness:
  "\<exists>a' s now'. selected_waiter 0 (aw_authority (demo_world demo_events)) = (a', Inr s)
     \<and> fresh_selection now' (aw_authority (demo_world demo_events)) = Inr s"
proof -
  have "snd (selected_waiter 0 (aw_authority (demo_world demo_events))) = Inr None" by code_simp
  then obtain a' where sel: "selected_waiter 0 (aw_authority (demo_world demo_events)) = (a', Inr None)"
    by (metis prod.collapse)
  from cached_selection_current [OF demo_budget_made demo_reachable [OF demo_events_valid(1)] _ sel] sel
  show ?thesis by auto
qed

theorem admission_progress_witness:
  "\<exists>v a1. selected_waiter 0 (aw_authority (demo_world (demo_events @ [Ev_release 0]))) = (a1, Inr (Some v))
     \<and> snd (acquire_turn v demo_inputs (aw_authority (demo_world (demo_events @ [Ev_release 0]))))
        = Acquire_granted (wt_group v) (wt_lane v)"
proof -
  let ?a = "aw_authority (demo_world (demo_events @ [Ev_release 0]))"
  have "\<not> au_closed ?a \<and> (\<exists>(t, v) \<in> set (au_waiters ?a). can_admit ?a (wt_group v) (wt_lane v) = Inr True)"
  proof (cases "au_waiters ?a")
    case Nil
    then show ?thesis using demo_waiting by simp
  next
    case (Cons e es)
    then show ?thesis using demo_waiting by (auto simp: list_all_iff)
  qed
  with conjunct1 [OF admission_progress [OF demo_budget_made demo_reachable [OF demo_events_valid(2)], where now = 0]]
  obtain v a1 where v: "selected_waiter 0 ?a = (a1, Inr (Some v))"
    and granted: "\<forall>x. valid_inputs x \<and> ti_select_now x = 0 \<and> ti_cancelled x = None \<and> \<not> ti_expired x \<longrightarrow>
      snd (acquire_turn v x ?a) = Acquire_granted (wt_group v) (wt_lane v)" by auto
  from granted have "snd (acquire_turn v demo_inputs ?a) = Acquire_granted (wt_group v) (wt_lane v)"
    by (simp add: demo_inputs_def valid_inputs_def)
  with v show ?thesis by blast
qed

subsection \<open>Snapshots account for everything\<close>

lemma counts_tally: "counts (tally xs) (mset xs)"
proof (induction xs rule: rev_induct)
  case Nil
  show ?case by (simp add: tally_def counts_empty)
next
  case (snoc x xs)
  then show ?case using counts_increment [OF snoc, of x] by (simp add: tally_def)
qed

lemma sum_counts:
  assumes "counts c M" "distinct ks" "set_mset M \<subseteq> set ks"
  shows "sum_list (map (count_of c) ks) = int (size M)"
proof -
  have "sum_list (map (count_of c) ks) = (\<Sum>k \<in> set ks. int (count M k))"
    using assms(1,2) by (simp add: sum_list_distinct_conv_sum_set counts_def)
  also have "\<dots> = (\<Sum>k \<in> set_mset M. int (count M k))"
    by (rule sum.mono_neutral_right) (use assms(3) in \<open>auto simp: not_in_iff\<close>)
  finally show ?thesis by (simp add: size_multiset_overloaded_eq)
qed

lemma counts_keys:
  assumes "counts c M"
  shows "set (map fst c) = set_mset M"
proof (rule set_eqI)
  fix k
  have d: "distinct (map fst c)" and c: "count_of c k = int (count M k)" and pos: "\<forall>(k, n) \<in> set c. 0 < n"
    using assms by (simp_all add: counts_def)
  show "k \<in> set (map fst c) \<longleftrightarrow> k \<in># M"
  proof (cases "map_of c k")
    case None
    then have "k \<notin> set (map fst c)" using map_of_in_keys [of c k] by simp
    moreover have "count M k = 0" using c None by (simp add: count_of_def)
    ultimately show ?thesis by (simp add: not_in_iff)
  next
    case (Some n)
    then have "k \<in> set (map fst c)" using map_of_in_keys [of c k] by simp
    moreover have "0 < n" using pos map_of_SomeD [OF Some] by auto
    then have "0 < count M k" using c Some by (simp add: count_of_def)
    ultimately show ?thesis by (simp only: count_greater_zero_iff)
  qed
qed

lemma waiting_counters_total:
  assumes "authority_inv b policy a L"
  obtains bg bl bt br where "waiting_counters a = Inr (bg, bl, bt, br)"
    "counts bg (mset (map (wt_group \<circ> snd) (au_waiters a)))" "counts bl (mset (map (wt_lane \<circ> snd) (au_waiters a)))"
proof -
  let ?row = "\<lambda>(t, w). (w, the (map_of (au_identities a) (wt_group w)))"
  have "map_result (\<lambda>(t, w). bind_result (identity_of a (wt_group w)) (\<lambda>i. Inr (w, i))) (map id (au_waiters a))
      = Inr (map ?row (au_waiters a))"
    by (rule map_result_map)
      (use assms in \<open>auto simp: authority_inv_def waiter_ok_def registered_def identity_of_def\<close>)
  then obtain bt br where "waiting_counters a
      = Inr (tally (map (wt_group \<circ> snd) (au_waiters a)), tally (map (wt_lane \<circ> snd) (au_waiters a)), bt, br)"
    by (simp add: waiting_counters_def comp_def split_def)
  then show ?thesis by (rule that) (rule counts_tally)+
qed

lemma admission_lanes_iff: "l \<in> set admission_lanes \<longleftrightarrow> l \<noteq> Lane_timer"
  by (cases l) (simp_all add: admission_lanes_def)

lemma snapshot_groups_known:
  assumes inv: "authority_inv b policy a L" and "waiting_counters a = Inr (bg, bl, bt, br)"
    and bg: "counts bg (mset (map (wt_group \<circ> snd) (au_waiters a)))"
    and g: "g \<in> set (map fst (au_identities a)) \<union> set (map fst (us_groups (au_usage a))) \<union> set (map fst bg)"
  shows "map_of (au_identities a) g \<noteq> None"
proof -
  have "set (map fst (us_groups (au_usage a))) = fst ` set_mset L"
    using counts_keys [of "us_groups (au_usage a)" "image_mset fst L"] inv by (simp add: authority_inv_def usage_exact_def)
  then have "g \<in> set (map fst (au_identities a)) \<or> g \<in> fst ` set_mset L \<or> g \<in> (wt_group \<circ> snd) ` set (au_waiters a)"
    using g counts_keys [OF bg] by auto
  then show ?thesis
  proof (elim disjE)
    assume "g \<in> set (map fst (au_identities a))"
    then show ?thesis by (simp only: map_of_in_keys simp_thms)
  qed (use inv in \<open>auto simp: authority_inv_def waiter_ok_def registered_def\<close>)
qed

text \<open>
  A snapshot of a reachable authority is always produced and adds up: the leases in flight are
  the sum over its groups and the sum over its lanes, and the same holds for those who wait.
\<close>

theorem snapshot_adds_up:
  assumes "make_budget total_limit g t r bl asy cp se = Inr b" "reachable_world b policy w"
  shows "\<exists>s. authority_snapshot now (aw_authority w) = Inr s
    \<and> sn_in_flight s = int (size (active_leases w))
    \<and> sum_list (map gr_in_flight (sn_groups s)) = sn_in_flight s
    \<and> sum_list (map lr_in_flight (sn_lanes s)) = sn_in_flight s
    \<and> sum_list (map gr_waiting (sn_groups s)) = sn_waiting s
    \<and> sum_list (map lr_waiting (sn_lanes s)) = sn_waiting s"
proof -
  let ?a = "aw_authority w" and ?L = "active_leases w"
  let ?ids = "au_identities ?a" and ?u = "au_usage ?a" and ?ws = "au_waiters ?a"
  have inv: "authority_inv b policy ?a ?L" by (rule reachable_inv [OF assms(2) make_budget_valid [OF assms(1)]])
  then have u: "us_total ?u = int (size ?L)" "counts (us_groups ?u) (image_mset fst ?L)" "counts (us_lanes ?u) (image_mset snd ?L)"
    by (simp_all add: authority_inv_def usage_exact_def)
  obtain bg bl bt br where wc: "waiting_counters ?a = Inr (bg, bl, bt, br)"
    "counts bg (mset (map (wt_group \<circ> snd) ?ws))" "counts bl (mset (map (wt_lane \<circ> snd) ?ws))"
    by (rule waiting_counters_total [OF inv])
  let ?gs = "sorted_keys (map fst ?ids @ map fst (us_groups ?u) @ map fst bg)"
  have known: "map_of ?ids g \<noteq> None" if "g \<in> set ?gs" for g
    by (rule snapshot_groups_known [OF inv wc(1,2)]) (use that in \<open>auto simp: sorted_keys_def\<close>)
  define grow where "grow g = \<lparr>gr_group = g, gr_tenant = ad_tenant (the (map_of ?ids g)),
    gr_resource = ad_resource (the (map_of ?ids g)), gr_in_flight = count_of (us_groups ?u) g,
    gr_waiting = count_of bg g\<rparr>" for g
  define lrow where "lrow l = \<lparr>lr_lane = l, lr_max_in_flight = (case lane_limit b l of Inr n \<Rightarrow> n | _ \<Rightarrow> 0),
    lr_in_flight = count_of (us_lanes ?u) l, lr_waiting = count_of bl l\<rparr>" for l
  have groups: "map_result (\<lambda>g. case map_of ?ids g of None \<Rightarrow> Inl (''KeyError'', g)
      | Some i \<Rightarrow> Inr \<lparr>gr_group = g, gr_tenant = ad_tenant i, gr_resource = ad_resource i,
          gr_in_flight = count_of (us_groups ?u) g, gr_waiting = count_of bg g\<rparr>) (map id ?gs) = Inr (map grow ?gs)"
    by (rule map_result_map) (use known in \<open>auto simp: grow_def split: option.splits\<close>)
  have lanes: "map_result (\<lambda>l. bind_result (lane_limit b l) (\<lambda>n. Inr \<lparr>lr_lane = l, lr_max_in_flight = n,
      lr_in_flight = count_of (us_lanes ?u) l, lr_waiting = count_of bl l\<rparr>)) admission_lanes = Inr (map lrow admission_lanes)"
    by (simp add: admission_lanes_def lrow_def)
  have d: "distinct ?gs" "set_mset (image_mset fst ?L) \<subseteq> set ?gs" "set_mset (mset (map (wt_group \<circ> snd) ?ws)) \<subseteq> set ?gs"
    using counts_keys [OF u(2)] counts_keys [OF wc(2)] by (auto simp: sorted_keys_def)
  have l: "distinct admission_lanes" by (simp add: admission_lanes_def)
  have timer: "set_mset (image_mset snd ?L) \<subseteq> set admission_lanes"
    "set_mset (mset (map (wt_lane \<circ> snd) ?ws)) \<subseteq> set admission_lanes"
    using inv by (auto simp: admission_lanes_iff authority_inv_def registered_def waiter_ok_def)
  have budget: "au_budget ?a = b" using inv by (simp add: authority_inv_def)
  have sums: "sum_list (map (gr_in_flight \<circ> grow) ?gs) = us_total ?u" "sum_list (map (gr_waiting \<circ> grow) ?gs) = int (length ?ws)"
    "sum_list (map (lr_in_flight \<circ> lrow) admission_lanes) = us_total ?u"
    "sum_list (map (lr_waiting \<circ> lrow) admission_lanes) = int (length ?ws)"
    using sum_counts [OF u(2) d(1,2)] sum_counts [OF wc(2) d(1,3)] sum_counts [OF u(3) l timer(1)]
      sum_counts [OF wc(3) l timer(2)] u(1)
    by (simp_all add: comp_def grow_def lrow_def)
  from groups have groups': "map_result (\<lambda>g. case map_of ?ids g of None \<Rightarrow> Inl (''KeyError'', g)
      | Some i \<Rightarrow> Inr \<lparr>gr_group = g, gr_tenant = ad_tenant i, gr_resource = ad_resource i,
          gr_in_flight = count_of (us_groups ?u) g, gr_waiting = count_of bg g\<rparr>) ?gs = Inr (map grow ?gs)" by simp
  show ?thesis using u(1) sums
    by (simp add: authority_snapshot_def wc(1) Let_def groups' lanes budget)
qed

theorem snapshot_adds_up_witness:
  "\<exists>s. authority_snapshot 0 (aw_authority (demo_world demo_events)) = Inr s
    \<and> sum_list (map lr_in_flight (sn_lanes s)) = 1"
  using snapshot_adds_up [OF demo_budget_made demo_reachable [OF demo_events_valid(1)], where now = 0]
  by (auto simp: active_leases_def demo_leases)

end
