(* ===== verification/Json_Lines.thy ===== *)
theory Json_Lines
  imports Python_Effects "HOL-Library.Sublist"
begin

text \<open>
  Files of JSON lines: how Python iterates over the lines of a text file, and what the JSON
  reader does with a text that is cut off or continued. The reader is stable under extension: once
  it has read a document that ends in a bracket or is followed by anything, more text behind it
  changes nothing. So no proper prefix of an object's text is itself a document.
\<close>

subsection \<open>The reader on a longer text\<close>

text \<open>
  \<open>p'\<close> is what the reader returns for the text of \<open>p\<close> followed by \<open>q\<close>. A syntax error may
  disappear and fuel may suffice; everything else stays.
\<close>

definition extends :: "decode_fail + 'a \<times> string \<Rightarrow> string \<Rightarrow> decode_fail + 'a \<times> string \<Rightarrow> bool" where
  "extends p q p' \<longleftrightarrow>
     (case p of Inr (x, r) \<Rightarrow> p' = Inr (x, r @ q) | Inl e \<Rightarrow> e \<in> {Syntax, Out_of_fuel} \<or> p' = Inl e)"

lemma extends_Inr [simp]: "extends (Inr (x, r)) q p' \<longleftrightarrow> p' = Inr (x, r @ q)"
  and extends_Inl [simp]: "extends (Inl e) q p' \<longleftrightarrow> e = Syntax \<or> e = Out_of_fuel \<or> p' = Inl e"
  by (auto simp: extends_def)

lemma extends_case:
  assumes "extends p q p'" "\<And>x r. p = Inr (x, r) \<Longrightarrow> extends (f x r) q (f' x (r @ q))"
  shows "extends (case p of Inl e \<Rightarrow> Inl e | Inr (x, r) \<Rightarrow> f x r) q
    (case p' of Inl e \<Rightarrow> Inl e | Inr (x, r) \<Rightarrow> f' x r)"
  using assms by (cases p) auto

text \<open>
  What was read is complete if a character follows that cannot continue a number. A reader that is
  stable on complete documents can be followed by one that fails on all others.
\<close>

definition complete :: "decode_fail + 'a \<times> string \<Rightarrow> bool" where
  "complete p \<longleftrightarrow> (\<forall>x r. p = Inr (x, r) \<longrightarrow> r \<noteq> [] \<and> number_stop r)"

lemma extends_case_complete:
  assumes "complete p \<Longrightarrow> extends p q p'" "\<And>x r. r = [] \<or> \<not> number_stop r \<Longrightarrow> f x r = Inl Syntax"
    and "\<And>x r. p = Inr (x, r) \<Longrightarrow> extends (f x r) q (f' x (r @ q))"
  shows "extends (case p of Inl e \<Rightarrow> Inl e | Inr (x, r) \<Rightarrow> f x r) q
    (case p' of Inl e \<Rightarrow> Inl e | Inr (x, r) \<Rightarrow> f' x r)"
proof (cases "complete p")
  case True
  then show ?thesis using assms(1,3) by (intro extends_case) auto
next
  case False
  then obtain x r where "p = Inr (x, r)" "r = [] \<or> \<not> number_stop r" by (auto simp: complete_def)
  then show ?thesis using assms(2) by simp
qed

lemma skip_ws_append: "skip_ws s \<noteq> [] \<Longrightarrow> skip_ws (s @ q) = skip_ws s @ q"
  unfolding skip_ws_def by (induction s) auto

text \<open>Reading on behind a separator, if at the end of the text that fails.\<close>

lemma extends_skip:
  assumes "extends (f (skip_ws r)) q (f' (skip_ws r @ q))" "\<And>p. extends (f []) q p"
  shows "extends (f (skip_ws r)) q (f' (skip_ws (r @ q)))"
  using assms by (cases "skip_ws r = []") (simp_all add: skip_ws_append)

lemma cons_char_extends: "extends p q p' \<Longrightarrow> extends (cons_char c p) q (cons_char c p')"
  by (cases p) (auto simp: cons_char_def)

lemma unhex4_append: "unhex4 s = Some n \<Longrightarrow> unhex4 (s @ q) = Some n \<and> 4 \<le> length s"
proof -
  assume n: "unhex4 s = Some n"
  then obtain a b c d where "map hex_value (take 4 s) = [Some a, Some b, Some c, Some d]"
    by (auto simp: unhex4_def split: list.splits option.splits)
  then have "length (map hex_value (take 4 s)) = 4" by (simp only: list.size)
  then have "4 \<le> length s" by simp
  with n show ?thesis by (simp add: unhex4_def)
qed

lemma parse_string_extends: "extends (parse_string s) q (parse_string (s @ q))"
proof (induction s rule: parse_string.induct)
  case (2 c cs)
  show ?case
  proof (cases cs)
    case Nil
    then show ?thesis by (simp add: cons_char_def)
  next
    case (Cons e r)
    consider (quote) "c = CHR 0x22" | (hex) "c = CHR 0x5C" "e = CHR ''u''"
      | (escape) "c = CHR 0x5C" "e \<noteq> CHR ''u''" | (plain) "c \<noteq> CHR 0x22" "c \<noteq> CHR 0x5C" by blast
    then show ?thesis
    proof cases
      case hex
      show ?thesis
      proof (cases "unhex4 r")
        case (Some n)
        then have "unhex4 (r @ q) = Some n" "drop 4 (r @ q) = drop 4 r @ q"
          using unhex4_append [OF Some] by simp_all
        then show ?thesis using 2(1) hex Cons Some by (simp add: cons_char_extends)
      qed (simp add: hex Cons)
    next
      case escape
      then show ?thesis using 2(2) Cons by (simp add: cons_char_extends split: option.split)
    next
      case plain
      then show ?thesis using 2(3) by (simp add: cons_char_extends)
    qed simp
  qed
qed simp

lemma strip_prefix_iff: "strip_prefix p s = Some r \<longleftrightarrow> s = p @ r"
proof -
  have "take (length p) s = p \<longleftrightarrow> (\<exists>r. s = p @ r)"
    by (metis append_eq_conv_conj append_take_drop_id)
  then show ?thesis by (auto simp: strip_prefix_def)
qed

lemma strip_prefix_append: "strip_prefix p s = Some r \<Longrightarrow> strip_prefix p (s @ q) = Some (r @ q)"
  by (simp add: strip_prefix_iff)

lemma strip_prefix_other:
  "strip_prefix p s = None \<Longrightarrow> s \<noteq> [] \<Longrightarrow> p \<noteq> [] \<Longrightarrow> hd s \<noteq> hd p \<Longrightarrow> strip_prefix p (s @ q) = None"
  by (cases s; cases p) (auto simp: strip_prefix_def)

text \<open>A number that is followed by something ends where it ended.\<close>

lemma parse_int_extends:
  assumes "complete (parse_int s)"
  shows "extends (parse_int s) q (parse_int (s @ q))"
proof -
  define neg where "neg = (s \<noteq> [] \<and> hd s = CHR ''-'')"
  define t where "t = (if neg then tl s else s)"
  define digits where "digits = (\<lambda>t. let all = takeWhile is_digit t in if all \<noteq> [] \<and> hd all = CHR ''0'' then ''0'' else all)"
  define ds where "ds = digits t"
  define r where "r = drop (length ds) t"
  let ?n = "int (digits_value 0 ds)"
  have int: "parse_int s = (if ds = [] then Inl Syntax else if float_tail r then Inl Unmodelled_value
      else Inr (JInt (if neg then - ?n else ?n), r))"
    by (simp add: parse_int_def Let_def digits_def t_def ds_def r_def neg_def)
  show ?thesis
  proof (cases "ds = []")
    case False
    then have "t \<noteq> []" by (auto simp: ds_def digits_def Let_def split: if_splits)
    then have "s \<noteq> []" by (auto simp: t_def split: if_splits)
    have r: "r \<noteq> [] \<and> (float_tail r \<or> number_stop r)"
    proof (cases "float_tail r")
      case True
      then show ?thesis by (auto simp: float_tail_def)
    qed (use assms False int in \<open>simp add: complete_def\<close>)
    have ds': "digits (t @ q) = ds"
    proof (cases "\<exists>c \<in> set t. \<not> is_digit c")
      case True
      then have "takeWhile is_digit (t @ q) = takeWhile is_digit t" by (auto simp: takeWhile_append1)
      then show ?thesis by (simp add: ds_def digits_def)
    next
      case all: False
      then have t: "takeWhile is_digit t = t" by (auto simp: takeWhile_eq_all_conv)
      with r have "hd t = CHR ''0''" by (auto simp: r_def ds_def digits_def split: if_splits)
      moreover have "takeWhile is_digit (t @ q) = t @ takeWhile is_digit q"
        using all by (induction t) auto
      ultimately show ?thesis using \<open>t \<noteq> []\<close> t unfolding ds_def digits_def Let_def by (simp only: append_is_Nil_conv hd_append simp_thms if_True if_False)
    qed
    have "parse_int (s @ q) = (if float_tail (r @ q) then Inl Unmodelled_value
        else Inr (JInt (if neg then - ?n else ?n), r @ q))"
    proof -
      have neg': "(s @ q \<noteq> [] \<and> hd (s @ q) = CHR ''-'') = neg" using \<open>s \<noteq> []\<close> by (simp add: neg_def)
      have t': "(if neg then tl (s @ q) else s @ q) = t @ q" using \<open>s \<noteq> []\<close> by (simp add: t_def)
      have r': "drop (length ds) (t @ q) = r @ q" using r by (simp add: r_def)
      show ?thesis
        unfolding parse_int_def Let_def neg' t' ds' [unfolded digits_def Let_def] r' using False by simp
    qed
    moreover have "float_tail r \<Longrightarrow> float_tail (r @ q)"
      by (auto simp: float_tail_def split: list.splits)
    moreover have "number_stop r \<Longrightarrow> \<not> float_tail (r @ q)"
      using r by (intro number_stop_no_float) (auto simp: number_stop_def hd_append)
    ultimately show ?thesis using False int r by auto
  qed (simp add: int)
qed

lemma parse_words:
  "parse_word strict (''null'' @ r) = Inr (JNull, r)" "parse_word strict (''true'' @ r) = Inr (JBool True, r)"
  "parse_word strict (''false'' @ r) = Inr (JBool False, r)" "parse_word strict (''NaN'' @ r) = reject_constant strict"
  "parse_word strict (''Infinity'' @ r) = reject_constant strict"
  "parse_word strict (''-Infinity'' @ r) = reject_constant strict"
  by (simp_all add: parse_word_def strip_prefix_Cons strip_prefix_def [of "[]"])

lemma parse_word_extends:
  assumes "complete (parse_word strict s)"
  shows "extends (parse_word strict s) q (parse_word strict (s @ q))"
proof -
  let ?words = "{''null'', ''true'', ''false'', ''NaN'', ''Infinity'', ''-Infinity''}"
  show ?thesis
  proof (cases "\<exists>p \<in> ?words. strip_prefix p s \<noteq> None")
    case True
    then obtain p r where p: "p \<in> ?words" and "strip_prefix p s = Some r" by blast
    then have s: "s = p @ r" by (simp only: strip_prefix_iff)
    from p show ?thesis unfolding s append_assoc
      by (elim insertE emptyE) (simp_all only: parse_words extends_Inr extends_Inl reject_constant_def simp_thms)
  next
    case False
    then have word: "parse_word strict s = parse_int s" by (simp add: parse_word_def)
    show ?thesis
    proof (cases "parse_int s = Inl Syntax")
      case fine: False
      have "s \<noteq> []" using fine by (auto simp: parse_int_def)
      define t where "t = (if hd s = CHR ''-'' then tl s else s)"
      have "takeWhile is_digit t \<noteq> []"
        using fine \<open>s \<noteq> []\<close> by (auto simp: parse_int_def Let_def t_def)
      then obtain c cs where t: "t = c # cs" "is_digit c" by (cases t) (auto split: if_splits)
      then have c: "c \<noteq> CHR ''n''" "c \<noteq> CHR ''t''" "c \<noteq> CHR ''f''" "c \<noteq> CHR ''N''" "c \<noteq> CHR ''I''" "c \<noteq> CHR ''-''"
        by (metis not_digit)+
      have s: "s = c # cs \<or> s = CHR ''-'' # c # cs"
        using t(1) \<open>s \<noteq> []\<close> by (cases s) (simp_all add: t_def split: if_splits)
      have "strip_prefix p (s @ q) = None" if "p \<in> ?words" for p
        using that by (elim insertE emptyE; insert s; elim disjE) (simp_all add: strip_prefix_Cons c)
      then have "parse_word strict (s @ q) = parse_int (s @ q)" by (simp add: parse_word_def)
      then show ?thesis using parse_int_extends assms word by simp
    qed (simp add: word)
  qed
qed

text \<open>A text that begins with a bracket or a quote is stable however it ends.\<close>

definition bracketed :: "string \<Rightarrow> bool" where
  "bracketed s \<longleftrightarrow> s \<noteq> [] \<and> hd s \<in> {CHR 0x22, CHR ''['', CHR ''{''}"

lemma not_separator:
  assumes "r = [] \<or> \<not> number_stop r"
  shows "skip_ws r = [] \<or> hd (skip_ws r) \<notin> {CHR '','', CHR '']'', CHR ''}''}"
proof (cases r)
  case (Cons c cs)
  with assms have "is_digit c \<or> c = CHR ''.'' \<or> c = CHR ''e'' \<or> c = CHR ''E''"
    by (auto simp: number_stop_def)
  then have "\<not> json_ws c \<and> c \<notin> {CHR '','', CHR '']'', CHR ''}''}"
  proof (elim disjE)
    assume "is_digit c"
    then show ?thesis unfolding json_ws_def by (metis insertE emptyE not_digit)
  qed (simp_all add: json_ws_def)
  then show ?thesis by (simp add: Cons skip_ws_def)
qed (simp add: skip_ws_def)

lemma parse_nothing:
  "parse_elems strict n [] \<in> {Inl Syntax, Inl Out_of_fuel}" "parse_members strict n [] \<in> {Inl Syntax, Inl Out_of_fuel}"
proof -
  show "parse_elems strict n [] \<in> {Inl Syntax, Inl Out_of_fuel}"
    by (cases n; cases "n - 1") simp_all
  show "parse_members strict n [] \<in> {Inl Syntax, Inl Out_of_fuel}"
    by (cases n) simp_all
qed

lemma extends_nothing [simp]:
  "extends (parse_elems strict n []) q p" "extends (parse_members strict n []) q p'"
  using parse_nothing [of strict n] by (auto simp: extends_def)

lemma parse_value_extends:
  assumes elems: "\<And>s. extends (parse_elems strict n s) q (parse_elems strict m (s @ q))"
    and members: "\<And>s. extends (parse_members strict n s) q (parse_members strict m (s @ q))"
    and closed: "bracketed s \<or> complete (parse_value strict (Suc n) s)"
  shows "extends (parse_value strict (Suc n) s) q (parse_value strict (Suc m) (s @ q))"
proof (cases s)
  case (Cons c cs)
  let ?u = "skip_ws cs"
  consider (quote) "c = CHR 0x22" | (list) "c = CHR ''[''" | (obj) "c = CHR ''{''"
    | (word) "c \<noteq> CHR 0x22" "c \<noteq> CHR ''[''" "c \<noteq> CHR ''{''" by blast
  then show ?thesis
  proof cases
    case quote
    have "extends (case parse_string cs of Inl e \<Rightarrow> Inl e | Inr (t, r) \<Rightarrow> Inr (JStr t, r)) q
        (case parse_string (cs @ q) of Inl e \<Rightarrow> Inl e | Inr (t, r) \<Rightarrow> Inr (JStr t, r))"
      by (rule extends_case [OF parse_string_extends]) simp
    then show ?thesis by (simp add: Cons quote)
  next
    case list
    show ?thesis
    proof (cases "?u = []")
      case True
      obtain e where "parse_elems strict n [] = Inl e" "e = Syntax \<or> e = Out_of_fuel"
        using parse_nothing(1) [of strict n] by blast
      then show ?thesis by (auto simp add: Cons list True)
    next
      case False
      have "extends (case parse_elems strict n ?u of Inl e \<Rightarrow> Inl e | Inr (xs, r) \<Rightarrow> Inr (JArr xs, r)) q
          (case parse_elems strict m (?u @ q) of Inl e \<Rightarrow> Inl e | Inr (xs, r) \<Rightarrow> Inr (JArr xs, r))"
        by (rule extends_case [OF elems]) simp
      with False show ?thesis by (simp add: Cons list skip_ws_append Let_def)
    qed
  next
    case obj
    show ?thesis
    proof (cases "?u = []")
      case True
      obtain e where "parse_members strict n [] = Inl e" "e = Syntax \<or> e = Out_of_fuel"
        using parse_nothing(2) [of strict n] by blast
      then show ?thesis by (auto simp add: Cons obj True)
    next
      case False
      have "extends (case parse_members strict n ?u of Inl e \<Rightarrow> Inl e
            | Inr (kvs, r) \<Rightarrow> bind_result (object_from_pairs strict kvs) (\<lambda>j. Inr (j, r))) q
          (case parse_members strict m (?u @ q) of Inl e \<Rightarrow> Inl e
            | Inr (kvs, r) \<Rightarrow> bind_result (object_from_pairs strict kvs) (\<lambda>j. Inr (j, r)))"
        by (rule extends_case [OF members]) (simp add: object_from_pairs_def)
      with False show ?thesis by (simp add: Cons obj skip_ws_append Let_def)
    qed
  next
    case word
    then have "complete (parse_word strict s)" using closed by (simp add: bracketed_def Cons)
    from parse_word_extends [OF this] show ?thesis using word by (simp add: Cons)
  qed
qed simp

lemma parse_elems_extends:
  assumes val: "\<And>s. complete (parse_value strict n s) \<Longrightarrow> extends (parse_value strict n s) q (parse_value strict m (s @ q))"
    and elems: "\<And>s. extends (parse_elems strict n s) q (parse_elems strict m (s @ q))"
  shows "extends (parse_elems strict (Suc n) s) q (parse_elems strict (Suc m) (s @ q))"
proof -
  have "extends (case skip_ws r of [] \<Rightarrow> Inl Syntax
      | c # cs \<Rightarrow> if c = CHR '','' then
           (case parse_elems strict n (skip_ws cs) of Inl e \<Rightarrow> Inl e | Inr (xs, r') \<Rightarrow> Inr (x # xs, r'))
         else if c = CHR '']'' then Inr ([x], cs) else Inl Syntax) q
      (case skip_ws (r @ q) of [] \<Rightarrow> Inl Syntax
      | c # cs \<Rightarrow> if c = CHR '','' then
           (case parse_elems strict m (skip_ws cs) of Inl e \<Rightarrow> Inl e | Inr (xs, r') \<Rightarrow> Inr (x # xs, r'))
         else if c = CHR '']'' then Inr ([x], cs) else Inl Syntax)" for x r
  proof (cases "skip_ws r")
    case (Cons c cs)
    have "extends (parse_elems strict n (skip_ws cs)) q (parse_elems strict m (skip_ws (cs @ q)))"
      using extends_skip [of "parse_elems strict n" cs q "parse_elems strict m"] elems by simp
    from extends_case [OF this, of "\<lambda>xs r'. Inr (x # xs, r')" "\<lambda>xs r'. Inr (x # xs, r')"] show ?thesis
      by (simp add: skip_ws_append Cons)
  qed simp
  note rest = this
  have stop: "(case skip_ws r of [] \<Rightarrow> Inl Syntax
      | c # cs \<Rightarrow> if c = CHR '','' then
           (case parse_elems strict n (skip_ws cs) of Inl e \<Rightarrow> Inl e | Inr (xs, r') \<Rightarrow> Inr (x # xs, r'))
         else if c = CHR '']'' then Inr ([x], cs) else Inl Syntax) = Inl Syntax"
    if "r = [] \<or> \<not> number_stop r" for x r
    using not_separator [OF that] by (cases "skip_ws r") simp_all
  show ?thesis
    unfolding parse_elems.simps
    by (rule extends_case_complete [OF val]) (assumption | erule stop | rule rest)+
qed

lemma parse_members_extends:
  assumes val: "\<And>s. complete (parse_value strict n s) \<Longrightarrow> extends (parse_value strict n s) q (parse_value strict m (s @ q))"
    and members: "\<And>s. extends (parse_members strict n s) q (parse_members strict m (s @ q))"
  shows "extends (parse_members strict (Suc n) s) q (parse_members strict (Suc m) (s @ q))"
proof (cases s)
  case (Cons c qs)
  define rest where "rest = (\<lambda>n k v r1. case skip_ws r1 of [] \<Rightarrow> Inl Syntax
      | d # ds \<Rightarrow> if d = CHR '','' then
           (case parse_members strict n (skip_ws ds) of Inl e \<Rightarrow> Inl e | Inr (kvs, r2) \<Rightarrow> Inr ((k :: string, v) # kvs, r2))
         else if d = CHR ''}'' then Inr ([(k, v)], ds) else Inl Syntax)"
  define mid where "mid = (\<lambda>n k r. case skip_ws r of [] \<Rightarrow> Inl Syntax
      | c # cs \<Rightarrow> if c \<noteq> CHR '':'' then Inl Syntax
         else (case parse_value strict n (skip_ws cs) of Inl e \<Rightarrow> Inl e | Inr (v, r1) \<Rightarrow> rest n k v r1))"
  have eq: "parse_members strict (Suc n) (c # qs) = (if c \<noteq> CHR 0x22 then Inl Syntax
      else (case parse_string qs of Inl e \<Rightarrow> Inl e | Inr (k, r) \<Rightarrow> mid n k r))" for n qs
    unfolding mid_def rest_def parse_members.simps by simp
  have rest: "extends (rest n k v r) q (rest m k v (r @ q))" for k v r
  proof (cases "skip_ws r")
    case (Cons d ds)
    have "extends (parse_members strict n (skip_ws ds)) q (parse_members strict m (skip_ws (ds @ q)))"
      using extends_skip [of "parse_members strict n" ds q "parse_members strict m"] members by simp
    from extends_case [OF this, of "\<lambda>kvs r2. Inr ((k, v) # kvs, r2)" "\<lambda>kvs r2. Inr ((k, v) # kvs, r2)"]
    show ?thesis by (simp add: rest_def skip_ws_append Cons)
  qed (simp add: rest_def)
  have stop: "rest n k v r = Inl Syntax" if "r = [] \<or> \<not> number_stop r" for k v r
    using not_separator [OF that] by (cases "skip_ws r") (simp_all add: rest_def)
  have mid: "extends (mid n k r) q (mid m k (r @ q))" for k r
  proof (cases "skip_ws r")
    case (Cons d ds)
    have "extends (case parse_value strict n u of Inl e \<Rightarrow> Inl e | Inr (v, r1) \<Rightarrow> rest n k v r1) q
        (case parse_value strict m (u @ q) of Inl e \<Rightarrow> Inl e | Inr (v, r1) \<Rightarrow> rest m k v r1)" for u
      by (rule extends_case_complete [OF val]) (assumption | erule stop | rule rest)+
    moreover have "parse_value strict n [] = Inl Syntax \<or> parse_value strict n [] = Inl Out_of_fuel"
      by (cases n) simp_all
    ultimately have "extends (case parse_value strict n (skip_ws ds) of Inl e \<Rightarrow> Inl e | Inr (v, r1) \<Rightarrow> rest n k v r1) q
        (case parse_value strict m (skip_ws (ds @ q)) of Inl e \<Rightarrow> Inl e | Inr (v, r1) \<Rightarrow> rest m k v r1)"
      by (cases "skip_ws ds = []") (auto simp: skip_ws_append)
    then show ?thesis by (simp add: mid_def skip_ws_append Cons)
  qed (simp add: mid_def)
  have "extends (case parse_string qs of Inl e \<Rightarrow> Inl e | Inr (k, r) \<Rightarrow> mid n k r) q
      (case parse_string (qs @ q) of Inl e \<Rightarrow> Inl e | Inr (k, r) \<Rightarrow> mid m k r)"
    by (rule extends_case [OF parse_string_extends]) (rule mid)
  then show ?thesis unfolding Cons append_Cons eq by simp
qed simp

lemma parse_extends:
  "(\<forall>m s. n \<le> m \<longrightarrow> bracketed s \<or> complete (parse_value strict n s) \<longrightarrow>
      extends (parse_value strict n s) q (parse_value strict m (s @ q)))
   \<and> (\<forall>m s. n \<le> m \<longrightarrow> extends (parse_elems strict n s) q (parse_elems strict m (s @ q)))
   \<and> (\<forall>m s. n \<le> m \<longrightarrow> extends (parse_members strict n s) q (parse_members strict m (s @ q)))"
proof (induction n)
  case (Suc n)
  show ?case
  proof (intro conjI allI impI)
    fix m s assume "Suc n \<le> m" and closed: "bracketed s \<or> complete (parse_value strict (Suc n) s)"
    then obtain m' where m: "m = Suc m'" "n \<le> m'" by (cases m) auto
    show "extends (parse_value strict (Suc n) s) q (parse_value strict m (s @ q))"
      unfolding m(1) by (rule parse_value_extends) (use Suc.IH m closed in blast)+
  next
    fix m s assume "Suc n \<le> m"
    then obtain m' where m: "m = Suc m'" "n \<le> m'" by (cases m) auto
    show "extends (parse_elems strict (Suc n) s) q (parse_elems strict m (s @ q))"
      unfolding m(1) by (rule parse_elems_extends) (use Suc.IH m in blast)+
  next
    fix m s assume "Suc n \<le> m"
    then obtain m' where m: "m = Suc m'" "n \<le> m'" by (cases m) auto
    show "extends (parse_members strict (Suc n) s) q (parse_members strict m (s @ q))"
      unfolding m(1) by (rule parse_members_extends) (use Suc.IH m in blast)+
  qed
qed simp

text \<open>A proper prefix of an object's text is no document, and neither is the text followed by another.\<close>

lemma json_loads_prefix:
  assumes "json_wf (JObj kvs)" "render ea (JObj kvs) = p @ q" "q \<noteq> []"
  shows "json_loads strict p = Inl Syntax"
proof (cases p)
  case Nil
  then show ?thesis by (simp add: json_loads_def)
next
  case (Cons c cs)
  then have c: "c = CHR ''{''" using assms(2) by simp
  let ?n = "\<lambda>s :: string. 2 * length s + 2"
  have skip: "skip_ws (p @ u) = p @ u" for u by (simp add: Cons c skip_ws_def json_ws_def)
  have "parse_value strict (?n (p @ q)) (p @ q) = Inr (JObj kvs, [])"
    using parse_render(1) [OF assms(1), of "[]" ea "?n (p @ q)" strict, unfolded assms(2)]
    by (simp del: parse_value.simps)
  moreover have "extends (parse_value strict (?n p) p) q (parse_value strict (?n (p @ q)) (p @ q))"
    by (rule parse_extends [THEN conjunct1, rule_format]) (simp_all add: Cons c bracketed_def del: parse_value.simps)
  moreover have "parse_value strict (?n p) p \<noteq> Inl Out_of_fuel"
    using parse_reads [THEN conjunct1, rule_format, of p "?n p" strict] by (simp add: reads_def del: parse_value.simps)
  ultimately have "parse_value strict (?n p) p = Inl Syntax"
    using assms(3) by (cases "parse_value strict (?n p) p") auto
  then show ?thesis using skip [of "[]"] by (simp add: json_loads_def)
qed

lemma json_loads_continued:
  assumes "json_wf j" "number_stop r" "skip_ws r \<noteq> []"
  shows "json_loads strict (render ea j @ r) = Inl Syntax"
  using parse_render(1) [OF assms(1,2), of ea "2 * length (render ea j @ r) + 2" strict] assms(3)
  by (simp add: json_loads_def skip_ws_render)

subsection \<open>Lines of a text file\<close>

text \<open>Universal newlines of \<open>open(path, "r")\<close>, then one line per line feed, which it keeps.\<close>

abbreviation (input) line_feed :: char where "line_feed \<equiv> CHR 0x0A"
abbreviation (input) carriage_return :: char where "carriage_return \<equiv> CHR 0x0D"

fun universal_newlines :: "string \<Rightarrow> string" where
  "universal_newlines [] = []"
| "universal_newlines [c] = [if c = carriage_return then line_feed else c]"
| "universal_newlines (c # d # cs) =
     (if c = carriage_return
      then line_feed # (if d = line_feed then universal_newlines cs else universal_newlines (d # cs))
      else c # universal_newlines (d # cs))"

fun split_lines :: "string \<Rightarrow> string list" where
  "split_lines [] = []"
| "split_lines (c # cs) =
     (if c = line_feed then [c] # split_lines cs
      else (case split_lines cs of [] \<Rightarrow> [[c]] | l # ls \<Rightarrow> (c # l) # ls))"

definition text_lines :: "string \<Rightarrow> string list" where
  "text_lines s = split_lines (universal_newlines s)"

text \<open>A line that a writer has finished: no line break but the one at its end.\<close>

definition whole_line :: "string \<Rightarrow> bool" where
  "whole_line l \<longleftrightarrow> (\<exists>u. l = u @ [line_feed] \<and> line_feed \<notin> set u \<and> carriage_return \<notin> set u)"

lemma universal_newlines_none: "carriage_return \<notin> set s \<Longrightarrow> universal_newlines s = s"
  by (induction s rule: universal_newlines.induct) auto

lemma split_lines_line: "line_feed \<notin> set u \<Longrightarrow> split_lines (u @ line_feed # s) = (u @ [line_feed]) # split_lines s"
  by (induction u) auto

lemma split_lines_last: "line_feed \<notin> set u \<Longrightarrow> u \<noteq> [] \<Longrightarrow> split_lines u = [u]"
proof (induction u)
  case (Cons c cs)
  then show ?case by (cases cs) auto
qed simp

lemma whole_lines_no_return: "\<forall>l \<in> set ls. whole_line l \<Longrightarrow> carriage_return \<notin> set (concat ls)"
  by (auto simp: whole_line_def)

lemma text_lines_whole:
  assumes "\<forall>l \<in> set ls. whole_line l" "line_feed \<notin> set u" "carriage_return \<notin> set u"
  shows "text_lines (concat ls @ u) = ls @ (if u = [] then [] else [u])"
proof -
  have "split_lines (concat ls @ u) = ls @ (if u = [] then [] else [u])"
    using assms(1)
  proof (induction ls)
    case Nil
    then show ?case using assms(2) by (simp add: split_lines_last)
  next
    case (Cons l ls)
    then obtain v where "l = v @ [line_feed]" "line_feed \<notin> set v" by (auto simp: whole_line_def)
    with Cons show ?case using split_lines_line [of v "concat ls @ u"] by simp
  qed
  moreover have "carriage_return \<notin> set (concat ls @ u)"
    using whole_lines_no_return [OF assms(1)] assms(3) by simp
  ultimately show ?thesis by (metis text_lines_def universal_newlines_none)
qed

text \<open>Text that ends in a line feed, or is empty, is finished: what follows it are lines of their own.\<close>

definition ends_line :: "string \<Rightarrow> bool" where
  "ends_line s \<longleftrightarrow> s = [] \<or> last s = line_feed"

lemma universal_newlines_append:
  "s \<noteq> [] \<Longrightarrow> last s = line_feed \<Longrightarrow> universal_newlines (s @ t) = universal_newlines s @ universal_newlines t
     \<and> universal_newlines s \<noteq> [] \<and> last (universal_newlines s) = line_feed"
proof (induction s rule: universal_newlines.induct)
  case (2 c)
  then show ?case by (cases t) auto
next
  case (3 c d cs)
  show ?case
  proof (cases "c = carriage_return \<and> d = line_feed")
    case True
    show ?thesis
    proof (cases "cs = []")
      case False
      then show ?thesis using True 3 by simp
    qed (simp add: True)
  next
    case False
    then show ?thesis using 3 by auto
  qed
qed simp

lemma split_lines_append:
  "s = [] \<or> last s = line_feed \<Longrightarrow> split_lines (s @ t) = split_lines s @ split_lines t"
proof (induction s)
  case (Cons c cs)
  show ?case
  proof (cases "cs = []")
    case False
    then have "split_lines (cs @ t) = split_lines cs @ split_lines t" using Cons by simp
    moreover have "split_lines cs \<noteq> []" using False by (cases cs) (auto split: list.splits)
    ultimately show ?thesis by (auto split: list.splits)
  qed (use Cons.prems in simp)
qed simp

lemma text_lines_append: "ends_line s \<Longrightarrow> text_lines (s @ t) = text_lines s @ text_lines t"
proof (cases "s = []")
  case False
  assume "ends_line s"
  with False have "last s = line_feed" by (simp add: ends_line_def)
  from universal_newlines_append [OF False this, of t] show ?thesis
    by (simp add: text_lines_def split_lines_append)
qed (simp add: text_lines_def)

lemma ends_line_append [simp]: "ends_line s \<Longrightarrow> ends_line (s @ u @ [line_feed])"
  by (simp add: ends_line_def)

text \<open>JSON text has no control characters, so an encoded document is one line.\<close>

lemma escape_char_visible: "c' \<in> set (escape_char ea c) \<Longrightarrow> 32 \<le> code_point c'"
proof -
  have hex: "32 \<le> code_point (nibble_char n)" if "n < 16" for n
  proof -
    have "nibble_char n \<in> set hex_digits" using that unfolding nibble_char_def by (intro nth_mem) (simp add: hex_digits_def)
    then show ?thesis by (auto simp: hex_digits_def code_point_def)
  qed
  assume "c' \<in> set (escape_char ea c)"
  then show ?thesis
    using hex [of "code_point c div 16"] hex [of "code_point c mod 16"] code_point_less [of c]
    by (auto simp: escape_char_def Let_def less_mult_imp_div_less split: if_splits) (simp_all add: code_point_def)
qed

lemma quote_text_visible: "c \<in> set (quote_text ea s) \<Longrightarrow> 32 \<le> code_point c"
  by (auto simp: quote_text_def dest: escape_char_visible) (simp_all add: code_point_def)

lemma int_text_visible: "c \<in> set (int_text i) \<Longrightarrow> 32 \<le> code_point c"
proof -
  have "c \<in> set (nat_text n) \<Longrightarrow> 32 \<le> code_point c" for n
    using nat_text_digits [of n] by (auto simp: list_all_iff is_digit_def)
  then show "c \<in> set (int_text i) \<Longrightarrow> 32 \<le> code_point c"
    by (auto simp: int_text_def split: if_splits) (simp add: code_point_def)
qed

lemma render_visible:
  "c \<in> set (render ea j) \<Longrightarrow> 32 \<le> code_point c"
  "c \<in> set (render_elems ea xs) \<Longrightarrow> 32 \<le> code_point c"
  "c \<in> set (render_members ea kvs) \<Longrightarrow> 32 \<le> code_point c"
  by (induction ea j and ea xs and ea kvs rule: render_render_elems_render_members.induct)
    (auto simp: code_point_def dest: quote_text_visible int_text_visible split: if_splits)

lemma whole_line_render: "whole_line (render ea j @ [line_feed])"
proof -
  have "line_feed \<notin> set (render ea j)" "carriage_return \<notin> set (render ea j)"
    using render_visible(1) [of line_feed ea j] render_visible(1) [of carriage_return ea j]
    by (auto simp: code_point_def)
  then show ?thesis by (auto simp: whole_line_def)
qed

end
