(* ===== verification/Forensic_Port.thy ===== *)
theory Forensic_Port
  imports Json_Lines
begin

text \<open>
  The forensic ledger as its clients see it (\<open>api/ports.py\<close> and \<open>api/ledger.py\<close> of
  \<open>src/noetrium_platform/infrastructure/reliability/forensics\<close>): rows and their hashes
  (\<open>providers/hashchain_core.py\<close>), verified cuts and slices, the port, and the contract of a ledger
  as a locale over the list of payloads it holds. Its client is the synchronizer of the incident
  projection (\<open>providers/incident_sync.py\<close>).
\<close>

subsection \<open>Rows\<close>

type_synonym fields = "(string \<times> json) list"

definition zero_hash :: string where
  "zero_hash = replicate 64 (CHR ''0'')"

definition row_preimage :: "string \<Rightarrow> fields \<Rightarrow> string" where
  "row_preimage prev p = prev @ CHR 0x00 # dumps False (JObj p)"

definition hash_payload :: "string \<Rightarrow> fields \<Rightarrow> string" where
  "hash_payload prev p = sha256_text (row_preimage prev p)"

definition row_document :: "string \<Rightarrow> fields \<Rightarrow> json" where
  "row_document prev p =
     JObj [(''prev_hash'', JStr prev), (''row_hash'', JStr (hash_payload prev p)), (''payload'', JObj p)]"

definition encode_row :: "string \<Rightarrow> fields \<Rightarrow> string \<times> string" where
  "encode_row prev p = (dumps False (row_document prev p) @ [CHR 0x0A], hash_payload prev p)"

subsection \<open>Verified cuts and slices\<close>

record ledger_cut =
  lc_start_after :: int
  lc_total_rows :: int
  lc_checkpoint_hash :: string
  lc_tail_hash :: string

definition valid_cut :: "'a ledger_cut_scheme \<Rightarrow> bool" where
  "valid_cut c \<longleftrightarrow>
     0 \<le> lc_start_after c \<and> lc_start_after c \<le> lc_total_rows c
     \<and> is_sha256 (lc_checkpoint_hash c) \<and> is_sha256 (lc_tail_hash c)
     \<and> (lc_start_after c = 0 \<longrightarrow> lc_checkpoint_hash c = zero_hash)
     \<and> (lc_start_after c = lc_total_rows c \<longrightarrow> lc_checkpoint_hash c = lc_tail_hash c)"

definition suffix_rows :: "'a ledger_cut_scheme \<Rightarrow> int" where
  "suffix_rows c = lc_total_rows c - lc_start_after c"

record ledger_slice = ledger_cut +
  ls_payloads :: "fields list"

definition valid_slice :: "ledger_slice \<Rightarrow> bool" where
  "valid_slice s \<longleftrightarrow> valid_cut s \<and> int (length (ls_payloads s)) = suffix_rows s"

subsection \<open>The payloads of a chain\<close>

text \<open>The rows that hold given payloads, and the hash of the last.\<close>

fun chain_rows :: "string \<Rightarrow> fields list \<Rightarrow> (fields \<times> string) list" where
  "chain_rows prev [] = []"
| "chain_rows prev (p # ps) = (p, hash_payload prev p) # chain_rows (hash_payload prev p) ps"

definition chain_tail :: "fields list \<Rightarrow> string" where
  "chain_tail ps = foldl hash_payload zero_hash ps"

definition cut_for :: "int \<Rightarrow> fields list \<Rightarrow> ledger_cut" where
  "cut_for k ps = \<lparr>lc_start_after = k, lc_total_rows = int (length ps),
     lc_checkpoint_hash = chain_tail (take (nat k) ps), lc_tail_hash = chain_tail ps\<rparr>"

definition slice_for :: "int \<Rightarrow> fields list \<Rightarrow> ledger_slice" where
  "slice_for k ps = \<lparr>lc_start_after = k, lc_total_rows = int (length ps),
     lc_checkpoint_hash = chain_tail (take (nat k) ps), lc_tail_hash = chain_tail ps, ls_payloads = drop (nat k) ps\<rparr>"

text \<open>A request for what follows the first \<open>k\<close> rows; of an error only the class is specified.\<close>

definition error_class :: "exc + 'a \<Rightarrow> string + 'a" where
  "error_class r = map_sum fst id r"

definition after_rows :: "(int \<Rightarrow> fields list \<Rightarrow> 'a) \<Rightarrow> int \<Rightarrow> fields list \<Rightarrow> string + 'a" where
  "after_rows f k ps =
     (if k < 0 then Inl ''ValueError''
      else if int (length ps) < k then Inl ''HashChainError''
      else Inr (f k ps))"

text \<open>
  The batches of a cut: full ones, and a last one that is not empty. \<open>b\<close> is the batch length.
\<close>

definition batches_of :: "int \<Rightarrow> 'a list \<Rightarrow> 'a list list \<Rightarrow> bool" where
  "batches_of b xs out \<longleftrightarrow>
     concat out = xs \<and> (\<forall>ys \<in> set out. ys \<noteq> [] \<and> int (length ys) \<le> b)
     \<and> (\<forall>ys \<in> set (butlast out). int (length ys) = b)"

subsection \<open>The port\<close>

text \<open>\<open>'w\<close> is what the environment contributes to an append.\<close>

record ('w, 's) ledger_port =
  lp_append :: "fields \<Rightarrow> 'w \<Rightarrow> 's \<Rightarrow> 's \<times> (exc + string)"
  lp_verify :: "'s \<Rightarrow> 's \<times> (exc + int \<times> string)"
  lp_payloads_after :: "int \<Rightarrow> 's \<Rightarrow> 's \<times> (exc + ledger_slice)"
  lp_cut_after :: "int \<Rightarrow> 's \<Rightarrow> 's \<times> (exc + ledger_cut)"
  lp_batches :: "ledger_cut \<Rightarrow> int \<Rightarrow> 's \<Rightarrow> fields list list \<times> (exc + unit)"
  lp_cached_tail :: "'s \<Rightarrow> 's \<times> (exc + int \<times> string)"

text \<open>Runs of operations, and the same on the list of payloads.\<close>

datatype 'w ledger_op = Op_append fields 'w | Op_verify | Op_payloads int | Op_cut int | Op_tail

datatype ledger_reply =
    Reply_hash "string + string"
  | Reply_tail "string + int \<times> string"
  | Reply_slice "string + ledger_slice"
  | Reply_cut "string + ledger_cut"

fun ledger_call :: "('w, 's) ledger_port \<Rightarrow> 'w ledger_op \<Rightarrow> 's \<Rightarrow> 's \<times> ledger_reply" where
  "ledger_call port (Op_append p w) s = map_prod id (\<lambda>r. Reply_hash (error_class r)) (lp_append port p w s)"
| "ledger_call port Op_verify s = map_prod id (\<lambda>r. Reply_tail (error_class r)) (lp_verify port s)"
| "ledger_call port (Op_payloads k) s = map_prod id (\<lambda>r. Reply_slice (error_class r)) (lp_payloads_after port k s)"
| "ledger_call port (Op_cut k) s = map_prod id (\<lambda>r. Reply_cut (error_class r)) (lp_cut_after port k s)"
| "ledger_call port Op_tail s = map_prod id (\<lambda>r. Reply_tail (error_class r)) (lp_cached_tail port s)"

fun ledger_calls :: "('w, 's) ledger_port \<Rightarrow> 'w ledger_op list \<Rightarrow> 's \<Rightarrow> 's \<times> ledger_reply list" where
  "ledger_calls port [] s = (s, [])"
| "ledger_calls port (op # ops) s =
     (let (s, r) = ledger_call port op s; (s, rs) = ledger_calls port ops s in (s, r # rs))"

fun spec_call :: "'w ledger_op \<Rightarrow> fields list \<Rightarrow> fields list \<times> ledger_reply" where
  "spec_call (Op_append p w) ps = (ps @ [sorted_fields p], Reply_hash (Inr (hash_payload (chain_tail ps) p)))"
| "spec_call Op_verify ps = (ps, Reply_tail (Inr (int (length ps), chain_tail ps)))"
| "spec_call (Op_payloads k) ps = (ps, Reply_slice (after_rows slice_for k ps))"
| "spec_call (Op_cut k) ps = (ps, Reply_cut (after_rows cut_for k ps))"
| "spec_call Op_tail ps = (ps, Reply_tail (Inr (int (length ps), chain_tail ps)))"

fun spec_calls :: "'w ledger_op list \<Rightarrow> fields list \<Rightarrow> fields list \<times> ledger_reply list" where
  "spec_calls [] ps = (ps, [])"
| "spec_calls (op # ops) ps = (let (ps, r) = spec_call op ps; (ps, rs) = spec_calls ops ps in (ps, r # rs))"

text \<open>The appends of a run are of JSON documents, and the environment lets them through.\<close>

fun appends_fine :: "('w, 's) ledger_port \<Rightarrow> (fields \<Rightarrow> 'w \<Rightarrow> 's \<Rightarrow> bool) \<Rightarrow> 'w ledger_op list \<Rightarrow> 's \<Rightarrow> bool" where
  "appends_fine port writes [] s = True"
| "appends_fine port writes (op # ops) s =
     ((case op of Op_append p w \<Rightarrow> json_wf (JObj p) \<and> writes p w s | _ \<Rightarrow> True)
      \<and> appends_fine port writes ops (fst (ledger_call port op s)))"

lemma error_class_simps [simp]: "error_class (Inl x) = Inl (fst x)" "error_class (Inr v) = Inr v"
  by (simp_all add: error_class_def)

lemma sorted_payload_wf: "json_wf (JObj p) \<Longrightarrow> json_wf (JObj (sorted_fields p))"
  using json_wf_sort_keys [of "JObj p"] by (simp only: sort_keys_JObj)

lemma dumps_sorted: "dumps ea (JObj (sorted_fields p)) = dumps ea (JObj p)"
  by (simp only: dumps_def sort_keys_JObj sorted_fields_idem)

lemma hash_payload_sorted [simp]: "hash_payload prev (sorted_fields p) = hash_payload prev p"
  by (simp add: hash_payload_def row_preimage_def dumps_sorted)

lemma hash_payload_sha256 [simp]: "is_sha256 (hash_payload prev p)"
  by (simp add: hash_payload_def)

lemma zero_hash_sha256 [simp]: "is_sha256 zero_hash"
  by (simp add: is_sha256_def zero_hash_def hex_digits_def list_all_iff)

lemma chain_tail_snoc [simp]: "chain_tail (ps @ [p]) = hash_payload (chain_tail ps) p"
  by (simp add: chain_tail_def)

lemma chain_tail_Nil [simp]: "chain_tail [] = zero_hash"
  by (simp add: chain_tail_def)

lemma chain_tail_sha256 [simp]: "is_sha256 (chain_tail ps)"
  by (cases ps rule: rev_cases) simp_all

lemma valid_cut_for: "0 \<le> k \<Longrightarrow> k \<le> int (length ps) \<Longrightarrow> valid_cut (cut_for k ps)"
  by (simp add: valid_cut_def cut_for_def)

lemma valid_slice_for: "0 \<le> k \<Longrightarrow> k \<le> int (length ps) \<Longrightarrow> valid_slice (slice_for k ps)"
  by (simp add: valid_slice_def valid_cut_def slice_for_def suffix_rows_def)

subsection \<open>The contract\<close>

locale forensic_ledger =
  fixes port :: "('w, 's) ledger_port"
    and holds :: "'s \<Rightarrow> fields list \<Rightarrow> bool"
    and writes :: "fields \<Rightarrow> 'w \<Rightarrow> 's \<Rightarrow> bool"
  assumes held: "holds s ps \<Longrightarrow> p \<in> set ps \<Longrightarrow> json_wf (JObj p)"
    and append: "holds s ps \<Longrightarrow> writes p w s \<Longrightarrow> json_wf (JObj p) \<Longrightarrow>
      snd (lp_append port p w s) = Inr (hash_payload (chain_tail ps) p)
      \<and> holds (fst (lp_append port p w s)) (ps @ [sorted_fields p])"
    and verify: "holds s ps \<Longrightarrow> snd (lp_verify port s) = Inr (int (length ps), chain_tail ps)
      \<and> holds (fst (lp_verify port s)) ps"
    and payloads_after: "holds s ps \<Longrightarrow>
      error_class (snd (lp_payloads_after port k s)) = after_rows slice_for k ps
      \<and> holds (fst (lp_payloads_after port k s)) ps"
    and cut_after: "holds s ps \<Longrightarrow>
      error_class (snd (lp_cut_after port k s)) = after_rows cut_for k ps \<and> holds (fst (lp_cut_after port k s)) ps"
    and batches: "holds s (ps @ later) \<Longrightarrow> 0 \<le> k \<Longrightarrow> k \<le> int (length ps) \<Longrightarrow> 0 < b \<Longrightarrow>
      (\<exists>out. lp_batches port (cut_for k ps) b s = (out, Inr ()) \<and> batches_of b (drop (nat k) ps) out)"
    and cached_tail: "holds s ps \<Longrightarrow> snd (lp_cached_tail port s) = Inr (int (length ps), chain_tail ps)
      \<and> holds (fst (lp_cached_tail port s)) ps"
begin

lemma payloads_after_ok:
  assumes "holds s ps" "0 \<le> k" "k \<le> int (length ps)"
  shows "snd (lp_payloads_after port k s) = Inr (slice_for k ps)"
  using payloads_after [OF assms(1), of k] assms(2,3)
  by (cases "snd (lp_payloads_after port k s)") (auto simp: error_class_def after_rows_def)

lemma cut_after_ok:
  assumes "holds s ps" "0 \<le> k" "k \<le> int (length ps)"
  shows "snd (lp_cut_after port k s) = Inr (cut_for k ps)"
  using cut_after [OF assms(1), of k] assms(2,3)
  by (cases "snd (lp_cut_after port k s)") (auto simp: error_class_def after_rows_def)

lemma call_refines:
  assumes "holds s ps" "case op of Op_append p w \<Rightarrow> json_wf (JObj p) \<and> writes p w s | _ \<Rightarrow> True"
  shows "snd (ledger_call port op s) = snd (spec_call op ps)
    \<and> holds (fst (ledger_call port op s)) (fst (spec_call op ps))"
  using assms append [OF assms(1)] verify [OF assms(1)] payloads_after [OF assms(1)] cut_after [OF assms(1)]
    cached_tail [OF assms(1)]
  by (cases op) (simp_all add: error_class_def)

lemma calls_refine:
  assumes "holds s ps" "appends_fine port writes ops s"
  shows "snd (ledger_calls port ops s) = snd (spec_calls ops ps)
    \<and> holds (fst (ledger_calls port ops s)) (fst (spec_calls ops ps))"
  using assms
proof (induction ops arbitrary: s ps)
  case (Cons op ops)
  then have "snd (ledger_call port op s) = snd (spec_call op ps)"
    "holds (fst (ledger_call port op s)) (fst (spec_call op ps))"
    using call_refines [of s ps op] by auto
  then show ?case using Cons.IH [of "fst (ledger_call port op s)" "fst (spec_call op ps)"] Cons.prems(2)
    by (simp add: split_def Let_def)
qed simp

end

end
