(* ===== verification/Forensic_Ledger.thy ===== *)
theory Forensic_Ledger
  imports Forensic_Port
begin

text \<open>
  The forensic ledger (\<open>src/noetrium_platform/infrastructure/reliability/forensics/providers\<close>): a
  file of JSON lines, each carrying its payload, the hash of the row before it and its own hash.
  \<open>hashchain_core.py\<close> encodes rows, \<open>hashlog_scanner.py\<close> verifies a file and streams a verified
  cut of it, \<open>hashlog_writer.py\<close> appends, \<open>hashlog.py\<close> is the facade that checks before every
  append that nobody else has written.

  The file is its text and its stat signature; what a write does to them (how much of it arrives, the new
  signature, an exception) is an input of the operation.
\<close>

subsection \<open>Verification\<close>

definition chain_error :: "string \<Rightarrow> exc" where
  "chain_error m = (''HashChainError'', m)"

text \<open>\<open>row.get\<close> needs a dictionary; every other JSON value has no such attribute.\<close>

fun type_name :: "json \<Rightarrow> string" where
  "type_name JNull = ''NoneType''"
| "type_name (JBool _) = ''bool''"
| "type_name (JInt _) = ''int''"
| "type_name (JStr _) = ''str''"
| "type_name (JArr _) = ''list''"
| "type_name (JObj _) = ''dict''"

definition check_row :: "string \<Rightarrow> string \<Rightarrow> json \<Rightarrow> exc + fields \<times> string" where
  "check_row label prev row =
     (case row of
        JObj r \<Rightarrow>
          (case map_of r ''payload'' of
             Some (JObj p) \<Rightarrow>
               if map_of r ''prev_hash'' \<noteq> Some (JStr prev) then Inl (chain_error (label @ '': previous hash mismatch''))
               else (let expected = hash_payload prev p in
                     if map_of r ''row_hash'' \<noteq> Some (JStr expected) then Inl (chain_error (label @ '': row hash mismatch''))
                     else Inr (p, expected))
           | _ \<Rightarrow> Inl (chain_error (label @ '': invalid payload'')))
      | _ \<Rightarrow> Inl (''AttributeError'', CHR 0x27 # type_name row @ CHR 0x27 # '' object has no attribute ''
          @ CHR 0x27 # ''get'' @ [CHR 0x27]))"

definition scan_line :: "string \<Rightarrow> string \<Rightarrow> string \<Rightarrow> exc + fields \<times> string" where
  "scan_line label prev line =
     (case json_loads False line of
        Inl k \<Rightarrow> Inl (if k \<in> {Unmodelled_value, Out_of_fuel} then unmodelled
                      else chain_error (label @ '': invalid/truncated JSON''))
      | Inr row \<Rightarrow> check_row label prev row)"

record chain_scan =
  cs_prev :: string
  cs_checkpoint :: string
  cs_count :: int
  cs_payloads :: "fields list"

definition empty_scan :: chain_scan where
  "empty_scan = \<lparr>cs_prev = zero_hash, cs_checkpoint = zero_hash, cs_count = 0, cs_payloads = []\<rparr>"

definition scan_row :: "int option \<Rightarrow> bool \<Rightarrow> fields \<times> string \<Rightarrow> chain_scan \<Rightarrow> chain_scan" where
  "scan_row start collect row st =
     (let count = cs_count st + 1; (p, h) = row in
      st\<lparr>cs_prev := h, cs_count := count,
         cs_checkpoint := if start = Some count then h else cs_checkpoint st,
         cs_payloads := if collect \<and> (\<exists>k. start = Some k \<and> k < count) then cs_payloads st @ [p] else cs_payloads st\<rparr>)"

text \<open>The loop over the lines, numbered from \<open>n\<close>; \<open>label\<close> is how an error names a line.\<close>

fun scan_lines ::
    "(nat \<Rightarrow> string) \<Rightarrow> int option \<Rightarrow> bool \<Rightarrow> nat \<Rightarrow> string list \<Rightarrow> chain_scan \<Rightarrow> exc + chain_scan" where
  "scan_lines label start collect n [] st = Inr st"
| "scan_lines label start collect n (line # ls) st =
     (if blank line then scan_lines label start collect (n + 1) ls st
      else bind_result (scan_line (label n) (cs_prev st) line) (\<lambda>row.
           scan_lines label start collect (n + 1) ls (scan_row start collect row st)))"

definition negative_start :: exc where
  "negative_start = value_error ''start_after must be non-negative''"

definition finish_scan :: "int option \<Rightarrow> chain_scan \<Rightarrow> exc + chain_scan" where
  "finish_scan start st =
     (case start of
        None \<Rightarrow> Inr st
      | Some k \<Rightarrow>
          if cs_count st < k
          then Inl (chain_error (''projection checkpoint rows='' @ int_text k @ '' exceeds authoritative rows=''
                 @ int_text (cs_count st)))
          else if k = cs_count st then Inr (st\<lparr>cs_checkpoint := cs_prev st\<rparr>)
          else Inr st)"

definition line_label :: "nat \<Rightarrow> string" where
  "line_label n = ''line '' @ nat_text n"

text \<open>\<open>_scan_hash_chain\<close>; the file is missing or a text.\<close>

definition hash_chain_scan :: "int option \<Rightarrow> bool \<Rightarrow> string option \<Rightarrow> exc + chain_scan" where
  "hash_chain_scan start collect file =
     (if \<exists>k. start = Some k \<and> k < 0 then Inl negative_start
      else (case file of
        None \<Rightarrow>
          if start \<noteq> None \<and> start \<noteq> Some 0
          then Inl (chain_error ''projection checkpoint exceeds missing ledger'')
          else Inr empty_scan
      | Some s \<Rightarrow> bind_result (scan_lines line_label start collect 1 (text_lines s) empty_scan) (finish_scan start)))"

definition scan_hash_chain :: "string option \<Rightarrow> exc + int \<times> string" where
  "scan_hash_chain file = bind_result (hash_chain_scan None True file) (\<lambda>st. Inr (cs_count st, cs_prev st))"

definition cut_of :: "int \<Rightarrow> chain_scan \<Rightarrow> ledger_cut" where
  "cut_of k st = \<lparr>lc_start_after = k, lc_total_rows = cs_count st, lc_checkpoint_hash = cs_checkpoint st,
     lc_tail_hash = cs_prev st\<rparr>"

definition slice_of :: "int \<Rightarrow> chain_scan \<Rightarrow> ledger_slice" where
  "slice_of k st = \<lparr>lc_start_after = k, lc_total_rows = cs_count st, lc_checkpoint_hash = cs_checkpoint st,
     lc_tail_hash = cs_prev st, ls_payloads = cs_payloads st\<rparr>"

definition scan_hash_chain_payloads :: "int \<Rightarrow> string option \<Rightarrow> exc + ledger_slice" where
  "scan_hash_chain_payloads k file =
     bind_result (hash_chain_scan (Some k) True file) (\<lambda>st. checked valid_slice ''VerifiedLedgerSlice'' (slice_of k st))"

definition scan_hash_chain_cut :: "int \<Rightarrow> string option \<Rightarrow> exc + ledger_cut" where
  "scan_hash_chain_cut k file =
     bind_result (hash_chain_scan (Some k) False file) (\<lambda>st. checked valid_cut ''VerifiedLedgerCut'' (cut_of k st))"

subsection \<open>Streaming a cut\<close>

text \<open>
  A generator is what it yields and how it ends. The batch being filled is the payload list of the
  scan state; \<open>changed\<close> is the error for a cut that no longer fits.
\<close>

definition stream_row :: "ledger_cut \<Rightarrow> fields \<times> string \<Rightarrow> chain_scan \<Rightarrow> chain_scan" where
  "stream_row c row st =
     (let count = cs_count st + 1; (p, h) = row in
      st\<lparr>cs_prev := h, cs_count := count,
         cs_checkpoint := if count = lc_start_after c then h else cs_checkpoint st,
         cs_payloads := if lc_start_after c < count \<and> count \<le> lc_total_rows c then cs_payloads st @ [p] else cs_payloads st\<rparr>)"

definition flush_batch :: "ledger_cut \<Rightarrow> int \<Rightarrow> chain_scan \<Rightarrow> chain_scan \<times> fields list list" where
  "flush_batch c batch st =
     (if lc_start_after c < cs_count st \<and> cs_count st \<le> lc_total_rows c \<and> batch \<le> int (length (cs_payloads st))
      then (st\<lparr>cs_payloads := []\<rparr>, [cs_payloads st]) else (st, []))"

fun stream_lines ::
    "exc \<Rightarrow> (nat \<Rightarrow> string) \<Rightarrow> ledger_cut \<Rightarrow> int \<Rightarrow> nat \<Rightarrow> string list \<Rightarrow> chain_scan
     \<Rightarrow> fields list list \<times> (exc + chain_scan option)" where
  "stream_lines changed label c batch n [] st = ([], Inr (Some st))"
| "stream_lines changed label c batch n (line # ls) st =
     (if blank line then stream_lines changed label c batch (n + 1) ls st
      else (case scan_line (label n) (cs_prev st) line of
        Inl x \<Rightarrow> ([], Inl x)
      | Inr row \<Rightarrow>
          (let (st, out) = flush_batch c batch (stream_row c row st) in
           if cs_count st = lc_total_rows c
           then if cs_checkpoint st \<noteq> lc_checkpoint_hash c \<or> cs_prev st \<noteq> lc_tail_hash c
                then (out, Inl changed)
                else (out @ (if cs_payloads st = [] then [] else [cs_payloads st]), Inr None)
           else (let (rest, stop) = stream_lines changed label c batch (n + 1) ls st in (out @ rest, stop)))))"

definition iter_hash_chain_payload_batches ::
    "ledger_cut \<Rightarrow> int \<Rightarrow> string option \<Rightarrow> fields list list \<times> (exc + unit)" where
  "iter_hash_chain_payload_batches c batch file =
     (if batch \<le> 0 then ([], Inl (value_error ''batch_size must be positive''))
      else if lc_total_rows c = 0 then ([], Inr ())
      else (case file of
        None \<Rightarrow> ([], Inl (chain_error ''verified ledger cut disappeared before streaming''))
      | Some s \<Rightarrow>
          (case stream_lines (chain_error ''ledger changed after verified cut'') line_label c batch 1 (text_lines s) empty_scan of
             (out, Inl x) \<Rightarrow> (out, Inl x)
           | (out, Inr None) \<Rightarrow> (out, Inr ())
           | (out, Inr (Some st)) \<Rightarrow>
               (out, Inl (chain_error (''verified ledger cut rows='' @ int_text (lc_total_rows c)
                  @ '' exceeds streamed rows='' @ int_text (cs_count st)))))))"

subsection \<open>Lookup\<close>

text \<open>Python's \<open>==\<close> on decoded JSON: Booleans are the numbers 0 and 1, dictionaries are unordered.\<close>

fun py_number :: "json \<Rightarrow> int option" where
  "py_number (JBool b) = Some (if b then 1 else 0)"
| "py_number (JInt i) = Some i"
| "py_number _ = None"

function (sequential) py_equal :: "json \<Rightarrow> json \<Rightarrow> bool" where
  "py_equal (JArr xs) (JArr ys) = (length xs = length ys \<and> list_all (\<lambda>(x, y). py_equal x y) (zip xs ys))"
| "py_equal (JObj a) (JObj b) =
     (length a = length b \<and> list_all (\<lambda>(k, v). case map_of b k of None \<Rightarrow> False | Some w \<Rightarrow> py_equal v w) a)"
| "py_equal v w = (if py_number v = None \<or> py_number w = None then v = w else py_number v = py_number w)"
  by pat_completeness auto
termination
proof (relation "measure (\<lambda>(v, w). size v)")
  show "((x, y), JArr xs, JArr ys) \<in> measure (\<lambda>(v, w). size v)"
    if "z \<in> set (zip xs ys)" "(x, y) = z" for xs ys x y and z :: "json \<times> json"
    using that by (auto simp: less_Suc_eq_le intro!: size_list_estimation' [of x] dest: set_zip_leftD)
  show "((v, w), JObj a, JObj b) \<in> measure (\<lambda>(v, w). size v)"
    if "e \<in> set a" "(k, v) = e" for a b k v w and e :: "string \<times> json"
    using that by (auto simp: less_Suc_eq_le intro!: size_list_estimation' [of e])
qed simp

definition row_payload :: "string \<Rightarrow> exc + fields" where
  "row_payload line =
     (case json_loads False line of
        Inr (JObj r) \<Rightarrow>
          (case map_of r ''payload'' of Some (JObj p) \<Rightarrow> Inr p | Some _ \<Rightarrow> Inl unmodelled | None \<Rightarrow> Inl (''KeyError'', ''payload''))
      | Inr _ \<Rightarrow> Inl (''TypeError'', [])
      | Inl k \<Rightarrow> Inl (if k \<in> {Unmodelled_value, Out_of_fuel} then unmodelled else (''JSONDecodeError'', [])))"

fun find_in_lines :: "string \<Rightarrow> json \<Rightarrow> string list \<Rightarrow> exc + fields option" where
  "find_in_lines field v [] = Inr None"
| "find_in_lines field v (line # ls) =
     (if blank line then find_in_lines field v ls
      else bind_result (row_payload line) (\<lambda>p.
           if py_equal (doc_get field JNull p) v then Inr (Some p) else find_in_lines field v ls))"

definition find_payload_in_hashlog :: "string \<Rightarrow> json \<Rightarrow> string option \<Rightarrow> exc + fields option" where
  "find_payload_in_hashlog field v file =
     (case file of None \<Rightarrow> Inr None | Some s \<Rightarrow> find_in_lines field v (text_lines s))"

subsection \<open>Appending\<close>

type_synonym file_stat = "int \<times> int \<times> int \<times> int"

record writer_tail =
  wl_initialized :: bool
  wl_count :: int
  wl_tail_hash :: string
  wl_signature :: "file_stat option"
  wl_since_sync :: int

definition new_tail :: writer_tail where
  "new_tail = \<lparr>wl_initialized = False, wl_count = 0, wl_tail_hash = zero_hash, wl_signature = None, wl_since_sync = 0\<rparr>"

definition tail_verified :: "int \<Rightarrow> string \<Rightarrow> file_stat option \<Rightarrow> writer_tail" where
  "tail_verified count tail_hash signature =
     \<lparr>wl_initialized = True, wl_count = count, wl_tail_hash = tail_hash, wl_signature = signature, wl_since_sync = 0\<rparr>"

definition tail_appended :: "string \<Rightarrow> file_stat option \<Rightarrow> bool \<Rightarrow> writer_tail \<Rightarrow> writer_tail" where
  "tail_appended row_hash signature synced w =
     \<lparr>wl_initialized = True, wl_count = wl_count w + 1, wl_tail_hash = row_hash, wl_signature = signature,
      wl_since_sync = (if synced then 0 else wl_since_sync w + 1)\<rparr>"

text \<open>\<open>lf_synced\<close> is the text known to be on stable storage, what the last \<open>fsync\<close> has put there.\<close>

record log_file =
  lf_text :: "string option"
  lf_stat :: file_stat
  lf_synced :: string

definition stat_signature :: "log_file \<Rightarrow> file_stat option" where
  "stat_signature f = (if lf_text f = None then None else Some (lf_stat f))"

text \<open>
  The outcome of opening, writing, flushing and syncing: everything succeeds, or it raises with the
  file not opened (\<open>None\<close>) or with the first \<open>n\<close> characters of the row in the file.
\<close>

datatype append_outcome = Append_done file_stat | Append_fails "nat option" file_stat exc

definition file_text :: "log_file \<Rightarrow> string" where
  "file_text f = (case lf_text f of None \<Rightarrow> [] | Some s \<Rightarrow> s)"

definition write_row :: "string \<Rightarrow> bool \<Rightarrow> append_outcome \<Rightarrow> log_file \<Rightarrow> log_file \<times> (exc + unit)" where
  "write_row row due out f =
     (case out of
        Append_done sig \<Rightarrow>
          (f\<lparr>lf_text := Some (file_text f @ row), lf_stat := sig,
             lf_synced := if due then file_text f @ row else lf_synced f\<rparr>, Inr ())
      | Append_fails None sig x \<Rightarrow> (f, Inl x)
      | Append_fails (Some n) sig x \<Rightarrow> (f\<lparr>lf_text := Some (file_text f @ take n row), lf_stat := sig\<rparr>, Inl x))"

definition writer_append ::
    "int \<Rightarrow> fields \<Rightarrow> append_outcome \<Rightarrow> log_file \<times> writer_tail \<Rightarrow> (log_file \<times> writer_tail) \<times> (exc + string)" where
  "writer_append fsync_every p out s =
     (let (f, w) = s;
          (encoded, row_hash) = encode_row (wl_tail_hash w) p;
          due = (fsync_every \<le> wl_since_sync w + 1)
      in case write_row encoded due out f of
           (f, Inl x) \<Rightarrow> ((f, w), Inl x)
         | (f, Inr _) \<Rightarrow> ((f, tail_appended row_hash (stat_signature f) due w), Inr row_hash))"

subsection \<open>The facade\<close>

record hash_log =
  hl_file :: log_file
  hl_tail :: writer_tail
  hl_fsync_every :: int
  hl_read_only :: bool

definition open_hash_log :: "int \<Rightarrow> bool \<Rightarrow> bool \<Rightarrow> log_file \<Rightarrow> exc + hash_log" where
  "open_hash_log fsync_every read_only parent_exists f =
     (if fsync_every \<le> 0 then Inl (value_error ''fsync_every must be positive'')
      else if read_only \<and> \<not> parent_exists then Inl (''FileNotFoundError'', [])
      else Inr \<lparr>hl_file = f, hl_tail = new_tail, hl_fsync_every = fsync_every, hl_read_only = read_only\<rparr>)"

definition adopt :: "int \<Rightarrow> string \<Rightarrow> hash_log \<Rightarrow> hash_log" where
  "adopt count tail_hash l = l\<lparr>hl_tail := tail_verified count tail_hash (stat_signature (hl_file l))\<rparr>"

definition verify_log :: "hash_log \<Rightarrow> hash_log \<times> (exc + int \<times> string)" where
  "verify_log l =
     (case scan_hash_chain (lf_text (hl_file l)) of
        Inl x \<Rightarrow> (l, Inl x)
      | Inr (count, h) \<Rightarrow> (adopt count h l, Inr (count, h)))"

definition ensure_owned_tail :: "hash_log \<Rightarrow> hash_log \<times> (exc + unit)" where
  "ensure_owned_tail l =
     (if \<not> wl_initialized (hl_tail l)
      then (case verify_log l of (l, Inl x) \<Rightarrow> (l, Inl x) | (l, Inr _) \<Rightarrow> (l, Inr ()))
      else if stat_signature (hl_file l) \<noteq> wl_signature (hl_tail l)
      then (l, Inl (case scan_hash_chain (lf_text (hl_file l)) of
             Inl x \<Rightarrow> x
           | Inr _ \<Rightarrow> chain_error ''ledger changed outside the owning writer; competing writer or external mutation detected''))
      else (l, Inr ()))"

definition append_payload :: "fields \<Rightarrow> append_outcome \<Rightarrow> hash_log \<Rightarrow> hash_log \<times> (exc + string)" where
  "append_payload p out l =
     (if hl_read_only l then (l, Inl (''PermissionError'', ''read-only hash ledger cannot append''))
      else (case ensure_owned_tail l of
        (l, Inl x) \<Rightarrow> (l, Inl x)
      | (l, Inr _) \<Rightarrow>
          (let ((f, w), r) = writer_append (hl_fsync_every l) p out (hl_file l, hl_tail l)
           in (l\<lparr>hl_file := f, hl_tail := w\<rparr>, r))))"

definition verified_payloads_after :: "int \<Rightarrow> hash_log \<Rightarrow> hash_log \<times> (exc + ledger_slice)" where
  "verified_payloads_after k l =
     (case scan_hash_chain_payloads k (lf_text (hl_file l)) of
        Inl x \<Rightarrow> (l, Inl x)
      | Inr s \<Rightarrow> (adopt (lc_total_rows s) (lc_tail_hash s) l, Inr s))"

definition verified_cut_after :: "int \<Rightarrow> hash_log \<Rightarrow> hash_log \<times> (exc + ledger_cut)" where
  "verified_cut_after k l =
     (case scan_hash_chain_cut k (lf_text (hl_file l)) of
        Inl x \<Rightarrow> (l, Inl x)
      | Inr c \<Rightarrow> (adopt (lc_total_rows c) (lc_tail_hash c) l, Inr c))"

definition iter_verified_payload_batches :: "ledger_cut \<Rightarrow> int \<Rightarrow> hash_log \<Rightarrow> fields list list \<times> (exc + unit)" where
  "iter_verified_payload_batches c batch l = iter_hash_chain_payload_batches c batch (lf_text (hl_file l))"

definition find_payload :: "string \<Rightarrow> json \<Rightarrow> hash_log \<Rightarrow> hash_log \<times> (exc + fields option)" where
  "find_payload field v l =
     (case verify_log l of
        (l, Inl x) \<Rightarrow> (l, Inl x)
      | (l, Inr _) \<Rightarrow> (l, find_payload_in_hashlog field v (lf_text (hl_file l))))"

definition cached_tail :: "hash_log \<Rightarrow> hash_log \<times> (exc + int \<times> string)" where
  "cached_tail l =
     (if wl_initialized (hl_tail l) then (l, Inr (wl_count (hl_tail l), wl_tail_hash (hl_tail l))) else verify_log l)"

subsection \<open>The rows of a file\<close>

text \<open>
  What both the scanner and the stream see of the lines: the verified rows, payload and hash. The
  scan is a fold over them.
\<close>

fun verified_rows :: "(nat \<Rightarrow> string) \<Rightarrow> nat \<Rightarrow> string list \<Rightarrow> string \<Rightarrow> exc + (fields \<times> string) list" where
  "verified_rows label n [] prev = Inr []"
| "verified_rows label n (line # ls) prev =
     (if blank line then verified_rows label (n + 1) ls prev
      else bind_result (scan_line (label n) prev line) (\<lambda>row.
           bind_result (verified_rows label (n + 1) ls (snd row)) (\<lambda>rows. Inr (row # rows))))"

definition tail_of :: "string \<Rightarrow> (fields \<times> string) list \<Rightarrow> string" where
  "tail_of prev rows = (if rows = [] then prev else snd (last rows))"

lemma tail_of_simps [simp]:
  "tail_of prev [] = prev" "tail_of prev (row # rows) = tail_of (snd row) rows"
  "tail_of prev (rows @ rows') = tail_of (tail_of prev rows) rows'"
  by (simp_all add: tail_of_def)

lemma scan_row_fields [simp]:
  "cs_prev (scan_row start collect row st) = snd row"
  "cs_count (scan_row start collect row st) = cs_count st + 1"
  "cs_checkpoint (scan_row start collect row st) = (if start = Some (cs_count st + 1) then snd row else cs_checkpoint st)"
  "cs_payloads (scan_row start collect row st) =
     (if collect \<and> (\<exists>k. start = Some k \<and> k \<le> cs_count st) then cs_payloads st @ [fst row] else cs_payloads st)"
  by (simp_all add: scan_row_def Let_def split: prod.split)

lemma scan_lines_rows:
  "scan_lines label start collect n ls st =
     bind_result (verified_rows label n ls (cs_prev st)) (\<lambda>rows. Inr (fold (scan_row start collect) rows st))"
proof (induction ls arbitrary: n st)
  case (Cons line ls)
  show ?case
  proof (cases "blank line")
    case False
    show ?thesis
    proof (cases "scan_line (label n) (cs_prev st) line")
      case (Inr row)
      then show ?thesis
        using False Cons.IH [of "n + 1" "scan_row start collect row st"]
        by (cases "verified_rows label (n + 1) ls (snd row)") simp_all
    qed (simp add: False)
  qed (simp add: Cons.IH)
qed simp

lemma verified_rows_append:
  "verified_rows label n (ls @ ls') prev =
     bind_result (verified_rows label n ls prev) (\<lambda>rows.
       bind_result (verified_rows label (n + length ls) ls' (tail_of prev rows)) (\<lambda>rows'. Inr (rows @ rows')))"
proof (induction ls arbitrary: n prev)
  case Nil
  then show ?case by (cases "verified_rows label n ls' prev") simp_all
next
  case (Cons line ls)
  show ?case
  proof (cases "blank line")
    case False
    show ?thesis
    proof (cases "scan_line (label n) prev line")
      case (Inr row)
      then show ?thesis
        using False Cons.IH [of "n + 1" "snd row"]
        by (cases "verified_rows label (n + 1) ls (snd row)";
            cases "verified_rows label (n + 1 + length ls) ls' (tail_of (snd row) (projr (verified_rows label (n + 1) ls (snd row))))")
          simp_all
    qed (simp add: False)
  qed (simp add: Cons.IH)
qed

lemma nat_Suc_pred: "0 < k \<Longrightarrow> nat k = Suc (nat (k - 1))"
  by simp

lemma drop_nat_Suc: "0 < k \<Longrightarrow> drop (nat k) (x # xs) = drop (nat (k - 1)) xs"
  by (simp only: nat_Suc_pred [of k] drop_Suc_Cons)

lemma take_nat_Suc: "0 < k \<Longrightarrow> take (nat k) (x # xs) = x # take (nat (k - 1)) xs"
  by (simp only: nat_Suc_pred [of k] take_Suc_Cons)

lemma fold_scan_row:
  "cs_prev (fold (scan_row start collect) rows st) = tail_of (cs_prev st) rows"
  "cs_count (fold (scan_row start collect) rows st) = cs_count st + int (length rows)"
  by (induction rows arbitrary: st) simp_all

lemma fold_scan_payloads:
  "cs_payloads (fold (scan_row start collect) rows st) = cs_payloads st @
     (case start of Some k \<Rightarrow> if collect then map fst (drop (nat (k - cs_count st)) rows) else [] | None \<Rightarrow> [])"
proof (induction rows arbitrary: st)
  case (Cons row rows)
  show ?case
  proof (cases start)
    case (Some k)
    show ?thesis
      using Some drop_nat_Suc [of "k - cs_count st" row rows]
      by (cases "k \<le> cs_count st") (simp_all add: Cons [unfolded Some] diff_diff_eq)
  next
    case None
    then show ?thesis by (simp add: Cons [unfolded None])
  qed
qed (simp split: option.split)

lemma fold_scan_checkpoint:
  "cs_checkpoint (fold (scan_row (Some k) collect) rows st) =
     (if cs_count st < k \<and> k \<le> cs_count st + int (length rows)
      then tail_of (cs_prev st) (take (nat (k - cs_count st)) rows) else cs_checkpoint st)"
proof (induction rows arbitrary: st)
  case (Cons row rows)
  consider "k \<le> cs_count st" | "cs_count st = k - 1" | "cs_count st + 1 < k" by linarith
  then show ?case
  proof cases
    case 3
    then show ?thesis
      using take_nat_Suc [of "k - cs_count st" row rows] by (simp add: Cons diff_diff_eq)
  qed (simp_all add: Cons)
qed auto

text \<open>The rows of a file, and what the scanner makes of them.\<close>

definition log_rows :: "string option \<Rightarrow> exc + (fields \<times> string) list" where
  "log_rows file =
     (case file of None \<Rightarrow> Inr [] | Some s \<Rightarrow> verified_rows line_label 1 (text_lines s) zero_hash)"

definition scan_result :: "int \<Rightarrow> bool \<Rightarrow> (fields \<times> string) list \<Rightarrow> chain_scan" where
  "scan_result k collect rows =
     \<lparr>cs_prev = tail_of zero_hash rows, cs_checkpoint = tail_of zero_hash (take (nat k) rows),
      cs_count = int (length rows), cs_payloads = (if collect then map fst (drop (nat k) rows) else [])\<rparr>"

lemma scan_hash_chain_rows:
  "scan_hash_chain file = bind_result (log_rows file) (\<lambda>rows. Inr (int (length rows), tail_of zero_hash rows))"
proof (cases "file")
  case (Some s)
  then show ?thesis
    by (cases "verified_rows line_label 1 (text_lines s) zero_hash")
      (simp_all add: scan_hash_chain_def hash_chain_scan_def log_rows_def scan_lines_rows finish_scan_def
        empty_scan_def fold_scan_row)
qed (simp add: scan_hash_chain_def hash_chain_scan_def log_rows_def empty_scan_def)

lemma hash_chain_scan_rows:
  assumes rows: "log_rows file = Inr rows" and k: "0 \<le> k" "k \<le> int (length rows)"
  shows "hash_chain_scan (Some k) collect file = Inr (scan_result k collect rows)"
proof (cases "file")
  case None
  then show ?thesis using rows k
    by (simp add: hash_chain_scan_def log_rows_def empty_scan_def scan_result_def)
next
  case (Some s)
  define st where "st = fold (scan_row (Some k) collect) rows empty_scan"
  have finish: "finish_scan (Some k) st = Inr (scan_result k collect rows)"
  proof -
    have fields: "cs_payloads st = (if collect then map fst (drop (nat k) rows) else [])"
      "cs_checkpoint st = tail_of zero_hash (take (nat k) rows)"
      "cs_count st = int (length rows)" "cs_prev st = tail_of zero_hash rows"
      using k by (simp_all add: st_def fold_scan_payloads fold_scan_checkpoint fold_scan_row empty_scan_def)
    have "st = scan_result k collect rows"
      by (rule chain_scan.equality) (simp_all add: scan_result_def fields)
    moreover have "finish_scan (Some k) (scan_result k collect rows) = Inr (scan_result k collect rows)"
      using k by (simp add: finish_scan_def scan_result_def)
    ultimately show ?thesis by simp
  qed
  have "cs_prev empty_scan = zero_hash" by (simp add: empty_scan_def)
  then show ?thesis using Some rows k finish
    by (simp add: hash_chain_scan_def log_rows_def scan_lines_rows st_def)
qed

lemma hash_chain_scan_error: "log_rows file = Inl x \<Longrightarrow> 0 \<le> k \<Longrightarrow> hash_chain_scan (Some k) collect file = Inl x"
  by (auto simp: hash_chain_scan_def log_rows_def scan_lines_rows empty_scan_def split: option.splits)

subsection \<open>Writing and reading back a row\<close>

lemma encode_row_render: "fst (encode_row prev p) = render False (sort_keys (row_document prev p)) @ [CHR 0x0A]"
  by (simp add: encode_row_def dumps_def)

lemma row_document_sorted:
  "sort_keys (row_document prev p) = JObj [(''payload'', JObj (sorted_fields p)), (''prev_hash'', JStr prev),
     (''row_hash'', JStr (hash_payload prev p))]"
  by (simp add: row_document_def sort_keys_JObj [of p, symmetric] del: sort_keys.simps(2))
    (simp add: sort_keys_JObj)

lemma row_document_wf: "json_wf (JObj p) \<Longrightarrow> json_wf (row_document prev p)"
  by (simp add: row_document_def)

lemma row_loads:
  "json_wf (JObj p) \<Longrightarrow> json_loads strict (fst (encode_row prev p)) = Inr (sort_keys (row_document prev p))"
  using json_loads_dumps(2) [OF row_document_wf] by (simp add: encode_row_def)

lemma scan_line_row:
  "json_wf (JObj p) \<Longrightarrow> scan_line label prev (fst (encode_row prev p)) = Inr (sorted_fields p, hash_payload prev p)"
  by (simp add: scan_line_def row_loads row_document_sorted check_row_def)

lemma row_not_blank: "\<not> blank (fst (encode_row prev p))"
  by (simp add: encode_row_render row_document_sorted blank_iff py_isspace_def code_point_def)

lemma row_lines: "text_lines (fst (encode_row prev p)) = [fst (encode_row prev p)]"
  using text_lines_whole [of "[fst (encode_row prev p)]" "[]"] whole_line_render
  by (simp add: encode_row_render)

lemma row_ends_line: "ends_line s \<Longrightarrow> ends_line (s @ fst (encode_row prev p))"
  by (simp add: encode_row_render)

lemma verified_rows_row:
  "json_wf (JObj p) \<Longrightarrow>
    verified_rows label n [fst (encode_row prev p)] prev = Inr [(sorted_fields p, hash_payload prev p)]"
  by (simp add: row_not_blank scan_line_row)

subsection \<open>Verified rows are a chain\<close>

lemma scan_line_Inr:
  assumes "scan_line label prev line = Inr (p, h)"
  shows "h = hash_payload prev p \<and> json_wf (JObj p)"
proof -
  obtain row where row: "json_loads False line = Inr row" "check_row label prev row = Inr (p, h)"
    using assms by (auto simp: scan_line_def split: sum.splits)
  then obtain r where r: "row = JObj r" "map_of r ''payload'' = Some (JObj p)" "h = hash_payload prev p"
    by (auto simp: check_row_def Let_def split: json.splits option.splits if_splits)
  have "\<forall>e \<in> set r. json_wf (snd e)" using json_loads_wf [OF row(1)] r(1) by (auto simp: list_all_iff)
  then have "json_wf (JObj p)" using map_of_SomeD [OF r(2)] by (metis snd_conv)
  with r(3) show ?thesis by simp
qed

lemma verified_rows_chain:
  "verified_rows label n ls prev = Inr rows \<Longrightarrow>
     rows = chain_rows prev (map fst rows) \<and> (\<forall>row \<in> set rows. json_wf (JObj (fst row)))"
proof (induction ls arbitrary: n prev rows)
  case (Cons line ls)
  show ?case
  proof (cases "blank line")
    case True
    then show ?thesis using Cons.prems Cons.IH by simp
  next
    case False
    then obtain row rows' where r: "scan_line (label n) prev line = Inr row"
      "verified_rows label (n + 1) ls (snd row) = Inr rows'" "rows = row # rows'"
      using Cons.prems by (auto simp: bind_result_Inr_iff)
    then show ?thesis using Cons.IH [OF r(2)] scan_line_Inr [of "label n" prev line] by (cases row) auto
  qed
qed simp

lemma chain_rows_simps [simp]:
  "length (chain_rows prev ps) = length ps" "map fst (chain_rows prev ps) = ps"
  "tail_of prev (chain_rows prev ps) = foldl hash_payload prev ps"
  "take n (chain_rows prev ps) = chain_rows prev (take n ps)"
  "chain_rows prev (ps @ qs) = chain_rows prev ps @ chain_rows (foldl hash_payload prev ps) qs"
proof -
  show "take n (chain_rows prev ps) = chain_rows prev (take n ps)"
    by (induction ps arbitrary: prev n) (auto simp: take_Cons split: nat.split)
qed (induction ps arbitrary: prev; simp)+

lemma map_fst_drop_chain [simp]: "map fst (drop n (chain_rows prev ps)) = drop n ps"
  by (simp add: drop_map [symmetric])

text \<open>The payloads a file holds.\<close>

definition log_payloads :: "string option \<Rightarrow> exc + fields list" where
  "log_payloads file = bind_result (log_rows file) (\<lambda>rows. Inr (map fst rows))"

lemma log_payloads_iff: "log_payloads file = Inr ps \<longleftrightarrow> log_rows file = Inr (chain_rows zero_hash ps)"
proof
  assume "log_payloads file = Inr ps"
  then obtain rows where "log_rows file = Inr rows" "ps = map fst rows"
    by (auto simp: log_payloads_def bind_result_Inr_iff)
  then show "log_rows file = Inr (chain_rows zero_hash ps)"
    using verified_rows_chain by (fastforce simp: log_rows_def split: option.splits)
qed (simp add: log_payloads_def)

lemma log_payloads_wf: "log_payloads file = Inr ps \<Longrightarrow> p \<in> set ps \<Longrightarrow> json_wf (JObj p)"
  by (auto simp: log_payloads_def log_rows_def bind_result_Inr_iff split: option.splits dest!: verified_rows_chain)

lemma scan_of_payloads:
  assumes "log_payloads file = Inr ps"
  shows "scan_hash_chain file = Inr (int (length ps), chain_tail ps)"
  using assms by (simp add: log_payloads_iff scan_hash_chain_rows chain_tail_def)

lemma scan_result_chain:
  "scan_result k collect (chain_rows zero_hash ps) =
     \<lparr>cs_prev = chain_tail ps, cs_checkpoint = chain_tail (take (nat k) ps), cs_count = int (length ps),
      cs_payloads = (if collect then drop (nat k) ps else [])\<rparr>"
  by (simp add: scan_result_def chain_tail_def)

lemma hash_chain_scan_after:
  assumes "log_payloads file = Inr ps"
  shows "error_class (hash_chain_scan (Some k) collect file) =
    after_rows (\<lambda>k ps. scan_result k collect (chain_rows zero_hash ps)) k ps"
proof -
  have rows: "log_rows file = Inr (chain_rows zero_hash ps)" using assms by (simp add: log_payloads_iff)
  consider "k < 0" | "0 \<le> k" "k \<le> int (length ps)" | "int (length ps) < k" by linarith
  then show ?thesis
  proof cases
    case 1
    then show ?thesis by (simp add: hash_chain_scan_def after_rows_def negative_start_def value_error_def)
  next
    case 2
    then show ?thesis using hash_chain_scan_rows [OF rows] by (simp add: after_rows_def)
  next
    case 3
    show ?thesis
    proof (cases "file")
      case None
      then show ?thesis using 3 rows by (simp add: hash_chain_scan_def after_rows_def chain_error_def)
    next
      case (Some s)
      have "cs_prev empty_scan = zero_hash" "cs_count empty_scan = 0" by (simp_all add: empty_scan_def)
      then show ?thesis using 3 rows Some
        by (simp add: hash_chain_scan_def scan_lines_rows log_rows_def finish_scan_def fold_scan_row after_rows_def chain_error_def)
    qed
  qed
qed

lemma scan_payloads_after:
  assumes "log_payloads file = Inr ps"
  shows "error_class (scan_hash_chain_payloads k file) = after_rows slice_for k ps"
proof (cases "hash_chain_scan (Some k) True file")
  case (Inl x)
  then show ?thesis using hash_chain_scan_after [OF assms, of k True]
    by (simp add: scan_hash_chain_payloads_def after_rows_def split: if_splits)
next
  case (Inr st)
  then have "0 \<le> k" "k \<le> int (length ps)" "st = scan_result k True (chain_rows zero_hash ps)"
    using hash_chain_scan_after [OF assms, of k True] by (simp_all add: after_rows_def split: if_splits)
  then show ?thesis using Inr valid_slice_for [of k ps]
    by (simp add: scan_hash_chain_payloads_def after_rows_def slice_of_def slice_for_def scan_result_chain checked_def)
qed

lemma scan_cut_after:
  assumes "log_payloads file = Inr ps"
  shows "error_class (scan_hash_chain_cut k file) = after_rows cut_for k ps"
proof (cases "hash_chain_scan (Some k) False file")
  case (Inl x)
  then show ?thesis using hash_chain_scan_after [OF assms, of k False]
    by (simp add: scan_hash_chain_cut_def after_rows_def split: if_splits)
next
  case (Inr st)
  then have "0 \<le> k" "k \<le> int (length ps)" "st = scan_result k False (chain_rows zero_hash ps)"
    using hash_chain_scan_after [OF assms, of k False] by (simp_all add: after_rows_def split: if_splits)
  then show ?thesis using Inr valid_cut_for [of k ps]
    by (simp add: scan_hash_chain_cut_def after_rows_def cut_of_def cut_for_def scan_result_chain checked_def)
qed

subsection \<open>Streaming yields the rows of the cut\<close>

text \<open>
  The batches and the rest of a stream over rows, given the batch that is being filled: what is
  yielded and still held is the payloads between the start of the cut and its end.
\<close>

lemma stream_row_fields [simp]:
  "cs_prev (stream_row c row st) = snd row" "cs_count (stream_row c row st) = cs_count st + 1"
  "cs_checkpoint (stream_row c row st) = (if cs_count st + 1 = lc_start_after c then snd row else cs_checkpoint st)"
  "cs_payloads (stream_row c row st) =
     (if lc_start_after c \<le> cs_count st \<and> cs_count st < lc_total_rows c then cs_payloads st @ [fst row] else cs_payloads st)"
  by (simp_all add: stream_row_def Let_def split: prod.split)

lemma flush_batch_fields:
  assumes "flush_batch c b st = (st', out)"
  shows "cs_prev st' = cs_prev st" "cs_count st' = cs_count st" "cs_checkpoint st' = cs_checkpoint st"
    "concat out @ cs_payloads st' = cs_payloads st"
  using assms by (auto simp: flush_batch_def split: if_splits)

definition stream_ok :: "int \<Rightarrow> fields list \<Rightarrow> fields list list \<Rightarrow> fields list \<Rightarrow> bool" where
  "stream_ok b xs out held \<longleftrightarrow> concat out @ held = xs \<and> (\<forall>ys \<in> set out. int (length ys) = b) \<and> int (length held) < b"

lemma flush_batch_ok:
  assumes "flush_batch c b st = (st', out)" "0 < b" "int (length (cs_payloads st)) \<le> b"
    and "int (length (cs_payloads st)) < b \<or> lc_start_after c < cs_count st \<and> cs_count st \<le> lc_total_rows c"
  shows "stream_ok b (cs_payloads st) out (cs_payloads st')"
  using assms by (auto simp: flush_batch_def stream_ok_def split: if_splits)

fun stream_rows :: "ledger_cut \<Rightarrow> int \<Rightarrow> (fields \<times> string) list \<Rightarrow> chain_scan \<Rightarrow> fields list list \<times> chain_scan" where
  "stream_rows c b [] st = ([], st)"
| "stream_rows c b (row # rows) st =
     (let (st, out) = flush_batch c b (stream_row c row st); (rest, st) = stream_rows c b rows st in (out @ rest, st))"

lemma stream_lines_rows:
  assumes "verified_rows label n ls (cs_prev st) = Inr (xs @ ys)" "xs \<noteq> []"
    and "cs_count st + int (length xs) = lc_total_rows c" "stream_rows c b xs st = (out, st')"
  shows "stream_lines changed label c b n ls st =
    (if cs_checkpoint st' \<noteq> lc_checkpoint_hash c \<or> cs_prev st' \<noteq> lc_tail_hash c
     then (out, Inl changed)
     else (out @ (if cs_payloads st' = [] then [] else [cs_payloads st']), Inr None))"
  using assms
proof (induction ls arbitrary: n st xs out)
  case (Cons line ls)
  show ?case
  proof (cases "blank line")
    case True
    then show ?thesis using Cons.IH [of "n + 1" st xs out] Cons.prems by simp
  next
    case False
    obtain row xs' where xs: "xs = row # xs'" using Cons.prems(2) by (cases xs) auto
    have line: "scan_line (label n) (cs_prev st) line = Inr row"
      "verified_rows label (n + 1) ls (snd row) = Inr (xs' @ ys)"
      using Cons.prems(1) False by (auto simp: xs bind_result_Inr_iff)
    obtain st1 out1 where flush: "flush_batch c b (stream_row c row st) = (st1, out1)" by fastforce
    obtain out2 where rest: "stream_rows c b xs' st1 = (out2, st')" "out = out1 @ out2"
      using Cons.prems(4) by (auto simp: xs flush split: prod.splits)
    note st1 = flush_batch_fields [OF flush]
    show ?thesis
    proof (cases "xs' = []")
      case True
      then have "cs_count st1 = lc_total_rows c" using Cons.prems(3) st1 by (simp add: xs)
      then show ?thesis using False line flush rest True by auto
    next
      case more: False
      then have "int (length xs') \<noteq> 0" by simp
      then have "cs_count st1 \<noteq> lc_total_rows c" "cs_count st1 + int (length xs') = lc_total_rows c"
        using Cons.prems(3) st1(2) by (simp_all add: xs del: of_nat_eq_0_iff)
      moreover have "verified_rows label (n + 1) ls (cs_prev st1) = Inr (xs' @ ys)" using line st1 by simp
      ultimately show ?thesis using Cons.IH [OF _ more _ rest(1), of "n + 1"] False line flush rest(2) by simp
    qed
  qed
qed simp

lemma stream_rows_ok:
  assumes "stream_rows c b rows st = (out, st')" "0 < b"
    and "cs_count st + int (length rows) \<le> lc_total_rows c" "int (length (cs_payloads st)) < b"
  shows "stream_ok b (cs_payloads st @ map fst (drop (nat (lc_start_after c - cs_count st)) rows)) out (cs_payloads st')"
    and "cs_prev st' = tail_of (cs_prev st) rows"
    and "cs_checkpoint st' = (if cs_count st < lc_start_after c \<and> lc_start_after c \<le> cs_count st + int (length rows)
       then tail_of (cs_prev st) (take (nat (lc_start_after c - cs_count st)) rows) else cs_checkpoint st)"
proof -
  have "stream_ok b (cs_payloads st @ map fst (drop (nat (lc_start_after c - cs_count st)) rows)) out (cs_payloads st')
    \<and> cs_prev st' = tail_of (cs_prev st) rows
    \<and> cs_checkpoint st' = (if cs_count st < lc_start_after c \<and> lc_start_after c \<le> cs_count st + int (length rows)
       then tail_of (cs_prev st) (take (nat (lc_start_after c - cs_count st)) rows) else cs_checkpoint st)"
    using assms
  proof (induction rows arbitrary: st out)
    case Nil
    then show ?case by (auto simp: stream_ok_def)
  next
    case (Cons row rows)
    obtain st1 out1 where flush: "flush_batch c b (stream_row c row st) = (st1, out1)" by fastforce
    obtain out2 where rest: "stream_rows c b rows st1 = (out2, st')" "out = out1 @ out2"
      using Cons.prems(1) by (auto simp: flush split: prod.splits)
    note st1 = flush_batch_fields [OF flush]
    let ?held = "cs_payloads (stream_row c row st)"
    have "int (length ?held) < b \<or> int (length ?held) \<le> b \<and> lc_start_after c \<le> cs_count st"
      using Cons.prems(4) by auto
    then have ok1: "stream_ok b ?held out1 (cs_payloads st1)"
      using Cons.prems(3) by (intro flush_batch_ok [OF flush assms(2)]) auto
    have "cs_count st1 + int (length rows) \<le> lc_total_rows c" "int (length (cs_payloads st1)) < b"
      using Cons.prems(3) st1 ok1 by (simp_all add: stream_ok_def)
    note ih = Cons.IH [OF rest(1) assms(2) this]
    have held: "?held = cs_payloads st @ (if lc_start_after c \<le> cs_count st then [fst row] else [])"
      using Cons.prems(3) by simp
    have ok: "stream_ok b (?held @ map fst (drop (nat (lc_start_after c - cs_count st1)) rows)) out (cs_payloads st')"
      using ok1 ih rest(2) by (auto simp: stream_ok_def)
    consider "lc_start_after c \<le> cs_count st" | "cs_count st = lc_start_after c - 1"
      | "cs_count st + 1 < lc_start_after c" by linarith
    then show ?case
    proof cases
      case 1
      with ok ih st1 held show ?thesis by simp
    next
      case 2
      with ok ih st1 held show ?thesis by simp
    next
      case 3
      then have k: "0 < lc_start_after c - cs_count st" by simp
      with ok ih st1 held 3 show ?thesis
        using drop_nat_Suc [OF k, of row rows] take_nat_Suc [OF k, of row rows]
        by (simp add: diff_diff_eq)
    qed
  qed
  then show "stream_ok b (cs_payloads st @ map fst (drop (nat (lc_start_after c - cs_count st)) rows)) out (cs_payloads st')"
    "cs_prev st' = tail_of (cs_prev st) rows"
    "cs_checkpoint st' = (if cs_count st < lc_start_after c \<and> lc_start_after c \<le> cs_count st + int (length rows)
       then tail_of (cs_prev st) (take (nat (lc_start_after c - cs_count st)) rows) else cs_checkpoint st)"
    by blast+
qed

lemma stream_ok_batches:
  assumes "stream_ok b xs out held"
  shows "batches_of b xs (out @ (if held = [] then [] else [held]))"
  using assms by (auto simp: stream_ok_def batches_of_def butlast_append dest: in_set_butlastD)

lemma iter_batches_chain:
  assumes ps: "log_payloads file = Inr (ps @ later)" and k: "0 \<le> k" "k \<le> int (length ps)" and b: "0 < b"
  shows "\<exists>out. iter_hash_chain_payload_batches (cut_for k ps) b file = (out, Inr ())
    \<and> batches_of b (drop (nat k) ps) out"
proof (cases "ps = []")
  case True
  then show ?thesis using k b by (simp add: iter_hash_chain_payload_batches_def cut_for_def batches_of_def)
next
  case False
  let ?c = "cut_for k ps" and ?xs = "chain_rows zero_hash ps"
  obtain s where s: "file = Some s" using ps False by (cases "file") (auto simp: log_payloads_def log_rows_def)
  have rows: "verified_rows line_label 1 (text_lines s) (cs_prev empty_scan)
      = Inr (?xs @ chain_rows (chain_tail ps) later)"
    using ps by (simp add: log_payloads_iff log_rows_def s empty_scan_def chain_tail_def)
  have len: "cs_count empty_scan + int (length ?xs) = lc_total_rows ?c" by (simp add: empty_scan_def cut_for_def)
  obtain out st where st: "stream_rows ?c b ?xs empty_scan = (out, st)" by fastforce
  have ok: "stream_ok b (drop (nat k) ps) out (cs_payloads st)"
    using stream_rows_ok(1) [OF st b] len b by (simp add: empty_scan_def cut_for_def)
  have prev: "cs_prev st = chain_tail ps"
    using stream_rows_ok(2) [OF st b] len b by (simp add: empty_scan_def chain_tail_def)
  have mark: "cs_checkpoint st = chain_tail (take (nat k) ps)"
    using stream_rows_ok(3) [OF st b] len b k by (auto simp: empty_scan_def cut_for_def chain_tail_def)
  have "?xs \<noteq> []" using False by (cases ps) simp_all
  from stream_lines_rows [OF rows this len st] prev mark
  have "stream_lines (chain_error ''ledger changed after verified cut'') line_label ?c b 1 (text_lines s) empty_scan =
      (out @ (if cs_payloads st = [] then [] else [cs_payloads st]), Inr None)"
    by (simp add: cut_for_def)
  then have "iter_hash_chain_payload_batches ?c b file = (out @ (if cs_payloads st = [] then [] else [cs_payloads st]), Inr ())"
    using b False by (simp add: iter_hash_chain_payload_batches_def s cut_for_def)
  with stream_ok_batches [OF ok] show ?thesis by blast
qed

subsection \<open>The facade implements the contract\<close>

definition hash_log_holds :: "hash_log \<Rightarrow> fields list \<Rightarrow> bool" where
  "hash_log_holds l ps \<longleftrightarrow>
     log_payloads (lf_text (hl_file l)) = Inr ps \<and> ends_line (file_text (hl_file l)) \<and> \<not> hl_read_only l
     \<and> (wl_initialized (hl_tail l) \<longrightarrow>
          wl_count (hl_tail l) = int (length ps) \<and> wl_tail_hash (hl_tail l) = chain_tail ps
          \<and> wl_signature (hl_tail l) = stat_signature (hl_file l))"

definition hash_log_port :: "(append_outcome, hash_log) ledger_port" where
  "hash_log_port = \<lparr>lp_append = append_payload, lp_verify = verify_log, lp_payloads_after = verified_payloads_after,
     lp_cut_after = verified_cut_after, lp_batches = iter_verified_payload_batches, lp_cached_tail = cached_tail\<rparr>"

text \<open>The writes that succeed.\<close>

fun write_done :: "append_outcome \<Rightarrow> bool" where
  "write_done (Append_done _) = True"
| "write_done _ = False"

lemma log_payloads_file: "log_payloads file = log_payloads (Some (case file of None \<Rightarrow> [] | Some s \<Rightarrow> s))"
  by (cases "file") (simp_all add: log_payloads_def log_rows_def text_lines_def)

lemma log_payloads_lines:
  assumes "log_payloads (Some s) = Inr ps" "ends_line s" "verified_rows line_label (1 + length (text_lines s)) (text_lines u) (chain_tail ps) = r"
  shows "log_payloads (Some (s @ u)) = bind_result r (\<lambda>rows. Inr (ps @ map fst rows))"
proof -
  have "verified_rows line_label 1 (text_lines s) zero_hash = Inr (chain_rows zero_hash ps)"
    using assms(1) by (simp add: log_payloads_iff log_rows_def)
  then show ?thesis using assms(2,3)
    by (cases r) (simp_all add: log_payloads_def log_rows_def text_lines_append verified_rows_append chain_tail_def)
qed

lemma log_payloads_append:
  assumes "log_payloads (Some s) = Inr ps" "ends_line s" "json_wf (JObj p)"
  shows "log_payloads (Some (s @ fst (encode_row (chain_tail ps) p))) = Inr (ps @ [sorted_fields p])"
  using log_payloads_lines [OF assms(1,2)] verified_rows_row [OF assms(3)] by (simp add: row_lines)

lemma adopt_holds:
  "hash_log_holds l ps \<Longrightarrow> hash_log_holds (adopt (int (length ps)) (chain_tail ps) l) ps"
  by (simp add: hash_log_holds_def adopt_def tail_verified_def)

lemma verify_log_holds:
  "hash_log_holds l ps \<Longrightarrow> verify_log l = (adopt (int (length ps)) (chain_tail ps) l, Inr (int (length ps), chain_tail ps))"
  by (simp add: hash_log_holds_def verify_log_def scan_of_payloads)

lemma ensure_owned_holds:
  assumes "hash_log_holds l ps"
  obtains l' where "ensure_owned_tail l = (l', Inr ())" "hash_log_holds l' ps" "wl_initialized (hl_tail l')"
    "hl_file l' = hl_file l" "hl_fsync_every l' = hl_fsync_every l"
proof (cases "wl_initialized (hl_tail l)")
  case True
  then show ?thesis using that [of l] assms by (simp add: ensure_owned_tail_def hash_log_holds_def)
next
  case False
  then show ?thesis using that [of "adopt (int (length ps)) (chain_tail ps) l"] adopt_holds [OF assms]
    by (simp add: ensure_owned_tail_def verify_log_holds [OF assms] adopt_def tail_verified_def)
qed

lemma append_payload_holds:
  assumes l: "hash_log_holds l ps" and w: "write_done w" and p: "json_wf (JObj p)"
  shows "snd (append_payload p w l) = Inr (hash_payload (chain_tail ps) p)
    \<and> hash_log_holds (fst (append_payload p w l)) (ps @ [sorted_fields p])"
proof -
  obtain l' where l': "ensure_owned_tail l = (l', Inr ())" "hash_log_holds l' ps" "wl_initialized (hl_tail l')"
    by (rule ensure_owned_holds [OF l])
  obtain sig where w: "w = Append_done sig" using w by (cases w) auto
  let ?s = "file_text (hl_file l')" and ?row = "encode_row (chain_tail ps) p"
  have s: "log_payloads (Some ?s) = Inr ps" "ends_line ?s"
    using l'(2) log_payloads_file [of "lf_text (hl_file l')"] by (simp_all add: hash_log_holds_def file_text_def)
  have tail: "wl_tail_hash (hl_tail l') = chain_tail ps" "wl_count (hl_tail l') = int (length ps)" "\<not> hl_read_only l'"
    using l'(2,3) by (simp_all add: hash_log_holds_def)
  define f' where "f' = fst (write_row (fst ?row) (hl_fsync_every l' \<le> wl_since_sync (hl_tail l') + 1) w (hl_file l'))"
  have f': "lf_text f' = Some (?s @ fst ?row)" "write_row (fst ?row) (hl_fsync_every l' \<le> wl_since_sync (hl_tail l') + 1) w (hl_file l') = (f', Inr ())"
    by (simp_all add: f'_def write_row_def w)
  have "writer_append (hl_fsync_every l') p w (hl_file l', hl_tail l') =
      ((f', tail_appended (hash_payload (chain_tail ps) p) (stat_signature f')
          (hl_fsync_every l' \<le> wl_since_sync (hl_tail l') + 1) (hl_tail l')), Inr (hash_payload (chain_tail ps) p))"
    using f'(2) by (simp add: writer_append_def Let_def tail encode_row_def)
  then have run: "append_payload p w l = (l'\<lparr>hl_file := f', hl_tail := tail_appended (hash_payload (chain_tail ps) p) (stat_signature f')
      (hl_fsync_every l' \<le> wl_since_sync (hl_tail l') + 1) (hl_tail l')\<rparr>, Inr (hash_payload (chain_tail ps) p))"
    using l l'(1) by (simp add: append_payload_def hash_log_holds_def)
  have "file_text f' = ?s @ fst ?row" by (simp add: file_text_def f'(1))
  then show ?thesis
    using log_payloads_append [OF s p] row_ends_line [OF s(2), of "chain_tail ps" p] tail f'(1)
    by (simp add: run hash_log_holds_def tail_appended_def)
qed

interpretation hash_log: forensic_ledger hash_log_port hash_log_holds "\<lambda>p w l. write_done w"
proof unfold_locales
  fix l ps p
  assume "hash_log_holds l ps" "p \<in> set ps"
  then show "json_wf (JObj p)" unfolding hash_log_holds_def using log_payloads_wf by blast
next
  fix l ps w p
  assume "hash_log_holds l ps" "write_done w" "json_wf (JObj p)"
  then show "snd (lp_append hash_log_port p w l) = Inr (hash_payload (chain_tail ps) p)
      \<and> hash_log_holds (fst (lp_append hash_log_port p w l)) (ps @ [sorted_fields p])"
    using append_payload_holds by (simp add: hash_log_port_def)
next
  fix l ps assume "hash_log_holds l ps"
  then show "snd (lp_verify hash_log_port l) = Inr (int (length ps), chain_tail ps) \<and> hash_log_holds (fst (lp_verify hash_log_port l)) ps"
    by (simp add: hash_log_port_def verify_log_holds adopt_holds)
next
  fix l ps k assume l: "hash_log_holds l ps"
  then have "error_class (scan_hash_chain_payloads k (lf_text (hl_file l))) = after_rows slice_for k ps"
    by (intro scan_payloads_after) (simp add: hash_log_holds_def)
  then show "error_class (snd (lp_payloads_after hash_log_port k l)) = after_rows slice_for k ps
      \<and> hash_log_holds (fst (lp_payloads_after hash_log_port k l)) ps"
    using adopt_holds [OF l] l
    by (cases "scan_hash_chain_payloads k (lf_text (hl_file l))")
      (auto simp: hash_log_port_def verified_payloads_after_def after_rows_def slice_for_def split: if_splits)
next
  fix l ps k assume l: "hash_log_holds l ps"
  then have "error_class (scan_hash_chain_cut k (lf_text (hl_file l))) = after_rows cut_for k ps"
    by (intro scan_cut_after) (simp add: hash_log_holds_def)
  then show "error_class (snd (lp_cut_after hash_log_port k l)) = after_rows cut_for k ps
      \<and> hash_log_holds (fst (lp_cut_after hash_log_port k l)) ps"
    using adopt_holds [OF l] l
    by (cases "scan_hash_chain_cut k (lf_text (hl_file l))")
      (auto simp: hash_log_port_def verified_cut_after_def after_rows_def cut_for_def split: if_splits)
next
  fix l ps later and b k :: int
  assume "hash_log_holds l (ps @ later)" "0 \<le> k" "k \<le> int (length ps)" "0 < b"
  then show "\<exists>out. lp_batches hash_log_port (cut_for k ps) b l = (out, Inr ()) \<and> batches_of b (drop (nat k) ps) out"
    using iter_batches_chain [of "lf_text (hl_file l)" ps later k b]
    by (simp add: hash_log_port_def iter_verified_payload_batches_def hash_log_holds_def)
next
  fix l ps assume "hash_log_holds l ps"
  then show "snd (lp_cached_tail hash_log_port l) = Inr (int (length ps), chain_tail ps)
      \<and> hash_log_holds (fst (lp_cached_tail hash_log_port l)) ps"
    using verify_log_holds [of l ps] adopt_holds [of l ps]
    by (cases "wl_initialized (hl_tail l)") (simp_all add: hash_log_port_def cached_tail_def hash_log_holds_def)
qed

subsection \<open>Properties\<close>

text \<open>
  C32: the hash-chained file implements an append-only list of payloads. Any sequence of appends
  whose writes succeed, verifications, slices, cuts and tail queries gets the answers the list
  gives: an append returns the hash that chains the payload to all before it, a slice or cut after
  \<open>k\<close> rows holds exactly the payloads after \<open>k\<close> and the hashes at both ends, and a start beyond the
  end or below zero is the error it should be.
\<close>

theorem hash_log_refines:
  assumes "hash_log_holds l ps" "appends_fine hash_log_port (\<lambda>p w l. write_done w) ops l"
  shows "snd (ledger_calls hash_log_port ops l) = snd (spec_calls ops ps)
    \<and> hash_log_holds (fst (ledger_calls hash_log_port ops l)) (fst (spec_calls ops ps))"
  using assms by (rule hash_log.calls_refine)

definition missing_log :: log_file where
  "missing_log = \<lparr>lf_text = None, lf_stat = (0, 0, 0, 0), lf_synced = []\<rparr>"

definition fresh_log :: hash_log where
  "fresh_log = \<lparr>hl_file = missing_log, hl_tail = new_tail, hl_fsync_every = 1, hl_read_only = False\<rparr>"

lemma fresh_log_holds: "hash_log_holds fresh_log []"
  by (simp add: hash_log_holds_def fresh_log_def missing_log_def new_tail_def log_payloads_def log_rows_def
      file_text_def ends_line_def)

theorem hash_log_refines_witness:
  "\<exists>l. ledger_calls hash_log_port [Op_append [(''id'', JInt 1)] (Append_done (0, 1, 2, 3)), Op_payloads 1, Op_payloads 2] fresh_log =
    (l, [Reply_hash (Inr (hash_payload zero_hash [(''id'', JInt 1)])),
         Reply_slice (Inr (slice_for 1 [[(''id'', JInt 1)]])), Reply_slice (Inl ''HashChainError'')])
    \<and> hash_log_holds l [[(''id'', JInt 1)]]"
proof -
  let ?ops = "[Op_append [(''id'', JInt 1)] (Append_done (0, 1, 2, 3)), Op_payloads 1, Op_payloads 2]"
  have "appends_fine hash_log_port (\<lambda>p w l. write_done w) ?ops fresh_log" by simp
  from hash_log_refines [OF fresh_log_holds this] show ?thesis
    by (cases "ledger_calls hash_log_port ?ops fresh_log") (simp add: sorted_fields_def after_rows_def)
qed

text \<open>
  Two chains with the same tail: equal payloads, or two rows at the same position whose hashed texts
  differ and have the same SHA-256.
\<close>

definition row_collision :: "fields list \<Rightarrow> fields list \<Rightarrow> bool" where
  "row_collision ps qs \<longleftrightarrow>
     (\<exists>i < min (length ps) (length qs).
        row_preimage (chain_tail (take i ps)) (ps ! i) \<noteq> row_preimage (chain_tail (take i qs)) (qs ! i)
        \<and> hash_payload (chain_tail (take i ps)) (ps ! i) = hash_payload (chain_tail (take i qs)) (qs ! i))"

lemma row_collision_append:
  assumes "row_collision ps qs" shows "row_collision (ps @ us) (qs @ vs)"
proof -
  obtain i where "i < min (length ps) (length qs)"
    "row_preimage (chain_tail (take i ps)) (ps ! i) \<noteq> row_preimage (chain_tail (take i qs)) (qs ! i)"
    "hash_payload (chain_tail (take i ps)) (ps ! i) = hash_payload (chain_tail (take i qs)) (qs ! i)"
    using assms by (auto simp: row_collision_def)
  then show ?thesis unfolding row_collision_def by (intro exI [of _ i]) (simp add: nth_append)
qed

lemma row_preimage_inject:
  assumes "is_sha256 a" "is_sha256 b" "json_wf (JObj p)" "json_wf (JObj q)" "row_preimage a p = row_preimage b q"
  shows "a = b \<and> sorted_fields p = sorted_fields q"
proof -
  have "length a = length b" using assms(1,2) by (simp add: is_sha256_def)
  then have "a = b" "dumps False (JObj p) = dumps False (JObj q)"
    using assms(5) by (simp_all add: row_preimage_def)
  then show ?thesis using dumps_inject [OF assms(3,4)] by (simp add: sort_keys_JObj del: sort_keys.simps)
qed

lemma chain_tail_inject:
  assumes "length ps = length qs" "chain_tail ps = chain_tail qs"
    and "\<forall>p \<in> set ps \<union> set qs. json_wf (JObj p)"
  shows "map sorted_fields ps = map sorted_fields qs \<or> row_collision ps qs"
  using assms
proof (induction ps arbitrary: qs rule: rev_induct)
  case (snoc p ps)
  obtain q qs' where qs: "qs = qs' @ [q]" using snoc.prems(1) by (cases qs rule: rev_cases) auto
  have len: "length ps = length qs'" using snoc.prems(1) by (simp add: qs)
  show ?case
  proof (cases "row_preimage (chain_tail ps) p = row_preimage (chain_tail qs') q")
    case True
    then have "chain_tail ps = chain_tail qs' \<and> sorted_fields p = sorted_fields q"
      using snoc.prems(3) by (intro row_preimage_inject) (simp_all add: qs)
    then show ?thesis using snoc.IH [of qs'] snoc.prems(3) len row_collision_append by (auto simp: qs)
  next
    case False
    then have "row_collision (ps @ [p]) qs" unfolding row_collision_def
      using snoc.prems(2) len by (intro exI [of _ "length ps"]) (simp add: qs nth_append)
    then show ?thesis ..
  qed
qed simp

text \<open>
  C33: the hash chain makes a ledger file tamper-evident. If two files verify with the same row count
  and tail hash, they hold the same payloads, up to the order of keys, or two of their rows at the
  same position exhibit a SHA-256 collision.
\<close>

theorem hash_chain_tamper_evident:
  assumes "scan_hash_chain f = Inr (n, h)" "scan_hash_chain g = Inr (n, h)"
  shows "\<exists>ps qs. log_payloads f = Inr ps \<and> log_payloads g = Inr qs
    \<and> (map sorted_fields ps = map sorted_fields qs \<or> row_collision ps qs)"
proof -
  obtain ps qs where ps: "log_payloads f = Inr ps" "log_payloads g = Inr qs"
    using assms by (auto simp: scan_hash_chain_rows log_payloads_def bind_result_Inr_iff)
  moreover have "length ps = length qs" "chain_tail ps = chain_tail qs"
    using assms ps by (simp_all add: scan_of_payloads)
  ultimately show ?thesis using chain_tail_inject log_payloads_wf by blast
qed

theorem hash_chain_tamper_evident_witness:
  "\<exists>ps qs. log_payloads (Some (fst (encode_row zero_hash [(''id'', JInt 1)]))) = Inr ps
    \<and> log_payloads (Some (CHR 0x0A # fst (encode_row zero_hash [(''id'', JInt 1)]))) = Inr qs
    \<and> (map sorted_fields ps = map sorted_fields qs \<or> row_collision ps qs)"
proof -
  let ?p = "[(''id'', JInt 1)]" and ?row = "fst (encode_row zero_hash [(''id'', JInt 1)])"
  have wf: "json_wf (JObj ?p)" by simp
  have "log_payloads (Some ?row) = Inr [sorted_fields ?p]"
    using log_payloads_append [OF _ _ wf, of "[]" "[]"] by (simp add: log_payloads_def log_rows_def text_lines_def ends_line_def)
  moreover have "log_payloads (Some (CHR 0x0A # ?row)) = Inr [sorted_fields ?p]"
    using log_payloads_append [OF _ _ wf, of "[CHR 0x0A]" "[]"]
    by (simp add: log_payloads_def log_rows_def text_lines_def ends_line_def blank_iff py_isspace_def code_point_def)
  ultimately show ?thesis
    using hash_chain_tamper_evident [of "Some ?row" 1 "chain_tail [sorted_fields ?p]" "Some (CHR 0x0A # ?row)"]
    by (simp only: scan_of_payloads) simp
qed

text \<open>What a file holds that is continued by more text.\<close>

lemma log_rows_lines:
  assumes "log_payloads (Some s) = Inr ps" "ends_line s"
  shows "log_rows (Some (s @ u)) = bind_result (verified_rows line_label (1 + length (text_lines s)) (text_lines u) (chain_tail ps))
    (\<lambda>rows. Inr (chain_rows zero_hash ps @ rows))"
  using assms by (simp add: log_payloads_iff log_rows_def text_lines_append verified_rows_append chain_tail_def)

lemma row_text:
  obtains kvs where "fst (encode_row prev p) = render False (JObj kvs) @ [CHR 0x0A]"
    "sort_keys (row_document prev p) = JObj kvs"
proof
  show "fst (encode_row prev p) = render False (JObj (sorted_fields
      [(''prev_hash'', JStr prev), (''row_hash'', JStr (hash_payload prev p)), (''payload'', JObj p)])) @ [CHR 0x0A]"
    by (simp only: encode_row_render row_document_def sort_keys_JObj)
qed (simp only: row_document_def sort_keys_JObj)

text \<open>A piece of a row without its line feed is one line, which is not blank.\<close>

lemma row_piece_line:
  assumes "u \<noteq> []" "render ea (JObj kvs) = u @ q" "u' = u @ v" "line_feed \<notin> set v" "carriage_return \<notin> set v"
  shows "text_lines u' = [u']" "\<not> blank u'"
proof -
  have "line_feed \<notin> set u" "carriage_return \<notin> set u"
    using render_visible(1) [of line_feed ea "JObj kvs"] render_visible(1) [of carriage_return ea "JObj kvs"]
    unfolding assms(2) by (auto simp: code_point_def)
  then show "text_lines u' = [u']" using text_lines_whole [of "[]" u'] assms(1,3,4,5) by simp
  obtain us where "u = CHR ''{'' # us" using assms(1,2) by (cases u) auto
  then show "\<not> blank u'" by (simp add: assms(3) blank_iff py_isspace_def code_point_def)
qed

lemma torn_row_scan:
  assumes s: "log_payloads (Some s) = Inr ps" "ends_line s" and p: "json_wf (JObj p)"
    and row: "row = fst (encode_row (chain_tail ps) p)"
  shows "scan_hash_chain (Some (s @ take n row)) =
    (if n = 0 then Inr (int (length ps), chain_tail ps)
     else if n < length row - 1
     then Inl (chain_error (line_label (1 + length (text_lines s)) @ '': invalid/truncated JSON''))
     else Inr (int (length ps) + 1, hash_payload (chain_tail ps) p))"
proof -
  obtain kvs where kvs: "row = render False (JObj kvs) @ [CHR 0x0A]" "sort_keys (row_document (chain_tail ps) p) = JObj kvs"
    using row_text [of "chain_tail ps" p] row by blast
  have wf: "json_wf (JObj kvs)" using json_wf_sort_keys [OF row_document_wf [OF p], of "chain_tail ps"] kvs(2) by simp
  let ?doc = "render False (JObj kvs)"
  let ?label = "line_label (1 + length (text_lines s))"
  have read: "scan_line l (chain_tail ps) ?doc = Inr (sorted_fields p, hash_payload (chain_tail ps) p)" for l
    using json_loads_render(1) [OF wf, of False False] unfolding kvs(2) [symmetric]
    by (simp only: scan_line_def sum.case) (simp add: row_document_sorted check_row_def)
  consider "n = 0" | "0 < n" "n < length ?doc" | "n = length ?doc" | "length row \<le> n"
    using kvs(1) by fastforce
  then show ?thesis
  proof cases
    case 1
    then show ?thesis using scan_of_payloads [OF s(1)] by simp
  next
    case 2
    define u where "u = take n ?doc"
    have u: "u \<noteq> []" "?doc = u @ drop n ?doc" "drop n ?doc \<noteq> []"
      using 2 length_render_pos [of False "JObj kvs"] by (simp_all add: u_def del: render.simps)
    have "text_lines u = [u]" "\<not> blank u" using row_piece_line [OF u(1,2), of u "[]"] by simp_all
    moreover have "json_loads False u = Inl Syntax" by (rule json_loads_prefix [OF wf u(2,3)])
    ultimately have "log_rows (Some (s @ u)) = Inl (chain_error (?label @ '': invalid/truncated JSON''))"
      by (simp add: log_rows_lines [OF s] scan_line_def)
    moreover have "take n row = u" using 2 by (simp add: kvs(1) u_def del: render.simps)
    ultimately show ?thesis using 2 by (simp add: scan_hash_chain_rows kvs(1) del: render.simps)
  next
    case 3
    have ne: "?doc \<noteq> []" by simp
    have "text_lines ?doc = [?doc]" "\<not> blank ?doc"
      using row_piece_line [OF ne, of False kvs "[]" ?doc "[]"] by (simp_all del: render.simps)
    then have "log_rows (Some (s @ ?doc)) = Inr (chain_rows zero_hash ps @ [(sorted_fields p, hash_payload (chain_tail ps) p)])"
      by (simp add: log_rows_lines [OF s] read del: render.simps)
    then show ?thesis using 3 ne
      by (simp add: scan_hash_chain_rows kvs(1) tail_of_def del: render.simps)
  next
    case 4
    then show ?thesis
      using scan_of_payloads [OF log_payloads_append [OF s p]] by (simp add: row [symmetric]) (auto simp: kvs(1))
  qed
qed

text \<open>What a failed append leaves.\<close>

lemma torn_append_state:
  assumes l: "hash_log_holds l ps"
    and run: "append_payload p (Append_fails (Some n) sig x) l = (l', r)"
  shows "r = Inl x" "\<not> hl_read_only l'" "wl_initialized (hl_tail l')"
    "lf_text (hl_file l') = Some (file_text (hl_file l) @ take n (fst (encode_row (chain_tail ps) p)))"
    "stat_signature (hl_file l') = Some sig" "wl_signature (hl_tail l') = stat_signature (hl_file l)"
proof -
  obtain l1 where l1: "ensure_owned_tail l = (l1, Inr ())" "hash_log_holds l1 ps" "wl_initialized (hl_tail l1)"
    "hl_file l1 = hl_file l"
    by (rule ensure_owned_holds [OF l])
  let ?s = "file_text (hl_file l)" and ?row = "fst (encode_row (chain_tail ps) p)"
  have tail: "wl_tail_hash (hl_tail l1) = chain_tail ps" "wl_signature (hl_tail l1) = stat_signature (hl_file l)" "\<not> hl_read_only l1"
    using l1(2,3,4) by (simp_all add: hash_log_holds_def)
  have "l' = l1\<lparr>hl_file := (hl_file l)\<lparr>lf_text := Some (?s @ take n ?row), lf_stat := sig\<rparr>\<rparr>" "r = Inl x"
    using run l l1(1,4)
    by (auto simp: append_payload_def hash_log_holds_def writer_append_def write_row_def tail encode_row_def)
  then show "r = Inl x" "\<not> hl_read_only l'" "wl_initialized (hl_tail l')"
    "lf_text (hl_file l') = Some (?s @ take n ?row)"
    "stat_signature (hl_file l') = Some sig" "wl_signature (hl_tail l') = stat_signature (hl_file l)"
    using tail l1(3) by (simp_all add: stat_signature_def)
qed

text \<open>
  C34: a write that is cut off never goes unnoticed. When an append raises with the first \<open>n\<close>
  characters of its row in the file, a later verification reports the old ledger if nothing
  arrived, an invalid row, naming its line, if a part of the document arrived, and the new row
  if the document is complete. And while the file's signature differs from the one the writer
  remembers, every further append of this writer raises and leaves the file alone.
\<close>

theorem torn_append_detected:
  assumes l: "hash_log_holds l ps" and p: "json_wf (JObj p)"
    and run: "append_payload p (Append_fails (Some n) sig x) l = (l', r)"
  shows "r = Inl x
    \<and> scan_hash_chain (lf_text (hl_file l')) =
      (let row = fst (encode_row (chain_tail ps) p)
       in if n = 0 then Inr (int (length ps), chain_tail ps)
          else if n < length row - 1
          then Inl (chain_error (line_label (1 + length (text_lines (file_text (hl_file l)))) @ '': invalid/truncated JSON''))
          else Inr (int (length ps) + 1, hash_payload (chain_tail ps) p))
    \<and> (Some sig \<noteq> stat_signature (hl_file l) \<longrightarrow>
       (\<forall>p' w. \<exists>y. append_payload p' w l' = (l', Inl y)))"
proof -
  let ?s = "file_text (hl_file l)"
  have s: "log_payloads (Some ?s) = Inr ps" "ends_line ?s"
    using l log_payloads_file [of "lf_text (hl_file l)"] by (simp_all add: hash_log_holds_def file_text_def)
  note state = torn_append_state [OF l run]
  have "\<exists>y. append_payload p' w l' = (l', Inl y)" if "Some sig \<noteq> stat_signature (hl_file l)" for p' w
    using that state by (simp add: append_payload_def ensure_owned_tail_def)
  then show ?thesis using torn_row_scan [OF s p refl, of n] state by (simp add: Let_def)
qed

theorem torn_append_detected_witness:
  "\<exists>l'. append_payload [(''id'', JInt 1)] (Append_fails (Some 1) (0, 1, 2, 3) (''OSError'', [])) fresh_log = (l', Inl (''OSError'', []))
    \<and> scan_hash_chain (lf_text (hl_file l')) = Inl (chain_error (line_label 1 @ '': invalid/truncated JSON''))"
proof -
  let ?p = "[(''id'', JInt 1)]"
  obtain l' r where run: "append_payload ?p (Append_fails (Some 1) (0, 1, 2, 3) (''OSError'', [])) fresh_log = (l', r)"
    by fastforce
  have "1 < length (fst (encode_row (chain_tail []) ?p)) - 1"
    by (simp add: encode_row_render row_document_sorted)
  with torn_append_detected [OF fresh_log_holds _ run] show ?thesis
    using run by (simp add: Let_def fresh_log_def missing_log_def file_text_def text_lines_def)
qed

text \<open>
  A row that lost only its line feed is accepted by verification, but the next writer appends
  to the same line: its append succeeds and returns a hash, and from then on the ledger does not
  verify any more, so both rows are lost.
\<close>

theorem lost_newline_corrupts:
  assumes l: "hash_log_holds l ps" and p: "json_wf (JObj p)" "json_wf (JObj p')"
    and torn: "append_payload p (Append_fails (Some (length (fst (encode_row (chain_tail ps) p)) - 1)) sig x) l = (l1, Inl x)"
    and restart: "l2 = l1\<lparr>hl_tail := new_tail\<rparr>"
    and again: "append_payload p' (Append_done sig') l2 = (l3, r)"
  shows "r = Inr (hash_payload (hash_payload (chain_tail ps) p) p')
    \<and> snd (verify_log l3) =
        Inl (chain_error (line_label (1 + length (text_lines (file_text (hl_file l)))) @ '': invalid/truncated JSON''))"
proof -
  let ?s = "file_text (hl_file l)" and ?row = "fst (encode_row (chain_tail ps) p)"
  let ?n = "length ?row - 1"
  have s: "log_payloads (Some ?s) = Inr ps" "ends_line ?s"
    using l log_payloads_file [of "lf_text (hl_file l)"] by (simp_all add: hash_log_holds_def file_text_def)
  obtain kvs where kvs: "?row = render False (JObj kvs) @ [CHR 0x0A]" "sort_keys (row_document (chain_tail ps) p) = JObj kvs"
    by (rule row_text)
  obtain kvs' where kvs': "fst (encode_row (hash_payload (chain_tail ps) p) p') = render False (JObj kvs') @ [CHR 0x0A]"
    by (rule row_text)
  let ?doc = "render False (JObj kvs)" and ?row' = "fst (encode_row (hash_payload (chain_tail ps) p) p')"
  have n: "take ?n ?row = ?doc" "?n \<noteq> 0" by (simp_all add: kvs(1))
  note state = torn_append_state [OF l torn]
  have content: "lf_text (hl_file l2) = Some (?s @ ?doc)" using state(4) n(1) by (simp add: restart)
  have "scan_hash_chain (Some (?s @ take ?n ?row)) = Inr (int (length ps) + 1, hash_payload (chain_tail ps) p)"
    using torn_row_scan [OF s p(1) refl, of ?n] n(2) by simp
  then have old: "scan_hash_chain (lf_text (hl_file l2)) = Inr (int (length ps) + 1, hash_payload (chain_tail ps) p)"
    by (simp only: n(1) content)
  define l2' where "l2' = adopt (int (length ps) + 1) (hash_payload (chain_tail ps) p) l2"
  have flags: "\<not> hl_read_only l2" "\<not> wl_initialized (hl_tail l2)" using state(2) by (simp_all add: restart new_tail_def)
  then have owned: "ensure_owned_tail l2 = (l2', Inr ())" by (simp add: ensure_owned_tail_def verify_log_def old l2'_def)
  have tail: "wl_tail_hash (hl_tail l2') = hash_payload (chain_tail ps) p" "file_text (hl_file l2') = ?s @ ?doc"
    using content by (simp_all add: l2'_def adopt_def tail_verified_def file_text_def)
  have new: "r = Inr (hash_payload (hash_payload (chain_tail ps) p) p')" "lf_text (hl_file l3) = Some (?s @ ?doc @ ?row')"
    using again flags(1)
    by (auto simp: append_payload_def owned writer_append_def write_row_def tail encode_row_def Let_def simp del: render.simps)
  have wf: "json_wf (JObj kvs)" using json_wf_sort_keys [OF row_document_wf [OF p(1)], of "chain_tail ps"] kvs(2) by simp
  let ?obj' = "render False (JObj kvs')"
  have ne: "?doc \<noteq> []" "?obj' \<noteq> []" by simp_all
  have clean: "line_feed \<notin> set ?obj'" "carriage_return \<notin> set ?obj'"
    using render_visible(1) [of line_feed False "JObj kvs'"] render_visible(1) [of carriage_return False "JObj kvs'"]
    by (auto simp: code_point_def)
  have line: "text_lines (?doc @ ?row') = [?doc @ ?row']"
  proof -
    have "whole_line (?doc @ ?row')"
      unfolding whole_line_def kvs'
      using clean render_visible(1) [of line_feed False "JObj kvs"] render_visible(1) [of carriage_return False "JObj kvs"]
      by (intro exI [of _ "?doc @ ?obj'"]) (auto simp: code_point_def simp del: render.simps)
    then show ?thesis using text_lines_whole [of "[?doc @ ?row']" "[]"] by simp
  qed
  have blank: "\<not> blank (?doc @ ?row')" by (simp add: blank_iff py_isspace_def code_point_def)
  have "json_loads False (?doc @ ?row') = Inl Syntax"
    by (rule json_loads_continued [OF wf]) (simp_all add: kvs' number_stop_def skip_ws_def json_ws_def)
  then have "log_rows (Some (?s @ ?doc @ ?row')) =
      Inl (chain_error (line_label (1 + length (text_lines ?s)) @ '': invalid/truncated JSON''))"
    using blank line by (simp add: log_rows_lines [OF s] scan_line_def del: render.simps)
  then show ?thesis using new by (simp add: verify_log_def scan_hash_chain_rows del: render.simps)
qed

theorem lost_newline_corrupts_witness:
  "\<exists>l1 l3 h. append_payload [(''id'', JInt 1)]
        (Append_fails (Some (length (fst (encode_row zero_hash [(''id'', JInt 1)])) - 1)) (0, 1, 2, 3) (''OSError'', [])) fresh_log
      = (l1, Inl (''OSError'', []))
    \<and> append_payload [(''id'', JInt 2)] (Append_done (0, 1, 5, 6)) (l1\<lparr>hl_tail := new_tail\<rparr>) = (l3, Inr h)
    \<and> snd (verify_log l3) = Inl (chain_error (line_label 1 @ '': invalid/truncated JSON''))"
proof -
  let ?out = "Append_fails (Some (length (fst (encode_row (chain_tail []) [(''id'', JInt 1)])) - 1)) (0, 1, 2, 3) (''OSError'', [])"
  obtain l1 r where torn: "append_payload [(''id'', JInt 1)] ?out fresh_log = (l1, r)" by fastforce
  then have r: "r = Inl (''OSError'', [])" using torn_append_state(1) [OF fresh_log_holds] by blast
  obtain l3 r' where again: "append_payload [(''id'', JInt 2)] (Append_done (0, 1, 5, 6)) (l1\<lparr>hl_tail := new_tail\<rparr>) = (l3, r')"
    by fastforce
  have "r' = Inr (hash_payload (hash_payload (chain_tail []) [(''id'', JInt 1)]) [(''id'', JInt 2)])
    \<and> snd (verify_log l3) =
        Inl (chain_error (line_label (1 + length (text_lines (file_text (hl_file fresh_log)))) @ '': invalid/truncated JSON''))"
    by (rule lost_newline_corrupts [OF fresh_log_holds _ _ torn [unfolded r] refl again]) simp_all
  then show ?thesis using torn again r by (auto simp: fresh_log_def missing_log_def file_text_def text_lines_def)
qed

text \<open>
  \<open>verified\<close> forgets how many rows are not yet on stable storage. A writer that syncs every \<open>m > 1\<close>
  rows and verifies after each append therefore never syncs at all.
\<close>

fun append_and_verify :: "(fields \<times> file_stat) list \<Rightarrow> hash_log \<Rightarrow> hash_log" where
  "append_and_verify [] l = l"
| "append_and_verify ((p, sig) # xs) l =
     append_and_verify xs (fst (verify_log (fst (append_payload p (Append_done sig) l))))"

lemma verify_never_synced:
  assumes "hash_log_holds l ps" "1 < hl_fsync_every l" "wl_initialized (hl_tail l) \<longrightarrow> wl_since_sync (hl_tail l) = 0"
    and "\<forall>(p, sig) \<in> set xs. json_wf (JObj p)"
  shows "hash_log_holds (append_and_verify xs l) (ps @ map (\<lambda>(p, _). sorted_fields p) xs)
    \<and> lf_synced (hl_file (append_and_verify xs l)) = lf_synced (hl_file l)"
  using assms
proof (induction xs arbitrary: l ps)
  case (Cons a xs)
  obtain p sig where a: "a = (p, sig)" by (cases a)
  let ?l1 = "fst (append_payload p (Append_done sig) l)"
  have l1: "hash_log_holds ?l1 (ps @ [sorted_fields p])"
    using append_payload_holds [OF Cons.prems(1), of "Append_done sig" p] Cons.prems(4) a by simp
  obtain l' where l': "ensure_owned_tail l = (l', Inr ())" "hl_file l' = hl_file l" "hl_fsync_every l' = hl_fsync_every l"
    "wl_since_sync (hl_tail l') = 0"
  proof (cases "wl_initialized (hl_tail l)")
    case True
    then show ?thesis using that [of l] Cons.prems(1,3) by (simp add: ensure_owned_tail_def hash_log_holds_def)
  next
    case False
    then show ?thesis using that [of "adopt (int (length ps)) (chain_tail ps) l"]
      by (simp add: ensure_owned_tail_def verify_log_holds [OF Cons.prems(1)] adopt_def tail_verified_def)
  qed
  have "lf_synced (hl_file ?l1) = lf_synced (hl_file l)" "hl_fsync_every ?l1 = hl_fsync_every l"
    using Cons.prems(1,2) l' by (simp_all add: append_payload_def hash_log_holds_def writer_append_def write_row_def Let_def split_def)
  then have "hash_log_holds (fst (verify_log ?l1)) (ps @ [sorted_fields p])" "1 < hl_fsync_every (fst (verify_log ?l1))"
    "wl_since_sync (hl_tail (fst (verify_log ?l1))) = 0" "lf_synced (hl_file (fst (verify_log ?l1))) = lf_synced (hl_file l)"
    using verify_log_holds [OF l1] adopt_holds [OF l1] Cons.prems(2) by (simp_all add: adopt_def tail_verified_def)
  then show ?case using Cons.IH [of "fst (verify_log ?l1)" "ps @ [sorted_fields p]"] Cons.prems(4) by (simp add: a)
qed simp

end
