(* ===== verification/Incident_Projection.thy ===== *)
theory Incident_Projection
  imports Complex_Main Forensic_Ledger
begin

text \<open>
  The projection of recurring incidents
  (\<open>src/noetrium_platform/infrastructure/reliability\<close>): the fingerprint of a failure
  (\<open>failure/api/fingerprint.py\<close>), the tables of patterns and families
  (\<open>forensics/providers/incident_db.py\<close>, \<open>incident_codec.py\<close>), the writer that counts a failure
  once (\<open>incident_projection.py\<close>) and the synchronizer that brings the tables up to a verified
  cut of the failure ledger (\<open>incident_sync.py\<close>), a client of the ledger's contract.
\<close>

subsection \<open>Fingerprints\<close>

text \<open>Characters of \<open>\w\<close> and the maximal runs of them; between two runs stands another character.\<close>

definition word_char :: "char \<Rightarrow> bool" where
  "word_char c \<longleftrightarrow>
     (let n = code_point c in
      48 \<le> n \<and> n \<le> 57 \<or> 65 \<le> n \<and> n \<le> 90 \<or> n = 95 \<or> 97 \<le> n \<and> n \<le> 122
      \<or> n \<in> {170, 178, 179, 181, 185, 186, 188, 189, 190} \<or> 192 \<le> n \<and> n \<noteq> 215 \<and> n \<noteq> 247)"

definition hex_letter :: "char \<Rightarrow> bool" where
  "hex_letter c \<longleftrightarrow>
     (let n = code_point c in 48 \<le> n \<and> n \<le> 57 \<or> 65 \<le> n \<and> n \<le> 70 \<or> 97 \<le> n \<and> n \<le> 102)"

text \<open>
  \<open>re.sub\<close> of \<open>\b[...]{m,}\b\<close>: the class consists of word characters, so a match is a whole run of
  at least \<open>m\<close> of them.
\<close>

function replace_runs :: "(char \<Rightarrow> bool) \<Rightarrow> nat \<Rightarrow> string \<Rightarrow> string \<Rightarrow> string" where
  "replace_runs P m new [] = []"
| "replace_runs P m new (c # cs) =
     (if word_char c
      then (let run = takeWhile word_char (c # cs) in
            (if m \<le> length run \<and> list_all P run then new else run)
              @ replace_runs P m new (dropWhile word_char cs))
      else c # replace_runs P m new cs)"
  by pat_completeness auto
termination
  by (relation "measure (\<lambda>(P, m, new, s). length s)") (auto simp: less_Suc_eq_le length_dropWhile_le)

fun split_blanks :: "string \<Rightarrow> string \<Rightarrow> string list" where
  "split_blanks w [] = (if w = [] then [] else [w])"
| "split_blanks w (c # cs) =
     (if py_isspace c then (if w = [] then split_blanks [] cs else w # split_blanks [] cs)
      else split_blanks (w @ [c]) cs)"

fun join_with :: "string \<Rightarrow> string list \<Rightarrow> string" where
  "join_with sep [] = []"
| "join_with sep [x] = x"
| "join_with sep (x # y # xs) = x @ sep @ join_with sep (y # xs)"

definition normalize_message :: "string \<Rightarrow> string" where
  "normalize_message t =
     take 512 (join_with '' '' (split_blanks []
       (replace_runs is_digit 3 ''<n>'' (replace_runs hex_letter 16 ''<hex>'' t))))"

text \<open>\<open>str(failure.get(key) or fallback)\<close>; the text of a list or dictionary is not followed.\<close>

fun falsy :: "json \<Rightarrow> bool" where
  "falsy JNull = True"
| "falsy (JBool b) = (\<not> b)"
| "falsy (JInt i) = (i = 0)"
| "falsy (JStr s) = (s = [])"
| "falsy (JArr xs) = (xs = [])"
| "falsy (JObj kvs) = (kvs = [])"

fun py_str :: "json \<Rightarrow> exc + string" where
  "py_str JNull = Inr ''None''"
| "py_str (JBool b) = Inr (if b then ''True'' else ''False'')"
| "py_str (JInt i) = Inr (int_text i)"
| "py_str (JStr s) = Inr s"
| "py_str _ = Inl unmodelled"

definition text_field :: "string \<Rightarrow> string \<Rightarrow> fields \<Rightarrow> exc + string" where
  "text_field key fallback p =
     (let v = doc_get key JNull p in if falsy v then Inr fallback else py_str v)"

record fingerprint =
  fp_fingerprint :: string
  fp_family :: string
  fp_signature :: "string list"
  fp_family_signature :: "string list"

definition signature_digest :: "string list \<Rightarrow> string" where
  "signature_digest xs = sha256_text (dumps False (JArr (map JStr xs)))"

definition family_keys :: "string list" where
  "family_keys = [''failure_domain'', ''failure_code'', ''stage'', ''component_id'', ''operation_type'', ''cause_type'']"

definition fingerprint_failure :: "fields \<Rightarrow> exc + fingerprint" where
  "fingerprint_failure p =
     bind_result (map_result (\<lambda>k. text_field k [] p) family_keys) (\<lambda>head.
     bind_result (text_field ''cause_message'' [] p) (\<lambda>message.
     bind_result (map_result (\<lambda>k. text_field k [] p) [''effect_certainty'', ''recommended_recovery'']) (\<lambda>last.
     bind_result (text_field ''taxonomy_spec_sha256'' ''unbound'' p) (\<lambda>taxonomy.
     bind_result (text_field ''operation_payload_digest'' ''unbound-request'' p) (\<lambda>request.
       (let family = head @ normalize_message message # last;
            exact = family @ [taxonomy, request]
        in Inr \<lparr>fp_fingerprint = signature_digest exact, fp_family = signature_digest family,
                fp_signature = exact, fp_family_signature = family\<rparr>))))))"

text \<open>\<open>float(payload.get("created_at") or 0.0)\<close>, where the document model has integers only.\<close>

definition created_at :: "fields \<Rightarrow> exc + rat" where
  "created_at p =
     (let v = doc_get ''created_at'' JNull p in
      if falsy v then Inr 0
      else (case v of
         JInt i \<Rightarrow> Inr (of_int i)
       | JBool _ \<Rightarrow> Inr 1
       | JStr _ \<Rightarrow> Inl unmodelled
       | _ \<Rightarrow> Inl (''TypeError'', [])))"

subsection \<open>Tables\<close>

definition encode_strings :: "string list \<Rightarrow> string" where
  "encode_strings xs = dumps False (JArr (map JStr xs))"

definition decode_strings :: "string \<Rightarrow> exc + string list" where
  "decode_strings raw =
     (case json_loads False raw of
        Inr (JArr vs) \<Rightarrow>
          if list_all (\<lambda>v. case v of JStr _ \<Rightarrow> True | _ \<Rightarrow> False) vs
          then map_result as_str vs else Inl (value_error ''incident index string tuple payload is invalid'')
      | Inr _ \<Rightarrow> Inl (value_error ''incident index string tuple payload is invalid'')
      | Inl _ \<Rightarrow> Inl (''JSONDecodeError'', []))"

record pattern_row =
  pr_family :: string
  pr_count :: int
  pr_first_seen :: rat
  pr_last_seen :: rat
  pr_examples_json :: string
  pr_signature_json :: string

record family_row =
  fr_count :: int
  fr_first_seen :: rat
  fr_last_seen :: rat
  fr_examples_json :: string

record incident_db =
  in_patterns :: "(string \<times> pattern_row) list"
  in_families :: "(string \<times> family_row) list"
  in_seen :: "(string \<times> string \<times> string) list"
  in_freshness :: "(int \<times> string) option"

definition empty_incidents :: incident_db where
  "empty_incidents = \<lparr>in_patterns = [], in_families = [], in_seen = [], in_freshness = None\<rparr>"

definition freshness :: "incident_db \<Rightarrow> int \<times> string" where
  "freshness db = (case in_freshness db of None \<Rightarrow> (0, zero_hash) | Some r \<Rightarrow> r)"

definition set_freshness :: "int \<Rightarrow> string \<Rightarrow> incident_db \<Rightarrow> incident_db" where
  "set_freshness rows tail_hash db = db\<lparr>in_freshness := Some (rows, tail_hash)\<rparr>"

definition reset_projection :: "incident_db \<Rightarrow> incident_db" where
  "reset_projection db = db\<lparr>in_patterns := [], in_families := [], in_seen := [], in_freshness := None\<rparr>"

record incident_pattern =
  ic_fingerprint :: string
  ic_family :: string
  ic_count :: int
  ic_family_count :: int
  ic_first_seen :: rat
  ic_last_seen :: rat
  ic_examples :: "string list"
  ic_family_examples :: "string list"
  ic_signature :: "string list"

definition get_pattern :: "string \<Rightarrow> incident_db \<Rightarrow> exc + incident_pattern option" where
  "get_pattern fp db =
     (case map_of (in_patterns db) fp of
        None \<Rightarrow> Inr None
      | Some row \<Rightarrow>
          (case map_of (in_families db) (pr_family row) of
             None \<Rightarrow> Inl (''RuntimeError'', ''incident exact pattern exists without family projection'')
           | Some family \<Rightarrow>
               bind_result (decode_strings (pr_examples_json row)) (\<lambda>examples.
               bind_result (decode_strings (fr_examples_json family)) (\<lambda>family_examples.
               bind_result (decode_strings (pr_signature_json row)) (\<lambda>signature.
                 Inr (Some \<lparr>ic_fingerprint = fp, ic_family = pr_family row, ic_count = pr_count row,
                   ic_family_count = fr_count family, ic_first_seen = pr_first_seen row, ic_last_seen = pr_last_seen row,
                   ic_examples = examples, ic_family_examples = family_examples, ic_signature = signature\<rparr>))))))"

subsection \<open>Projecting a failure\<close>

text \<open>\<open>tuple(dict.fromkeys(...))\<close> keeps first occurrences; \<open>[-n:]\<close> takes the last \<open>n\<close>, or all of them if \<open>n\<close> is 0.\<close>

definition from_keys :: "string list \<Rightarrow> string list" where
  "from_keys xs = rev (remdups (rev xs))"

definition last_items :: "int \<Rightarrow> 'a list \<Rightarrow> 'a list" where
  "last_items n xs = (if 0 < n then drop (length xs - nat n) xs else drop (nat (- n)) xs)"

definition updated_examples :: "string list \<Rightarrow> string \<Rightarrow> int \<Rightarrow> string list" where
  "updated_examples old failure_id max_examples = last_items max_examples (from_keys (old @ [failure_id]))"

definition project_pattern ::
    "fingerprint \<Rightarrow> string \<Rightarrow> rat \<Rightarrow> int \<Rightarrow> (string \<times> pattern_row) list \<Rightarrow> exc + (string \<times> pattern_row) list" where
  "project_pattern fp failure_id ts max_examples rows =
     (case map_of rows (fp_fingerprint fp) of
        None \<Rightarrow> Inr (rows @ [(fp_fingerprint fp, \<lparr>pr_family = fp_family fp, pr_count = 1, pr_first_seen = ts, pr_last_seen = ts,
          pr_examples_json = encode_strings [failure_id], pr_signature_json = encode_strings (fp_signature fp)\<rparr>)])
      | Some row \<Rightarrow>
          bind_result (decode_strings (pr_examples_json row)) (\<lambda>old.
            Inr (dict_set (fp_fingerprint fp) (row\<lparr>pr_count := pr_count row + 1, pr_last_seen := ts,
              pr_examples_json := encode_strings (updated_examples old failure_id max_examples)\<rparr>) rows)))"

definition project_family ::
    "fingerprint \<Rightarrow> string \<Rightarrow> rat \<Rightarrow> int \<Rightarrow> (string \<times> family_row) list \<Rightarrow> exc + (string \<times> family_row) list" where
  "project_family fp failure_id ts max_examples rows =
     (case map_of rows (fp_family fp) of
        None \<Rightarrow> Inr (rows @ [(fp_family fp, \<lparr>fr_count = 1, fr_first_seen = ts, fr_last_seen = ts,
          fr_examples_json = encode_strings [failure_id]\<rparr>)])
      | Some row \<Rightarrow>
          bind_result (decode_strings (fr_examples_json row)) (\<lambda>old.
            Inr (dict_set (fp_family fp) (row\<lparr>fr_count := fr_count row + 1, fr_last_seen := ts,
              fr_examples_json := encode_strings (updated_examples old failure_id max_examples)\<rparr>) rows)))"

definition project ::
    "fingerprint \<Rightarrow> string \<Rightarrow> rat \<Rightarrow> int \<Rightarrow> incident_db \<Rightarrow> exc + incident_db \<times> bool" where
  "project fp failure_id ts max_examples db =
     (if map_of (in_seen db) failure_id \<noteq> None then Inr (db, False)
      else
        bind_result (project_pattern fp failure_id ts max_examples (in_patterns db)) (\<lambda>patterns.
        bind_result (project_family fp failure_id ts max_examples (in_families db)) (\<lambda>families.
          Inr (db\<lparr>in_patterns := patterns, in_families := families,
                  in_seen := in_seen db @ [(failure_id, fp_fingerprint fp, fp_family fp)]\<rparr>, True))))"

definition default_examples :: int where
  "default_examples = 8"

subsection \<open>Synchronization\<close>

definition project_payload :: "fields \<Rightarrow> incident_db \<times> int \<Rightarrow> exc + incident_db \<times> int" where
  "project_payload p s =
     bind_result (text_field ''failure_id'' [] p) (\<lambda>failure_id.
       if failure_id = [] then Inr s
       else
         bind_result (fingerprint_failure p) (\<lambda>fp.
         bind_result (created_at p) (\<lambda>ts.
         bind_result (project fp failure_id ts default_examples (fst s)) (\<lambda>(db, new).
           Inr (db, if new then snd s + 1 else snd s)))))"

fun project_payloads :: "fields list \<Rightarrow> incident_db \<times> int \<Rightarrow> exc + incident_db \<times> int" where
  "project_payloads [] s = Inr s"
| "project_payloads (p # ps) s = bind_result (project_payload p s) (project_payloads ps)"

record incident_sync =
  is_source_rows :: int
  is_source_tail :: string
  is_added :: int
  is_rebuilt :: bool

definition finish_sync ::
    "('w, 's) ledger_port \<Rightarrow> ledger_cut \<Rightarrow> bool \<Rightarrow> 's \<Rightarrow> incident_db \<Rightarrow> exc + incident_db \<times> incident_sync" where
  "finish_sync port vc rebuilt s db =
     (let (out, stop) = lp_batches port vc 512 s in
      bind_result (project_payloads (concat out) (db, 0)) (\<lambda>(db, added).
      bind_result stop (\<lambda>_.
        Inr (set_freshness (lc_total_rows vc) (lc_tail_hash vc) db,
             \<lparr>is_source_rows = lc_total_rows vc, is_source_tail = lc_tail_hash vc, is_added = added, is_rebuilt = rebuilt\<rparr>))))"

text \<open>One transaction: an exception leaves the tables as they were.\<close>

definition in_transaction :: "incident_db \<Rightarrow> exc + incident_db \<times> 'a \<Rightarrow> incident_db \<times> (exc + 'a)" where
  "in_transaction db r = (case r of Inl x \<Rightarrow> (db, Inl x) | Inr (db', v) \<Rightarrow> (db', Inr v))"

definition sync_incidents ::
    "('w, 's) ledger_port \<Rightarrow> 's \<times> incident_db \<Rightarrow> ('s \<times> incident_db) \<times> (exc + incident_sync)" where
  "sync_incidents port sd =
     (let (s, db) = sd; (rows, tail_hash) = freshness db in
      case lp_cut_after port rows s of
        (s, Inl x) \<Rightarrow> ((s, db), Inl x)
      | (s, Inr vc) \<Rightarrow>
          if rows \<noteq> 0 \<and> lc_checkpoint_hash vc \<noteq> tail_hash
          then (case lp_cut_after port 0 s of
              (s, Inl x) \<Rightarrow> ((s, db), Inl x)
            | (s, Inr vc) \<Rightarrow>
                (let (db, r) = in_transaction db (finish_sync port vc True s (reset_projection db)) in ((s, db), r)))
          else (let (db, r) = in_transaction db (finish_sync port vc False s db) in ((s, db), r)))"

text \<open>\<open>observe\<close>: a failure reported directly, in a transaction of its own.\<close>

definition observe_incident ::
    "fingerprint \<Rightarrow> string \<Rightarrow> rat \<Rightarrow> int \<Rightarrow> incident_db \<Rightarrow> incident_db \<times> (exc + incident_pattern)" where
  "observe_incident fp failure_id ts max_examples db =
     (case in_transaction db (project fp failure_id ts max_examples db) of
        (db, Inl x) \<Rightarrow> (db, Inl x)
      | (db, Inr _) \<Rightarrow>
          (case get_pattern (fp_fingerprint fp) db of
             Inl x \<Rightarrow> (db, Inl x)
           | Inr None \<Rightarrow> (db, Inl (''RuntimeError'', ''incident projection write completed without exact pattern''))
           | Inr (Some p) \<Rightarrow> (db, Inr p)))"

subsection \<open>Reading a failure does not depend on the order of keys\<close>

lemma decode_encode_strings [simp]: "decode_strings (encode_strings xs) = Inr xs"
proof -
  have "sort_keys (JArr (map JStr xs)) = JArr (map JStr xs)" by simp
  moreover have "json_wf (JArr (map JStr xs))" by (simp add: list_all_iff)
  ultimately have "json_loads False (dumps False (JArr (map JStr xs))) = Inr (JArr (map JStr xs))"
    using json_loads_dumps(1) by metis
  then show ?thesis by (simp add: decode_strings_def encode_strings_def map_result_JStr list_all_iff)
qed

lemma falsy_sorted [simp]: "falsy (sort_keys v) = falsy v"
  by (cases v) (simp_all flip: length_0_conv)

lemma doc_get_sorted_fields:
  assumes "json_wf (JObj p)"
  shows "doc_get k JNull (sorted_fields p) = sort_keys (doc_get k JNull p)"
proof (cases "map_of p k")
  case None
  then have "k \<notin> set (map fst (sorted_fields p))"
    by (force simp: sorted_fields_def map_of_eq_None_iff)
  then show ?thesis using None by (simp add: doc_get_def map_of_eq_None_iff [symmetric])
next
  case (Some v)
  then show ?thesis using assms by (simp add: doc_get_sorted) (simp add: doc_get_def)
qed

lemma text_field_sorted: "json_wf (JObj p) \<Longrightarrow> text_field k d (sorted_fields p) = text_field k d p"
  unfolding text_field_def Let_def doc_get_sorted_fields falsy_sorted
  by (cases "doc_get k JNull p") simp_all

lemma created_at_sorted: "json_wf (JObj p) \<Longrightarrow> created_at (sorted_fields p) = created_at p"
  unfolding created_at_def Let_def doc_get_sorted_fields falsy_sorted
  by (cases "doc_get ''created_at'' JNull p") simp_all

lemma project_payload_sorted:
  assumes "json_wf (JObj p)" shows "project_payload (sorted_fields p) s = project_payload p s"
proof -
  note field = text_field_sorted [OF assms]
  show ?thesis
    unfolding project_payload_def fingerprint_failure_def field created_at_sorted [OF assms] ..
qed

lemma project_payloads_append:
  "project_payloads (ps @ qs) s = bind_result (project_payloads ps s) (project_payloads qs)"
proof (induction ps arbitrary: s)
  case (Cons p ps)
  then show ?case by (cases "project_payload p s") simp_all
qed simp

lemma project_payloads_same:
  assumes "map sorted_fields ps = map sorted_fields qs" "\<forall>p \<in> set ps \<union> set qs. json_wf (JObj p)"
  shows "project_payloads ps s = project_payloads qs s"
proof -
  have sorted: "project_payloads xs s = project_payloads (map sorted_fields xs) s" if "\<forall>x \<in> set xs. json_wf (JObj x)" for xs s
    using that
  proof (induction xs arbitrary: s)
    case (Cons x xs)
    then show ?case by (cases "project_payload x s") (simp_all add: project_payload_sorted)
  qed simp
  show ?thesis using sorted [of ps s] sorted [of qs s] assms by auto
qed

subsection \<open>Synchronization on a ledger\<close>

text \<open>The tables do not depend on where the freshness row stands, nor on the failures counted before.\<close>

definition with_freshness :: "(int \<times> string) option \<Rightarrow> incident_db \<times> int \<Rightarrow> incident_db \<times> int" where
  "with_freshness f s = ((fst s)\<lparr>in_freshness := f\<rparr>, snd s)"

lemma project_freshness:
  "project fp i ts m (db\<lparr>in_freshness := f\<rparr>) = map_sum id (\<lambda>(db, new). (db\<lparr>in_freshness := f\<rparr>, new)) (project fp i ts m db)"
proof (cases "map_of (in_seen db) i")
  case None
  then show ?thesis
    by (cases "project_pattern fp i ts m (in_patterns db)"; cases "project_family fp i ts m (in_families db)")
      (simp_all add: project_def)
qed (simp add: project_def)

lemma project_payload_shift:
  "project_payload p (db\<lparr>in_freshness := f\<rparr>, n + k) =
     map_sum id (\<lambda>(db, m). (db\<lparr>in_freshness := f\<rparr>, m + k)) (project_payload p (db, n))"
proof (cases "text_field ''failure_id'' [] p")
  case (Inr i)
  show ?thesis
  proof (cases "i = []")
    case False
    show ?thesis
    proof (cases "fingerprint_failure p")
      case fp: (Inr fp)
      show ?thesis
      proof (cases "created_at p")
        case ts: (Inr ts)
        show ?thesis
          by (cases "project fp i ts default_examples db")
            (auto simp: project_payload_def Inr False fp ts project_freshness)
      qed (simp add: project_payload_def Inr False fp)
    qed (simp add: project_payload_def Inr False)
  qed (simp add: project_payload_def Inr)
qed (simp add: project_payload_def)

lemma project_payloads_shift:
  "project_payloads ps (db\<lparr>in_freshness := f\<rparr>, n + k) =
     map_sum id (\<lambda>(db, m). (db\<lparr>in_freshness := f\<rparr>, m + k)) (project_payloads ps (db, n))"
proof (induction ps arbitrary: db n)
  case (Cons p ps)
  show ?case
  proof (cases "project_payload p (db, n)")
    case (Inr r)
    obtain db' m where r: "r = (db', m)" by (cases r)
    show ?thesis using Inr Cons.IH [of db' m] project_payload_shift [where p = p and db = db and f = f and n = n and k = k] by (simp add: r)
  next
    case (Inl x)
    then show ?thesis using project_payload_shift [where p = p and db = db and f = f and n = n and k = k] by simp
  qed
qed simp

text \<open>Tables that hold the projection of the payloads \<open>qs\<close>.\<close>

definition projection_of :: "fields list \<Rightarrow> incident_db \<Rightarrow> bool" where
  "projection_of qs db \<longleftrightarrow>
     qs = [] \<and> db = empty_incidents
     \<or> (\<exists>db0 n. project_payloads qs (empty_incidents, 0) = Inr (db0, n)
          \<and> db = set_freshness (int (length qs)) (chain_tail qs) db0)"

lemma projection_freshness: "projection_of qs db \<Longrightarrow> freshness db = (int (length qs), chain_tail qs)"
  by (auto simp: projection_of_def freshness_def empty_incidents_def set_freshness_def)

text \<open>Going on from a prefix is projecting the whole.\<close>

lemma projection_continue:
  assumes db: "projection_of qs db" and all: "project_payloads (qs @ ps) (empty_incidents, 0) = Inr (db0, n)"
  obtains m db1 where "project_payloads ps (db, 0) = Inr (db1, m)" "set_freshness r h db1 = set_freshness r h db0"
proof -
  obtain db2 k f where 2: "project_payloads qs (empty_incidents, 0) = Inr (db2, k)" "db = db2\<lparr>in_freshness := f\<rparr>"
  proof (cases "qs = [] \<and> db = empty_incidents")
    case True
    then show ?thesis using that [of empty_incidents 0 None] by (simp add: empty_incidents_def)
  next
    case False
    then show ?thesis using db that by (auto simp: projection_of_def set_freshness_def)
  qed
  have "project_payloads ps (db2, k) = Inr (db0, n)" using all 2(1) by (simp add: project_payloads_append)
  then have "project_payloads ps (db, 0) = Inr (db0\<lparr>in_freshness := f\<rparr>, n - k)"
    using project_payloads_shift [where ps = ps and db = db2 and f = f and n = k and k = "- k"] 2(2) by simp
  then show ?thesis by (rule that) (simp add: set_freshness_def)
qed

lemma reset_projection_empty [simp]: "reset_projection db = empty_incidents"
  by (simp add: reset_projection_def empty_incidents_def)

context forensic_ledger
begin

lemma finish_sync_projects:
  assumes s: "holds s ps" and db: "projection_of qs db" and qs: "length qs \<le> length ps"
    and same: "map sorted_fields (take (length qs) ps) = map sorted_fields qs"
    and wf: "\<forall>q \<in> set qs. json_wf (JObj q)"
    and all: "project_payloads ps (empty_incidents, 0) = Inr (db0, n)"
  shows "\<exists>added. finish_sync port (cut_for (int (length qs)) ps) rebuilt s db =
    Inr (set_freshness (int (length ps)) (chain_tail ps) db0,
      \<lparr>is_source_rows = int (length ps), is_source_tail = chain_tail ps, is_added = added, is_rebuilt = rebuilt\<rparr>)"
proof -
  let ?vc = "cut_for (int (length qs)) ps"
  obtain out where out: "lp_batches port ?vc 512 s = (out, Inr ())" "batches_of 512 (drop (length qs) ps) out"
    using batches [of s ps "[]" "int (length qs)" 512] s qs by auto
  have "project_payloads (qs @ drop (length qs) ps) (empty_incidents, 0) =
      project_payloads (take (length qs) ps @ drop (length qs) ps) (empty_incidents, 0)"
  proof -
    have "project_payloads (take (length qs) ps) u = project_payloads qs u" for u
      using same wf held [OF s] by (intro project_payloads_same) (auto dest: in_set_takeD)
    then show ?thesis by (simp only: project_payloads_append)
  qed
  then have "project_payloads (qs @ drop (length qs) ps) (empty_incidents, 0) = Inr (db0, n)" using all by simp
  from projection_continue [OF db this, of "int (length ps)" "chain_tail ps"]
  obtain m db1 where "project_payloads (drop (length qs) ps) (db, 0) = Inr (db1, m)"
    "set_freshness (int (length ps)) (chain_tail ps) db1 = set_freshness (int (length ps)) (chain_tail ps) db0" .
  then show ?thesis using out by (simp add: finish_sync_def batches_of_def cut_for_def)
qed

lemma sync_rebuilds:
  assumes s: "holds s ps" and db: "projection_of qs db" and qs: "length qs \<le> length ps"
    and wf: "\<forall>q \<in> set qs. json_wf (JObj q)"
    and all: "project_payloads ps (empty_incidents, 0) = Inr (db0, n)"
    and run: "sync_incidents port (s, db) = ((s', db'), r)"
  shows "holds s' ps \<and>
    ((\<exists>added rebuilt. r = Inr \<lparr>is_source_rows = int (length ps), is_source_tail = chain_tail ps,
        is_added = added, is_rebuilt = rebuilt\<rparr>)
      \<and> db' = set_freshness (int (length ps)) (chain_tail ps) db0
     \<or> row_collision (take (length qs) ps) qs)"
proof -
  let ?k = "int (length qs)"
  obtain s1 where s1: "lp_cut_after port ?k s = (s1, Inr (cut_for ?k ps))" "holds s1 ps"
    using cut_after_ok [OF s, of ?k] cut_after [OF s, of ?k] qs by (cases "lp_cut_after port ?k s") auto
  have fresh: "freshness db = (?k, chain_tail qs)" by (rule projection_freshness [OF db])
  have mark: "lc_checkpoint_hash (cut_for ?k ps) = chain_tail (take (length qs) ps)" by (simp add: cut_for_def)
  show ?thesis
  proof (cases "qs \<noteq> [] \<and> chain_tail (take (length qs) ps) \<noteq> chain_tail qs")
    case True
    obtain s2 where s2: "lp_cut_after port 0 s1 = (s2, Inr (cut_for 0 ps))" "holds s2 ps"
      using cut_after_ok [OF s1(2), of 0] cut_after [OF s1(2), of 0] by (cases "lp_cut_after port 0 s1") auto
    obtain added where "finish_sync port (cut_for 0 ps) True s2 empty_incidents =
      Inr (set_freshness (int (length ps)) (chain_tail ps) db0,
        \<lparr>is_source_rows = int (length ps), is_source_tail = chain_tail ps, is_added = added, is_rebuilt = True\<rparr>)"
      using finish_sync_projects [OF s2(2), of "[]" empty_incidents, OF _ _ _ _ all] by (auto simp: projection_of_def)
    then have "((s', db'), r) = ((s2, set_freshness (int (length ps)) (chain_tail ps) db0),
        Inr \<lparr>is_source_rows = int (length ps), is_source_tail = chain_tail ps, is_added = added, is_rebuilt = True\<rparr>)"
      using run fresh s1(1) s2(1) mark True by (simp add: sync_incidents_def in_transaction_def)
    then show ?thesis using s2(2) by auto
  next
    case False
    then have "chain_tail (take (length qs) ps) = chain_tail qs" by auto
    then have "map sorted_fields (take (length qs) ps) = map sorted_fields qs \<or> row_collision (take (length qs) ps) qs"
      using qs wf held [OF s] by (intro chain_tail_inject) (auto dest: in_set_takeD)
    moreover have "holds s' ps"
      using run fresh s1 mark False
      by (auto simp: sync_incidents_def in_transaction_def split: prod.splits)
    moreover have "(\<exists>added. r = Inr \<lparr>is_source_rows = int (length ps), is_source_tail = chain_tail ps,
        is_added = added, is_rebuilt = False\<rparr>) \<and> db' = set_freshness (int (length ps)) (chain_tail ps) db0"
      if same: "map sorted_fields (take (length qs) ps) = map sorted_fields qs"
    proof -
      obtain added where "finish_sync port (cut_for ?k ps) False s1 db =
        Inr (set_freshness (int (length ps)) (chain_tail ps) db0,
          \<lparr>is_source_rows = int (length ps), is_source_tail = chain_tail ps, is_added = added, is_rebuilt = False\<rparr>)"
        using finish_sync_projects [OF s1(2) db qs same wf all] by blast
      then have "((s', db'), r) = ((s1, set_freshness (int (length ps)) (chain_tail ps) db0),
          Inr \<lparr>is_source_rows = int (length ps), is_source_tail = chain_tail ps, is_added = added, is_rebuilt = False\<rparr>)"
        using run fresh s1(1) mark False by (simp add: sync_incidents_def in_transaction_def)
      then show ?thesis by auto
    qed
    ultimately show ?thesis by blast
  qed
qed

text \<open>Behind a ledger that has become shorter the tables stay as they are.\<close>

lemma sync_refuses_shorter:
  assumes s: "holds s ps" and db: "projection_of qs db" and qs: "length ps < length qs"
  shows "\<exists>s' m. sync_incidents port (s, db) = ((s', db), Inl (''HashChainError'', m))"
proof -
  obtain s1 r where r: "lp_cut_after port (int (length qs)) s = (s1, r)" by fastforce
  then have "error_class r = Inl ''HashChainError''" using cut_after [OF s, of "int (length qs)"] qs by (simp add: after_rows_def)
  then obtain m where "r = Inl (''HashChainError'', m)" by (cases r) auto
  then show ?thesis using r projection_freshness [OF db] by (simp add: sync_incidents_def)
qed

end

text \<open>
  C35: synchronizing the incident tables is rebuilding them. If the tables are the projection of the
  failures \<open>qs\<close> of an earlier ledger and the ledger now holds \<open>ps\<close>, none of which the projection
  refuses, then after a synchronization the tables are those that projecting all of \<open>ps\<close> from
  nothing gives, whether \<open>ps\<close> extends \<open>qs\<close> or its beginning was rewritten; unless two rows exhibit a
  SHA-256 collision. A ledger that has lost rows is refused and the tables stay as they are.
\<close>

theorem incident_sync_rebuilds:
  assumes "hash_log_holds l ps" "projection_of qs db" "\<forall>q \<in> set qs. json_wf (JObj q)"
    and "project_payloads ps (empty_incidents, 0) = Inr (db0, n)"
    and "sync_incidents hash_log_port (l, db) = ((l', db'), r)"
  shows "if length qs \<le> length ps
    then hash_log_holds l' ps \<and>
      ((\<exists>added rebuilt. r = Inr \<lparr>is_source_rows = int (length ps), is_source_tail = chain_tail ps,
          is_added = added, is_rebuilt = rebuilt\<rparr>)
        \<and> db' = set_freshness (int (length ps)) (chain_tail ps) db0
       \<or> row_collision (take (length qs) ps) qs)
    else db' = db \<and> (\<exists>m. r = Inl (''HashChainError'', m))"
proof (cases "length qs \<le> length ps")
  case True
  then show ?thesis using hash_log.sync_rebuilds [OF assms(1,2) True assms(3,4,5)] by simp
next
  case False
  then show ?thesis using hash_log.sync_refuses_shorter [OF assms(1,2)] assms(5) by auto
qed

definition demo_failure :: fields where
  "demo_failure = [(''failure_id'', JStr ''f1''), (''failure_domain'', JStr ''model''), (''created_at'', JInt 5)]"

lemma demo_failure_projects: "\<exists>db. project_payloads [demo_failure] (empty_incidents, 0) = Inr (db, 1)"
proof -
  obtain fp where "fingerprint_failure demo_failure = Inr fp"
    by (simp add: fingerprint_failure_def family_keys_def text_field_def doc_get_def demo_failure_def Let_def)
  moreover have "text_field ''failure_id'' [] demo_failure = Inr ''f1''" "created_at demo_failure = Inr 5"
    by (simp_all add: text_field_def created_at_def doc_get_def demo_failure_def)
  ultimately show ?thesis
    by (simp add: project_payload_def project_def project_pattern_def project_family_def empty_incidents_def)
qed

theorem incident_sync_rebuilds_witness:
  "\<exists>l db l' db' added rebuilt. hash_log_holds l [sorted_fields demo_failure]
    \<and> sync_incidents hash_log_port (l, empty_incidents) = ((l', db'),
        Inr \<lparr>is_source_rows = 1, is_source_tail = chain_tail [sorted_fields demo_failure], is_added = added, is_rebuilt = rebuilt\<rparr>)
    \<and> db' = set_freshness 1 (chain_tail [sorted_fields demo_failure]) db
    \<and> project_payloads [demo_failure] (empty_incidents, 0) = Inr (db, 1)"
proof -
  let ?ps = "[sorted_fields demo_failure]"
  define l where "l = fst (append_payload demo_failure (Append_done (0, 1, 2, 3)) fresh_log)"
  have wf: "json_wf (JObj demo_failure)" by (simp add: demo_failure_def)
  have l: "hash_log_holds l ?ps"
    using append_payload_holds [OF fresh_log_holds _ wf, of "Append_done (0, 1, 2, 3)"] by (simp add: l_def)
  obtain db where db: "project_payloads [demo_failure] (empty_incidents, 0) = Inr (db, 1)"
    using demo_failure_projects by blast
  then have db': "project_payloads ?ps (empty_incidents, 0) = Inr (db, 1)"
    by (simp add: project_payload_sorted [OF wf])
  obtain l' tables r where run: "sync_incidents hash_log_port (l, empty_incidents) = ((l', tables), r)"
    by (metis surj_pair)
  have "projection_of [] empty_incidents" by (simp add: projection_of_def)
  from incident_sync_rebuilds [OF l this _ db' run] show ?thesis
    using l run db by (auto simp: row_collision_def)
qed

subsection \<open>Every failure is counted once\<close>

definition seen_with :: "(string \<times> string \<times> string \<Rightarrow> string) \<Rightarrow> string \<Rightarrow> incident_db \<Rightarrow> string list" where
  "seen_with sel x db = map fst (filter (\<lambda>e. sel e = x) (in_seen db))"

abbreviation exact_of :: "string \<times> string \<times> string \<Rightarrow> string" where "exact_of e \<equiv> fst (snd e)"
abbreviation family_of :: "string \<times> string \<times> string \<Rightarrow> string" where "family_of e \<equiv> snd (snd e)"

text \<open>Stored examples: at most eight distinct failures among \<open>ids\<close>.\<close>

definition examples_ok :: "string list \<Rightarrow> string list \<Rightarrow> bool" where
  "examples_ok ids xs \<longleftrightarrow> xs \<noteq> [] \<and> distinct xs \<and> length xs \<le> 8 \<and> set xs \<subseteq> set ids"

definition pattern_ok :: "string \<Rightarrow> incident_db \<Rightarrow> bool" where
  "pattern_ok f db \<longleftrightarrow>
     (case map_of (in_patterns db) f of
        None \<Rightarrow> seen_with exact_of f db = []
      | Some row \<Rightarrow>
          pr_count row = int (length (seen_with exact_of f db)) \<and> seen_with exact_of f db \<noteq> []
          \<and> (\<exists>xs. pr_examples_json row = encode_strings xs \<and> examples_ok (seen_with exact_of f db) xs)
          \<and> (\<exists>xs. pr_signature_json row = encode_strings xs)
          \<and> (\<forall>e \<in> set (in_seen db). exact_of e = f \<longrightarrow> family_of e = pr_family row))"

definition family_ok :: "string \<Rightarrow> incident_db \<Rightarrow> bool" where
  "family_ok f db \<longleftrightarrow>
     (case map_of (in_families db) f of
        None \<Rightarrow> seen_with family_of f db = []
      | Some row \<Rightarrow>
          fr_count row = int (length (seen_with family_of f db)) \<and> seen_with family_of f db \<noteq> []
          \<and> (\<exists>xs. fr_examples_json row = encode_strings xs \<and> examples_ok (seen_with family_of f db) xs))"

definition incidents_ok :: "incident_db \<Rightarrow> bool" where
  "incidents_ok db \<longleftrightarrow> distinct (map fst (in_seen db)) \<and> (\<forall>f. pattern_ok f db \<and> family_ok f db)"

lemma set_from_keys [simp]: "set (from_keys xs) = set xs" "distinct (from_keys xs)"
  by (simp_all add: from_keys_def)

lemma updated_examples_ok:
  assumes "examples_ok ids old" "0 < m" "m \<le> 8"
  shows "examples_ok (ids @ [i]) (updated_examples old i m)"
proof -
  let ?all = "from_keys (old @ [i])"
  have "?all \<noteq> []" by (metis set_from_keys(1) append_is_Nil_conv not_Cons_self2 set_empty)
  then have "length ?all - nat m < length ?all" using assms(2) by simp
  moreover have "updated_examples old i m = drop (length ?all - nat m) ?all"
    using assms(2) by (simp add: updated_examples_def last_items_def)
  moreover have "set (drop n ?all) \<subseteq> set ids \<union> {i}" for n
    using set_drop_subset [of n ?all] assms(1) by (auto simp: examples_ok_def)
  ultimately show ?thesis using assms(2,3) by (auto simp: examples_ok_def distinct_drop)
qed

lemma first_example_ok: "examples_ok (ids @ [i]) [i]"
  by (simp add: examples_ok_def)

lemma seen_with_snoc:
  "in_seen db' = in_seen db @ [e] \<Longrightarrow> seen_with sel x db' = seen_with sel x db @ (if sel e = x then [fst e] else [])"
  by (simp add: seen_with_def)

lemma project_pattern_ok:
  assumes ok: "pattern_ok f db" and ps: "project_pattern fp i ts m (in_patterns db) = Inr (in_patterns db')"
    and seen: "in_seen db' = in_seen db @ [(i, fp_fingerprint fp, fp_family fp)]" and m: "0 < m" "m \<le> 8"
    and same: "\<forall>e \<in> set (in_seen db). exact_of e = fp_fingerprint fp \<longrightarrow> family_of e = fp_family fp"
  shows "pattern_ok f db'"
proof (cases "f = fp_fingerprint fp")
  case other: False
  then have "map_of (in_patterns db') f = map_of (in_patterns db) f"
    using ps by (cases "map_of (in_patterns db) (fp_fingerprint fp)")
      (auto simp: project_pattern_def bind_result_Inr_iff map_of_dict_set map_add_def dest!: sym [of _ "in_patterns db'"] split: option.split)
  then show ?thesis using ok other seen
    by (auto simp: pattern_ok_def seen_with_snoc [OF seen] split: option.splits)
next
  case f: True
  show ?thesis
  proof (cases "map_of (in_patterns db) f")
    case new: None
    then have "map_of (in_patterns db') f = Some \<lparr>pr_family = fp_family fp, pr_count = 1, pr_first_seen = ts, pr_last_seen = ts,
        pr_examples_json = encode_strings [i], pr_signature_json = encode_strings (fp_signature fp)\<rparr>"
      using ps f by (auto simp: project_pattern_def map_add_def dest!: sym [of _ "in_patterns db'"])
    then show ?thesis using ok new f same seen first_example_ok [of "[]" i]
      by (auto simp: pattern_ok_def seen_with_snoc [OF seen])
  next
    case (Some row)
    then obtain xs where xs: "pr_examples_json row = encode_strings xs" "examples_ok (seen_with exact_of f db) xs"
      using ok by (auto simp: pattern_ok_def)
    then have "map_of (in_patterns db') f = Some (row\<lparr>pr_count := pr_count row + 1, pr_last_seen := ts,
        pr_examples_json := encode_strings (updated_examples xs i m)\<rparr>)"
      using ps f Some by (auto simp: project_pattern_def map_of_dict_set dest!: sym [of _ "in_patterns db'"])
    moreover have "pr_family row = fp_family fp"
    proof -
      obtain e where "e \<in> set (in_seen db)" "exact_of e = f"
        using ok Some by (auto simp: pattern_ok_def seen_with_def filter_empty_conv)
      then show ?thesis using ok Some same f by (auto simp: pattern_ok_def)
    qed
    ultimately show ?thesis using ok Some f seen updated_examples_ok [OF xs(2) m, of i]
      by (auto simp: pattern_ok_def seen_with_snoc [OF seen])
  qed
qed

lemma project_family_ok:
  assumes ok: "family_ok f db" and fs: "project_family fp i ts m (in_families db) = Inr (in_families db')"
    and seen: "in_seen db' = in_seen db @ [(i, fp_fingerprint fp, fp_family fp)]" and m: "0 < m" "m \<le> 8"
  shows "family_ok f db'"
proof (cases "f = fp_family fp")
  case other: False
  then have "map_of (in_families db') f = map_of (in_families db) f"
    using fs by (cases "map_of (in_families db) (fp_family fp)")
      (auto simp: project_family_def bind_result_Inr_iff map_of_dict_set map_add_def dest!: sym [of _ "in_families db'"] split: option.split)
  then show ?thesis using ok other
    by (auto simp: family_ok_def seen_with_snoc [OF seen] split: option.splits)
next
  case f: True
  show ?thesis
  proof (cases "map_of (in_families db) f")
    case new: None
    then have "map_of (in_families db') f = Some \<lparr>fr_count = 1, fr_first_seen = ts, fr_last_seen = ts, fr_examples_json = encode_strings [i]\<rparr>"
      using fs f by (auto simp: project_family_def map_add_def dest!: sym [of _ "in_families db'"])
    then show ?thesis using ok new f first_example_ok [of "[]" i]
      by (auto simp: family_ok_def seen_with_snoc [OF seen])
  next
    case (Some row)
    then obtain xs where xs: "fr_examples_json row = encode_strings xs" "examples_ok (seen_with family_of f db) xs"
      using ok by (auto simp: family_ok_def)
    then have "map_of (in_families db') f = Some (row\<lparr>fr_count := fr_count row + 1, fr_last_seen := ts,
        fr_examples_json := encode_strings (updated_examples xs i m)\<rparr>)"
      using fs f Some by (auto simp: project_family_def map_of_dict_set dest!: sym [of _ "in_families db'"])
    then show ?thesis using ok Some f updated_examples_ok [OF xs(2) m, of i]
      by (auto simp: family_ok_def seen_with_snoc [OF seen])
  qed
qed

lemma project_ok:
  assumes ok: "incidents_ok db" and run: "project fp i ts m db = Inr (db', new)" and m: "0 < m" "m \<le> 8"
    and same: "\<forall>e \<in> set (in_seen db). exact_of e = fp_fingerprint fp \<longrightarrow> family_of e = fp_family fp"
  shows "incidents_ok db' \<and> new = (i \<notin> set (map fst (in_seen db)))
    \<and> in_seen db' = in_seen db @ (if new then [(i, fp_fingerprint fp, fp_family fp)] else [])"
proof (cases "map_of (in_seen db) i")
  case (Some v)
  then have "i \<in> set (map fst (in_seen db))" using map_of_in_keys [of "in_seen db" i] by simp
  then show ?thesis using run ok Some by (simp add: project_def)
next
  case None
  then have fresh: "i \<notin> set (map fst (in_seen db))" by (simp add: map_of_eq_None_iff)
  have ps: "project_pattern fp i ts m (in_patterns db) = Inr (in_patterns db')"
    and fs: "project_family fp i ts m (in_families db) = Inr (in_families db')"
    and seen: "in_seen db' = in_seen db @ [(i, fp_fingerprint fp, fp_family fp)]" "new"
    using run None by (auto simp: project_def bind_result_Inr_iff)
  have "pattern_ok f db'" "family_ok f db'" for f
    using project_pattern_ok [OF _ ps seen(1) m same, of f] project_family_ok [OF _ fs seen(1) m, of f] ok
    by (simp_all add: incidents_ok_def)
  then show ?thesis using ok fresh seen by (simp add: incidents_ok_def)
qed

text \<open>
  The exact fingerprint is a digest that covers the family's signature: no two failures share the
  first and differ in the second, unless two signatures collide.
\<close>

definition signature_collision :: "fields list \<Rightarrow> bool" where
  "signature_collision ps \<longleftrightarrow>
     (\<exists>p \<in> set ps. \<exists>q \<in> set ps. \<exists>f g. fingerprint_failure p = Inr f \<and> fingerprint_failure q = Inr g
        \<and> fp_signature f \<noteq> fp_signature g \<and> fp_fingerprint f = fp_fingerprint g)"

lemma family_from_signature:
  "fingerprint_failure p = Inr f \<Longrightarrow> fp_family f = signature_digest (butlast (butlast (fp_signature f)))"
  by (auto simp: fingerprint_failure_def bind_result_Inr_iff Let_def butlast_append)

text \<open>The failures of the payloads, and those counted.\<close>

definition failure_ids :: "fields list \<Rightarrow> string list" where
  "failure_ids ps = concat (map (\<lambda>p. case text_field ''failure_id'' [] p of
     Inr i \<Rightarrow> if i = [] then [] else [i] | Inl _ \<Rightarrow> []) ps)"

definition seen_from :: "fields list \<Rightarrow> incident_db \<Rightarrow> bool" where
  "seen_from ps db \<longleftrightarrow> (\<forall>e \<in> set (in_seen db). \<exists>p \<in> set ps. \<exists>f. fingerprint_failure p = Inr f
     \<and> text_field ''failure_id'' [] p = Inr (fst e) \<and> exact_of e = fp_fingerprint f \<and> family_of e = fp_family f)"

lemma from_keys_snoc: "from_keys (xs @ [x]) = (if x \<in> set xs then from_keys xs else from_keys xs @ [x])"
  by (simp add: from_keys_def)

lemma project_payload_ok:
  assumes ok: "incidents_ok db" "seen_from qs db" "map fst (in_seen db) = from_keys (failure_ids qs)"
    and run: "project_payload p (db, int (length (in_seen db))) = Inr (db', n)"
    and sig: "\<not> signature_collision (qs @ [p])"
  shows "incidents_ok db' \<and> seen_from (qs @ [p]) db' \<and> map fst (in_seen db') = from_keys (failure_ids (qs @ [p]))
    \<and> n = int (length (in_seen db'))"
proof -
  obtain i where i: "text_field ''failure_id'' [] p = Inr i"
    using run by (auto simp: project_payload_def bind_result_Inr_iff)
  have more: "seen_from (qs @ [p]) db" using ok(2) by (auto simp: seen_from_def)
  show ?thesis
  proof (cases "i = []")
    case True
    then have "failure_ids (qs @ [p]) = failure_ids qs" by (simp add: failure_ids_def i)
    moreover have "db' = db" "n = int (length (in_seen db))"
      using run i True by (auto simp: project_payload_def)
    ultimately show ?thesis using ok more by simp
  next
    case False
    then have ids: "failure_ids (qs @ [p]) = failure_ids qs @ [i]" by (simp add: failure_ids_def i)
    obtain fp ts new where fp: "fingerprint_failure p = Inr fp"
      and proj: "project fp i ts default_examples db = Inr (db', new)"
      and n: "n = (if new then int (length (in_seen db)) + 1 else int (length (in_seen db)))"
      using run i False by (auto simp: project_payload_def bind_result_Inr_iff split_def)
    have same: "family_of e = fp_family fp" if counted: "e \<in> set (in_seen db)" and exact: "exact_of e = fp_fingerprint fp" for e
    proof -
      obtain q f where q: "q \<in> set qs" "fingerprint_failure q = Inr f" "exact_of e = fp_fingerprint f" "family_of e = fp_family f"
        using bspec [OF ok(2) [unfolded seen_from_def] counted] by blast
      then have "fp_signature f = fp_signature fp"
        using sig fp exact unfolding signature_collision_def by force
      then show ?thesis using q(2,4) fp family_from_signature by metis
    qed
    have "incidents_ok db' \<and> new = (i \<notin> set (map fst (in_seen db)))
        \<and> in_seen db' = in_seen db @ (if new then [(i, fp_fingerprint fp, fp_family fp)] else [])"
      using same by (intro project_ok [OF ok(1) proj]) (auto simp: default_examples_def)
    moreover have "set (map fst (in_seen db)) = set (failure_ids qs)" using ok(3) by simp
    ultimately show ?thesis using ok(3) more n i fp
      by (auto simp: ids from_keys_snoc seen_from_def simp del: set_map)
  qed
qed

lemma project_payloads_ok:
  assumes "incidents_ok db" "seen_from qs db" "map fst (in_seen db) = from_keys (failure_ids qs)"
    and "project_payloads ps (db, int (length (in_seen db))) = Inr (db', n)" "\<not> signature_collision (qs @ ps)"
  shows "incidents_ok db' \<and> seen_from (qs @ ps) db' \<and> map fst (in_seen db') = from_keys (failure_ids (qs @ ps))
    \<and> n = int (length (in_seen db'))"
  using assms
proof (induction ps arbitrary: qs db)
  case (Cons p ps)
  obtain db1 m where 1: "project_payload p (db, int (length (in_seen db))) = Inr (db1, m)"
    "project_payloads ps (db1, m) = Inr (db', n)"
    using Cons.prems(4) by (auto simp: bind_result_Inr_iff)
  have "set (qs @ [p]) \<subseteq> set (qs @ p # ps)" by auto
  then have "\<not> signature_collision (qs @ [p])"
    using Cons.prems(5) unfolding signature_collision_def by blast
  from project_payload_ok [OF Cons.prems(1-3) 1(1) this] Cons.IH [of db1 "qs @ [p]"] 1(2) Cons.prems(5)
  show ?case by simp
qed simp

lemma get_pattern_ok:
  assumes "incidents_ok db"
  shows "if seen_with exact_of f db = [] then get_pattern f db = Inr None
    else \<exists>p. get_pattern f db = Inr (Some p) \<and> ic_fingerprint p = f \<and> ic_count p = int (length (seen_with exact_of f db))
      \<and> ic_family_count p = int (length (seen_with family_of (ic_family p) db))
      \<and> examples_ok (seen_with exact_of f db) (ic_examples p)
      \<and> examples_ok (seen_with family_of (ic_family p) db) (ic_family_examples p)
      \<and> (\<forall>e \<in> set (in_seen db). exact_of e = f \<longrightarrow> family_of e = ic_family p)"
proof (cases "map_of (in_patterns db) f")
  case None
  have "pattern_ok f db" using assms by (simp add: incidents_ok_def)
  then have "seen_with exact_of f db = []" using None by (simp add: pattern_ok_def)
  then show ?thesis using None by (simp add: get_pattern_def)
next
  case (Some row)
  have p: "pattern_ok f db" and g: "family_ok (pr_family row) db" using assms by (simp_all add: incidents_ok_def)
  obtain e where e: "e \<in> set (in_seen db)" "exact_of e = f"
    using p Some by (auto simp: pattern_ok_def seen_with_def filter_empty_conv)
  then have "family_of e = pr_family row" using p Some by (auto simp: pattern_ok_def)
  then have "seen_with family_of (pr_family row) db \<noteq> []" using e(1) by (auto simp: seen_with_def filter_empty_conv)
  then obtain frow where frow: "map_of (in_families db) (pr_family row) = Some frow"
    using g by (auto simp: family_ok_def split: option.splits)
  then show ?thesis using p g Some by (auto simp: pattern_ok_def family_ok_def get_pattern_def)
qed

text \<open>
  C36: the projection counts every failure once. After projecting any payloads, the failures
  counted are their failure ids without repetition, and the pattern of a fingerprint, if a
  failure has it, is read back without an error: its count is the number of failures with the fingerprint,
  its family's count the number in the family, and its examples are distinct, at most eight and
  among them. Assumed is that no two different signatures share their digest.
\<close>

theorem incident_counts_exact:
  assumes "project_payloads ps (empty_incidents, 0) = Inr (db, n)" "\<not> signature_collision ps"
  shows "n = int (length (in_seen db)) \<and> map fst (in_seen db) = from_keys (failure_ids ps) \<and> seen_from ps db
    \<and> (\<forall>f. if seen_with exact_of f db = [] then get_pattern f db = Inr None
      else \<exists>p. get_pattern f db = Inr (Some p) \<and> ic_fingerprint p = f \<and> ic_count p = int (length (seen_with exact_of f db))
        \<and> ic_family_count p = int (length (seen_with family_of (ic_family p) db))
        \<and> examples_ok (seen_with exact_of f db) (ic_examples p)
        \<and> examples_ok (seen_with family_of (ic_family p) db) (ic_family_examples p)
        \<and> (\<forall>e \<in> set (in_seen db). exact_of e = f \<longrightarrow> family_of e = ic_family p))"
proof -
  have "incidents_ok empty_incidents"
    by (simp add: incidents_ok_def pattern_ok_def family_ok_def seen_with_def empty_incidents_def)
  moreover have "seen_from [] empty_incidents" "map fst (in_seen empty_incidents) = from_keys (failure_ids [])"
    "int (length (in_seen empty_incidents)) = 0"
    by (simp_all add: seen_from_def empty_incidents_def failure_ids_def from_keys_def)
  ultimately have "incidents_ok db \<and> seen_from ps db \<and> map fst (in_seen db) = from_keys (failure_ids ps) \<and> n = int (length (in_seen db))"
    using project_payloads_ok [of empty_incidents "[]" ps db n] assms by simp
  then show ?thesis using get_pattern_ok [of db] by simp
qed

theorem incident_counts_exact_witness:
  "\<exists>db. project_payloads [demo_failure, demo_failure] (empty_incidents, 0) = Inr (db, 1)
    \<and> map fst (in_seen db) = [''f1''] \<and> \<not> signature_collision [demo_failure, demo_failure]"
proof -
  obtain db where db: "project_payloads [demo_failure] (empty_incidents, 0) = Inr (db, 1)"
    using demo_failure_projects by blast
  obtain fp where fp: "fingerprint_failure demo_failure = Inr fp"
    by (simp add: fingerprint_failure_def family_keys_def text_field_def doc_get_def demo_failure_def Let_def)
  have once: "\<not> signature_collision [demo_failure]" "\<not> signature_collision [demo_failure, demo_failure]"
    by (simp_all add: signature_collision_def fp)
  have ids: "failure_ids [demo_failure] = [''f1'']"
    by (simp add: failure_ids_def text_field_def doc_get_def demo_failure_def)
  have seen: "map fst (in_seen db) = [''f1'']"
    using incident_counts_exact [OF db once(1)] by (simp add: ids from_keys_def)
  then have "''f1'' \<in> set (map fst (in_seen db))" by simp
  then have "map_of (in_seen db) ''f1'' \<noteq> None" by (simp add: map_of_eq_None_iff)
  moreover have "text_field ''failure_id'' [] demo_failure = Inr ''f1''" "created_at demo_failure = Inr 5"
    by (simp_all add: text_field_def created_at_def doc_get_def demo_failure_def)
  ultimately have again: "project_payload demo_failure (db, 1) = Inr (db, 1)"
    using fp by (auto simp: project_payload_def project_def)
  have "project_payloads ([demo_failure] @ [demo_failure]) (empty_incidents, 0) = project_payloads [demo_failure] (db, 1)"
    by (simp only: project_payloads_append db bind_result_simps)
  moreover have "project_payloads [demo_failure] (db, 1) = Inr (db, 1)" by (simp add: again)
  ultimately have "project_payloads [demo_failure, demo_failure] (empty_incidents, 0) = Inr (db, 1)"
    by (simp only: append.simps)
  then show ?thesis using seen once(2) by (intro exI conjI)
qed

end
