(* ===== verification/Segmented_Ledger.thy ===== *)
theory Segmented_Ledger
  imports "HOL-Library.Multiset" Forensic_Ledger
begin

text \<open>
  The segmented forensic ledger (\<open>forensics/providers\<close>): one hash chain over the files
  \<open>00000000.jsonl\<close>, \<open>00000001.jsonl\<close>, ... of a directory. \<open>segment_verifier.py\<close> verifies and streams
  the directory, \<open>segmented_writer.py\<close> appends and rotates, \<open>segmented_manifest.py\<close> publishes
  a summary, \<open>directory_change_signal.py\<close> tells whether somebody changed the directory, and
  \<open>segmented_hashlog.py\<close> is the facade.

  The directory is a list of named files with the directory's own stat signature. Its operations
  take as inputs what the operating system answers: the notification calls, the outcome of the
  write, the signatures afterwards and what others did to the directory meanwhile.
\<close>

subsection \<open>The directory\<close>

record segment_dir =
  sd_entries :: "(string \<times> log_file) list"
  sd_stat :: file_stat

definition dir_file :: "string \<Rightarrow> segment_dir \<Rightarrow> log_file" where
  "dir_file name d = (case map_of (sd_entries d) name of None \<Rightarrow> missing_log | Some f \<Rightarrow> f)"

definition put_file :: "string \<Rightarrow> log_file \<Rightarrow> segment_dir \<Rightarrow> segment_dir" where
  "put_file name f d = (if lf_text f = None then d else d\<lparr>sd_entries := dict_set name f (sd_entries d)\<rparr>)"

definition byte_size :: "string \<Rightarrow> int" where
  "byte_size s = int (length (utf8_bytes s))"

text \<open>\<open>f"{index:08d}.jsonl"\<close>, and what the glob pattern of \<open>segment_files\<close> matches.\<close>

definition segment_name :: "nat \<Rightarrow> string" where
  "segment_name i = pad_text 8 i @ ''.jsonl''"

definition is_segment_name :: "string \<Rightarrow> bool" where
  "is_segment_name name \<longleftrightarrow> length name = 14 \<and> list_all is_digit (take 8 name) \<and> drop 8 name = ''.jsonl''"

definition segment_files :: "segment_dir \<Rightarrow> string list" where
  "segment_files d = sort (filter is_segment_name (map fst (sd_entries d)))"

subsection \<open>Verification\<close>

record segment_summary =
  ss_index :: nat
  ss_rows :: int
  ss_bytes :: int
  ss_start_prev :: string
  ss_end_hash :: string
  ss_filename :: string

record segment_scan =
  sn_total_rows :: int
  sn_tail_hash :: string
  sn_summaries :: "segment_summary list"

definition segment_label :: "nat \<Rightarrow> nat \<Rightarrow> string" where
  "segment_label i n = ''segment '' @ nat_text i @ '' line '' @ nat_text n"

definition segment_gap :: "nat \<Rightarrow> string \<Rightarrow> exc" where
  "segment_gap i name = chain_error (''segment sequence gap: expected '' @ segment_name i @ '', found '' @ name)"

fun scan_segments ::
    "int option \<Rightarrow> bool \<Rightarrow> segment_dir \<Rightarrow> nat \<Rightarrow> string list \<Rightarrow> chain_scan \<times> segment_summary list
     \<Rightarrow> exc + chain_scan \<times> segment_summary list" where
  "scan_segments start collect d i [] s = Inr s"
| "scan_segments start collect d i (name # names) (st, sums) =
     (if name \<noteq> segment_name i then Inl (segment_gap i name)
      else (let content = file_text (dir_file name d) in
        bind_result (scan_lines (segment_label i) start collect 1 (text_lines content) st) (\<lambda>st'.
          scan_segments start collect d (i + 1) names
            (st', sums @ [\<lparr>ss_index = i, ss_rows = cs_count st' - cs_count st, ss_bytes = byte_size content,
               ss_start_prev = cs_prev st, ss_end_hash = cs_prev st', ss_filename = name\<rparr>]))))"

definition segment_chain_scan :: "int option \<Rightarrow> bool \<Rightarrow> segment_dir \<Rightarrow> exc + segment_scan \<times> chain_scan" where
  "segment_chain_scan start collect d =
     (if \<exists>k. start = Some k \<and> k < 0 then Inl negative_start
      else bind_result (scan_segments start collect d 0 (segment_files d) (empty_scan, [])) (\<lambda>(st, sums).
           bind_result (finish_scan start st) (\<lambda>st.
             Inr (\<lparr>sn_total_rows = cs_count st, sn_tail_hash = cs_prev st, sn_summaries = sums\<rparr>, st))))"

definition scan_segment_chain :: "segment_dir \<Rightarrow> exc + segment_scan" where
  "scan_segment_chain d = bind_result (segment_chain_scan None True d) (\<lambda>(r, st). Inr r)"

definition scan_segment_chain_payloads :: "int \<Rightarrow> segment_dir \<Rightarrow> exc + segment_scan \<times> ledger_slice" where
  "scan_segment_chain_payloads k d =
     bind_result (segment_chain_scan (Some k) True d) (\<lambda>(r, st).
     bind_result (checked valid_slice ''VerifiedLedgerSlice'' (slice_of k st)) (\<lambda>s. Inr (r, s)))"

definition scan_segment_chain_cut :: "int \<Rightarrow> segment_dir \<Rightarrow> exc + segment_scan \<times> ledger_cut" where
  "scan_segment_chain_cut k d =
     bind_result (segment_chain_scan (Some k) False d) (\<lambda>(r, st).
     bind_result (checked valid_cut ''VerifiedLedgerCut'' (cut_of k st)) (\<lambda>c. Inr (r, c)))"

subsection \<open>Streaming a cut\<close>

definition segmented_changed :: exc where
  "segmented_changed = chain_error ''segmented ledger changed after verified cut''"

fun stream_segments ::
    "ledger_cut \<Rightarrow> int \<Rightarrow> segment_dir \<Rightarrow> nat \<Rightarrow> string list \<Rightarrow> chain_scan
     \<Rightarrow> fields list list \<times> (exc + chain_scan option)" where
  "stream_segments c batch d i [] st = ([], Inr (Some st))"
| "stream_segments c batch d i (name # names) st =
     (if name \<noteq> segment_name i then ([], Inl (segment_gap i name))
      else (case stream_lines segmented_changed (segment_label i) c batch 1 (text_lines (file_text (dir_file name d))) st of
          (out, Inr (Some st)) \<Rightarrow> (let (rest, stop) = stream_segments c batch d (i + 1) names st in (out @ rest, stop))
        | (out, stop) \<Rightarrow> (out, stop)))"

definition iter_segment_chain_payload_batches ::
    "ledger_cut \<Rightarrow> int \<Rightarrow> segment_dir \<Rightarrow> fields list list \<times> (exc + unit)" where
  "iter_segment_chain_payload_batches c batch d =
     (if batch \<le> 0 then ([], Inl (value_error ''batch_size must be positive''))
      else if lc_total_rows c = 0 then ([], Inr ())
      else (case stream_segments c batch d 0 (segment_files d) empty_scan of
             (out, Inl x) \<Rightarrow> (out, Inl x)
           | (out, Inr None) \<Rightarrow> (out, Inr ())
           | (out, Inr (Some st)) \<Rightarrow>
               (out, Inl (chain_error (''verified segmented cut rows='' @ int_text (lc_total_rows c)
                  @ '' exceeds streamed rows='' @ int_text (cs_count st))))))"

subsection \<open>The change signal\<close>

text \<open>
  The three ways of watching a directory; the answer of the notification call of the operating
  system (nothing happened, something changed, an \<open>OSError\<close>); the latch.
\<close>

datatype watch_mode = Watch_inotify | Watch_windows | Watch_stat

datatype os_answer = Os_idle | Os_changed | Os_fails exc

record change_signal =
  cg_mode :: watch_mode
  cg_pending :: bool

definition changed_since ::
    "os_answer \<Rightarrow> file_stat option \<Rightarrow> file_stat option \<Rightarrow> change_signal \<Rightarrow> change_signal \<times> (exc + bool)" where
  "changed_since answer current expected s =
     (if cg_pending s then (s, Inr True)
      else (case cg_mode s of
          Watch_inotify \<Rightarrow> (case answer of Os_idle \<Rightarrow> (s, Inr False) | _ \<Rightarrow> (s\<lparr>cg_pending := True\<rparr>, Inr True))
        | Watch_windows \<Rightarrow>
            (case answer of
               Os_idle \<Rightarrow> (s, Inr False) | Os_changed \<Rightarrow> (s\<lparr>cg_pending := True\<rparr>, Inr True) | Os_fails x \<Rightarrow> (s, Inl x))
        | Watch_stat \<Rightarrow> if current \<noteq> expected then (s\<lparr>cg_pending := True\<rparr>, Inr True) else (s, Inr False)))"

text \<open>\<open>wait_changed_since\<close> polls once and then waits, with the answer \<open>later\<close>; \<open>timeout\<close> is in milliseconds.\<close>

definition wait_changed_since ::
    "int \<Rightarrow> os_answer \<Rightarrow> os_answer \<Rightarrow> file_stat option \<Rightarrow> file_stat option \<Rightarrow> change_signal
     \<Rightarrow> change_signal \<times> (exc + bool)" where
  "wait_changed_since timeout answer later current expected s =
     (if timeout < 0 then (s, Inl (value_error ''directory change wait must be finite and non-negative''))
      else (case changed_since answer current expected s of
          (s, Inl x) \<Rightarrow> (s, Inl x)
        | (s, Inr b) \<Rightarrow>
            if b \<or> timeout = 0 then (s, Inr (cg_pending s))
            else changed_since later current expected s))"

text \<open>\<open>acknowledge\<close>: the answer of the watch and, on Windows, of advancing the handle.\<close>

fun acknowledge :: "os_answer \<times> os_answer \<Rightarrow> change_signal \<Rightarrow> change_signal \<times> (exc + unit)" where
  "acknowledge (answer, advance) s =
     (case (cg_mode s, answer) of
        (Watch_inotify, Os_fails x) \<Rightarrow> (s, Inl x)
      | (Watch_windows, Os_fails x) \<Rightarrow> (s, Inl x)
      | (Watch_windows, Os_changed) \<Rightarrow>
          (case advance of Os_fails x \<Rightarrow> (s, Inl x) | _ \<Rightarrow> (s\<lparr>cg_pending := False\<rparr>, Inr ()))
      | _ \<Rightarrow> (s\<lparr>cg_pending := False\<rparr>, Inr ()))"

subsection \<open>The manifest\<close>

text \<open>\<open>json.dumps(..., indent=2)\<close> of a document: \<open>n\<close> is the column of its enclosing container.\<close>

definition indented_line :: "nat \<Rightarrow> string" where
  "indented_line n = CHR 0x0A # replicate n (CHR 0x20)"

fun indented_items :: "nat \<Rightarrow> string list \<Rightarrow> string" where
  "indented_items n [] = []"
| "indented_items n [x] = indented_line n @ x"
| "indented_items n (x # y # xs) = indented_line n @ x @ '','' @ indented_items n (y # xs)"

fun render_indented :: "nat \<Rightarrow> json \<Rightarrow> string" where
  "render_indented n (JArr xs) =
     (if xs = [] then ''[]''
      else ''['' @ indented_items (n + 2) (map (render_indented (n + 2)) xs) @ indented_line n @ '']'')"
| "render_indented n (JObj kvs) =
     (if kvs = [] then ''{}''
      else ''{'' @ indented_items (n + 2) (map (\<lambda>(k, v). render False (JStr k) @ '': '' @ render_indented (n + 2) v) kvs)
        @ indented_line n @ ''}'')"
| "render_indented n j = render False j"

definition summary_document :: "segment_summary \<Rightarrow> json" where
  "summary_document s = JObj [(''index'', JInt (int (ss_index s))), (''rows'', JInt (ss_rows s)), (''bytes'', JInt (ss_bytes s)),
     (''start_prev_hash'', JStr (ss_start_prev s)), (''end_hash'', JStr (ss_end_hash s)), (''filename'', JStr (ss_filename s))]"

definition manifest_text :: "segment_summary list \<Rightarrow> string" where
  "manifest_text sums = render_indented 0 (sort_keys (JObj [(''schema_version'', JInt 1),
     (''segments'', JArr (map summary_document sums)), (''total_rows'', JInt (sum_list (map ss_rows sums))),
     (''tail_hash'', JStr (if sums = [] then zero_hash else ss_end_hash (last sums)))]))"

definition manifest_name :: string where
  "manifest_name = ''manifest.json''"

text \<open>
  The outcome of the atomic replacement: the file is in place, perhaps with an exception afterwards,
  or not. The first signature is the directory's.
\<close>

datatype manifest_outcome = Manifest_written file_stat file_stat "exc option" | Manifest_unwritten file_stat exc

fun write_manifest :: "segment_summary list \<Rightarrow> manifest_outcome \<Rightarrow> segment_dir \<Rightarrow> segment_dir \<times> (exc + unit)" where
  "write_manifest sums (Manifest_written ds fs x) d =
     ((put_file manifest_name \<lparr>lf_text = Some (manifest_text sums), lf_stat = fs, lf_synced = manifest_text sums\<rparr> d)\<lparr>sd_stat := ds\<rparr>,
      case x of None \<Rightarrow> Inr () | Some x \<Rightarrow> Inl x)"
| "write_manifest sums (Manifest_unwritten ds x) d = (d\<lparr>sd_stat := ds\<rparr>, Inl x)"

subsection \<open>Appending and rotating\<close>

record segment_state =
  sw_initialized :: bool
  sw_tail_hash :: string
  sw_count :: int
  sw_active_index :: nat
  sw_active_rows :: int
  sw_active_start_prev :: string
  sw_active_signature :: "file_stat option"
  sw_directory_signature :: "file_stat option"

definition new_segment_state :: segment_state where
  "new_segment_state = \<lparr>sw_initialized = False, sw_tail_hash = zero_hash, sw_count = 0, sw_active_index = 0,
     sw_active_rows = 0, sw_active_start_prev = zero_hash, sw_active_signature = None, sw_directory_signature = None\<rparr>"

definition rotates :: "int \<Rightarrow> string \<Rightarrow> segment_dir \<Rightarrow> segment_state \<Rightarrow> bool" where
  "rotates max_bytes encoded d st \<longleftrightarrow>
     0 < sw_active_rows st
     \<and> max_bytes < byte_size (file_text (dir_file (segment_name (sw_active_index st)) d)) + byte_size encoded"

definition segment_append ::
    "int \<Rightarrow> int \<Rightarrow> fields \<Rightarrow> append_outcome \<Rightarrow> file_stat \<Rightarrow> segment_dir \<times> segment_state
     \<Rightarrow> (segment_dir \<times> segment_state) \<times> (exc + string \<times> bool)" where
  "segment_append max_bytes fsync_every p out ds s =
     (let (d, st) = s;
          (encoded, row_hash) = encode_row (sw_tail_hash st) p;
          rotated = rotates max_bytes encoded d st;
          index = (if rotated then sw_active_index st + 1 else sw_active_index st);
          name = segment_name index;
          due = ((sw_count st + 1) mod fsync_every = 0);
          created = (lf_text (dir_file name d) = None);
          (f, r) = write_row encoded due out (dir_file name d);
          d = (put_file name f d)\<lparr>sd_stat := ds\<rparr>
      in case r of
           Inl x \<Rightarrow> ((d, st), Inl x)
         | Inr _ \<Rightarrow>
             ((d, \<lparr>sw_initialized = True, sw_tail_hash = row_hash, sw_count = sw_count st + 1, sw_active_index = index,
                 sw_active_rows = (if rotated then 0 else sw_active_rows st) + 1,
                 sw_active_start_prev = (if rotated then sw_tail_hash st else sw_active_start_prev st),
                 sw_active_signature = stat_signature f, sw_directory_signature = Some ds\<rparr>),
              Inr (row_hash, created)))"

subsection \<open>The facade\<close>

record segment_log =
  sl_dir :: segment_dir
  sl_state :: segment_state
  sl_signal :: change_signal
  sl_max_bytes :: int
  sl_fsync_every :: int
  sl_read_only :: bool

definition open_segmented ::
    "int \<Rightarrow> int \<Rightarrow> bool \<Rightarrow> bool \<Rightarrow> watch_mode \<Rightarrow> segment_dir \<Rightarrow> exc + segment_log" where
  "open_segmented max_bytes fsync_every read_only root_exists mode d =
     (if max_bytes \<le> 0 then Inl (value_error ''max_segment_bytes must be positive'')
      else if fsync_every \<le> 0 then Inl (value_error ''fsync_every must be positive'')
      else if read_only \<and> \<not> root_exists then Inl (''FileNotFoundError'', [])
      else Inr \<lparr>sl_dir = d, sl_state = new_segment_state, sl_signal = \<lparr>cg_mode = mode, cg_pending = False\<rparr>,
        sl_max_bytes = max_bytes, sl_fsync_every = fsync_every, sl_read_only = read_only\<rparr>)"

definition dir_signature :: "segment_log \<Rightarrow> file_stat option" where
  "dir_signature l = Some (sd_stat (sl_dir l))"

definition state_of_scan :: "segment_scan \<Rightarrow> segment_dir \<Rightarrow> segment_state" where
  "state_of_scan r d =
     (let index = length (segment_files d) - 1; sums = sn_summaries r in
      \<lparr>sw_initialized = True, sw_tail_hash = sn_tail_hash r, sw_count = sn_total_rows r, sw_active_index = index,
       sw_active_rows = (if sums = [] then 0 else ss_rows (last sums)),
       sw_active_start_prev = (if sums = [] then sn_tail_hash r else ss_start_prev (last sums)),
       sw_active_signature = stat_signature (dir_file (segment_name index) d), sw_directory_signature = Some (sd_stat d)\<rparr>)"

text \<open>The manifest is published if \<open>publish\<close> is the outcome of writing it.\<close>

definition publish_manifest :: "manifest_outcome option \<Rightarrow> segment_scan \<Rightarrow> segment_log \<Rightarrow> segment_log \<times> (exc + unit)" where
  "publish_manifest publish r l =
     (case publish of
        None \<Rightarrow> (l, Inr ())
      | Some out \<Rightarrow>
          if sl_read_only l then (l, Inl (''PermissionError'', ''read-only segmented ledger cannot publish manifest''))
          else (case write_manifest (sn_summaries r) out (sl_dir l) of
              (d, Inl x) \<Rightarrow> (l\<lparr>sl_dir := d\<rparr>, Inl x)
            | (d, Inr _) \<Rightarrow>
                (l\<lparr>sl_dir := d, sl_state := (sl_state l)\<lparr>sw_directory_signature := Some (sd_stat d)\<rparr>\<rparr>, Inr ())))"

definition adopt_segments ::
    "manifest_outcome option \<Rightarrow> os_answer \<times> os_answer \<Rightarrow> segment_scan \<Rightarrow> segment_log
     \<Rightarrow> segment_log \<times> (exc + int \<times> string)" where
  "adopt_segments publish ack r l =
     (case publish_manifest publish r (l\<lparr>sl_state := state_of_scan r (sl_dir l)\<rparr>) of
        (l, Inl x) \<Rightarrow> (l, Inl x)
      | (l, Inr _) \<Rightarrow>
          (case acknowledge ack (sl_signal l) of
             (g, Inl x) \<Rightarrow> (l\<lparr>sl_signal := g\<rparr>, Inl x)
           | (g, Inr _) \<Rightarrow> (l\<lparr>sl_signal := g\<rparr>, Inr (sn_total_rows r, sn_tail_hash r))))"

definition verify_segments ::
    "manifest_outcome option \<Rightarrow> os_answer \<times> os_answer \<Rightarrow> segment_log \<Rightarrow> segment_log \<times> (exc + int \<times> string)" where
  "verify_segments publish ack l =
     (case scan_segment_chain (sl_dir l) of Inl x \<Rightarrow> (l, Inl x) | Inr r \<Rightarrow> adopt_segments publish ack r l)"

definition adopt_verified ::
    "os_answer \<times> os_answer \<Rightarrow> segment_scan \<Rightarrow> 'a ledger_cut_scheme \<Rightarrow> segment_log \<Rightarrow> segment_log \<times> (exc + 'a ledger_cut_scheme)" where
  "adopt_verified ack r c l =
     (case adopt_segments None ack r l of
        (l, Inl x) \<Rightarrow> (l, Inl x)
      | (l, Inr (n, h)) \<Rightarrow>
          (l, if n \<noteq> lc_total_rows c \<or> h \<noteq> lc_tail_hash c
              then Inl (chain_error ''verified segment cut disagrees with adopted scan'') else Inr c))"

definition segments_payloads_after ::
    "os_answer \<times> os_answer \<Rightarrow> int \<Rightarrow> segment_log \<Rightarrow> segment_log \<times> (exc + ledger_slice)" where
  "segments_payloads_after ack k l =
     (case scan_segment_chain_payloads k (sl_dir l) of Inl x \<Rightarrow> (l, Inl x) | Inr (r, s) \<Rightarrow> adopt_verified ack r s l)"

definition segments_cut_after ::
    "os_answer \<times> os_answer \<Rightarrow> int \<Rightarrow> segment_log \<Rightarrow> segment_log \<times> (exc + ledger_cut)" where
  "segments_cut_after ack k l =
     (case scan_segment_chain_cut k (sl_dir l) of Inl x \<Rightarrow> (l, Inl x) | Inr (r, c) \<Rightarrow> adopt_verified ack r c l)"

definition segments_cached_tail :: "os_answer \<times> os_answer \<Rightarrow> segment_log \<Rightarrow> segment_log \<times> (exc + int \<times> string)" where
  "segments_cached_tail ack l =
     (if sw_initialized (sl_state l) then (l, Inr (sw_count (sl_state l), sw_tail_hash (sl_state l)))
      else verify_segments None ack l)"

definition ensure_owned_segments ::
    "os_answer \<Rightarrow> os_answer \<times> os_answer \<Rightarrow> segment_log \<Rightarrow> segment_log \<times> (exc + unit)" where
  "ensure_owned_segments answer ack l =
     (let st = sl_state l in
      if \<not> sw_initialized st
      then (case verify_segments None ack l of (l, Inl x) \<Rightarrow> (l, Inl x) | (l, Inr _) \<Rightarrow> (l, Inr ()))
      else (case changed_since answer (dir_signature l) (sw_directory_signature st) (sl_signal l) of
          (g, Inl x) \<Rightarrow> (l\<lparr>sl_signal := g\<rparr>, Inl x)
        | (g, Inr changed) \<Rightarrow>
            if changed \<or> stat_signature (dir_file (segment_name (sw_active_index st)) (sl_dir l)) \<noteq> sw_active_signature st
            then (case verify_segments None ack (l\<lparr>sl_signal := g\<rparr>) of
                (l, Inl x) \<Rightarrow> (l, Inl x)
              | (l, Inr _) \<Rightarrow> (l, Inl (chain_error ''segmented ledger changed outside owning writer'')))
            else (l\<lparr>sl_signal := g\<rparr>, Inr ())))"

text \<open>\<open>_assert_owned_directory_namespace\<close>; its message also lists the names.\<close>

definition namespace_drift :: "segment_log \<Rightarrow> bool" where
  "namespace_drift l \<longleftrightarrow>
     (let actual = map fst (sd_entries (sl_dir l));
          expected = map segment_name [0..<sw_active_index (sl_state l) + 1]
            @ (if manifest_name \<in> set actual then [manifest_name] else [])
      in set actual \<noteq> set expected)"

text \<open>What the environment contributes to an append, in the order it is asked.\<close>

record append_answers =
  aa_before :: os_answer
  aa_verify :: "os_answer \<times> os_answer"
  aa_write :: append_outcome
  aa_dir :: file_stat
  aa_others :: "segment_dir \<Rightarrow> segment_dir"
  aa_after :: os_answer
  aa_poll :: os_answer
  aa_wait :: os_answer
  aa_ack :: "os_answer \<times> os_answer"

definition notification_wait :: int where
  "notification_wait = 250"

definition confirm_append ::
    "bool \<Rightarrow> append_answers \<Rightarrow> file_stat option \<Rightarrow> segment_log \<Rightarrow> segment_log \<times> (exc + unit)" where
  "confirm_append created w expected l =
     (case changed_since (aa_after w) (dir_signature l) expected (sl_signal l) of
        (g, Inl x) \<Rightarrow> (l\<lparr>sl_signal := g\<rparr>, Inl x)
      | (g, Inr changed) \<Rightarrow>
          if created
          then (case (if changed then (g, Inr True)
                      else wait_changed_since notification_wait (aa_poll w) (aa_wait w) (dir_signature l) expected g) of
              (g, Inl x) \<Rightarrow> (l\<lparr>sl_signal := g\<rparr>, Inl x)
            | (g, Inr changed) \<Rightarrow>
                if \<not> changed
                then (l\<lparr>sl_signal := g\<rparr>, Inl (chain_error ''owned segment creation was not observed by directory authority''))
                else if namespace_drift l
                then (l\<lparr>sl_signal := g\<rparr>, Inl (chain_error ''segmented ledger directory namespace drift''))
                else (case acknowledge (aa_ack w) g of (g, r) \<Rightarrow> (l\<lparr>sl_signal := g\<rparr>, r)))
          else if changed
          then (l\<lparr>sl_signal := g\<rparr>, Inl (chain_error ''segmented ledger directory changed during owning writer append''))
          else (l\<lparr>sl_signal := g\<rparr>, Inr ()))"

definition append_segments :: "fields \<Rightarrow> append_answers \<Rightarrow> segment_log \<Rightarrow> segment_log \<times> (exc + string)" where
  "append_segments p w l =
     (if sl_read_only l then (l, Inl (''PermissionError'', ''read-only segmented ledger cannot append''))
      else (case ensure_owned_segments (aa_before w) (aa_verify w) l of
          (l, Inl x) \<Rightarrow> (l, Inl x)
        | (l, Inr _) \<Rightarrow>
            (case segment_append (sl_max_bytes l) (sl_fsync_every l) p (aa_write w) (aa_dir w) (sl_dir l, sl_state l) of
               ((d, st), Inl x) \<Rightarrow> (l\<lparr>sl_dir := d, sl_state := st\<rparr>, Inl x)
             | ((d, st), Inr (row_hash, created)) \<Rightarrow>
                 (case confirm_append created w (sw_directory_signature (sl_state l))
                     (l\<lparr>sl_dir := aa_others w d, sl_state := st\<rparr>) of
                    (l, Inl x) \<Rightarrow> (l, Inl x)
                  | (l, Inr _) \<Rightarrow>
                      (l\<lparr>sl_state := (sl_state l)\<lparr>sw_directory_signature := dir_signature l\<rparr>\<rparr>, Inr row_hash)))))"

subsection \<open>Segments are pieces of one file\<close>

text \<open>
  The segments of a directory whose names are consecutive and each of which ends its last line hold
  what one file with their joined text holds; only the wording of an error differs.
\<close>

definition segment_texts :: "segment_dir \<Rightarrow> string list" where
  "segment_texts d = map (\<lambda>name. file_text (dir_file name d)) (segment_files d)"

definition joined_segments :: "segment_dir \<Rightarrow> string" where
  "joined_segments d = concat (segment_texts d)"

definition whole_segments :: "segment_dir \<Rightarrow> bool" where
  "whole_segments d \<longleftrightarrow>
     segment_files d = map segment_name [0..<length (segment_files d)] \<and> (\<forall>s \<in> set (segment_texts d). ends_line s)"

lemma error_class_bind: "error_class (bind_result r f) = bind_result (error_class r) (\<lambda>x. error_class (f x))"
  by (cases r) simp_all

lemma fst_chain_error [simp]: "fst (chain_error m) = ''HashChainError''"
  by (simp add: chain_error_def)

lemma scan_line_label: "error_class (scan_line label prev line) = error_class (scan_line label' prev line)"
proof (cases "json_loads False line")
  case (Inr row)
  have "error_class (check_row label prev row) = error_class (check_row label' prev row)"
    by (auto simp: check_row_def Let_def split: json.split option.split)
  then show ?thesis by (simp add: scan_line_def Inr)
qed (simp add: scan_line_def)

lemma verified_rows_label:
  "error_class (verified_rows label n ls prev) = error_class (verified_rows label' m ls prev)"
proof (induction ls arbitrary: n m prev)
  case (Cons line ls)
  have "error_class (scan_line (label n) prev line) = error_class (scan_line (label' m) prev line)" by (rule scan_line_label)
  moreover have "error_class (verified_rows label (n + 1) ls prev') = error_class (verified_rows label' (m + 1) ls prev')" for prev'
    by (rule Cons.IH)
  ultimately show ?case by (simp add: error_class_bind)
qed simp

fun segment_rows :: "nat \<Rightarrow> string list \<Rightarrow> string \<Rightarrow> exc + (fields \<times> string) list list" where
  "segment_rows i [] prev = Inr []"
| "segment_rows i (s # ss) prev =
     bind_result (verified_rows (segment_label i) 1 (text_lines s) prev) (\<lambda>rows.
     bind_result (segment_rows (i + 1) ss (tail_of prev rows)) (\<lambda>rest. Inr (rows # rest)))"

fun summaries_of :: "nat \<Rightarrow> string list \<Rightarrow> string \<Rightarrow> (fields \<times> string) list list \<Rightarrow> segment_summary list" where
  "summaries_of i (s # ss) prev (rows # rest) =
     \<lparr>ss_index = i, ss_rows = int (length rows), ss_bytes = byte_size s, ss_start_prev = prev,
      ss_end_hash = tail_of prev rows, ss_filename = segment_name i\<rparr> # summaries_of (i + 1) ss (tail_of prev rows) rest"
| "summaries_of i ss prev rs = []"

lemma scan_segments_rows:
  assumes "names = map segment_name [i..<i + length names]"
  shows "scan_segments start collect d i names (st, sums) =
    bind_result (segment_rows i (map (\<lambda>name. file_text (dir_file name d)) names) (cs_prev st)) (\<lambda>rs.
      Inr (fold (scan_row start collect) (concat rs) st,
           sums @ summaries_of i (map (\<lambda>name. file_text (dir_file name d)) names) (cs_prev st) rs))"
  using assms
proof (induction names arbitrary: i st sums)
  case (Cons name names)
  have upt: "[i..<i + length (name # names)] = i # [i + 1..<i + 1 + length names]" by (simp add: upt_rec [of i] Suc_le_eq)
  then have name: "name = segment_name i" "names = map segment_name [i + 1..<i + 1 + length names]"
    using Cons.prems by simp_all
  note ih = Cons.IH [OF name(2)]
  show ?case
  proof (cases "verified_rows (segment_label i) 1 (text_lines (file_text (dir_file name d))) (cs_prev st)")
    case (Inr rows)
    then show ?thesis
      by (cases "segment_rows (i + 1) (map (\<lambda>name. file_text (dir_file name d)) names) (tail_of (cs_prev st) rows)")
        (simp_all add: name(1) [symmetric] Let_def scan_lines_rows ih fold_scan_row del: One_nat_def Suc_eq_plus1)
  qed (simp add: name(1) [symmetric] Let_def scan_lines_rows)
qed simp

lemma segment_rows_joined:
  assumes "\<forall>s \<in> set ss. ends_line s"
  shows "error_class (bind_result (segment_rows i ss prev) (\<lambda>rs. Inr (concat rs))) =
    error_class (verified_rows label n (text_lines (concat ss)) prev)"
  using assms
proof (induction ss arbitrary: i prev n)
  case (Cons s ss)
  note ih = Cons.IH [of "i + 1" _ "n + length (text_lines s)"]
  have "error_class (verified_rows (segment_label i) 1 (text_lines s) prev) = error_class (verified_rows label n (text_lines s) prev)"
    by (rule verified_rows_label)
  then show ?case
  proof (cases "verified_rows label n (text_lines s) prev"; cases "verified_rows (segment_label i) 1 (text_lines s) prev")
    fix rows rows'
    assume r: "verified_rows label n (text_lines s) prev = Inr rows" "verified_rows (segment_label i) 1 (text_lines s) prev = Inr rows'"
      "error_class (verified_rows (segment_label i) 1 (text_lines s) prev) = error_class (verified_rows label n (text_lines s) prev)"
    then show ?thesis using ih [of "tail_of prev rows"] Cons.prems
      by (cases "segment_rows (i + 1) ss (tail_of prev rows)";
          cases "verified_rows label (n + length (text_lines s)) (text_lines (concat ss)) (tail_of prev rows)")
        (simp_all add: text_lines_append verified_rows_append)
  qed (use Cons.prems in \<open>simp_all add: text_lines_append verified_rows_append\<close>)
qed (simp add: text_lines_def)

lemma whole_scan:
  assumes "whole_segments d"
  shows "scan_segments start collect d 0 (segment_files d) (empty_scan, []) =
    bind_result (segment_rows 0 (segment_texts d) zero_hash) (\<lambda>rs.
      Inr (fold (scan_row start collect) (concat rs) empty_scan, summaries_of 0 (segment_texts d) zero_hash rs))"
proof -
  have "segment_files d = map segment_name [0..<0 + length (segment_files d)]" using assms by (simp add: whole_segments_def)
  from scan_segments_rows [OF this] show ?thesis by (simp add: segment_texts_def empty_scan_def)
qed

lemma whole_rows:
  "whole_segments d \<Longrightarrow> error_class (bind_result (segment_rows 0 (segment_texts d) zero_hash) (\<lambda>rs. Inr (concat rs))) =
    error_class (verified_rows line_label 1 (text_lines (joined_segments d)) zero_hash)"
  unfolding joined_segments_def by (rule segment_rows_joined) (simp add: whole_segments_def)

text \<open>The scan of the directory, seen as a scan of the joined file.\<close>

lemma segment_chain_scan_joined:
  assumes d: "whole_segments d"
  shows "error_class (bind_result (segment_chain_scan start collect d) (\<lambda>(r, st). Inr st)) =
    error_class (hash_chain_scan start collect (Some (joined_segments d)))"
proof (cases "\<exists>k. start = Some k \<and> k < 0")
  case False
  have empty: "cs_prev empty_scan = zero_hash" by (simp add: empty_scan_def)
  show ?thesis
  proof (cases "segment_rows 0 (segment_texts d) zero_hash")
    case (Inl x)
    then obtain y where "verified_rows line_label 1 (text_lines (joined_segments d)) zero_hash = Inl y" "fst x = fst y"
      using whole_rows [OF d] by (cases "verified_rows line_label 1 (text_lines (joined_segments d)) zero_hash") auto
    then show ?thesis using False Inl
      by (auto simp: segment_chain_scan_def hash_chain_scan_def whole_scan [OF d] scan_lines_rows empty)
  next
    case (Inr rs)
    then have "verified_rows line_label 1 (text_lines (joined_segments d)) zero_hash = Inr (concat rs)"
      using whole_rows [OF d] by (cases "verified_rows line_label 1 (text_lines (joined_segments d)) zero_hash") auto
    then show ?thesis using False Inr
      by (cases "finish_scan start (fold (scan_row start collect) (concat rs) empty_scan)")
        (auto simp: segment_chain_scan_def hash_chain_scan_def whole_scan [OF d] scan_lines_rows empty)
  qed
qed (auto simp: segment_chain_scan_def hash_chain_scan_def)

lemma segment_chain_scan_Inr:
  assumes d: "whole_segments d" and run: "segment_chain_scan start collect d = Inr (r, st)"
  obtains rs where "segment_rows 0 (segment_texts d) zero_hash = Inr rs"
    "sn_total_rows r = cs_count st" "sn_tail_hash r = cs_prev st" "sn_summaries r = summaries_of 0 (segment_texts d) zero_hash rs"
  using run by (auto simp: segment_chain_scan_def whole_scan [OF d] bind_result_Inr_iff split: if_splits)

lemma joined_scan_Inl:
  "whole_segments d \<Longrightarrow> segment_chain_scan start collect d = Inl x \<Longrightarrow>
    error_class (hash_chain_scan start collect (Some (joined_segments d))) = Inl (fst x)"
  using segment_chain_scan_joined [of d start collect] by simp

lemma joined_scan_Inr:
  assumes "whole_segments d" "segment_chain_scan start collect d = Inr (r, st)"
  shows "hash_chain_scan start collect (Some (joined_segments d)) = Inr st"
  using segment_chain_scan_joined [OF assms(1), of start collect] assms(2)
  by (cases "hash_chain_scan start collect (Some (joined_segments d))") simp_all

lemma scan_segment_chain_joined:
  assumes "whole_segments d"
  shows "error_class (bind_result (scan_segment_chain d) (\<lambda>r. Inr (sn_total_rows r, sn_tail_hash r))) =
    error_class (scan_hash_chain (Some (joined_segments d)))"
proof (cases "segment_chain_scan None True d")
  case (Inl x)
  then show ?thesis using joined_scan_Inl [OF assms Inl]
    by (cases "hash_chain_scan None True (Some (joined_segments d))") (simp_all add: scan_segment_chain_def scan_hash_chain_def)
next
  case (Inr rst)
  obtain r st where rst: "rst = (r, st)" by (cases rst)
  then show ?thesis using Inr joined_scan_Inr [OF assms Inr [unfolded rst]] segment_chain_scan_Inr [OF assms Inr [unfolded rst]]
    by (auto simp: scan_segment_chain_def scan_hash_chain_def)
qed

lemma scan_segment_payloads_joined:
  assumes "whole_segments d"
  shows "error_class (bind_result (scan_segment_chain_payloads k d) (\<lambda>(r, s). Inr s)) =
    error_class (scan_hash_chain_payloads k (Some (joined_segments d)))"
proof (cases "segment_chain_scan (Some k) True d")
  case (Inl x)
  then show ?thesis using joined_scan_Inl [OF assms Inl]
    by (cases "hash_chain_scan (Some k) True (Some (joined_segments d))")
      (simp_all add: scan_segment_chain_payloads_def scan_hash_chain_payloads_def)
next
  case (Inr rst)
  obtain r st where rst: "rst = (r, st)" by (cases rst)
  then show ?thesis using Inr joined_scan_Inr [OF assms Inr [unfolded rst]]
    by (cases "checked valid_slice ''VerifiedLedgerSlice'' (slice_of k st)")
      (simp_all add: scan_segment_chain_payloads_def scan_hash_chain_payloads_def)
qed

lemma scan_segment_cut_joined:
  assumes "whole_segments d"
  shows "error_class (bind_result (scan_segment_chain_cut k d) (\<lambda>(r, s). Inr s)) =
    error_class (scan_hash_chain_cut k (Some (joined_segments d)))"
proof (cases "segment_chain_scan (Some k) False d")
  case (Inl x)
  then show ?thesis using joined_scan_Inl [OF assms Inl]
    by (cases "hash_chain_scan (Some k) False (Some (joined_segments d))")
      (simp_all add: scan_segment_chain_cut_def scan_hash_chain_cut_def)
next
  case (Inr rst)
  obtain r st where rst: "rst = (r, st)" by (cases rst)
  then show ?thesis using Inr joined_scan_Inr [OF assms Inr [unfolded rst]]
    by (cases "checked valid_cut ''VerifiedLedgerCut'' (cut_of k st)")
      (simp_all add: scan_segment_chain_cut_def scan_hash_chain_cut_def)
qed

subsection \<open>Streams of segments\<close>

definition end_class :: "'a \<times> (exc + 'b) \<Rightarrow> 'a \<times> (string + 'b)" where
  "end_class r = (fst r, error_class (snd r))"

lemma stream_lines_label:
  "fst x = fst y \<Longrightarrow>
    end_class (stream_lines x label c b n ls st) = end_class (stream_lines y label' c b m ls st)"
proof (induction ls arbitrary: n m st)
  case (Cons line ls)
  note ih = Cons.IH [OF Cons.prems, of "n + 1" _ "m + 1"]
  show ?case
  proof (cases "blank line")
    case False
    show ?thesis
    proof (cases "scan_line (label n) (cs_prev st) line")
      case (Inl e)
      then obtain e' where "scan_line (label' m) (cs_prev st) line = Inl e'" "fst e' = fst e"
        using scan_line_label [of "label n" "cs_prev st" line "label' m"] by (cases "scan_line (label' m) (cs_prev st) line") auto
      then show ?thesis using False Inl by (simp add: end_class_def)
    next
      case (Inr row)
      then have row: "scan_line (label' m) (cs_prev st) line = Inr row"
        using scan_line_label [of "label n" "cs_prev st" line "label' m"] by (cases "scan_line (label' m) (cs_prev st) line") auto
      obtain st' out where "flush_batch c b (stream_row c row st) = (st', out)" by fastforce
      then show ?thesis using False Inr row Cons.prems ih [of st']
        by (simp add: end_class_def split_def Let_def)
    qed
  qed (simp add: ih del: One_nat_def Suc_eq_plus1)
qed (simp add: end_class_def)

lemma stream_lines_append:
  "stream_lines x label c b n (ls @ ls') st =
     (case stream_lines x label c b n ls st of
        (out, Inr (Some st')) \<Rightarrow> (let (rest, stop) = stream_lines x label c b (n + length ls) ls' st' in (out @ rest, stop))
      | r \<Rightarrow> r)"
proof (induction ls arbitrary: n st)
  case (Cons line ls)
  show ?case
  proof (cases "blank line")
    case False
    show ?thesis
    proof (cases "scan_line (label n) (cs_prev st) line")
      case (Inr row)
      obtain st' out where flush: "flush_batch c b (stream_row c row st) = (st', out)" by fastforce
      show ?thesis
      proof (cases "cs_count st' = lc_total_rows c")
        case True
        then show ?thesis using False Inr flush by simp
      next
        case going: False
        obtain rest stop where rest: "stream_lines x label c b (n + 1) ls st' = (rest, stop)" by fastforce
        show ?thesis
          using False Inr flush going Cons.IH [of "n + 1" st'] rest
          by (cases stop; cases "projr stop") (simp_all add: split_def Let_def)
      qed
    qed (simp add: False)
  next
    case True
    obtain rest stop where "stream_lines x label c b (n + 1) ls st = (rest, stop)" by fastforce
    then show ?thesis using True Cons.IH [of "n + 1" st] by (cases stop; cases "projr stop") simp_all
  qed
qed (simp add: split_def)

lemma stream_segments_joined:
  assumes "names = map segment_name [i..<i + length names]"
    and "\<forall>name \<in> set names. ends_line (file_text (dir_file name d))" "fst x = ''HashChainError''"
  shows "end_class (stream_segments c b d i names st) =
    end_class (stream_lines x label c b n (text_lines (concat (map (\<lambda>name. file_text (dir_file name d)) names))) st)"
  using assms(1,2)
proof (induction names arbitrary: i n st)
  case (Cons name names)
  let ?s = "file_text (dir_file name d)" and ?u = "concat (map (\<lambda>name. file_text (dir_file name d)) names)"
  have upt: "[i..<i + length (name # names)] = i # [i + 1..<i + 1 + length names]" by (simp add: upt_rec [of i] Suc_le_eq)
  then have name: "name = segment_name i" "names = map segment_name [i + 1..<i + 1 + length names]"
    using Cons.prems by simp_all
  note ih = Cons.IH [OF name(2), where n = "n + length (text_lines ?s)"]
  have same: "end_class (stream_lines segmented_changed (segment_label i) c b 1 (text_lines ?s) st) =
      end_class (stream_lines x label c b n (text_lines ?s) st)"
    using assms(3) by (intro stream_lines_label) (simp add: segmented_changed_def)
  obtain out stop where 1: "stream_lines segmented_changed (segment_label i) c b 1 (text_lines ?s) st = (out, stop)" by fastforce
  then obtain stop' where 2: "stream_lines x label c b n (text_lines ?s) st = (out, stop')" "error_class stop = error_class stop'"
    using same by (cases "stream_lines x label c b n (text_lines ?s) st") (simp add: end_class_def)
  have split: "stream_lines x label c b n (text_lines (?s @ ?u)) st =
      (case stop' of Inr (Some st') \<Rightarrow> (let (rest, stop) = stream_lines x label c b (n + length (text_lines ?s)) (text_lines ?u) st' in (out @ rest, stop))
        | _ \<Rightarrow> (out, stop'))"
    using Cons.prems(2) 2(1) by (simp add: text_lines_append stream_lines_append split: sum.split option.split)
  show ?case
  proof (cases stop)
    case (Inl e)
    then show ?thesis using 1 2(2) split name(1)
      by (cases stop') (simp_all add: end_class_def)
  next
    case (Inr o1)
    then have "stop' = Inr o1" using 2(2) by (cases stop') simp_all
    then show ?thesis using 1 split name(1) Inr ih Cons.prems(2)
      by (cases o1) (simp_all add: end_class_def split_def Let_def)
  qed
qed (simp add: end_class_def text_lines_def)

lemma iter_segments_joined:
  assumes "whole_segments d"
  shows "end_class (iter_segment_chain_payload_batches c b d) =
    end_class (iter_hash_chain_payload_batches c b (Some (joined_segments d)))"
proof (cases "b \<le> 0 \<or> lc_total_rows c = 0")
  case False
  let ?lines = "stream_lines (chain_error ''ledger changed after verified cut'') line_label c b 1 (text_lines (joined_segments d)) empty_scan"
  have "end_class (stream_segments c b d 0 (segment_files d) empty_scan) = end_class ?lines"
    unfolding joined_segments_def segment_texts_def
    using assms by (intro stream_segments_joined) (auto simp: whole_segments_def segment_texts_def)
  moreover obtain out stop where "stream_segments c b d 0 (segment_files d) empty_scan = (out, stop)" by fastforce
  moreover obtain out' stop' where "?lines = (out', stop')" by fastforce
  ultimately show ?thesis using False
    by (cases stop; cases stop'; cases "projr stop")
      (auto simp: end_class_def iter_segment_chain_payload_batches_def iter_hash_chain_payload_batches_def)
qed (auto simp: iter_segment_chain_payload_batches_def iter_hash_chain_payload_batches_def)

subsection \<open>What a ledger holds\<close>

definition row_count :: "string \<Rightarrow> int" where
  "row_count s = int (length (filter (\<lambda>line. \<not> blank line) (text_lines s)))"

text \<open>
  A directory with nothing but consecutive whole segments and perhaps the manifest; a state that
  agrees with it.
\<close>

definition dir_ok :: "segment_dir \<Rightarrow> bool" where
  "dir_ok d \<longleftrightarrow> whole_segments d \<and> distinct (map fst (sd_entries d)) \<and> (\<forall>e \<in> set (sd_entries d). lf_text (snd e) \<noteq> None)
     \<and> set (map fst (sd_entries d)) \<subseteq> set (segment_files d) \<union> {manifest_name}"

definition state_ok :: "segment_state \<Rightarrow> segment_dir \<Rightarrow> fields list \<Rightarrow> bool" where
  "state_ok st d ps \<longleftrightarrow>
     sw_count st = int (length ps) \<and> sw_tail_hash st = chain_tail ps \<and> sw_active_index st = length (segment_files d) - 1
     \<and> sw_active_rows st = (if segment_texts d = [] then 0 else row_count (last (segment_texts d)))
     \<and> sw_active_signature st = stat_signature (dir_file (segment_name (sw_active_index st)) d)
     \<and> sw_directory_signature st = Some (sd_stat d)"

definition segments_hold :: "segment_log \<Rightarrow> fields list \<Rightarrow> bool" where
  "segments_hold l ps \<longleftrightarrow>
     dir_ok (sl_dir l) \<and> log_payloads (Some (joined_segments (sl_dir l))) = Inr ps \<and> \<not> sl_read_only l
     \<and> \<not> cg_pending (sl_signal l) \<and> (sw_initialized (sl_state l) \<longrightarrow> state_ok (sl_state l) (sl_dir l) ps)"

lemma segment_name_less: "i < j \<Longrightarrow> j < 10 ^ 8 \<Longrightarrow> segment_name i < segment_name j"
  unfolding segment_name_def by (rule pad_text_less)

lemma is_segment_name_name [simp]: "i < 10 ^ 8 \<Longrightarrow> is_segment_name (segment_name i)"
  by (simp add: is_segment_name_def segment_name_def fixed_digits_pad [symmetric])

lemma manifest_no_segment [simp]: "\<not> is_segment_name manifest_name"
  by (simp add: is_segment_name_def manifest_name_def)

lemma sorted_segment_names: "n \<le> 10 ^ 8 \<Longrightarrow> sorted (map segment_name [0..<n])"
  unfolding sorted_map
  by (rule sorted_wrt_mono_rel [OF _ sorted_wrt_upt]) (auto intro!: less_imp_le segment_name_less)

lemma segment_name_inject: "segment_name i = segment_name j \<longleftrightarrow> i = j"
proof
  have "digit_value (CHR ''0'') = 0" by code_simp
  then have zeros: "digits_value 0 (replicate n (CHR ''0'')) = 0" for n by (induction n) simp_all
  assume "segment_name i = segment_name j"
  then have "pad_text 8 i = pad_text 8 j" by (simp add: segment_name_def)
  then show "i = j" unfolding pad_text_def by (metis digits_value_append digits_value_nat_text zeros)
qed simp

lemma dict_set_values: "e \<in> set (dict_set k v kvs) \<Longrightarrow> e = (k, v) \<or> e \<in> set kvs"
  by (induction k v kvs rule: dict_set.induct) (auto split: if_splits)

lemma keys_dict_set_list:
  "map fst (dict_set k v kvs) = (if k \<in> set (map fst kvs) then map fst kvs else map fst kvs @ [k])"
  by (induction k v kvs rule: dict_set.induct) auto

lemma dir_file_put: "lf_text f \<noteq> None \<Longrightarrow> dir_file name (put_file name' f d) = (if name = name' then f else dir_file name d)"
  by (cases "lf_text f") (simp_all add: dir_file_def put_file_def map_of_dict_set)

lemma dir_file_stat [simp]: "dir_file name (d\<lparr>sd_stat := s\<rparr>) = dir_file name d"
  by (simp add: dir_file_def)

lemma segment_views_stat [simp]:
  "segment_files (d\<lparr>sd_stat := s\<rparr>) = segment_files d" "segment_texts (d\<lparr>sd_stat := s\<rparr>) = segment_texts d"
  "joined_segments (d\<lparr>sd_stat := s\<rparr>) = joined_segments d" "dir_ok (d\<lparr>sd_stat := s\<rparr>) = dir_ok d"
  by (simp_all add: segment_files_def segment_texts_def joined_segments_def dir_ok_def whole_segments_def)

lemma dir_file_exists:
  assumes "dir_ok d"
  shows "lf_text (dir_file name d) = None \<longleftrightarrow> name \<notin> set (map fst (sd_entries d))"
proof (cases "map_of (sd_entries d) name")
  case None
  then have "name \<notin> set (map fst (sd_entries d))" by (simp add: map_of_eq_None_iff)
  then show ?thesis by (simp add: dir_file_def missing_log_def None)
next
  case (Some f)
  then have "(name, f) \<in> set (sd_entries d)" by (rule map_of_SomeD)
  then have "lf_text f \<noteq> None" using assms by (fastforce simp: dir_ok_def)
  moreover have "name \<in> set (map fst (sd_entries d))" using Some map_of_in_keys by (metis option.discI)
  ultimately show ?thesis using Some by (simp add: dir_file_def)
qed

lemma segment_files_known: "set (segment_files d) = {name \<in> set (map fst (sd_entries d)). is_segment_name name}"
  by (simp add: segment_files_def)

lemma segment_texts_indexed:
  assumes "segment_files d = map segment_name [0..<length (segment_files d)]"
  shows "segment_texts d = map (\<lambda>i. file_text (dir_file (segment_name i) d)) [0..<length (segment_files d)]"
  unfolding segment_texts_def using assms by (metis (no_types, lifting) comp_apply map_eq_conv map_map)

lemma segment_texts_nil: "segment_texts d = [] \<longleftrightarrow> segment_files d = []"
  by (simp add: segment_texts_def)

text \<open>Writing to the last segment, and starting the next one.\<close>

lemma whole_iff:
  "whole_segments d \<longleftrightarrow> segment_files d = map segment_name [0..<length (segment_files d)]
    \<and> (\<forall>i < length (segment_files d). ends_line (file_text (dir_file (segment_name i) d)))"
proof (cases "segment_files d = map segment_name [0..<length (segment_files d)]")
  case True
  have "set (segment_texts d) = (\<lambda>i. file_text (dir_file (segment_name i) d)) ` {0..<length (segment_files d)}"
    unfolding segment_texts_indexed [OF True] by (simp only: set_map set_upt)
  then show ?thesis using True by (auto simp: whole_segments_def)
qed (simp add: whole_segments_def)

lemma extend_segment:
  assumes d: "dir_ok d" "segment_files d \<noteq> []" and f: "lf_text f = Some (last (segment_texts d) @ row)"
    and row: "\<And>s. ends_line s \<Longrightarrow> ends_line (s @ row)"
  defines "d' \<equiv> put_file (segment_name (length (segment_files d) - 1)) f d"
  shows "dir_ok d'" "segment_files d' = segment_files d" "segment_texts d' = butlast (segment_texts d) @ [last (segment_texts d) @ row]"
    "joined_segments d' = joined_segments d @ row"
proof -
  let ?n = "length (segment_files d)"
  have n: "segment_files d = map segment_name [0..<?n]" "0 < ?n" and w: "whole_segments d"
    using d by (simp_all add: dir_ok_def whole_segments_def)
  have "segment_name (?n - 1) \<in> set (segment_files d)" using n by (metis (no_types, lifting) diff_less imageI list.set_map atLeastLessThan_iff set_upt zero_le zero_less_one)
  then have old: "segment_name (?n - 1) \<in> set (map fst (sd_entries d))" by (simp add: segment_files_known)
  then have keys: "map fst (sd_entries d') = map fst (sd_entries d)"
    by (simp add: d'_def put_file_def f keys_dict_set_list)
  then show files: "segment_files d' = segment_files d" by (simp add: segment_files_def)
  have content: "file_text (dir_file (segment_name i) d') = (if i = ?n - 1 then last (segment_texts d) @ row else file_text (dir_file (segment_name i) d))"
    if "i < ?n" for i
    using that by (auto simp: d'_def dir_file_put f file_text_def segment_name_inject)
  have upt: "[0..<?n] = [0..<?n - 1] @ [?n - 1]" using n(2) by (metis Suc_pred' upt_Suc_append zero_le)
  have texts: "segment_texts d = map (\<lambda>i. file_text (dir_file (segment_name i) d)) [0..<?n - 1]
      @ [file_text (dir_file (segment_name (?n - 1)) d)]"
    by (simp add: segment_texts_indexed [OF n(1)] upt)
  have ends: "\<forall>s \<in> set (segment_texts d). ends_line s" using w by (simp add: whole_segments_def)
  have "ends_line (file_text (dir_file (segment_name i) d'))" if "i < ?n" for i
    using ends row texts content [OF that] w that by (simp add: whole_iff)
  then have w': "whole_segments d'" using n(1) by (simp add: whole_iff files)
  show "dir_ok d'"
    using d(1) w' files keys f unfolding dir_ok_def
    by (auto simp: d'_def put_file_def simp del: set_map dest!: dict_set_values)
  show texts': "segment_texts d' = butlast (segment_texts d) @ [last (segment_texts d) @ row]"
    using content n(2) segment_texts_indexed [of d'] n(1) by (simp add: files upt texts)
  show "joined_segments d' = joined_segments d @ row"
    using texts by (simp add: joined_segments_def texts')
qed

lemma new_segment:
  assumes d: "dir_ok d" and n: "length (segment_files d) < 10 ^ 8" and f: "lf_text f = Some row" "ends_line row"
  defines "d' \<equiv> put_file (segment_name (length (segment_files d))) f d"
  shows "dir_ok d'" "segment_files d' = map segment_name [0..<Suc (length (segment_files d))]"
    "segment_texts d' = segment_texts d @ [row]" "joined_segments d' = joined_segments d @ row"
    "segment_name (length (segment_files d)) \<notin> set (map fst (sd_entries d))"
proof -
  let ?n = "length (segment_files d)"
  have files: "segment_files d = map segment_name [0..<?n]" and w: "whole_segments d"
    using d by (simp_all add: dir_ok_def whole_segments_def)
  have "segment_name ?n \<notin> set (segment_files d)"
    by (subst files) (auto simp: segment_name_inject)
  then show fresh: "segment_name ?n \<notin> set (map fst (sd_entries d))"
    using n by (simp add: segment_files_known del: set_map)
  then have entries: "sd_entries d' = sd_entries d @ [(segment_name ?n, f)]"
    by (simp add: d'_def put_file_def f dict_set_new)
  show files': "segment_files d' = map segment_name [0..<Suc ?n]"
  proof -
    let ?keys = "filter is_segment_name (map fst (sd_entries d))"
    have "mset ?keys = mset (map segment_name [0..<?n])"
      by (subst files [symmetric]) (simp add: segment_files_def mset_sort)
    then have "mset (map segment_name [0..<Suc ?n]) = mset (?keys @ [segment_name ?n])" by simp
    then have "sort (?keys @ [segment_name ?n]) = map segment_name [0..<Suc ?n]"
      using n by (intro properties_for_sort sorted_segment_names) simp_all
    then show ?thesis using n by (simp add: segment_files_def entries)
  qed
  have content: "file_text (dir_file (segment_name i) d') = (if i = ?n then row else file_text (dir_file (segment_name i) d))" for i
    by (simp add: d'_def dir_file_put f file_text_def segment_name_inject)
  have w': "whole_segments d'"
    using w f(2) content unfolding whole_iff by (simp add: files' less_Suc_eq)
  show "dir_ok d'"
    unfolding dir_ok_def using d w' fresh f(1) is_segment_name_name [OF n] segment_files_known [of d'] segment_files_known [of d]
    by (auto simp: dir_ok_def entries)
  show texts: "segment_texts d' = segment_texts d @ [row]"
    using content segment_texts_indexed [OF files] segment_texts_indexed [of d'] by (simp add: files')
  show "joined_segments d' = joined_segments d @ row"
    by (simp add: joined_segments_def texts)
qed

subsection \<open>Verifying\<close>

lemma verified_rows_count:
  "verified_rows label n ls prev = Inr rows \<Longrightarrow> length rows = length (filter (\<lambda>line. \<not> blank line) ls)"
  by (induction ls arbitrary: n prev rows) (auto simp: bind_result_Inr_iff split: if_splits)

lemma summaries_rows: "segment_rows i ss prev = Inr rs \<Longrightarrow> map ss_rows (summaries_of i ss prev rs) = map row_count ss"
proof (induction ss arbitrary: i prev rs)
  case (Cons s ss)
  then obtain rows rest where "verified_rows (segment_label i) 1 (text_lines s) prev = Inr rows"
    "segment_rows (i + 1) ss (tail_of prev rows) = Inr rest" "rs = rows # rest"
    by (auto simp: bind_result_Inr_iff)
  then show ?case using Cons.IH by (simp add: row_count_def verified_rows_count)
qed simp

lemma finish_scan_fields: "finish_scan start st = Inr st' \<Longrightarrow> cs_count st' = cs_count st \<and> cs_prev st' = cs_prev st"
  by (auto simp: finish_scan_def split: option.splits if_splits)

lemma scanned_state:
  assumes d: "whole_segments d" and ps: "log_payloads (Some (joined_segments d)) = Inr ps"
    and run: "segment_chain_scan start collect d = Inr (r, st)"
  shows "sn_total_rows r = int (length ps)" "sn_tail_hash r = chain_tail ps" "state_ok (state_of_scan r d) d ps"
    "cs_count st = int (length ps)" "cs_prev st = chain_tail ps"
proof -
  obtain rs where rs: "segment_rows 0 (segment_texts d) zero_hash = Inr rs"
    "sn_total_rows r = cs_count st" "sn_tail_hash r = cs_prev st" "sn_summaries r = summaries_of 0 (segment_texts d) zero_hash rs"
    using segment_chain_scan_Inr [OF d run] by metis
  have "verified_rows line_label 1 (text_lines (joined_segments d)) zero_hash = Inr (concat rs)"
    using whole_rows [OF d] rs(1) by (cases "verified_rows line_label 1 (text_lines (joined_segments d)) zero_hash") auto
  then have chain: "concat rs = chain_rows zero_hash ps" using ps by (simp add: log_payloads_iff log_rows_def)
  have "finish_scan start (fold (scan_row start collect) (concat rs) empty_scan) = Inr st"
    using run rs(1) by (auto simp: segment_chain_scan_def whole_scan [OF d] bind_result_Inr_iff split: if_splits)
  then show st: "cs_count st = int (length ps)" "cs_prev st = chain_tail ps"
    using finish_scan_fields by (fastforce simp: fold_scan_row chain empty_scan_def chain_tail_def)+
  then show total_tail: "sn_total_rows r = int (length ps)" "sn_tail_hash r = chain_tail ps" using rs by simp_all
  have rows: "map ss_rows (sn_summaries r) = map row_count (segment_texts d)" using summaries_rows [OF rs(1)] rs(4) by simp
  have "sn_summaries r = [] \<longleftrightarrow> segment_texts d = []" using rows by (metis map_is_Nil_conv)
  moreover have "ss_rows (last (sn_summaries r)) = row_count (last (segment_texts d))" if "segment_texts d \<noteq> []"
    using rows that by (metis last_map map_is_Nil_conv)
  ultimately show "state_ok (state_of_scan r d) d ps"
    using total_tail by (simp add: state_ok_def state_of_scan_def Let_def)
qed

lemma verified_chain:
  assumes d: "whole_segments d" and ps: "log_payloads (Some (joined_segments d)) = Inr ps"
  obtains r where "scan_segment_chain d = Inr r" "sn_total_rows r = int (length ps)" "sn_tail_hash r = chain_tail ps"
    "state_ok (state_of_scan r d) d ps"
proof -
  have "error_class (bind_result (scan_segment_chain d) (\<lambda>r. Inr (sn_total_rows r, sn_tail_hash r))) = Inr (int (length ps), chain_tail ps)"
    using scan_segment_chain_joined [OF d] scan_of_payloads [OF ps] by simp
  then obtain r st where "segment_chain_scan None True d = Inr (r, st)"
    by (cases "segment_chain_scan None True d") (auto simp: scan_segment_chain_def)
  then show ?thesis using that [of r] scanned_state [OF d ps] by (simp add: scan_segment_chain_def)
qed

fun fails :: "os_answer \<Rightarrow> bool" where
  "fails (Os_fails _) = True"
| "fails _ = False"

definition acknowledges :: "os_answer \<times> os_answer \<Rightarrow> bool" where
  "acknowledges ack \<longleftrightarrow> \<not> fails (fst ack) \<and> \<not> fails (snd ack)"

lemma acknowledge_fine: "acknowledges ack \<Longrightarrow> acknowledge ack s = (s\<lparr>cg_pending := False\<rparr>, Inr ())"
  by (cases "(ack, s)" rule: acknowledge.cases; cases "cg_mode s")
    (auto simp: acknowledges_def split: os_answer.split elim!: fails.elims)

definition adopted :: "segment_scan \<Rightarrow> segment_log \<Rightarrow> segment_log" where
  "adopted r l = l\<lparr>sl_state := state_of_scan r (sl_dir l), sl_signal := (sl_signal l)\<lparr>cg_pending := False\<rparr>\<rparr>"

lemma adopt_segments_fine:
  "acknowledges ack \<Longrightarrow> adopt_segments None ack r l = (adopted r l, Inr (sn_total_rows r, sn_tail_hash r))"
  by (simp add: adopt_segments_def publish_manifest_def acknowledge_fine adopted_def)

lemma adopted_holds: "segments_hold l ps \<Longrightarrow> state_ok (state_of_scan r (sl_dir l)) (sl_dir l) ps \<Longrightarrow> segments_hold (adopted r l) ps"
  by (simp add: segments_hold_def adopted_def)

lemma segments_hold_whole: "segments_hold l ps \<Longrightarrow> whole_segments (sl_dir l)"
  by (simp add: segments_hold_def dir_ok_def)

lemma verify_segments_holds:
  assumes l: "segments_hold l ps" and ack: "acknowledges ack"
  obtains r where "verify_segments None ack l = (adopted r l, Inr (int (length ps), chain_tail ps))"
    "segments_hold (adopted r l) ps" "sw_initialized (sl_state (adopted r l))"
proof -
  have "log_payloads (Some (joined_segments (sl_dir l))) = Inr ps" using l by (simp add: segments_hold_def)
  from verified_chain [OF segments_hold_whole [OF l] this]
  obtain r where r: "scan_segment_chain (sl_dir l) = Inr r" "sn_total_rows r = int (length ps)" "sn_tail_hash r = chain_tail ps"
    "state_ok (state_of_scan r (sl_dir l)) (sl_dir l) ps" .
  then show ?thesis using that [of r] adopted_holds [OF l r(4)] ack
    by (simp add: verify_segments_def adopt_segments_fine) (simp add: adopted_def state_of_scan_def Let_def)
qed

lemma adopt_verified_holds:
  assumes l: "segments_hold l ps" and ack: "acknowledges ack"
    and scan: "segment_chain_scan start collect (sl_dir l) = Inr (r, st)"
    and c: "lc_total_rows c = cs_count st" "lc_tail_hash c = cs_prev st"
  shows "adopt_verified ack r c l = (adopted r l, Inr c)" "segments_hold (adopted r l) ps"
proof -
  have ps: "log_payloads (Some (joined_segments (sl_dir l))) = Inr ps" using l by (simp add: segments_hold_def)
  note s = scanned_state [OF segments_hold_whole [OF l] ps scan]
  show "adopt_verified ack r c l = (adopted r l, Inr c)"
    using s c by (simp add: adopt_verified_def adopt_segments_fine [OF ack])
  show "segments_hold (adopted r l) ps" by (rule adopted_holds [OF l s(3)])
qed

lemma payloads_after_holds:
  assumes l: "segments_hold l ps" and ack: "acknowledges ack"
  shows "error_class (snd (segments_payloads_after ack k l)) = after_rows slice_for k ps"
    "segments_hold (fst (segments_payloads_after ack k l)) ps"
proof -
  have ps: "log_payloads (Some (joined_segments (sl_dir l))) = Inr ps" using l by (simp add: segments_hold_def)
  have same: "error_class (bind_result (scan_segment_chain_payloads k (sl_dir l)) (\<lambda>(r, s). Inr s)) = after_rows slice_for k ps"
    using scan_segment_payloads_joined [OF segments_hold_whole [OF l]] scan_payloads_after [OF ps] by simp
  have "error_class (snd (segments_payloads_after ack k l)) = after_rows slice_for k ps
      \<and> segments_hold (fst (segments_payloads_after ack k l)) ps"
  proof (cases "scan_segment_chain_payloads k (sl_dir l)")
    case (Inl x)
    then show ?thesis using same l by (simp add: segments_payloads_after_def)
  next
    case (Inr rs)
    then obtain r s st where rs: "rs = (r, s)" "segment_chain_scan (Some k) True (sl_dir l) = Inr (r, st)" "s = slice_of k st"
      by (auto simp: scan_segment_chain_payloads_def bind_result_Inr_iff checked_Inr_iff)
    then have "adopt_verified ack r s l = (adopted r l, Inr s) \<and> segments_hold (adopted r l) ps"
      using adopt_verified_holds [OF l ack rs(2), of s] by (simp add: slice_of_def)
    then show ?thesis using same Inr rs(1) by (simp add: segments_payloads_after_def)
  qed
  then show "error_class (snd (segments_payloads_after ack k l)) = after_rows slice_for k ps"
    "segments_hold (fst (segments_payloads_after ack k l)) ps" by blast+
qed

lemma cut_after_holds:
  assumes l: "segments_hold l ps" and ack: "acknowledges ack"
  shows "error_class (snd (segments_cut_after ack k l)) = after_rows cut_for k ps"
    "segments_hold (fst (segments_cut_after ack k l)) ps"
proof -
  have ps: "log_payloads (Some (joined_segments (sl_dir l))) = Inr ps" using l by (simp add: segments_hold_def)
  have same: "error_class (bind_result (scan_segment_chain_cut k (sl_dir l)) (\<lambda>(r, s). Inr s)) = after_rows cut_for k ps"
    using scan_segment_cut_joined [OF segments_hold_whole [OF l]] scan_cut_after [OF ps] by simp
  have "error_class (snd (segments_cut_after ack k l)) = after_rows cut_for k ps
      \<and> segments_hold (fst (segments_cut_after ack k l)) ps"
  proof (cases "scan_segment_chain_cut k (sl_dir l)")
    case (Inl x)
    then show ?thesis using same l by (simp add: segments_cut_after_def)
  next
    case (Inr rs)
    then obtain r s st where rs: "rs = (r, s)" "segment_chain_scan (Some k) False (sl_dir l) = Inr (r, st)" "s = cut_of k st"
      by (auto simp: scan_segment_chain_cut_def bind_result_Inr_iff checked_Inr_iff)
    then have "adopt_verified ack r s l = (adopted r l, Inr s) \<and> segments_hold (adopted r l) ps"
      using adopt_verified_holds [OF l ack rs(2), of s] by (simp add: cut_of_def)
    then show ?thesis using same Inr rs(1) by (simp add: segments_cut_after_def)
  qed
  then show "error_class (snd (segments_cut_after ack k l)) = after_rows cut_for k ps"
    "segments_hold (fst (segments_cut_after ack k l)) ps" by blast+
qed

subsection \<open>Appending\<close>

lemma row_count_row:
  "ends_line s \<Longrightarrow> row_count (s @ fst (encode_row prev p)) = row_count s + 1" "row_count (fst (encode_row prev p)) = 1"
  by (simp_all add: row_count_def text_lines_append row_lines row_not_blank)

lemma write_row_done:
  "write_row row due (Append_done sig) f = (f', r) \<Longrightarrow> r = Inr () \<and> lf_text f' = Some (file_text f @ row)"
  by (auto simp: write_row_def)

lemma ends_line_concat: "\<forall>s \<in> set ss. ends_line s \<Longrightarrow> ends_line (concat ss)"
proof (induction ss)
  case (Cons s ss)
  then show ?case by (cases "concat ss = []") (auto simp: ends_line_def last_append simp del: concat_eq_Nil_conv)
qed (simp add: ends_line_def)

definition creates :: "fields \<Rightarrow> segment_log \<Rightarrow> bool" where
  "creates p l \<longleftrightarrow>
     rotates (sl_max_bytes l) (fst (encode_row (sw_tail_hash (sl_state l)) p)) (sl_dir l) (sl_state l)
     \<or> segment_files (sl_dir l) = []"

text \<open>The directory after a row has started a segment.\<close>

definition started_segment :: "string \<Rightarrow> string \<Rightarrow> bool \<Rightarrow> file_stat \<Rightarrow> file_stat \<Rightarrow> segment_dir \<Rightarrow> segment_dir" where
  "started_segment name row synced sig ds d =
     (put_file name \<lparr>lf_text = Some row, lf_stat = sig, lf_synced = (if synced then row else [])\<rparr> d)\<lparr>sd_stat := ds\<rparr>"

lemma segment_append_ok:
  fixes mx :: int
  assumes d: "dir_ok d" and st: "state_ok st d ps" and ps: "log_payloads (Some (joined_segments d)) = Inr ps"
    and n: "length (segment_files d) < 10 ^ 8" and p: "json_wf (JObj p)"
  defines "row \<equiv> fst (encode_row (chain_tail ps) p)"
  defines "created \<equiv> rotates mx row d st \<or> segment_files d = []"
  obtains d' st' where
    "segment_append mx every p (Append_done sig) ds (d, st) = ((d', st'), Inr (hash_payload (chain_tail ps) p, created))"
    "dir_ok d'" "log_payloads (Some (joined_segments d')) = Inr (ps @ [sorted_fields p])"
    "state_ok st' d' (ps @ [sorted_fields p])" "sw_initialized st'" "sd_stat d' = ds" "segment_files d' \<noteq> []"
    "segment_texts d' = (if created then segment_texts d @ [row] else butlast (segment_texts d) @ [last (segment_texts d) @ row])"
    "created \<longrightarrow> d' = started_segment (segment_name (length (segment_files d))) row ((int (length ps) + 1) mod every = 0) sig ds d"
proof -
  let ?n = "length (segment_files d)"
  define rotated where "rotated = rotates mx row d st"
  define index where "index = (if rotated then sw_active_index st + 1 else sw_active_index st)"
  have whole: "whole_segments d" using d by (simp add: dir_ok_def)
  have files: "segment_files d = map segment_name [0..<?n]" using whole by (simp add: whole_segments_def)
  have tail: "sw_tail_hash st = chain_tail ps" "sw_count st = int (length ps)" "sw_active_index st = ?n - 1"
    using st by (simp_all add: state_ok_def)
  have nonempty: "segment_files d \<noteq> []" if rotated
    using that st by (auto simp: rotated_def rotates_def state_ok_def segment_texts_nil)
  have ends: "ends_line (joined_segments d)" if "whole_segments d" for d
    using that unfolding whole_segments_def joined_segments_def by (intro ends_line_concat) simp
  have ends_row: "ends_line (s @ row)" if "ends_line s" for s
    using row_ends_line [OF that] by (simp add: row_def)
  have row_end: "ends_line row" using ends_row [of "[]"] by (simp add: ends_line_def)
  obtain f r where wr: "write_row row ((sw_count st + 1) mod every = 0) (Append_done sig) (dir_file (segment_name index) d) = (f, r)"
    by fastforce
  have f: "r = Inr ()" "lf_text f = Some (file_text (dir_file (segment_name index) d) @ row)"
    using write_row_done [OF wr] by simp_all
  define d' where "d' = (put_file (segment_name index) f d)\<lparr>sd_stat := ds\<rparr>"
  define st' where "st' = \<lparr>sw_initialized = True, sw_tail_hash = hash_payload (chain_tail ps) p, sw_count = sw_count st + 1,
    sw_active_index = index, sw_active_rows = (if rotated then 0 else sw_active_rows st) + 1,
    sw_active_start_prev = (if rotated then sw_tail_hash st else sw_active_start_prev st),
    sw_active_signature = stat_signature f, sw_directory_signature = Some ds\<rparr>"
  have enc: "encode_row (sw_tail_hash st) p = (row, hash_payload (chain_tail ps) p)"
    by (simp add: row_def encode_row_def tail)
  have run: "segment_append mx every p (Append_done sig) ds (d, st) =
      ((d', st'), Inr (hash_payload (chain_tail ps) p, lf_text (dir_file (segment_name index) d) = None))"
    unfolding segment_append_def Let_def prod.case enc rotated_def [symmetric] index_def [symmetric] wr
    by (simp add: f(1) d'_def st'_def)
  have joined: "log_payloads (Some (joined_segments d @ row)) = Inr (ps @ [sorted_fields p])"
    unfolding row_def by (rule log_payloads_append [OF ps ends [OF whole] p])
  have sig: "sw_active_signature st' = stat_signature (dir_file (segment_name index) d')" "sd_stat d' = ds"
    by (simp_all add: d'_def st'_def dir_file_put f(2))
  have last_rows: "sw_active_rows st = row_count (last (segment_texts d))" "ends_line (last (segment_texts d))" if "segment_files d \<noteq> []"
    using st whole that by (simp_all add: state_ok_def segment_texts_nil [symmetric] whole_segments_def)
  show ?thesis
  proof (cases created)
    case True
    then have index: "index = ?n" using nonempty tail(3) by (auto simp: created_def index_def rotated_def)
    then have "lf_text (dir_file (segment_name index) d) = None"
      using new_segment(5) [OF d n, of "f\<lparr>lf_text := Some row\<rparr>" row] row_end dir_file_exists [OF d] index by (simp del: set_map)
    note fresh = this
    then have content: "lf_text f = Some row" using f(2) by (simp add: file_text_def)
    have "map_of (sd_entries d) (segment_name index) = None"
      using fresh dir_file_exists [OF d] by (simp add: map_of_eq_None_iff)
    then have "dir_file (segment_name index) d = missing_log" by (simp add: dir_file_def)
    then have "f = \<lparr>lf_text = Some row, lf_stat = sig, lf_synced = (if (int (length ps) + 1) mod every = 0 then row else [])\<rparr>"
      using wr by (auto simp: write_row_def missing_log_def file_text_def tail)
    then have exact: "d' = started_segment (segment_name ?n) row ((int (length ps) + 1) mod every = 0) sig ds d"
      by (simp add: d'_def started_segment_def index)
    note new = new_segment [OF d n content row_end, folded index]
    have "sw_active_rows st' = row_count row"
      using True nonempty st
      by (auto simp: st'_def row_def row_count_row created_def rotated_def state_ok_def segment_texts_nil)
    then have "state_ok st' d' (ps @ [sorted_fields p])"
      using new sig index by (simp add: state_ok_def d'_def st'_def tail)
    then show ?thesis using that [of d' st'] run fresh True new joined exact by (simp add: d'_def st'_def)
  next
    case False
    then have old: "segment_files d \<noteq> []" "\<not> rotated" "index = ?n - 1"
      using tail(3) by (auto simp: created_def index_def rotated_def)
    have texts: "segment_texts d = map (\<lambda>i. file_text (dir_file (segment_name i) d)) [0..<?n]" by (rule segment_texts_indexed [OF files])
    then have "last (segment_texts d) = file_text (dir_file (segment_name index) d)"
      using old by (simp add: last_map)
    then have content: "lf_text f = Some (last (segment_texts d) @ row)" using f(2) by simp
    note ext = extend_segment [OF d old(1) content ends_row, folded old(3)]
    have "segment_name index \<in> set (segment_files d)" using old by (subst files) simp
    then have there: "lf_text (dir_file (segment_name index) d) \<noteq> None"
      using dir_file_exists [OF d] by (simp add: segment_files_known)
    have "sw_active_rows st' = row_count (last (segment_texts d) @ row)"
      using last_rows [OF old(1)] old(2) by (simp add: st'_def row_def row_count_row)
    then have "state_ok st' d' (ps @ [sorted_fields p])"
      using ext sig old(3) by (simp add: state_ok_def d'_def st'_def tail)
    then show ?thesis using that [of d' st'] run there False ext joined old(1) by (simp add: d'_def st'_def)
  qed
qed

subsection \<open>The facade implements the contract\<close>

text \<open>
  An append as it goes when nobody interferes: the watch reports nothing before it, the write
  succeeds, and a new segment, and only that, is reported, at once or within the wait.
\<close>

definition segment_writes :: "fields \<Rightarrow> append_answers \<Rightarrow> segment_log \<Rightarrow> bool" where
  "segment_writes p w l \<longleftrightarrow>
     length (segment_files (sl_dir l)) < 10 ^ 8
     \<and> aa_before w = Os_idle \<and> acknowledges (aa_verify w) \<and> acknowledges (aa_ack w) \<and> write_done (aa_write w)
     \<and> (\<forall>d. aa_others w d = d)
     \<and> (if creates p (fst (ensure_owned_segments (aa_before w) (aa_verify w) l))
        then aa_dir w \<noteq> sd_stat (sl_dir l)
          \<and> (aa_after w = Os_changed \<or> aa_after w = Os_idle \<and> aa_poll w = Os_idle \<and> aa_wait w = Os_changed)
        else aa_dir w = sd_stat (sl_dir l) \<and> aa_after w = Os_idle)"

lemma ensure_owned_segments_holds:
  assumes l: "segments_hold l ps" and ack: "acknowledges ack"
  obtains l' where "ensure_owned_segments Os_idle ack l = (l', Inr ())" "segments_hold l' ps" "sw_initialized (sl_state l')"
    "sl_dir l' = sl_dir l" "sl_max_bytes l' = sl_max_bytes l" "sl_fsync_every l' = sl_fsync_every l"
proof (cases "sw_initialized (sl_state l)")
  case True
  then have "state_ok (sl_state l) (sl_dir l) ps" "\<not> cg_pending (sl_signal l)" using l by (simp_all add: segments_hold_def)
  then have "changed_since Os_idle (dir_signature l) (sw_directory_signature (sl_state l)) (sl_signal l) = (sl_signal l, Inr False)"
    "sw_active_signature (sl_state l) = stat_signature (dir_file (segment_name (sw_active_index (sl_state l))) (sl_dir l))"
    by (simp_all add: changed_since_def state_ok_def dir_signature_def split: watch_mode.split)
  then show ?thesis using that [of l] True l by (simp add: ensure_owned_segments_def Let_def)
next
  case False
  from verify_segments_holds [OF l ack] obtain r where
    "verify_segments None ack l = (adopted r l, Inr (int (length ps), chain_tail ps))"
    "segments_hold (adopted r l) ps" "sw_initialized (sl_state (adopted r l))" .
  then show ?thesis using that [of "adopted r l"] False by (simp add: ensure_owned_segments_def Let_def) (simp add: adopted_def)
qed

lemma no_drift:
  assumes "dir_ok (sl_dir l)" "segment_files (sl_dir l) \<noteq> []"
    and "sw_active_index (sl_state l) = length (segment_files (sl_dir l)) - 1"
  shows "\<not> namespace_drift l"
proof -
  let ?keys = "set (map fst (sd_entries (sl_dir l)))" and ?files = "segment_files (sl_dir l)"
  have "map segment_name [0..<sw_active_index (sl_state l) + 1] = ?files"
    using assms by (simp add: dir_ok_def whole_segments_def)
  moreover have "set ?files \<subseteq> ?keys" by (auto simp: segment_files_known)
  then have "?keys = set ?files \<union> (if manifest_name \<in> ?keys then {manifest_name} else {})"
    using assms(1) unfolding dir_ok_def by (cases "manifest_name \<in> ?keys") (simp_all only: if_True if_False, blast+)
  ultimately show ?thesis unfolding namespace_drift_def Let_def
    by (cases "manifest_name \<in> ?keys") (simp_all del: set_map)
qed

lemma confirm_quiet:
  assumes "\<not> cg_pending (sl_signal l)" "aa_after w = Os_idle" "dir_signature l = expected"
  shows "confirm_append False w expected l = (l, Inr ())"
  using assms by (simp add: confirm_append_def changed_since_def split: watch_mode.split)

lemma confirm_created:
  assumes "\<not> cg_pending (sl_signal l)" "\<not> namespace_drift l" "acknowledges (aa_ack w)" "dir_signature l \<noteq> expected"
    and "aa_after w = Os_changed \<or> aa_after w = Os_idle \<and> aa_poll w = Os_idle \<and> aa_wait w = Os_changed"
  shows "confirm_append True w expected l = (l\<lparr>sl_signal := (sl_signal l)\<lparr>cg_pending := False\<rparr>\<rparr>, Inr ())"
proof -
  have drift: "\<not> namespace_drift (l\<lparr>sl_signal := g\<rparr>)" for g using assms(2) by (simp add: namespace_drift_def)
  show ?thesis
    using assms drift
    by (cases "cg_mode (sl_signal l)")
      (auto simp: confirm_append_def changed_since_def wait_changed_since_def notification_wait_def acknowledge_fine)
qed

lemma append_segments_holds:
  assumes l: "segments_hold l ps" and w: "segment_writes p w l" and p: "json_wf (JObj p)"
  obtains l1 l' where "ensure_owned_segments (aa_before w) (aa_verify w) l = (l1, Inr ())" "sl_max_bytes l1 = sl_max_bytes l"
    "append_segments p w l = (l', Inr (hash_payload (chain_tail ps) p))" "segments_hold l' (ps @ [sorted_fields p])"
    "sl_max_bytes l' = sl_max_bytes l" "sl_fsync_every l' = sl_fsync_every l"
    "segment_texts (sl_dir l') =
      (let row = fst (encode_row (chain_tail ps) p); ss = segment_texts (sl_dir l) in
       if creates p l1 then ss @ [row] else butlast ss @ [last ss @ row])"
    "state_ok (sl_state l1) (sl_dir l) ps" "sl_dir l1 = sl_dir l"
    "creates p l1 \<longrightarrow> (\<exists>sig. sl_dir l' = started_segment (segment_name (length (segment_files (sl_dir l))))
      (fst (encode_row (chain_tail ps) p)) ((int (length ps) + 1) mod sl_fsync_every l = 0) sig (aa_dir w) (sl_dir l))"
proof -
  have answers: "aa_before w = Os_idle" "acknowledges (aa_verify w)" "acknowledges (aa_ack w)" "write_done (aa_write w)"
    "aa_others w d = d" for d using w by (simp_all add: segment_writes_def)
  from ensure_owned_segments_holds [OF l answers(2)] obtain l1 where
    l1: "ensure_owned_segments Os_idle (aa_verify w) l = (l1, Inr ())" "segments_hold l1 ps" "sw_initialized (sl_state l1)"
      "sl_dir l1 = sl_dir l" "sl_max_bytes l1 = sl_max_bytes l" "sl_fsync_every l1 = sl_fsync_every l" .
  have ok: "dir_ok (sl_dir l)" "state_ok (sl_state l1) (sl_dir l) ps" "log_payloads (Some (joined_segments (sl_dir l))) = Inr ps"
    "\<not> sl_read_only l" "\<not> sl_read_only l1" "\<not> cg_pending (sl_signal l1)"
    using l l1(2-4) by (simp_all add: segments_hold_def)
  have n: "length (segment_files (sl_dir l)) < 10 ^ 8" using w by (simp add: segment_writes_def)
  obtain sig where out: "aa_write w = Append_done sig" using answers(4) by (cases "aa_write w") auto
  let ?row = "fst (encode_row (chain_tail ps) p)"
  let ?created = "rotates (sl_max_bytes l1) ?row (sl_dir l) (sl_state l1) \<or> segment_files (sl_dir l) = []"
  have created: "creates p l1 = ?created" using ok(2) by (simp add: creates_def l1(4) state_ok_def)
  from segment_append_ok [OF ok(1-3) n p, where mx = "sl_max_bytes l1" and every = "sl_fsync_every l1" and sig = sig and ds = "aa_dir w"]
  obtain d' st' where run: "segment_append (sl_max_bytes l1) (sl_fsync_every l1) p (Append_done sig) (aa_dir w) (sl_dir l, sl_state l1) =
      ((d', st'), Inr (hash_payload (chain_tail ps) p, ?created))"
    and d': "dir_ok d'" "log_payloads (Some (joined_segments d')) = Inr (ps @ [sorted_fields p])"
      "state_ok st' d' (ps @ [sorted_fields p])" "sw_initialized st'" "sd_stat d' = aa_dir w" "segment_files d' \<noteq> []"
      "segment_texts d' = (if ?created then segment_texts (sl_dir l) @ [?row] else butlast (segment_texts (sl_dir l)) @ [last (segment_texts (sl_dir l)) @ ?row])"
      "?created \<longrightarrow> d' = started_segment (segment_name (length (segment_files (sl_dir l)))) ?row
        ((int (length ps) + 1) mod sl_fsync_every l1 = 0) sig (aa_dir w) (sl_dir l)" .
  define l2 where "l2 = l1\<lparr>sl_dir := d', sl_state := st'\<rparr>"
  have sig: "sw_directory_signature (sl_state l1) = Some (sd_stat (sl_dir l))" "dir_signature l2 = Some (aa_dir w)"
    "sw_directory_signature st' = Some (aa_dir w)"
    using ok(2) d'(3,5) by (simp_all add: state_ok_def dir_signature_def l2_def)
  have drift: "\<not> namespace_drift l2" using d' by (intro no_drift) (simp_all add: l2_def state_ok_def)
  have quiet: "if ?created then aa_dir w \<noteq> sd_stat (sl_dir l)
        \<and> (aa_after w = Os_changed \<or> aa_after w = Os_idle \<and> aa_poll w = Os_idle \<and> aa_wait w = Os_changed)
      else aa_dir w = sd_stat (sl_dir l) \<and> aa_after w = Os_idle"
    using w unfolding segment_writes_def answers(1) l1(1) fst_conv created by (elim conjE)
  have confirm: "confirm_append ?created w (sw_directory_signature (sl_state l1)) l2 =
      (l2\<lparr>sl_signal := (sl_signal l1)\<lparr>cg_pending := False\<rparr>\<rparr>, Inr ())"
  proof (cases ?created)
    case True
    then show ?thesis using quiet confirm_created [of l2 w "sw_directory_signature (sl_state l1)"] drift answers(3) sig ok(6)
      by (simp add: l2_def)
  next
    case False
    have "sl_signal l1 = (sl_signal l1)\<lparr>cg_pending := False\<rparr>" using ok(6) by simp
    then show ?thesis using False quiet confirm_quiet [of l2 w "sw_directory_signature (sl_state l1)"] sig ok(6)
      by (simp add: l2_def)
  qed
  define l3 where "l3 = l2\<lparr>sl_signal := (sl_signal l1)\<lparr>cg_pending := False\<rparr>\<rparr>"
  have "l3\<lparr>sl_state := (sl_state l3)\<lparr>sw_directory_signature := dir_signature l3\<rparr>\<rparr> = l3"
    using sig by (simp add: l3_def l2_def dir_signature_def)
  moreover have "append_segments p w l = (l3\<lparr>sl_state := (sl_state l3)\<lparr>sw_directory_signature := dir_signature l3\<rparr>\<rparr>, Inr (hash_payload (chain_tail ps) p))"
    using confirm
    by (simp add: append_segments_def ok(4) answers l1(1) l1(4) out run l2_def [symmetric] l3_def)
  ultimately have final: "append_segments p w l = (l3, Inr (hash_payload (chain_tail ps) p))" by simp
  have "segments_hold l3 (ps @ [sorted_fields p])" "sl_max_bytes l3 = sl_max_bytes l" "sl_fsync_every l3 = sl_fsync_every l" "sl_dir l3 = d'"
    using d' ok(5) l1(5,6) by (simp_all add: segments_hold_def l3_def l2_def)
  then show ?thesis
    using that [OF _ l1(5) final _ _ _ _ ok(2) l1(4)] l1(1) answers(1) d'(7,8) unfolding created l1(6) Let_def by metis
qed

definition segment_log_port :: "(append_answers, segment_log) ledger_port" where
  "segment_log_port = \<lparr>lp_append = append_segments, lp_verify = verify_segments None (Os_idle, Os_idle),
     lp_payloads_after = segments_payloads_after (Os_idle, Os_idle), lp_cut_after = segments_cut_after (Os_idle, Os_idle),
     lp_batches = (\<lambda>c batch l. iter_segment_chain_payload_batches c batch (sl_dir l)),
     lp_cached_tail = segments_cached_tail (Os_idle, Os_idle)\<rparr>"

lemma idle_acknowledges [simp]: "acknowledges (Os_idle, Os_idle)"
  by (simp add: acknowledges_def)

interpretation segment_log: forensic_ledger segment_log_port segments_hold segment_writes
proof unfold_locales
  fix l ps p
  assume "segments_hold l ps" "p \<in> set ps"
  then show "json_wf (JObj p)" unfolding segments_hold_def using log_payloads_wf by blast
next
  fix l ps w p
  assume "segments_hold l ps" "segment_writes p w l" "json_wf (JObj p)"
  from append_segments_holds [OF this] obtain l' where
    "append_segments p w l = (l', Inr (hash_payload (chain_tail ps) p))" "segments_hold l' (ps @ [sorted_fields p])" .
  then show "snd (lp_append segment_log_port p w l) = Inr (hash_payload (chain_tail ps) p)
      \<and> segments_hold (fst (lp_append segment_log_port p w l)) (ps @ [sorted_fields p])"
    by (simp add: segment_log_port_def)
next
  fix l ps assume "segments_hold l ps"
  from verify_segments_holds [OF this idle_acknowledges] obtain r where
    "verify_segments None (Os_idle, Os_idle) l = (adopted r l, Inr (int (length ps), chain_tail ps))" "segments_hold (adopted r l) ps" .
  then show "snd (lp_verify segment_log_port l) = Inr (int (length ps), chain_tail ps)
      \<and> segments_hold (fst (lp_verify segment_log_port l)) ps"
    by (simp add: segment_log_port_def)
next
  fix l ps k assume "segments_hold l ps"
  then show "error_class (snd (lp_payloads_after segment_log_port k l)) = after_rows slice_for k ps
      \<and> segments_hold (fst (lp_payloads_after segment_log_port k l)) ps"
    using payloads_after_holds [of l ps "(Os_idle, Os_idle)" k] by (simp add: segment_log_port_def)
next
  fix l ps k assume "segments_hold l ps"
  then show "error_class (snd (lp_cut_after segment_log_port k l)) = after_rows cut_for k ps
      \<and> segments_hold (fst (lp_cut_after segment_log_port k l)) ps"
    using cut_after_holds [of l ps "(Os_idle, Os_idle)" k] by (simp add: segment_log_port_def)
next
  fix l ps later and b k :: int
  assume l: "segments_hold l (ps @ later)" and k: "0 \<le> k" "k \<le> int (length ps)" "0 < b"
  have joined: "log_payloads (Some (joined_segments (sl_dir l))) = Inr (ps @ later)" using l by (simp add: segments_hold_def)
  from iter_batches_chain [OF joined k] obtain out where
    "iter_hash_chain_payload_batches (cut_for k ps) b (Some (joined_segments (sl_dir l))) = (out, Inr ())"
    "batches_of b (drop (nat k) ps) out" by blast
  then show "\<exists>out. lp_batches segment_log_port (cut_for k ps) b l = (out, Inr ()) \<and> batches_of b (drop (nat k) ps) out"
    using iter_segments_joined [OF segments_hold_whole [OF l], of "cut_for k ps" b]
    by (cases "iter_segment_chain_payload_batches (cut_for k ps) b (sl_dir l)";
        cases "snd (iter_segment_chain_payload_batches (cut_for k ps) b (sl_dir l))")
      (simp_all add: segment_log_port_def end_class_def)
next
  fix l ps assume l: "segments_hold l ps"
  from verify_segments_holds [OF l idle_acknowledges] obtain r where
    "verify_segments None (Os_idle, Os_idle) l = (adopted r l, Inr (int (length ps), chain_tail ps))" "segments_hold (adopted r l) ps" .
  then show "snd (lp_cached_tail segment_log_port l) = Inr (int (length ps), chain_tail ps)
      \<and> segments_hold (fst (lp_cached_tail segment_log_port l)) ps"
    using l by (cases "sw_initialized (sl_state l)")
      (simp_all add: segment_log_port_def segments_cached_tail_def segments_hold_def state_ok_def)
qed

subsection \<open>Properties\<close>

text \<open>
  C37: the segmented ledger implements an append-only list of payloads, across rotations. Any sequence
  of undisturbed appends, verifications, slices, cuts and tail queries gets the answers the list gives.
\<close>

theorem segment_log_refines:
  assumes "segments_hold l ps" "appends_fine segment_log_port segment_writes ops l"
  shows "snd (ledger_calls segment_log_port ops l) = snd (spec_calls ops ps)
    \<and> segments_hold (fst (ledger_calls segment_log_port ops l)) (fst (spec_calls ops ps))"
  using assms by (rule segment_log.calls_refine)

text \<open>A new ledger, and the answers to its first appends: each creates a segment of its own.\<close>

definition fresh_segments :: "int \<Rightarrow> int \<Rightarrow> segment_log" where
  "fresh_segments max_bytes every = \<lparr>sl_dir = \<lparr>sd_entries = [], sd_stat = (0, 0, 0, 0)\<rparr>, sl_state = new_segment_state,
     sl_signal = \<lparr>cg_mode = Watch_inotify, cg_pending = False\<rparr>, sl_max_bytes = max_bytes, sl_fsync_every = every, sl_read_only = False\<rparr>"

definition creating :: "int \<Rightarrow> append_answers" where
  "creating n = \<lparr>aa_before = Os_idle, aa_verify = (Os_idle, Os_idle), aa_write = Append_done (0, n, 0, 0), aa_dir = (0, 0, 0, n),
     aa_others = (\<lambda>d. d), aa_after = Os_changed, aa_poll = Os_idle, aa_wait = Os_idle, aa_ack = (Os_changed, Os_idle)\<rparr>"

lemma fresh_segments_hold: "segments_hold (fresh_segments mx every) []"
  by (simp add: segments_hold_def fresh_segments_def dir_ok_def whole_segments_def segment_files_def segment_texts_def
      joined_segments_def new_segment_state_def log_payloads_def log_rows_def text_lines_def)

lemma byte_size_append [simp]: "byte_size (s @ t) = byte_size s + byte_size t"
proof -
  have "utf8_bytes (s @ t) = utf8_bytes s @ utf8_bytes t" by (induction s) (simp_all add: Let_def)
  then show ?thesis by (simp add: byte_size_def)
qed

lemma byte_size_pos: "s \<noteq> [] \<Longrightarrow> 0 < byte_size s"
  by (cases s) (simp_all add: byte_size_def Let_def)

lemma row_byte_size: "0 < byte_size (fst (encode_row prev p))"
  by (rule byte_size_pos) (simp add: encode_row_def)

lemma last_segment_text:
  assumes "whole_segments d" "segment_files d \<noteq> []"
  shows "file_text (dir_file (segment_name (length (segment_files d) - 1)) d) = last (segment_texts d)"
proof -
  have files: "segment_files d = map segment_name [0..<length (segment_files d)]" using assms(1) by (simp add: whole_segments_def)
  show ?thesis using assms(2) by (simp add: segment_texts_indexed [OF files] last_map)
qed

lemma creates_iff:
  assumes "state_ok (sl_state l) (sl_dir l) ps" "whole_segments (sl_dir l)"
  shows "creates p l \<longleftrightarrow> segment_texts (sl_dir l) = []
    \<or> 0 < row_count (last (segment_texts (sl_dir l)))
      \<and> sl_max_bytes l < byte_size (last (segment_texts (sl_dir l))) + byte_size (fst (encode_row (chain_tail ps) p))"
proof (cases "segment_files (sl_dir l) = []")
  case False
  then show ?thesis using assms(1) last_segment_text [OF assms(2) False] segment_texts_nil
    by (simp add: creates_def rotates_def state_ok_def)
qed (simp add: creates_def segment_texts_nil)

lemma fresh_append:
  assumes "json_wf (JObj p)" "n \<noteq> 0"
  obtains l' where "append_segments p (creating n) (fresh_segments mx every) = (l', Inr (hash_payload zero_hash p))"
    "segments_hold l' [sorted_fields p]" "sl_max_bytes l' = mx" "segment_texts (sl_dir l') = [fst (encode_row zero_hash p)]"
    "segment_writes p (creating n) (fresh_segments mx every)" "sl_fsync_every l' = every"
    "\<exists>sig. sl_dir l' = started_segment (segment_name 0) (fst (encode_row zero_hash p)) (1 mod every = 0) sig (0, 0, 0, n)
      \<lparr>sd_entries = [], sd_stat = (0, 0, 0, 0)\<rparr>"
proof -
  let ?l = "fresh_segments mx every"
  have nil: "segment_files (sl_dir ?l) = []" "segment_texts (sl_dir ?l) = []"
    by (simp_all add: fresh_segments_def segment_files_def segment_texts_def)
  from ensure_owned_segments_holds [OF fresh_segments_hold idle_acknowledges, of mx every] obtain l1 where
    l1: "ensure_owned_segments Os_idle (Os_idle, Os_idle) ?l = (l1, Inr ())" "sl_dir l1 = sl_dir ?l" .
  then have w: "segment_writes p (creating n) ?l"
    using nil assms(2) by (simp add: segment_writes_def creating_def acknowledges_def creates_def) (simp add: fresh_segments_def)
  obtain l2 l' where l2:
"ensure_owned_segments (aa_before (creating n)) (aa_verify (creating n)) ?l = (l2, Inr ())" and
    l': "append_segments p (creating n) ?l = (l', Inr (hash_payload (chain_tail []) p))"
      "segments_hold l' ([] @ [sorted_fields p])" "sl_max_bytes l' = sl_max_bytes ?l" "sl_fsync_every l' = sl_fsync_every ?l"
      "segment_texts (sl_dir l') = (let row = fst (encode_row (chain_tail []) p); ss = segment_texts (sl_dir ?l) in
         if creates p l2 then ss @ [row] else butlast ss @ [last ss @ row])"
      "creates p l2 \<longrightarrow> (\<exists>sig. sl_dir l' = started_segment (segment_name (length (segment_files (sl_dir ?l))))
        (fst (encode_row (chain_tail []) p)) ((int (length ([] :: fields list)) + 1) mod sl_fsync_every ?l = 0) sig (aa_dir (creating n)) (sl_dir ?l))"
    by (rule append_segments_holds [OF fresh_segments_hold w assms(1)], rule that)
  have "l2 = l1" using l2 l1(1) by (simp add: creating_def)
  then have "creates p l2" using nil l1(2) by (simp add: creates_def)
  then show ?thesis using that [of l'] l' w nil by (simp add: Let_def) (simp add: fresh_segments_def creating_def)
qed

theorem segment_log_refines_witness:
  "\<exists>l. ledger_calls segment_log_port [Op_append [(''id'', JInt 1)] (creating 1), Op_payloads 1, Op_payloads 2] (fresh_segments 1 2) =
    (l, [Reply_hash (Inr (hash_payload zero_hash [(''id'', JInt 1)])),
         Reply_slice (Inr (slice_for 1 [[(''id'', JInt 1)]])), Reply_slice (Inl ''HashChainError'')])
    \<and> segments_hold l [[(''id'', JInt 1)]]"
proof -
  let ?p = "[(''id'', JInt 1)]" and ?l = "fresh_segments 1 2"
  let ?ops = "[Op_append ?p (creating 1), Op_payloads 1, Op_payloads 2]"
  have "json_wf (JObj ?p)" by simp
  from fresh_append [OF this, of 1] have "segment_writes ?p (creating 1) ?l" by auto
  then have "appends_fine segment_log_port segment_writes ?ops ?l" by simp
  from segment_log_refines [OF fresh_segments_hold this] show ?thesis
    by (cases "ledger_calls segment_log_port ?ops ?l") (simp add: sorted_fields_def after_rows_def)
qed

text \<open>
  A segmented directory is one file cut into pieces. If its segments are numbered without a gap
  and each ends its last line, verification, slices, cuts and the batches of a cut give what they give on the
  file with the joined text: the same rows, hashes and payloads or an error of the same class.
\<close>

theorem segments_are_one_file:
  assumes "whole_segments d"
  shows "error_class (bind_result (scan_segment_chain d) (\<lambda>r. Inr (sn_total_rows r, sn_tail_hash r)))
      = error_class (scan_hash_chain (Some (joined_segments d)))
    \<and> error_class (bind_result (scan_segment_chain_payloads k d) (\<lambda>(r, s). Inr s))
      = error_class (scan_hash_chain_payloads k (Some (joined_segments d)))
    \<and> error_class (bind_result (scan_segment_chain_cut k d) (\<lambda>(r, c). Inr c))
      = error_class (scan_hash_chain_cut k (Some (joined_segments d)))
    \<and> end_class (iter_segment_chain_payload_batches vc batch d)
      = end_class (iter_hash_chain_payload_batches vc batch (Some (joined_segments d)))"
  using scan_segment_chain_joined [OF assms] scan_segment_payloads_joined [OF assms] scan_segment_cut_joined [OF assms]
    iter_segments_joined [OF assms] by simp


lemma second_append:
  assumes p: "json_wf (JObj p)" and q: "json_wf (JObj q)" and every: "0 < every"
  obtains l1 l2 sig where
    "append_segments p (creating 1) (fresh_segments 1 every) = (l1, Inr (hash_payload zero_hash p))"
    "segments_hold l1 [sorted_fields p]" "segment_writes q (creating 2) l1" "sl_fsync_every l1 = every" "sl_max_bytes l1 = 1"
    "sl_dir l1 = started_segment (segment_name 0) (fst (encode_row zero_hash p)) (1 mod every = 0) sig (0, 0, 0, 1)
      \<lparr>sd_entries = [], sd_stat = (0, 0, 0, 0)\<rparr>"
    "creates q (fst (ensure_owned_segments Os_idle (Os_idle, Os_idle) l1))"
    "append_segments q (creating 2) l1 = (l2, Inr (hash_payload (hash_payload zero_hash p) q))"
    "segments_hold l2 [sorted_fields p, sorted_fields q]"
    "segment_texts (sl_dir l2) = [fst (encode_row zero_hash p), fst (encode_row (hash_payload zero_hash p) q)]"
proof -
  let ?row = "fst (encode_row zero_hash p)"
  have one: "(1::int) \<noteq> 0" by simp
  from fresh_append [OF p one, of 1 every] obtain l1 sig where
    l1: "append_segments p (creating 1) (fresh_segments 1 every) = (l1, Inr (hash_payload zero_hash p))"
      "segments_hold l1 [sorted_fields p]" "sl_max_bytes l1 = 1" "segment_texts (sl_dir l1) = [?row]" "sl_fsync_every l1 = every"
      "sl_dir l1 = started_segment (segment_name 0) ?row (1 mod every = 0) sig (0, 0, 0, 1) \<lparr>sd_entries = [], sd_stat = (0, 0, 0, 0)\<rparr>"
    by metis
  from ensure_owned_segments_holds [OF l1(2) idle_acknowledges] obtain l' where
    l': "ensure_owned_segments Os_idle (Os_idle, Os_idle) l1 = (l', Inr ())" "segments_hold l' [sorted_fields p]"
      "sw_initialized (sl_state l')" "sl_dir l' = sl_dir l1" "sl_max_bytes l' = sl_max_bytes l1" .
  have size: "1 < byte_size ?row + byte_size (fst (encode_row prev q))" for prev
    using row_byte_size [of zero_hash p] row_byte_size [of prev q] by linarith
  have "state_ok (sl_state l') (sl_dir l') [sorted_fields p]" using l'(2,3) by (simp add: segments_hold_def)
  from creates_iff [OF this] have creates: "creates q l'"
    using segments_hold_whole [OF l'(2)] size l1(3,4) l'(4,5) by (simp add: row_count_row)
  moreover have "length (segment_files (sl_dir l1)) = 1" using l1(4) by (metis length_map length_Cons list.size(3) One_nat_def segment_texts_def)
  moreover have "sd_stat (sl_dir l1) = (0, 0, 0, 1)" by (simp add: l1(6) started_segment_def)
  ultimately have w: "segment_writes q (creating 2) l1"
    using l'(1) by (simp add: segment_writes_def creating_def acknowledges_def)
  obtain l'' l2 where
    l2: "ensure_owned_segments (aa_before (creating 2)) (aa_verify (creating 2)) l1 = (l'', Inr ())"
      "append_segments q (creating 2) l1 = (l2, Inr (hash_payload (chain_tail [sorted_fields p]) q))"
      "segments_hold l2 ([sorted_fields p] @ [sorted_fields q])"
      "segment_texts (sl_dir l2) = (let row = fst (encode_row (chain_tail [sorted_fields p]) q); ss = segment_texts (sl_dir l1) in
         if creates q l'' then ss @ [row] else butlast ss @ [last ss @ row])"
    by (rule append_segments_holds [OF l1(2) w q], rule that)
  have "l'' = l'" using l2(1) l'(1) by (simp add: creating_def)
  moreover have "chain_tail [sorted_fields p] = hash_payload zero_hash p" using chain_tail_snoc [of "[]"] by simp
  ultimately show ?thesis
    using that [OF l1(1,2) w l1(5,3,6)] l2(2-4) creates l'(1) l1(4) by (simp add: Let_def)
qed

theorem segments_are_one_file_witness:
  "\<exists>d. segment_texts d = [fst (encode_row zero_hash [(''a'', JNull)]), fst (encode_row (hash_payload zero_hash [(''a'', JNull)]) [(''b'', JNull)])]
    \<and> error_class (bind_result (scan_segment_chain d) (\<lambda>r. Inr (sn_total_rows r, sn_tail_hash r)))
      = error_class (scan_hash_chain (Some (joined_segments d)))"
proof -
  have wf: "json_wf (JObj [(''a'', JNull)])" "json_wf (JObj [(''b'', JNull)])" "0 < (1::int)" by simp_all
  from second_append [OF wf] obtain l where
    "segments_hold l [sorted_fields [(''a'', JNull)], sorted_fields [(''b'', JNull)]]"
    "segment_texts (sl_dir l) = [fst (encode_row zero_hash [(''a'', JNull)]), fst (encode_row (hash_payload zero_hash [(''a'', JNull)]) [(''b'', JNull)])]" .
  then show ?thesis using segments_are_one_file [OF segments_hold_whole] by metis
qed

subsection \<open>Sizes of segments\<close>

text \<open>
  Segments as the writer packs them: rows only, as many as fit, but at least one; the next row would
  not have fitted any more.
\<close>

definition packed :: "int \<Rightarrow> string list \<Rightarrow> bool" where
  "packed max_bytes ss \<longleftrightarrow>
     (\<forall>s \<in> set ss. text_lines s \<noteq> [] \<and> list_all (\<lambda>line. \<not> blank line) (text_lines s)
        \<and> (byte_size s \<le> max_bytes \<or> length (text_lines s) = 1))
     \<and> successively (\<lambda>s t. max_bytes < byte_size s + byte_size (hd (text_lines t))) ss"

lemma packed_rows: "packed mx ss \<Longrightarrow> s \<in> set ss \<Longrightarrow> 0 < row_count s"
  by (auto simp: packed_def row_count_def list_all_iff)

lemma packed_new:
  assumes "packed mx ss" "ss \<noteq> [] \<Longrightarrow> mx < byte_size (last ss) + byte_size (fst (encode_row prev p))"
  shows "packed mx (ss @ [fst (encode_row prev p)])"
  using assms by (cases "ss = []") (auto simp: packed_def row_lines row_not_blank successively_append_iff)

lemma packed_grow:
  assumes "packed mx ss" "ss \<noteq> []" "ends_line (last ss)" "byte_size (last ss) + byte_size (fst (encode_row prev p)) \<le> mx"
  shows "packed mx (butlast ss @ [last ss @ fst (encode_row prev p)])"
proof -
  obtain ts s where ss: "ss = ts @ [s]" using assms(2) by (cases ss rule: rev_cases) auto
  have "text_lines (s @ fst (encode_row prev p)) = text_lines s @ [fst (encode_row prev p)]"
    using assms(3) by (simp add: ss text_lines_append row_lines)
  moreover have "text_lines s \<noteq> []" using assms(1) by (simp add: ss packed_def)
  ultimately show ?thesis using assms(1,4) by (auto simp: ss packed_def row_not_blank successively_append_iff)
qed

lemma packed_append:
  assumes l: "segments_hold l ps" "packed (sl_max_bytes l) (segment_texts (sl_dir l))"
    and w: "segment_writes p w l" and p: "json_wf (JObj p)"
  shows "packed (sl_max_bytes l) (segment_texts (sl_dir (fst (append_segments p w l))))
    \<and> sl_max_bytes (fst (append_segments p w l)) = sl_max_bytes l"
proof -
  let ?row = "fst (encode_row (chain_tail ps) p)" and ?ss = "segment_texts (sl_dir l)"
  obtain l1 l' where l1: "sl_max_bytes l1 = sl_max_bytes l" "state_ok (sl_state l1) (sl_dir l) ps" "sl_dir l1 = sl_dir l"
    and l': "append_segments p w l = (l', Inr (hash_payload (chain_tail ps) p))" "sl_max_bytes l' = sl_max_bytes l"
      "segment_texts (sl_dir l') = (let row = ?row; ss = ?ss in if creates p l1 then ss @ [row] else butlast ss @ [last ss @ row])"
    by (rule append_segments_holds [OF l(1) w p], rule that)
  have whole: "whole_segments (sl_dir l)" by (rule segments_hold_whole [OF l(1)])
  have creates: "creates p l1 \<longleftrightarrow> ?ss = [] \<or> 0 < row_count (last ?ss) \<and> sl_max_bytes l < byte_size (last ?ss) + byte_size ?row"
    using creates_iff [of l1 ps p] l1 whole by simp
  have "packed (sl_max_bytes l) (segment_texts (sl_dir l'))"
  proof (cases "creates p l1")
    case True
    then have "sl_max_bytes l < byte_size (last ?ss) + byte_size ?row" if "?ss \<noteq> []" using creates that by simp
    then have "packed (sl_max_bytes l) (?ss @ [?row])" by (rule packed_new [OF l(2)])
    then show ?thesis using True by (simp add: l'(3))
  next
    case False
    then have "?ss \<noteq> []" "byte_size (last ?ss) + byte_size ?row \<le> sl_max_bytes l"
      using creates packed_rows [OF l(2)] last_in_set [of ?ss] by fastforce+
    moreover have "ends_line (last ?ss)" using whole calculation(1) by (simp add: whole_segments_def)
    ultimately show ?thesis using packed_grow [OF l(2)] False by (simp add: l'(3) Let_def)
  qed
  then show ?thesis using l' by simp
qed

lemma verify_keeps_dir:
  "sl_dir (fst (verify_segments None (Os_idle, Os_idle) l)) = sl_dir l"
  "sl_max_bytes (fst (verify_segments None (Os_idle, Os_idle) l)) = sl_max_bytes l"
  by (cases "scan_segment_chain (sl_dir l)"; simp add: verify_segments_def adopt_segments_fine adopted_def)+

lemma adopt_verified_keeps_dir:
  "sl_dir (fst (adopt_verified (Os_idle, Os_idle) r c l)) = sl_dir l"
  "sl_max_bytes (fst (adopt_verified (Os_idle, Os_idle) r c l)) = sl_max_bytes l"
  by (simp_all add: adopt_verified_def adopt_segments_fine adopted_def)

lemma other_calls_keep_dir:
  assumes "\<And>p w. op \<noteq> Op_append p w"
  shows "sl_dir (fst (ledger_call segment_log_port op l)) = sl_dir l"
    "sl_max_bytes (fst (ledger_call segment_log_port op l)) = sl_max_bytes l"
  using assms by (cases op; auto simp: segment_log_port_def verify_keeps_dir segments_payloads_after_def segments_cut_after_def
      segments_cached_tail_def adopt_verified_keeps_dir split: sum.split prod.split)+

lemma packed_calls:
  assumes "segments_hold l ps" "appends_fine segment_log_port segment_writes ops l"
    and "packed (sl_max_bytes l) (segment_texts (sl_dir l))"
  shows "packed (sl_max_bytes l) (segment_texts (sl_dir (fst (ledger_calls segment_log_port ops l))))"
  using assms
proof (induction ops arbitrary: l ps)
  case (Cons op ops)
  let ?l = "fst (ledger_call segment_log_port op l)"
  have "segments_hold ?l (fst (spec_call op ps))" using segment_log.call_refines [of l ps op] Cons.prems by simp
  moreover have "packed (sl_max_bytes l) (segment_texts (sl_dir ?l)) \<and> sl_max_bytes ?l = sl_max_bytes l"
  proof (cases "\<exists>p w. op = Op_append p w")
    case True
    then show ?thesis using packed_append [OF Cons.prems(1,3)] Cons.prems(2) by (auto simp: segment_log_port_def)
  next
    case False
    then show ?thesis using other_calls_keep_dir [of op l] Cons.prems(3) by auto
  qed
  ultimately show ?case using Cons.IH [of ?l "fst (spec_call op ps)"] Cons.prems(2) by (simp add: split_def Let_def)
qed simp

text \<open>
  C38: segments stay within their size. Whatever undisturbed operations a new ledger goes through, no
  segment is larger than \<open>max_segment_bytes\<close> unless it is a single row, none is empty, and the
  writer rotates only when the next row would exceed the limit.
\<close>

theorem segments_bounded:
  assumes "segments_hold l []" "segment_files (sl_dir l) = []" "appends_fine segment_log_port segment_writes ops l"
  shows "packed (sl_max_bytes l) (segment_texts (sl_dir (fst (ledger_calls segment_log_port ops l))))"
  using packed_calls [OF assms(1,3)] assms(2) by (simp add: segment_texts_nil [symmetric] packed_def)

theorem segments_bounded_witness:
  "\<exists>l l'. fst (ledger_calls segment_log_port [Op_append [(''a'', JNull)] (creating 1), Op_append [(''b'', JNull)] (creating 2)] l) = l'
    \<and> length (segment_texts (sl_dir l')) = 2 \<and> packed 1 (segment_texts (sl_dir l'))"
proof -
  let ?l = "fresh_segments 1 1" and ?ops = "[Op_append [(''a'', JNull)] (creating 1), Op_append [(''b'', JNull)] (creating 2)]"
  have wf: "json_wf (JObj [(''a'', JNull)])" "json_wf (JObj [(''b'', JNull)])" "0 < (1::int)" by simp_all
  obtain l1 l2 where
    l1: "append_segments [(''a'', JNull)] (creating 1) ?l = (l1, Inr (hash_payload zero_hash [(''a'', JNull)]))"
      "segment_writes [(''b'', JNull)] (creating 2) l1"
    and l2: "append_segments [(''b'', JNull)] (creating 2) l1 = (l2, Inr (hash_payload (hash_payload zero_hash [(''a'', JNull)]) [(''b'', JNull)]))"
      "segment_texts (sl_dir l2) = [fst (encode_row zero_hash [(''a'', JNull)]), fst (encode_row (hash_payload zero_hash [(''a'', JNull)]) [(''b'', JNull)])]"
    by (rule second_append [OF wf], rule that)
  have "segment_writes [(''a'', JNull)] (creating 1) ?l"
    using fresh_append [OF wf(1), of 1 1 1] by auto
  then have "appends_fine segment_log_port segment_writes ?ops ?l"
    using l1 by (simp add: segment_log_port_def)
  moreover have "segment_files (sl_dir ?l) = []" "sl_max_bytes ?l = 1" by (simp_all add: fresh_segments_def segment_files_def)
  ultimately have "packed 1 (segment_texts (sl_dir (fst (ledger_calls segment_log_port ?ops ?l))))"
    using segments_bounded [OF fresh_segments_hold, of 1 1 ?ops] by simp
  moreover have "fst (ledger_calls segment_log_port ?ops ?l) = l2" using l1 l2 by (simp add: segment_log_port_def)
  ultimately show ?thesis using l2(2) by (intro exI [of _ ?l] exI [of _ l2]) simp
qed

subsection \<open>What a crash leaves\<close>

text \<open>The directory of which every file keeps what was synced.\<close>

definition after_crash :: "segment_dir \<Rightarrow> segment_dir" where
  "after_crash d = d\<lparr>sd_entries := map (\<lambda>(name, f). (name, f\<lparr>lf_text := Some (lf_synced f)\<rparr>)) (sd_entries d)\<rparr>"

lemma after_crash_names [simp]:
  "map fst (sd_entries (after_crash d)) = map fst (sd_entries d)" "segment_files (after_crash d) = segment_files d"
  by (simp_all add: after_crash_def segment_files_def comp_def split_def)

lemma started_segment_entries:
  "name \<notin> set (map fst (sd_entries d)) \<Longrightarrow> started_segment name row synced sig ds d =
    d\<lparr>sd_entries := sd_entries d @ [(name, \<lparr>lf_text = Some row, lf_stat = sig, lf_synced = (if synced then row else [])\<rparr>)],
      sd_stat := ds\<rparr>"
  by (simp add: started_segment_def put_file_def dict_set_new del: set_map)

lemma after_crash_started:
  assumes "name \<notin> set (map fst (sd_entries d))"
  shows "after_crash (started_segment name row True sig ds d) = started_segment name row True sig ds (after_crash d)"
proof -
  have "name \<notin> set (map fst (sd_entries (after_crash d)))" using assms by (simp del: set_map)
  note entries = started_segment_entries [OF this] started_segment_entries [OF assms]
  show ?thesis unfolding entries by (simp add: after_crash_def)
qed

lemma dir_ok_after_crash: "dir_ok d \<Longrightarrow> whole_segments (after_crash d) \<Longrightarrow> dir_ok (after_crash d)"
  unfolding dir_ok_def after_crash_names by (auto simp: after_crash_def)

lemma foreign_row_refused:
  assumes "json_wf (JObj p)" "prev' \<noteq> prev"
  shows "scan_line label prev' (fst (encode_row prev p)) = Inl (chain_error (label @ '': previous hash mismatch''))"
  using assms by (simp add: scan_line_def row_loads row_document_sorted check_row_def)

text \<open>
  C39: rotation loses synced rows. An append that starts a new segment when an \<open>fsync\<close> is due syncs
  only the new file. If rows of the segment before it were not synced yet, a crash that keeps exactly
  what was synced keeps the new row without them, and the ledger does not verify any more (unless the rows that
  were lost happen to leave the tail hash as it was, a SHA-256 collision).
\<close>

theorem rotation_loses_synced_rows:
  assumes l: "segments_hold l ps" and w: "segment_writes p w l" and p: "json_wf (JObj p)"
    and rotates: "creates p (fst (ensure_owned_segments (aa_before w) (aa_verify w) l))"
    and due: "(int (length ps) + 1) mod sl_fsync_every l = 0"
    and crash: "whole_segments (after_crash (sl_dir l))" "log_payloads (Some (joined_segments (after_crash (sl_dir l)))) = Inr qs"
    and run: "append_segments p w l = (l', r)"
  shows "r = Inr (hash_payload (chain_tail ps) p)
    \<and> segment_texts (after_crash (sl_dir l')) = segment_texts (after_crash (sl_dir l)) @ [fst (encode_row (chain_tail ps) p)]
    \<and> (chain_tail qs = chain_tail ps \<or> error_class (scan_segment_chain (after_crash (sl_dir l'))) = Inl ''HashChainError'')"
proof -
  let ?row = "fst (encode_row (chain_tail ps) p)" and ?d = "after_crash (sl_dir l)" and ?n = "length (segment_files (sl_dir l))"
  obtain l1 l2 where "ensure_owned_segments (aa_before w) (aa_verify w) l = (l1, Inr ())"
    and l2: "append_segments p w l = (l2, Inr (hash_payload (chain_tail ps) p))"
    and started: "creates p l1 \<longrightarrow> (\<exists>sig. sl_dir l2 = started_segment (segment_name ?n) ?row
      ((int (length ps) + 1) mod sl_fsync_every l = 0) sig (aa_dir w) (sl_dir l))"
    by (rule append_segments_holds [OF l w p], rule that)
  then obtain sig where dir: "sl_dir l' = started_segment (segment_name ?n) ?row True sig (aa_dir w) (sl_dir l)"
    using rotates due run by auto
  have ok: "dir_ok (sl_dir l)" "?n < 10 ^ 8" using l w by (simp_all add: segments_hold_def segment_writes_def)
  have row_end: "ends_line ?row" using row_ends_line [of "[]" "chain_tail ps" p] by (simp add: ends_line_def)
  have fresh: "segment_name ?n \<notin> set (map fst (sd_entries (sl_dir l)))"
    using new_segment(5) [OF ok, of "\<lparr>lf_text = Some ?row, lf_stat = sig, lf_synced = []\<rparr>" ?row] row_end by simp
  let ?f = "\<lparr>lf_text = Some ?row, lf_stat = sig, lf_synced = ?row\<rparr>"
  have crashed: "after_crash (sl_dir l') = (put_file (segment_name ?n) ?f ?d)\<lparr>sd_stat := aa_dir w\<rparr>"
    using after_crash_started [OF fresh, of ?row sig "aa_dir w"] by (simp add: dir started_segment_def)
  note new = new_segment [OF dir_ok_after_crash [OF ok(1) crash(1)], of ?f ?row, simplified after_crash_names, OF ok(2) _ row_end]
  have whole: "whole_segments (after_crash (sl_dir l'))" "joined_segments (after_crash (sl_dir l')) = joined_segments ?d @ ?row"
    "segment_texts (after_crash (sl_dir l')) = segment_texts ?d @ [?row]"
    using new by (simp_all add: crashed dir_ok_def whole_segments_def)
  have "error_class (scan_segment_chain (after_crash (sl_dir l'))) = Inl ''HashChainError''" if lost: "chain_tail qs \<noteq> chain_tail ps"
  proof -
    have "verified_rows line_label n [?row] (chain_tail qs) = Inl (chain_error (line_label n @ '': previous hash mismatch''))" for n
      using foreign_row_refused [OF p lost] by (simp add: row_not_blank)
    then have "log_payloads (Some (joined_segments ?d @ ?row)) = Inl (chain_error
        (line_label (1 + length (text_lines (joined_segments ?d))) @ '': previous hash mismatch''))"
      using log_payloads_lines [OF crash(2), where u = ?row] crash(1)
      by (simp add: row_lines whole_segments_def joined_segments_def ends_line_concat)
    then have "error_class (scan_hash_chain (Some (joined_segments ?d @ ?row))) = Inl ''HashChainError''"
      by (cases "log_rows (Some (joined_segments ?d @ ?row))") (simp_all add: log_payloads_def scan_hash_chain_rows)
    then show ?thesis using scan_segment_chain_joined [OF whole(1)]
      by (cases "scan_segment_chain (after_crash (sl_dir l'))") (simp_all add: whole(2))
  qed
  then show ?thesis using whole(3) l2 run by auto
qed

theorem rotation_loses_synced_rows_witness:
  "\<exists>l l' h. append_segments [(''b'', JNull)] (creating 2) l = (l', Inr h)
    \<and> segments_hold l' [[(''a'', JNull)], [(''b'', JNull)]]
    \<and> (hash_payload zero_hash [(''a'', JNull)] = zero_hash
        \<or> error_class (scan_segment_chain (after_crash (sl_dir l'))) = Inl ''HashChainError'')"
proof -
  let ?p = "[(''a'', JNull)]" and ?q = "[(''b'', JNull)]"
  have wf: "json_wf (JObj ?p)" "json_wf (JObj ?q)" "0 < (2::int)" by simp_all
  have sorted: "sorted_fields ?p = ?p" "sorted_fields ?q = ?q" by (simp_all add: sorted_fields_def)
  obtain l1 l2 sig where l1: "segments_hold l1 [sorted_fields ?p]" "segment_writes ?q (creating 2) l1" "sl_fsync_every l1 = 2"
      "sl_dir l1 = started_segment (segment_name 0) (fst (encode_row zero_hash ?p)) (1 mod 2 = (0::int)) sig (0, 0, 0, 1)
        \<lparr>sd_entries = [], sd_stat = (0, 0, 0, 0)\<rparr>"
      "creates ?q (fst (ensure_owned_segments Os_idle (Os_idle, Os_idle) l1))"
    and l2: "append_segments ?q (creating 2) l1 = (l2, Inr (hash_payload (hash_payload zero_hash ?p) ?q))"
      "segments_hold l2 [sorted_fields ?p, sorted_fields ?q]"
    by (rule second_append [OF wf], rule that)
  let ?f = "\<lparr>lf_text = Some [], lf_stat = sig, lf_synced = []\<rparr>"
  have crash: "after_crash (sl_dir l1) = \<lparr>sd_entries = [(segment_name 0, ?f)], sd_stat = (0, 0, 0, 1)\<rparr>"
    by (simp add: l1(4) after_crash_def started_segment_def put_file_def)
  have texts: "segment_files (after_crash (sl_dir l1)) = [segment_name 0]" "segment_texts (after_crash (sl_dir l1)) = [[]]"
    by (simp_all add: crash segment_files_def segment_texts_def dir_file_def file_text_def)
  have whole: "whole_segments (after_crash (sl_dir l1))"
    unfolding whole_segments_def texts by (simp add: ends_line_def)
  moreover have "log_payloads (Some (joined_segments (after_crash (sl_dir l1)))) = Inr []"
    by (simp add: joined_segments_def texts log_payloads_def log_rows_def text_lines_def)
  moreover have "creates ?q (fst (ensure_owned_segments (aa_before (creating 2)) (aa_verify (creating 2)) l1))"
    using l1(5) by (simp add: creating_def)
  moreover have "chain_tail [sorted_fields ?p] = hash_payload zero_hash ?p" using chain_tail_snoc [of "[]"] by simp
  ultimately have "hash_payload zero_hash ?p = zero_hash \<or> error_class (scan_segment_chain (after_crash (sl_dir l2))) = Inl ''HashChainError''"
    using rotation_loses_synced_rows [OF l1(1,2) wf(2) _ _ whole _ l2(1), of "[]"] l1(3) by auto
  then show ?thesis using l2 sorted by auto
qed

subsection \<open>Changes behind the writer\<close>

text \<open>
  C40: a change behind the writer stops the append that meets it, and only that one. If the watch or
  the signature of the active segment shows a change, the append writes nothing and raises: the
  error of the verification if the directory no longer verifies, and otherwise a
  \<open>HashChainError\<close> after which the ledger has adopted what it found and will extend it.
\<close>

theorem outside_change_refused_once:
  assumes l: "sw_initialized (sl_state l)" "\<not> sl_read_only l" and ack: "acknowledges (aa_verify w)"
    and seen: "changed_since (aa_before w) (dir_signature l) (sw_directory_signature (sl_state l)) (sl_signal l) = (g, Inr changed)"
      "changed \<or> stat_signature (dir_file (segment_name (sw_active_index (sl_state l))) (sl_dir l)) \<noteq> sw_active_signature (sl_state l)"
    and run: "append_segments p w l = (l', r)"
  shows "sl_dir l' = sl_dir l
    \<and> (case scan_segment_chain (sl_dir l) of
         Inl x \<Rightarrow> r = Inl x \<and> sl_state l' = sl_state l
       | Inr scan \<Rightarrow> r = Inl (chain_error ''segmented ledger changed outside owning writer'')
           \<and> sl_state l' = state_of_scan scan (sl_dir l)
           \<and> (\<forall>ps. dir_ok (sl_dir l) \<and> log_payloads (Some (joined_segments (sl_dir l))) = Inr ps \<longrightarrow> segments_hold l' ps))"
proof (cases "scan_segment_chain (sl_dir l)")
  case (Inl x)
  then have "append_segments p w l = (l\<lparr>sl_signal := g\<rparr>, Inl x)"
    using l seen by (simp add: append_segments_def ensure_owned_segments_def Let_def verify_segments_def)
  then show ?thesis using run Inl by auto
next
  case (Inr scan)
  let ?l = "adopted scan (l\<lparr>sl_signal := g\<rparr>)"
  have "append_segments p w l = (?l, Inl (chain_error ''segmented ledger changed outside owning writer''))"
    using l seen Inr by (simp add: append_segments_def ensure_owned_segments_def Let_def verify_segments_def adopt_segments_fine [OF ack])
  moreover have "segments_hold ?l ps" if d: "dir_ok (sl_dir l)" and ps: "log_payloads (Some (joined_segments (sl_dir l))) = Inr ps" for ps
  proof -
    have whole: "whole_segments (sl_dir l)" using d by (simp add: dir_ok_def)
    obtain scan' where "scan_segment_chain (sl_dir l) = Inr scan'" "state_ok (state_of_scan scan' (sl_dir l)) (sl_dir l) ps"
      by (rule verified_chain [OF whole ps], rule that)
    then have "state_ok (state_of_scan scan (sl_dir l)) (sl_dir l) ps" using Inr by simp
    then show ?thesis using d ps l(2) by (simp add: segments_hold_def adopted_def)
  qed
  ultimately show ?thesis using run Inr by (auto simp: adopted_def)
qed

theorem outside_change_refused_once_witness:
  "\<exists>l l'. cg_pending (sl_signal l) \<and> append_segments [(''a'', JNull)] (creating 1) l =
      (l', Inl (chain_error ''segmented ledger changed outside owning writer'')) \<and> segments_hold l' []"
proof -
  let ?l = "fresh_segments 1 1"
  obtain scan where scan: "verify_segments None (Os_idle, Os_idle) ?l = (adopted scan ?l, Inr (int (length ([] :: fields list)), chain_tail []))"
    and hold: "segments_hold (adopted scan ?l) []" "sw_initialized (sl_state (adopted scan ?l))"
    by (rule verify_segments_holds [OF fresh_segments_hold idle_acknowledges], rule that)
  define l where "l = (adopted scan ?l)\<lparr>sl_signal := \<lparr>cg_mode = Watch_inotify, cg_pending = True\<rparr>\<rparr>"
  have dir: "dir_ok (sl_dir l)" "log_payloads (Some (joined_segments (sl_dir l))) = Inr []" "\<not> sl_read_only l" "sw_initialized (sl_state l)"
    using hold by (simp_all add: segments_hold_def l_def)
  have whole: "whole_segments (sl_dir l)" using dir(1) by (simp add: dir_ok_def)
  obtain r where r: "scan_segment_chain (sl_dir l) = Inr r"
    by (rule verified_chain [OF whole dir(2)], rule that)
  have seen: "changed_since (aa_before (creating 1)) (dir_signature l) (sw_directory_signature (sl_state l)) (sl_signal l) = (sl_signal l, Inr True)"
    by (simp add: changed_since_def l_def)
  have ack: "acknowledges (aa_verify (creating 1))" by (simp add: creating_def)
  obtain l' res where run: "append_segments [(''a'', JNull)] (creating 1) l = (l', res)" by fastforce
  have "res = Inl (chain_error ''segmented ledger changed outside owning writer'') \<and> segments_hold l' []"
    using outside_change_refused_once [OF dir(4,3) ack seen _ run] r dir(1,2) by simp
  then show ?thesis using run by (intro exI [of _ l] exI [of _ l']) (simp add: l_def)
qed

end
