(* ===== verification/Spec2Isabelle.thy ===== *)
theory Spec2Isabelle
  imports Run_Controller Multi_Agent_Journal Graph_Checkpointers Effect_Journals Admission
    Incident_Projection Segmented_Ledger
begin

text \<open>
  A verification library of the research platform (Python), of the parts that decide what an
  experiment may do and what it can later prove it did. Paths are relative to \<open>src/\<close>;
  \<open>np/\<close> stands for \<open>noetrium_platform/\<close>.

  \<^bold>\<open>Parts and how they interact.\<close>
  A run of an experiment is controlled by a run controller that writes its intentions and their
  results to a hash-chained ledger before and after every effect. An effect outside the process
  (a model call, a tool) is written to an effect journal in the same style: intent, result or
  reconciliation, terminal. Work enters the executor through an admission authority that asks a
  scheduling policy which waiter is next. Failures go to a forensic ledger, a file of hash-chained
  lines or a directory of such files, from which a disposable database of recurring incidents is brought up to date. Two orchestrators run agents: the multi-agent
  coordinator delivers messages along a topology and checkpoints to a SQLite journal, and the
  state graph runs named nodes over a shared state and saves snapshots to a checkpointer. All of them sign
  their records with the SHA-256 of a canonical JSON text.

  \<^bold>\<open>Theories and sources.\<close>

  \<^item> \<open>Prelude\<close>: text primitives (\<open>str.strip\<close>, hexadecimal digits), the result type
    \<open>error + 'a\<close> with its binds, generic lemmas on lists and association lists.
  \<^item> \<open>Sha256\<close>: \<open>hashlib.sha256(...).hexdigest()\<close>, on 32-bit words.
  \<^item> \<open>Canonical_Json\<close>: \<open>np/foundation/kernel/kernel/canonical.py\<close> over the standard \<open>json\<close>
    module: \<open>dumps\<close>, the plain and the strict reader, the depth limit, freezing, the digest.
  \<^item> \<open>Run_Contracts\<close>, \<open>Run_Port\<close>, \<open>Run_Ledger\<close>, \<open>Run_Controller\<close>:
    \<open>np/research/experimentation/run/control/\<close> with \<open>api/contracts.py\<close> (records and their
    constructor checks; the ledger port is the locale \<open>run_control_ledger\<close>),
    \<open>providers/directory_ledger.py\<close> (\<open>ledger_read\<close>, \<open>ledger_prepare\<close>, \<open>ledger_commit\<close>; the
    directory is a \<open>ledger_store\<close> of named entries and each write has a \<open>write_outcome\<close>) and
    \<open>runtime/controller.py\<close> (\<open>execute\<close>, with \<open>effectful_run\<close>, \<open>effectful_stop\<close>,
    \<open>effectful_resume\<close>, \<open>reconcile_run\<close>, \<open>inspect_run\<close>, \<open>evidence_run\<close>).
  \<^item> \<open>Python_Effects\<close>: exceptions, calls on ports that act on an environment, checked
    constructors and SQLite tables keyed by a primary key, for the components below.
  \<^item> \<open>Multi_Agent_Contracts\<close>, \<open>Multi_Agent\<close>, \<open>Multi_Agent_Journal\<close>: \<open>contracts.py\<close>,
    \<open>orchestration.py\<close> with \<open>transport.py\<close>, and \<open>journal.py\<close> of \<open>orchestration/multi_agent/\<close>.
  \<^item> \<open>State_Graph\<close>, \<open>Graph_Checkpointers\<close>: \<open>components/reference/graph.py\<close>, the builder and
    compiled graph (\<open>graph_step\<close>, \<open>graph_loop\<close>, \<open>graph_stream\<close>) and the in-memory and the
    SQLite checkpointer; the interface between them is the locale \<open>durable_checkpointer\<close>.
  \<^item> \<open>Effect_Transitions\<close>, \<open>Effect_Codec\<close>, \<open>Effect_Journals\<close>:
    \<open>np/infrastructure/reliability/effect/\<close> with \<open>api/contracts.py\<close>, \<open>api/journal.py\<close>,
    \<open>api/transitions.py\<close> (the records and their transitions), \<open>runtime/generic_codec.py\<close> (rows
    of the table), \<open>runtime/memory.py\<close>, \<open>runtime/persistent.py\<close> and
    \<open>runtime/sqlite_backend.py\<close> (the two journals; their contract is the locale
    \<open>effect_journal_contract\<close>, the codec's is \<open>effect_codec\<close>).
  \<^item> \<open>Scheduling\<close>, \<open>Admission\<close>: \<open>np/research/execution/scheduling/\<close> (the policy port is the
    locale \<open>lawful_policy\<close>) and \<open>np/research/execution/admission/runtime/authority.py\<close>
    (\<open>register_group\<close>, \<open>acquire_begin\<close>, \<open>acquire_turn\<close>, \<open>authority_release\<close>,
    \<open>close_authority\<close>, \<open>authority_snapshot\<close>).
  \<^item> \<open>Json_Lines\<close>: what the JSON reader does with a text that goes on after a document or stops
    inside one, universal newlines and the lines of a text file.
  \<^item> \<open>Forensic_Port\<close>, \<open>Forensic_Ledger\<close>: \<open>np/infrastructure/reliability/forensics/\<close> with
    \<open>api/ledger.py\<close> and the ledger of \<open>api/ports.py\<close> (cuts and slices, the port; its contract is
    the locale \<open>forensic_ledger\<close>), and \<open>providers/hashchain_core.py\<close>, \<open>hashlog_scanner.py\<close>
    (\<open>hash_chain_scan\<close>, \<open>iter_hash_chain_payload_batches\<close>), \<open>hashlog_writer.py\<close>,
    \<open>hashlog_state.py\<close>, \<open>hashlog_lookup.py\<close> and \<open>hashlog.py\<close> (\<open>append_payload\<close>,
    \<open>verify_log\<close>, \<open>verified_cut_after\<close>). A file is its text, its stat signature and the part
    that was synced.
  \<^item> \<open>Segmented_Ledger\<close>: \<open>segment_verifier.py\<close>, \<open>segmented_writer.py\<close>, \<open>segmented_state.py\<close>,
    \<open>segmented_manifest.py\<close>, \<open>segmented_hashlog.py\<close> and \<open>directory_change_signal.py\<close> under
    \<open>forensics/providers/\<close> (\<open>segment_chain_scan\<close>, \<open>append_segments\<close>, \<open>verify_segments\<close>): the same
    contract over a directory of numbered files that rotate by size, with a change signal.
  \<^item> \<open>Incident_Projection\<close>: \<open>failure/api/fingerprint.py\<close> and \<open>incident_db.py\<close>,
    \<open>incident_codec.py\<close>, \<open>incident_projection.py\<close>, \<open>incident_sync.py\<close> under
    \<open>forensics/providers/\<close> of the same package (\<open>fingerprint_failure\<close>, \<open>project\<close>, \<open>get_pattern\<close>,
    \<open>sync_incidents\<close>), a client of the locale \<open>forensic_ledger\<close>.

  A class with fields is a record, an enumeration a datatype, a dict an association list in
  insertion order or a map, an exception a value of an error type, and a port (lifecycle
  provider, journal, node, clock, policy) a function that may change an environment of arbitrary type, so
  that the theorems hold for every implementation of it.

  \<^bold>\<open>What the lemmas show.\<close>

  \<^item> Canonical JSON: the text determines the document up to key order; the strict reader gives
    it back, unless a scalar lies below the depth limit of containers; the reader is total.
  \<^item> Ledger: every reachable directory reads back with its invariant; prepare and commit are
    atomic under every write outcome and refine the abstract run; a changed history changes
    the last digest unless SHA-256 collides; records round-trip.
  \<^item> Controller: an effect is performed at most once and only for the operation the ledger
    holds as prepared; receipts tell what the ledger holds; an unresolved operation blocks
    every further effect until it is reconciled, with the phase its verdict determines.
  \<^item> Multi-agent: a run returns whatever the nodes do, within its message and round limits; a run
    that completes or uses up its rounds leaves on every route no more messages than the first
    edge of the route allows; deliveries are causal and unique; resuming from a checkpoint equals
    running on, without a journal; resuming from the journal is resuming from the checkpoint it
    stored last.
  \<^item> State graph: a stream calls at most \<open>max_steps\<close> nodes and ends once; snapshots form a parent
    chain; resuming equals running on unless snapshots of the run collide under SHA-256; the
    checkpointers agree.
  \<^item> Effects: records carry the evidence of their phase, transitions are idempotent and never
    leave a terminal; rows round-trip and rows that decode are trustworthy; both
    journals refine a map of records; a write counts when its session was committed, and replaces
    one row by compare and swap or none, under every database fault; every open intent can be closed.
  \<^item> Admission: leases never exceed a limit, whatever the policy answers; releases account
    exactly; while some waiter is admissible one is granted; the cache of the selection is
    current; a ticket that has aged is passed over only by groups granted less recently and by
    earlier tickets, for grant numbers such as every reachable authority hands out
    (\<open>reachable_grants\<close>).
  \<^item> Forensic ledger: the file implements an append-only list of payloads; files with the same
    tail hash hold the same rows unless SHA-256 collides; a torn append is refused by its writer
    and located by every scan. The segmented ledger implements the same list: a directory of whole
    segments is one file cut into pieces (\<open>segments_are_one_file\<close>), and segments keep their size.
  \<^item> Incidents: bringing the tables up to date is projecting the whole ledger anew, also when its
    beginning was rewritten; counts are the numbers of distinct failures.

  \<^bold>\<open>Bounds.\<close>
  The JSON reader takes fuel twice the length of its text plus a constant, and \<open>json_reader_total\<close>
  shows that it never runs out. The loops of the multi-agent coordinator and the
  graph are bounded by the limits of the code (\<open>max_rounds\<close>, \<open>max_steps\<close>), which their recursion
  counts down. A waiting thread of the admission authority is a sequence of turns, one for each
  evaluation of its loop body. Text is over the code points below 256, times are exact rationals.

  \<^bold>\<open>What the model shows to be wrong.\<close>

  \<^item> \<open>confirmed_result_overridden\<close>: a confirmed effect reconciled as without effect is accepted as
    not applied (\<open>transitions.py\<close>).
  \<^item> \<open>sqlite_forgets_resaved\<close>: the SQLite checkpointer resumes from the row inserted last, not
    from the snapshot saved last; \<open>sqlite_deep_state_unreadable\<close>: it stores states it cannot
    read back (\<open>graph.py\<close>).
  \<^item> The graph runs only the first of several next nodes, and the coordinator gives one
    delivery two contrary receipts and loses a message that fails validation
    (\<open>orchestration.py\<close>); of two edges on one route the limit of the second is never applied
    (\<open>contracts.py\<close>).
  \<^item> \<open>lost_newline_corrupts\<close>: the forensic writer glues a row to one that lost its line feed, after
    which the ledger never verifies again; \<open>verify_never_synced\<close>: verifying between appends
    defers \<open>fsync\<close> forever; a line with a JSON value that is no dictionary raises
    \<open>AttributeError\<close> instead of \<open>HashChainError\<close> (\<open>check_row\<close>).
  \<^item> \<open>rotation_loses_synced_rows\<close>: the segmented writer syncs the new segment but not the rows of the
    one before it; \<open>outside_change_refused_once\<close>: it refuses a changed directory once and then adopts it.

  \<^bold>\<open>Not modelled.\<close>
  Floats and their text; code points above 255; input of bytes; the recursion limit of the JSON
  reader; the threads, locks and actors
  themselves (an operation under a lock is one step); opening databases and files, their
  pragmas and schemas; run-time type checks where the model has types. Of the rest of the
  repository: the study matrix and the workbench (assembly over the concurrency runtime), the
  revision stores of models and participants, environments, evidence, lifecycle and
  resources (input and output), governance (static analysis of the repository), the
  operator product, scripts and tests.
\<close>

end
